(* ===== verification/Rpc_Prelude.thy ===== *)
theory Rpc_Prelude
  imports Main "HOL-Library.Word" "HOL-Library.AList" "HOL-Library.Multiset"
begin

unbundle bit_operations_syntax

text \<open>
  Shared material of the development: the machine integers of the sources as words, a bounds-checked
  view of raw memory (\<open>memcpy\<close> and pointer reads), the little-endian memory image of an unsigned
  integer, \<open>std::unordered_map\<close> as an association list with distinct keys, and the loop
  \<open>find the first minimum\<close> that two of the components contain. The collections
  \<open>mem_simps\<close>, \<open>le_simps\<close> and \<open>um_simps\<close> carry these facts into the component proofs.
\<close>

named_theorems mem_simps \<open>bounds-checked memory reads and writes\<close>
named_theorems le_simps \<open>little-endian images of machine integers\<close>
named_theorems um_simps \<open>association lists that stand for unordered maps\<close>

section \<open>Machine integers\<close>

type_synonym byte = "8 word"
type_synonym u16 = "16 word"
type_synonym u32 = "32 word"
type_synonym u64 = "64 word"

text \<open>\<open>size_t\<close> on the target (x86-64), used where a wrap-around of the code is observable.\<close>
type_synonym size_t = "64 word"

type_synonym bytes = "byte list"

lemma unat_of_nat_small [simp]:
  "n < 2 ^ LENGTH('a) \<Longrightarrow> unat (of_nat n :: 'a::len word) = n"
  by (simp add: unat_of_nat take_bit_nat_eq_self)

lemma unat_inc: "x \<noteq> - 1 \<Longrightarrow> unat (x + 1) = Suc (unat (x :: 'a::len word))"
  using unatSuc [of x] by (metis add.commute add_eq_0_iff)

lemma word_less_inc: "x \<noteq> - 1 \<Longrightarrow> x < x + (1 :: 'a::len word)"
  by (simp add: word_less_nat_alt unat_inc)

lemma word_not_max: "Suc (unat x) < 2 ^ LENGTH('a) \<Longrightarrow> x \<noteq> (- 1 :: 'a::len word)"
  by (auto simp: unsigned_minus_1_eq_mask mask_eq_exp_minus_1)

lemma unat_add_dec:
  assumes "0 < unat b" "unat a + unat b \<le> 2 ^ LENGTH('a)"
  shows "unat (a + b - 1) = unat a + unat (b :: 'a::len word) - 1"
proof -
  have "b \<noteq> 0" using assms(1) by auto
  then have d: "unat (b - 1) = unat b - 1" by (rule unat_minus_one)
  then have "unat a + unat (b - 1) < 2 ^ LENGTH('a)" using assms by linarith
  then have "unat (a + (b - 1)) = unat a + unat (b - 1)" using unat_add_lem by blast
  then show ?thesis using d assms(1) by (simp add: add_diff_eq)
qed

section \<open>Bounds-checked memory\<close>

text \<open>
  A raw memory region is the list of its cells. \<open>None\<close> is an access that leaves the region, which the
  C++ program answers with undefined behaviour.
\<close>

definition mem_read :: "'a list \<Rightarrow> nat \<Rightarrow> nat \<Rightarrow> 'a list option" where
  "mem_read mem off n = (if off + n \<le> length mem then Some (take n (drop off mem)) else None)"

definition mem_write :: "'a list \<Rightarrow> nat \<Rightarrow> 'a list \<Rightarrow> 'a list option" where
  "mem_write mem off xs =
     (if off + length xs \<le> length mem
      then Some (take off mem @ xs @ drop (off + length xs) mem) else None)"

lemma mem_read_Some_iff [mem_simps]:
  "mem_read mem off n = Some xs \<longleftrightarrow> off + n \<le> length mem \<and> xs = take n (drop off mem)"
  by (auto simp: mem_read_def)

lemma mem_read_None_iff [mem_simps]: "mem_read mem off n = None \<longleftrightarrow> length mem < off + n"
  by (auto simp: mem_read_def)

lemma mem_read_append [mem_simps]:
  "off = length xs \<Longrightarrow> n = length ys \<Longrightarrow> mem_read (xs @ ys @ zs) off n = Some ys"
  by (simp add: mem_read_def)

lemma length_mem_read: "mem_read mem off n = Some xs \<Longrightarrow> length xs = n"
  by (auto simp: mem_read_def split: if_splits)

lemma length_mem_write: "mem_write mem off xs = Some mem' \<Longrightarrow> length mem' = length mem"
  by (auto simp: mem_write_def split: if_splits)

text \<open>Filling a zeroed buffer from left to right: the shape of every serialisation routine.\<close>

lemma mem_write_fill [mem_simps]:
  assumes "off = length done" and "length xs \<le> n"
  shows "mem_write (done @ replicate n z) off xs = Some ((done @ xs) @ replicate (n - length xs) z)"
  using assms by (simp add: mem_write_def)

section \<open>Little-endian images\<close>

definition le_bytes :: "nat \<Rightarrow> 'a::len word \<Rightarrow> bytes" where
  "le_bytes n w = map (\<lambda>i. ucast (drop_bit (8 * i) w)) [0..<n]"

fun le_word :: "bytes \<Rightarrow> 'a::len word" where
  "le_word [] = 0"
| "le_word (b # bs) = ucast b OR push_bit 8 (le_word bs)"

lemma length_le_bytes [simp]: "length (le_bytes n w) = n"
  by (simp add: le_bytes_def)

lemma bit_le_word:
  "bit (le_word bs :: 'a::len word) i \<longleftrightarrow>
     i < LENGTH('a) \<and> i div 8 < length bs \<and> bit (bs ! (i div 8)) (i mod 8)"
proof (induction bs arbitrary: i)
  case Nil
  then show ?case by simp
next
  case (Cons b bs)
  show ?case
  proof (cases "i < 8")
    case True
    then show ?thesis by (auto simp: bit_or_iff bit_push_bit_iff bit_ucast_iff)
  next
    case False
    then have d: "i div 8 = Suc ((i - 8) div 8)" and m: "(i - 8) mod 8 = i mod 8"
      by (simp_all add: le_div_geq le_mod_geq)
    have "\<not> bit b i" using False by (auto dest: bit_imp_le_length)
    then show ?thesis
      using False Cons.IH [of "i - 8"]
      by (auto simp: bit_or_iff bit_push_bit_iff bit_ucast_iff d m)
  qed
qed

lemma le_word_le_bytes [simp, le_simps]:
  "8 * n = LENGTH('a) \<Longrightarrow> le_word (le_bytes n w) = (w :: 'a::len word)"
  by (rule bit_word_eqI)
    (auto simp: bit_le_word le_bytes_def bit_ucast_iff bit_drop_bit_eq less_mult_imp_div_less
      mult.commute)

lemma le_bytes_le_word:
  assumes "length bs = n" and "8 * n = LENGTH('a)"
  shows "le_bytes n (le_word bs :: 'a::len word) = bs"
proof (rule nth_equalityI)
  show "length (le_bytes n (le_word bs :: 'a word)) = length bs" using assms by simp
next
  fix i assume "i < length (le_bytes n (le_word bs :: 'a word))"
  then have i: "i < n" by simp
  show "le_bytes n (le_word bs :: 'a word) ! i = bs ! i"
  proof (rule bit_word_eqI)
    fix j assume "j < LENGTH(8)"
    then have j: "j < 8" by simp
    have "8 * i + j < 8 * n" using i j by linarith
    then show "bit (le_bytes n (le_word bs :: 'a word) ! i) j = bit (bs ! i) j"
      using i j assms by (simp add: le_bytes_def bit_ucast_iff bit_drop_bit_eq bit_le_word)
  qed
qed

lemma le_bytes_Suc: "le_bytes (Suc n) w = le_bytes n w @ [ucast (drop_bit (8 * n) w)]"
  by (simp add: le_bytes_def)

section \<open>Text\<close>

text \<open>The bytes of a string literal, and the decimal digits \<open>std::to_string\<close> prints.\<close>

definition str_bytes :: "string \<Rightarrow> bytes" where
  "str_bytes s = map of_char s"

fun dec_digits :: "nat \<Rightarrow> bytes" where
  "dec_digits n = (if n < 10 then [of_nat (48 + n)] else dec_digits (n div 10) @ [of_nat (48 + n mod 10)])"

declare dec_digits.simps [simp del]

text \<open>The digits of a number determine it, and are digits.\<close>

definition dec_value :: "bytes \<Rightarrow> nat" where
  "dec_value ds = foldl (\<lambda>a b. 10 * a + (unat b - 48)) 0 ds"

lemma unat_digit: "m < 10 \<Longrightarrow> unat (of_nat (48 + m) :: byte) = 48 + m"
  by (rule unat_of_nat_small) simp

lemma dec_value_dec_digits [simp]: "dec_value (dec_digits n) = n"
proof (induction n rule: dec_digits.induct)
  case (1 n)
  show ?case
  proof (cases "n < 10")
    case True
    then show ?thesis by (subst dec_digits.simps) (simp add: dec_value_def unat_digit del: of_nat_add)
  next
    case False
    then have "dec_value (dec_digits n) = 10 * dec_value (dec_digits (n div 10)) + n mod 10"
      by (subst dec_digits.simps) (simp add: dec_value_def unat_digit del: of_nat_add)
    with 1 [OF False] show ?thesis by simp
  qed
qed

lemma dec_digits_inject [simp]: "dec_digits m = dec_digits n \<longleftrightarrow> m = n"
  by (metis dec_value_dec_digits)

lemma dec_digits_digit: "b \<in> set (dec_digits n) \<Longrightarrow> 48 \<le> unat b \<and> unat b < 58"
proof (induction n rule: dec_digits.induct)
  case (1 n)
  from "1.prems" show ?case
    by (subst (asm) dec_digits.simps) (auto simp: unat_digit simp del: of_nat_add split: if_splits dest: "1.IH")
qed

text \<open>A separator that does not occur in the last parts splits a list in one way only.\<close>

lemma append_sep_inject:
  assumes "c \<notin> set ys" "c \<notin> set ys'"
  shows "xs @ c # ys = xs' @ c # ys' \<longleftrightarrow> xs = xs' \<and> ys = ys'"
proof
  assume eq: "xs @ c # ys = xs' @ c # ys'"
  have "takeWhile (\<lambda>b. b \<noteq> c) (rev (zs @ c # ws)) = rev ws" if "c \<notin> set ws" for zs ws
    using that by (induction ws rule: rev_induct) auto
  from this [of ys xs] this [of ys' xs'] eq assms have "ys = ys'" by (metis rev_rev_ident)
  with eq show "xs = xs' \<and> ys = ys'" by simp
qed simp

section \<open>Results of fallible operations\<close>

text \<open>\<open>Inl e\<close> is a failed call; \<open>rbind\<close> runs the next statement only after a successful one.\<close>

fun rbind :: "'e + 'a \<Rightarrow> ('a \<Rightarrow> 'e + 'b) \<Rightarrow> 'e + 'b" where
  "rbind (Inl e) f = Inl e"
| "rbind (Inr x) f = f x"

lemma rbind_assoc: "rbind (rbind m f) g = rbind m (\<lambda>x. rbind (f x) g)"
  by (cases m) simp_all

lemma rbind_Inr_iff: "rbind m f = Inr y \<longleftrightarrow> (\<exists>x. m = Inr x \<and> f x = Inr y)"
  by (cases m) auto

definition or_fail :: "'e \<Rightarrow> 'a option \<Rightarrow> 'e + 'a" where
  "or_fail e m = (case m of None \<Rightarrow> Inl e | Some x \<Rightarrow> Inr x)"

lemma or_fail_simps [simp]: "or_fail e None = Inl e" "or_fail e (Some x) = Inr x"
  by (simp_all add: or_fail_def)

section \<open>Unordered maps\<close>

text \<open>
  \<open>std::unordered_map\<close> iterates in an unspecified order. Its model is an association list with
  distinct keys; the list order stands for the order the container happens to have, and every
  theorem holds for all such lists.
\<close>

type_synonym ('k, 'v) umap = "('k \<times> 'v) list"

abbreviation um_find :: "('k, 'v) umap \<Rightarrow> 'k \<Rightarrow> 'v option" where
  "um_find m k \<equiv> map_of m k"

abbreviation um_put :: "('k, 'v) umap \<Rightarrow> 'k \<Rightarrow> 'v \<Rightarrow> ('k, 'v) umap" where
  "um_put m k v \<equiv> AList.update k v m"

abbreviation um_erase :: "('k, 'v) umap \<Rightarrow> 'k \<Rightarrow> ('k, 'v) umap" where
  "um_erase m k \<equiv> AList.delete k m"

abbreviation um_ok :: "('k, 'v) umap \<Rightarrow> bool" where
  "um_ok m \<equiv> distinct (map fst m)"

lemma um_find_put [simp, um_simps]: "um_find (um_put m k v) k' = (if k' = k then Some v else um_find m k')"
  by (simp add: update_conv')

lemma um_find_erase [simp, um_simps]: "um_find (um_erase m k) k' = (if k' = k then None else um_find m k')"
  by (simp add: delete_conv')

lemma um_ok_put [simp, um_simps]: "um_ok m \<Longrightarrow> um_ok (um_put m k v)"
  by (rule distinct_update)

lemma um_ok_erase [simp, um_simps]: "um_ok m \<Longrightarrow> um_ok (um_erase m k)"
  by (rule distinct_delete)

lemma um_keys: "set (map fst m) = {k. um_find m k \<noteq> None}"
  by (force simp: map_of_eq_None_iff)

section \<open>Scanning for the first minimum\<close>

text \<open>
  The loop \<open>for (...) if (size < min_size) { min_size = size; min_idx = i; }\<close>:
  \<open>i\<close> is the index of the head of the remaining sizes.
\<close>

fun scan_min :: "nat \<Rightarrow> nat \<Rightarrow> nat \<Rightarrow> nat list \<Rightarrow> nat" where
  "scan_min min_idx min_size i [] = min_idx"
| "scan_min min_idx min_size i (s # ss) =
     (if s < min_size then scan_min i s (Suc i) ss else scan_min min_idx min_size (Suc i) ss)"

lemma scan_min_correct:
  assumes "i = length pre" and "m < i" and "pre ! m = ms"
    and "\<And>j. j < i \<Longrightarrow> ms \<le> pre ! j" and "\<And>j. j < m \<Longrightarrow> ms < pre ! j"
  shows "scan_min m ms i ss < length (pre @ ss) \<and>
    (\<forall>j < length (pre @ ss). (pre @ ss) ! scan_min m ms i ss \<le> (pre @ ss) ! j) \<and>
    (\<forall>j < scan_min m ms i ss. (pre @ ss) ! scan_min m ms i ss < (pre @ ss) ! j)"
  using assms
proof (induction m ms i ss arbitrary: pre rule: scan_min.induct)
  case (1 m ms i)
  then show ?case by auto
next
  case (2 m ms i s ss)
  show ?case
  proof (cases "s < ms")
    case True
    have "scan_min i s (Suc i) ss < length ((pre @ [s]) @ ss) \<and>
      (\<forall>j < length ((pre @ [s]) @ ss). ((pre @ [s]) @ ss) ! scan_min i s (Suc i) ss \<le> ((pre @ [s]) @ ss) ! j) \<and>
      (\<forall>j < scan_min i s (Suc i) ss. ((pre @ [s]) @ ss) ! scan_min i s (Suc i) ss < ((pre @ [s]) @ ss) ! j)"
      by (rule "2.IH"(1)) (use True "2.prems" in \<open>auto simp: nth_append less_Suc_eq intro: less_le_trans less_imp_le\<close>)
    with True show ?thesis by simp
  next
    case False
    have "scan_min m ms (Suc i) ss < length ((pre @ [s]) @ ss) \<and>
      (\<forall>j < length ((pre @ [s]) @ ss). ((pre @ [s]) @ ss) ! scan_min m ms (Suc i) ss \<le> ((pre @ [s]) @ ss) ! j) \<and>
      (\<forall>j < scan_min m ms (Suc i) ss. ((pre @ [s]) @ ss) ! scan_min m ms (Suc i) ss < ((pre @ [s]) @ ss) ! j)"
      by (rule "2.IH"(2)) (use False "2.prems" in \<open>auto simp: nth_append less_Suc_eq\<close>)
    with False show ?thesis by simp
  qed
qed

text \<open>Started on the head of a non-empty list, the loop returns the first index of the least size.\<close>

lemma scan_min_first:
  assumes "sizes \<noteq> []"
  shows "scan_min 0 (hd sizes) 1 (tl sizes) < length sizes"
    and "j < length sizes \<Longrightarrow> sizes ! scan_min 0 (hd sizes) 1 (tl sizes) \<le> sizes ! j"
    and "j < scan_min 0 (hd sizes) 1 (tl sizes) \<Longrightarrow> sizes ! scan_min 0 (hd sizes) 1 (tl sizes) < sizes ! j"
  using scan_min_correct [of 1 "[hd sizes]" 0 "hd sizes" "tl sizes"] assms by auto

end
