(* ===== verification/Net_Buffer.thy ===== *)
theory Net_Buffer
  imports Rpc_Prelude
begin

text \<open>
  The buffers of \<open>net/buffer.hpp\<close>: \<open>BufferBlock\<close>, \<open>Buffer\<close> and \<open>BufferChain\<close>.

  A \<open>Buffer\<close> holds a \<open>shared_ptr\<close> to its block, and copying a \<open>Buffer\<close> copies the pointer, so the
  blocks live in an explicit store from addresses to blocks. A cell of a block is a \<open>byte option\<close>:
  \<open>None\<close> is a cell that \<open>new char[capacity]\<close> left uninitialised. Positions and sizes are natural
  numbers: they never exceed the length of an array in memory, which is below \<open>2 ^ 63\<close>, so the
  additions of the code cannot wrap; the differences \<open>write_pos_ - read_pos_\<close> and
  \<open>capacity - write_pos_\<close> are guarded by the invariant \<open>buf_wf\<close>. A call through a null block and an
  access outside a block are error values. Blocks that no buffer refers to any more are never removed
  from the store.
\<close>

named_theorems buf_defs \<open>definitions of the buffer operations\<close>

section \<open>BufferBlock\<close>

record block =
  blk_data :: "byte option list"
  blk_capacity :: nat
  blk_size :: nat
  blk_ref_count :: "32 word"

definition BufferBlock :: "nat \<Rightarrow> block" where
  "BufferBlock cap = \<lparr>blk_data = replicate cap None, blk_capacity = cap, blk_size = 0, blk_ref_count = 1\<rparr>"

definition BufferBlock_add_ref :: "block \<Rightarrow> block" where
  "BufferBlock_add_ref blk = blk\<lparr>blk_ref_count := blk_ref_count blk + 1\<rparr>"

text \<open>\<open>None\<close>: the block has deleted itself.\<close>

definition BufferBlock_release :: "block \<Rightarrow> block option" where
  "BufferBlock_release blk =
     (if blk_ref_count blk = 1 then None
      else Some (blk\<lparr>blk_ref_count := blk_ref_count blk - 1\<rparr>))"

definition BufferBlock_set_size :: "block \<Rightarrow> nat \<Rightarrow> block" where
  "BufferBlock_set_size blk s = blk\<lparr>blk_size := s\<rparr>"

section \<open>Buffer\<close>

record store =
  st_blocks :: "nat \<Rightarrow> block option"
  st_next :: nat

record buffer =
  buf_block :: "nat option"
  buf_read_pos :: nat
  buf_write_pos :: nat

datatype buf_error = NullBlock | OutOfBounds

type_synonym buf_state = "store \<times> buffer"

definition make_block :: "store \<Rightarrow> nat \<Rightarrow> nat \<times> store" where
  "make_block st cap =
     (st_next st, st\<lparr>st_blocks := (st_blocks st)(st_next st \<mapsto> BufferBlock cap), st_next := Suc (st_next st)\<rparr>)"

definition Buffer_default :: buffer where
  "Buffer_default = \<lparr>buf_block = None, buf_read_pos = 0, buf_write_pos = 0\<rparr>"

definition Buffer_capacity_ctor :: "store \<Rightarrow> nat \<Rightarrow> buf_state" where
  "Buffer_capacity_ctor st cap =
     (let (a, st') = make_block st cap
      in (st', \<lparr>buf_block = Some a, buf_read_pos = 0, buf_write_pos = 0\<rparr>))"

text \<open>\<open>block_->\<close>: the block a buffer points to.\<close>

definition deref :: "store \<Rightarrow> buffer \<Rightarrow> buf_error + (nat \<times> block)" where
  "deref st b =
     (case buf_block b of
        None \<Rightarrow> Inl NullBlock
      | Some a \<Rightarrow> (case st_blocks st a of None \<Rightarrow> Inl NullBlock | Some blk \<Rightarrow> Inr (a, blk)))"

definition Buffer_readable :: "buffer \<Rightarrow> nat" where
  "Buffer_readable b = buf_write_pos b - buf_read_pos b"

definition Buffer_capacity :: "buf_state \<Rightarrow> nat" where
  "Buffer_capacity s = (case deref (fst s) (snd s) of Inl _ \<Rightarrow> 0 | Inr (a, blk) \<Rightarrow> blk_capacity blk)"

definition Buffer_writable :: "buf_state \<Rightarrow> nat" where
  "Buffer_writable s =
     (case deref (fst s) (snd s) of Inl _ \<Rightarrow> 0 | Inr (a, blk) \<Rightarrow> blk_capacity blk - buf_write_pos (snd s))"

definition Buffer_empty :: "buffer \<Rightarrow> bool" where
  "Buffer_empty b \<longleftrightarrow> Buffer_readable b = 0"

definition Buffer_reset :: "buffer \<Rightarrow> buffer" where
  "Buffer_reset b = b\<lparr>buf_read_pos := 0, buf_write_pos := 0\<rparr>"

definition Buffer_clear :: "buffer \<Rightarrow> buffer" where
  "Buffer_clear b = b\<lparr>buf_read_pos := 0, buf_write_pos := 0\<rparr>"

definition Buffer_skip :: "buffer \<Rightarrow> nat \<Rightarrow> buffer" where
  "Buffer_skip b n = b\<lparr>buf_read_pos := buf_read_pos b + min n (Buffer_readable b)\<rparr>"

definition Buffer_retreat :: "buffer \<Rightarrow> nat \<Rightarrow> buffer" where
  "Buffer_retreat b n = b\<lparr>buf_read_pos := buf_read_pos b - min n (buf_read_pos b)\<rparr>"

text \<open>\<open>memcpy\<close> and \<open>memmove\<close> into the block at address \<open>a\<close>.\<close>

definition block_store :: "store \<Rightarrow> nat \<Rightarrow> block \<Rightarrow> nat \<Rightarrow> byte option list \<Rightarrow> buf_error + store" where
  "block_store st a blk off xs =
     rbind (or_fail OutOfBounds (mem_write (blk_data blk) off xs))
       (\<lambda>d. Inr (st\<lparr>st_blocks := (st_blocks st)(a \<mapsto> blk\<lparr>blk_data := d\<rparr>)\<rparr>))"

definition block_load :: "block \<Rightarrow> nat \<Rightarrow> nat \<Rightarrow> buf_error + byte option list" where
  "block_load blk off n = or_fail OutOfBounds (mem_read (blk_data blk) off n)"

definition Buffer_compact :: "buf_state \<Rightarrow> buf_error + buf_state" where
  "Buffer_compact s =
     (let (st, b) = s in
      if 0 < buf_read_pos b then
        let sz = Buffer_readable b in
        rbind (deref st b) (\<lambda>(a, blk).
        rbind (block_load blk (buf_read_pos b) sz) (\<lambda>xs.
        rbind (block_store st a blk 0 xs) (\<lambda>st'.
        Inr (st', b\<lparr>buf_read_pos := 0, buf_write_pos := sz\<rparr>))))
      else Inr s)"

text \<open>The last part of \<open>ensure_writable\<close>: a larger block, with the first \<open>write_pos_\<close> cells copied.\<close>

definition Buffer_grow :: "buf_state \<Rightarrow> nat \<Rightarrow> buf_error + buf_state" where
  "Buffer_grow s sz =
     (let (st, b) = s in
      rbind (deref st b) (\<lambda>(a, blk).
        let new_capacity = max (blk_capacity blk * 2) (buf_write_pos b + sz);
            (a', st') = make_block st new_capacity
        in rbind (block_load blk 0 (buf_write_pos b)) (\<lambda>xs.
           rbind (block_store st' a' (BufferBlock new_capacity) 0 xs) (\<lambda>st''.
           Inr (st'', b\<lparr>buf_block := Some a'\<rparr>)))))"

definition Buffer_ensure_writable :: "buf_state \<Rightarrow> nat \<Rightarrow> buf_error + buf_state" where
  "Buffer_ensure_writable s sz =
     (if buf_block (snd s) = None then
        let (a, st') = make_block (fst s) (max sz 4096)
        in Inr (st', (snd s)\<lparr>buf_block := Some a\<rparr>)
      else if sz \<le> Buffer_writable s then Inr s
      else rbind (Buffer_compact s) (\<lambda>s'.
           if sz \<le> Buffer_writable s' then Inr s' else Buffer_grow s' sz))"

definition Buffer_write :: "buf_state \<Rightarrow> bytes \<Rightarrow> buf_error + buf_state" where
  "Buffer_write s xs =
     rbind (Buffer_ensure_writable s (length xs)) (\<lambda>(st, b).
     rbind (deref st b) (\<lambda>(a, blk).
     rbind (block_store st a blk (buf_write_pos b) (map Some xs)) (\<lambda>st'.
     Inr (st', b\<lparr>buf_write_pos := buf_write_pos b + length xs\<rparr>))))"

definition Buffer_data_ctor :: "store \<Rightarrow> bytes \<Rightarrow> buf_error + buf_state" where
  "Buffer_data_ctor st xs = Buffer_write (Buffer_capacity_ctor st (length xs)) xs"

text \<open>\<open>read\<close> returns the cells it copied out; \<open>read<T>\<close> leaves the rest of \<open>value\<close> uninitialised.\<close>

definition Buffer_read :: "buf_state \<Rightarrow> nat \<Rightarrow> buf_error + (byte option list \<times> buf_state)" where
  "Buffer_read s sz =
     (let (st, b) = s; n = min sz (Buffer_readable b) in
      rbind (deref st b) (\<lambda>(a, blk).
      rbind (block_load blk (buf_read_pos b) n) (\<lambda>xs.
      Inr (xs, st, b\<lparr>buf_read_pos := buf_read_pos b + n\<rparr>))))"

definition Buffer_read_T :: "buf_state \<Rightarrow> nat \<Rightarrow> buf_error + (byte option list \<times> buf_state)" where
  "Buffer_read_T s sizeof_T =
     rbind (Buffer_read s sizeof_T) (\<lambda>(xs, s'). Inr (xs @ replicate (sizeof_T - length xs) None, s'))"

definition Buffer_as_string :: "buf_state \<Rightarrow> buf_error + byte option list" where
  "Buffer_as_string s =
     rbind (deref (fst s) (snd s)) (\<lambda>(a, blk).
       block_load blk (buf_read_pos (snd s)) (Buffer_readable (snd s)))"

lemmas [buf_defs] = make_block_def deref_def block_store_def block_load_def BufferBlock_def

section \<open>BufferChain\<close>

text \<open>A chain is a vector of buffers over one store; an \<open>iovec\<close> is a block address, an offset and a length.\<close>

type_synonym chain = "buffer list"

definition BufferChain_append :: "chain \<Rightarrow> buffer \<Rightarrow> chain" where
  "BufferChain_append bs b = bs @ [b]"

definition BufferChain_append_string :: "store \<times> chain \<Rightarrow> bytes \<Rightarrow> buf_error + (store \<times> chain)" where
  "BufferChain_append_string c xs =
     rbind (Buffer_data_ctor (fst c) xs) (\<lambda>(st', b). Inr (st', snd c @ [b]))"

fun BufferChain_total_size :: "chain \<Rightarrow> nat" where
  "BufferChain_total_size [] = 0"
| "BufferChain_total_size (b # bs) = Buffer_readable b + BufferChain_total_size bs"

fun BufferChain_to_string :: "store \<Rightarrow> chain \<Rightarrow> buf_error + byte option list" where
  "BufferChain_to_string st [] = Inr []"
| "BufferChain_to_string st (b # bs) =
     rbind (Buffer_as_string (st, b)) (\<lambda>xs.
     rbind (BufferChain_to_string st bs) (\<lambda>ys. Inr (xs @ ys)))"

fun BufferChain_to_iovec :: "store \<Rightarrow> chain \<Rightarrow> buf_error + (nat \<times> nat \<times> nat) list" where
  "BufferChain_to_iovec st [] = Inr []"
| "BufferChain_to_iovec st (b # bs) =
     (if 0 < Buffer_readable b then
        rbind (deref st b) (\<lambda>(a, blk).
        rbind (BufferChain_to_iovec st bs) (\<lambda>vs. Inr ((a, buf_read_pos b, Buffer_readable b) # vs)))
      else BufferChain_to_iovec st bs)"

definition BufferChain_count :: "chain \<Rightarrow> nat" where
  "BufferChain_count bs = length bs"

section \<open>Well-formed buffers and what they hold\<close>

text \<open>
  The invariant of a buffer: the positions are ordered, they stay inside the block, and every cell below
  \<open>write_pos_\<close> is initialised. \<open>buf_view\<close> is the abstraction, the bytes still to be read.
\<close>

definition buf_wf :: "buf_state \<Rightarrow> bool" where
  "buf_wf s \<longleftrightarrow>
     (let (st, b) = s in
      buf_read_pos b \<le> buf_write_pos b \<and>
      (case buf_block b of
         None \<Rightarrow> buf_write_pos b = 0
       | Some a \<Rightarrow> a < st_next st \<and>
           (case st_blocks st a of
              None \<Rightarrow> False
            | Some blk \<Rightarrow> length (blk_data blk) = blk_capacity blk \<and> buf_write_pos b \<le> blk_capacity blk \<and>
                None \<notin> set (take (buf_write_pos b) (blk_data blk)))))"

definition buf_view :: "buf_state \<Rightarrow> bytes" where
  "buf_view s =
     (case deref (fst s) (snd s) of
        Inl _ \<Rightarrow> []
      | Inr (a, blk) \<Rightarrow>
          map the (take (Buffer_readable (snd s)) (drop (buf_read_pos (snd s)) (blk_data blk))))"

definition buf_ready :: "buf_state \<Rightarrow> bool" where
  "buf_ready s \<longleftrightarrow> buf_wf s \<and> buf_block (snd s) \<noteq> None"

text \<open>\<open>store_ext st st'\<close>: \<open>st'\<close> only adds blocks to \<open>st\<close>, apart from the block at \<open>a\<close>.\<close>

definition store_ext :: "nat option \<Rightarrow> store \<Rightarrow> store \<Rightarrow> bool" where
  "store_ext a st st' \<longleftrightarrow>
     st_next st \<le> st_next st' \<and> (\<forall>a' < st_next st. a \<noteq> Some a' \<longrightarrow> st_blocks st' a' = st_blocks st a')"

lemma store_ext_refl [simp]: "store_ext a st st"
  by (simp add: store_ext_def)

lemma store_ext_trans: "store_ext a st st' \<Longrightarrow> store_ext a st' st'' \<Longrightarrow> store_ext a st st''"
  by (auto simp: store_ext_def)

lemma buf_readyE:
  assumes "buf_ready (st, b)"
  obtains a blk where "buf_block b = Some a" "a < st_next st" "st_blocks st a = Some blk"
    "length (blk_data blk) = blk_capacity blk" "buf_read_pos b \<le> buf_write_pos b"
    "buf_write_pos b \<le> blk_capacity blk" "None \<notin> set (take (buf_write_pos b) (blk_data blk))"
  using assms by (auto simp: buf_ready_def buf_wf_def split: option.splits)

lemma buf_readyI:
  assumes "buf_block b = Some a" "a < st_next st" "st_blocks st a = Some blk"
    "length (blk_data blk) = blk_capacity blk" "buf_read_pos b \<le> buf_write_pos b"
    "buf_write_pos b \<le> blk_capacity blk" "None \<notin> set (take (buf_write_pos b) (blk_data blk))"
  shows "buf_ready (st, b)"
  using assms by (simp add: buf_ready_def buf_wf_def)

lemma buf_view_block:
  "buf_block b = Some a \<Longrightarrow> st_blocks st a = Some blk \<Longrightarrow>
   buf_view (st, b) = map the (take (Buffer_readable b) (drop (buf_read_pos b) (blk_data blk)))"
  by (simp add: buf_view_def deref_def)

lemma take_readable:
  "take (Buffer_readable b) (drop (buf_read_pos b) d) = drop (buf_read_pos b) (take (buf_write_pos b) d)"
  by (simp add: Buffer_readable_def drop_take)

lemma length_buf_view: "buf_wf (st, b) \<Longrightarrow> length (buf_view (st, b)) = Buffer_readable b"
  by (auto simp: buf_wf_def buf_view_def deref_def Buffer_readable_def split: option.splits)

lemma map_Some_the: "None \<notin> set xs \<Longrightarrow> map Some (map the xs) = xs"
  by (induction xs) (auto simp: option.expand)

lemma None_notin_drop_take: "None \<notin> set (take n d) \<Longrightarrow> None \<notin> set (drop m (take n d))"
  by (meson in_set_dropD)

lemmas buf_norm = take_readable drop_take take_drop min_def

section \<open>Every operation keeps the invariant and does what it says\<close>

lemma compact_ok:
  assumes "buf_ready (st, b)"
  shows "\<exists>st' b'. Buffer_compact (st, b) = Inr (st', b') \<and> buf_ready (st', b') \<and>
    buf_view (st', b') = buf_view (st, b) \<and> buf_block b' = buf_block b \<and> st_next st' = st_next st \<and>
    store_ext (buf_block b) st st' \<and> buf_read_pos b' = 0"
proof (cases "buf_read_pos b = 0")
  case True
  then show ?thesis using assms by (simp add: Buffer_compact_def)
next
  case False
  from assms obtain a blk where blk: "buf_block b = Some a" "a < st_next st" "st_blocks st a = Some blk"
    "length (blk_data blk) = blk_capacity blk" "buf_read_pos b \<le> buf_write_pos b"
    "buf_write_pos b \<le> blk_capacity blk" "None \<notin> set (take (buf_write_pos b) (blk_data blk))"
    by (rule buf_readyE)
  let ?xs = "drop (buf_read_pos b) (take (buf_write_pos b) (blk_data blk))"
  let ?d = "?xs @ drop (length ?xs) (blk_data blk)"
  let ?st = "st\<lparr>st_blocks := (st_blocks st)(a \<mapsto> blk\<lparr>blk_data := ?d\<rparr>)\<rparr>"
  let ?b = "b\<lparr>buf_read_pos := 0, buf_write_pos := Buffer_readable b\<rparr>"
  have len: "length ?xs = Buffer_readable b" using blk by (simp add: Buffer_readable_def)
  have run: "Buffer_compact (st, b) = Inr (?st, ?b)"
    using blk False
    by (simp add: Buffer_compact_def deref_def block_load_def block_store_def mem_read_def
        mem_write_def Buffer_readable_def Let_def drop_take)
  have "buf_ready (?st, ?b)"
    using blk None_notin_drop_take [OF blk(7)] len
    by (intro buf_readyI [where a = a and blk = "blk\<lparr>blk_data := ?d\<rparr>"]) (auto simp: Buffer_readable_def)
  moreover have "buf_view (?st, ?b) = buf_view (st, b)"
    using blk by (simp add: buf_view_def deref_def Buffer_readable_def drop_take)
  ultimately show ?thesis
    using run blk(1) by (auto simp: store_ext_def)
qed

lemma grow_ok:
  assumes "buf_ready (st, b)"
  shows "\<exists>st' b'. Buffer_grow (st, b) sz = Inr (st', b') \<and> buf_ready (st', b') \<and>
    buf_view (st', b') = buf_view (st, b) \<and> buf_write_pos b' = buf_write_pos b \<and>
    sz \<le> Buffer_writable (st', b') \<and> store_ext None st st' \<and> buf_block b' = Some (st_next st)"
proof -
  from assms obtain a blk where blk: "buf_block b = Some a" "a < st_next st" "st_blocks st a = Some blk"
    "length (blk_data blk) = blk_capacity blk" "buf_read_pos b \<le> buf_write_pos b"
    "buf_write_pos b \<le> blk_capacity blk" "None \<notin> set (take (buf_write_pos b) (blk_data blk))"
    by (rule buf_readyE)
  define cap where "cap = max (blk_capacity blk * 2) (buf_write_pos b + sz)"
  have cap: "buf_write_pos b + sz \<le> cap" by (simp add: cap_def)
  let ?xs = "take (buf_write_pos b) (blk_data blk)"
  let ?nb = "(BufferBlock cap)\<lparr>blk_data := ?xs @ replicate (cap - buf_write_pos b) None\<rparr>"
  let ?st = "st\<lparr>st_blocks := (st_blocks st)(st_next st \<mapsto> ?nb), st_next := Suc (st_next st)\<rparr>"
  let ?b = "b\<lparr>buf_block := Some (st_next st)\<rparr>"
  have run: "Buffer_grow (st, b) sz = Inr (?st, ?b)"
    using blk cap
    by (simp add: Buffer_grow_def deref_def block_load_def block_store_def mem_read_def mem_write_def
        make_block_def BufferBlock_def Let_def cap_def [symmetric])
  have "buf_ready (?st, ?b)"
    using blk cap by (intro buf_readyI [where a = "st_next st" and blk = ?nb]) (auto simp: BufferBlock_def)
  moreover have "buf_view (?st, ?b) = buf_view (st, b)"
    using blk cap by (simp add: buf_view_def deref_def Buffer_readable_def drop_take)
  moreover have "sz \<le> Buffer_writable (?st, ?b)"
    using cap by (simp add: Buffer_writable_def deref_def BufferBlock_def)
  moreover have "store_ext None st ?st" by (simp add: store_ext_def)
  ultimately show ?thesis using run by auto
qed

lemma ensure_writable_ok:
  assumes "buf_wf (st, b)"
  shows "\<exists>st' b'. Buffer_ensure_writable (st, b) sz = Inr (st', b') \<and> buf_ready (st', b') \<and>
    buf_view (st', b') = buf_view (st, b) \<and> sz \<le> Buffer_writable (st', b') \<and>
    store_ext (buf_block b) st st' \<and> (buf_block b' = buf_block b \<or> buf_block b' = Some (st_next st))"
proof (cases "buf_block b")
  case None
  let ?st = "st\<lparr>st_blocks := (st_blocks st)(st_next st \<mapsto> BufferBlock (max sz 4096)), st_next := Suc (st_next st)\<rparr>"
  let ?b = "b\<lparr>buf_block := Some (st_next st)\<rparr>"
  from assms None have z: "buf_write_pos b = 0" "buf_read_pos b = 0" by (auto simp: buf_wf_def)
  have "Buffer_ensure_writable (st, b) sz = Inr (?st, ?b)"
    using None by (simp add: Buffer_ensure_writable_def make_block_def)
  moreover have "buf_ready (?st, ?b)"
    using z by (intro buf_readyI [where a = "st_next st" and blk = "BufferBlock (max sz 4096)"])
      (simp_all add: BufferBlock_def)
  ultimately show ?thesis
    using None z
    by (simp add: buf_view_def deref_def Buffer_writable_def BufferBlock_def Buffer_readable_def store_ext_def)
next
  case (Some a)
  with assms have rdy: "buf_ready (st, b)" by (simp add: buf_ready_def)
  from compact_ok [OF rdy] obtain st1 b1 where c: "Buffer_compact (st, b) = Inr (st1, b1)"
    "buf_ready (st1, b1)" "buf_view (st1, b1) = buf_view (st, b)" "buf_block b1 = buf_block b"
    "st_next st1 = st_next st" "store_ext (buf_block b) st st1" by blast
  from grow_ok [OF c(2), of sz] obtain st2 b2 where g: "Buffer_grow (st1, b1) sz = Inr (st2, b2)"
    "buf_ready (st2, b2)" "buf_view (st2, b2) = buf_view (st1, b1)"
    "sz \<le> Buffer_writable (st2, b2)" "store_ext None st1 st2" "buf_block b2 = Some (st_next st1)" by blast
  have "store_ext (buf_block b) st st2"
    using c(6) g(5) by (auto simp: store_ext_def)
  then show ?thesis
    using Some c g rdy by (auto simp: Buffer_ensure_writable_def)
qed

lemma write_ok:
  assumes "buf_wf (st, b)"
  shows "\<exists>st' b'. Buffer_write (st, b) xs = Inr (st', b') \<and> buf_ready (st', b') \<and>
    buf_view (st', b') = buf_view (st, b) @ xs \<and>
    store_ext (buf_block b) st st' \<and> (buf_block b' = buf_block b \<or> buf_block b' = Some (st_next st))"
proof -
  from ensure_writable_ok [OF assms, of "length xs"] obtain st1 b1 where
    e: "Buffer_ensure_writable (st, b) (length xs) = Inr (st1, b1)" "buf_ready (st1, b1)"
      "buf_view (st1, b1) = buf_view (st, b)" "length xs \<le> Buffer_writable (st1, b1)"
      "store_ext (buf_block b) st st1" "buf_block b1 = buf_block b \<or> buf_block b1 = Some (st_next st)" by blast
  from e(2) obtain a blk where blk: "buf_block b1 = Some a" "a < st_next st1" "st_blocks st1 a = Some blk"
    "length (blk_data blk) = blk_capacity blk" "buf_read_pos b1 \<le> buf_write_pos b1"
    "buf_write_pos b1 \<le> blk_capacity blk" "None \<notin> set (take (buf_write_pos b1) (blk_data blk))"
    by (rule buf_readyE)
  have room: "buf_write_pos b1 + length xs \<le> blk_capacity blk"
    using e(4) blk by (simp add: Buffer_writable_def deref_def)
  let ?w = "buf_write_pos b1"
  let ?d = "take ?w (blk_data blk) @ map Some xs @ drop (?w + length xs) (blk_data blk)"
  let ?st = "st1\<lparr>st_blocks := (st_blocks st1)(a \<mapsto> blk\<lparr>blk_data := ?d\<rparr>)\<rparr>"
  let ?b = "b1\<lparr>buf_write_pos := ?w + length xs\<rparr>"
  have run: "Buffer_write (st, b) xs = Inr (?st, ?b)"
    using e(1) blk room by (simp add: Buffer_write_def deref_def block_store_def mem_write_def)
  have "buf_ready (?st, ?b)"
    using blk room by (intro buf_readyI [where a = a and blk = "blk\<lparr>blk_data := ?d\<rparr>"]) auto
  moreover have "buf_view (?st, ?b) = buf_view (st1, b1) @ xs"
    using blk room by (simp add: buf_view_block Buffer_readable_def drop_take comp_def)
  moreover have "store_ext (buf_block b) st ?st"
    using e(5,6) blk(1) by (auto simp: store_ext_def)
  ultimately show ?thesis using run e(3,6) by auto
qed

lemma read_ok:
  assumes "buf_ready (st, b)"
  shows "\<exists>b'. Buffer_read (st, b) n = Inr (map Some (take n (buf_view (st, b))), st, b') \<and>
    buf_ready (st, b') \<and> buf_view (st, b') = drop n (buf_view (st, b)) \<and> buf_block b' = buf_block b"
proof -
  from assms obtain a blk where blk: "buf_block b = Some a" "a < st_next st" "st_blocks st a = Some blk"
    "length (blk_data blk) = blk_capacity blk" "buf_read_pos b \<le> buf_write_pos b"
    "buf_write_pos b \<le> blk_capacity blk" "None \<notin> set (take (buf_write_pos b) (blk_data blk))"
    by (rule buf_readyE)
  let ?n = "min n (Buffer_readable b)"
  let ?b = "b\<lparr>buf_read_pos := buf_read_pos b + ?n\<rparr>"
  have v: "map Some (buf_view (st, b)) = take (Buffer_readable b) (drop (buf_read_pos b) (blk_data blk))"
    unfolding buf_view_block [OF blk(1,3)] take_readable
    by (rule map_Some_the [OF None_notin_drop_take [OF blk(7)]])
  have "Buffer_read (st, b) n = Inr (take ?n (drop (buf_read_pos b) (blk_data blk)), st, ?b)"
    using blk by (simp add: Buffer_read_def deref_def block_load_def mem_read_def Buffer_readable_def Let_def)
  moreover have "take ?n (drop (buf_read_pos b) (blk_data blk)) = map Some (take n (buf_view (st, b)))"
    unfolding take_map [symmetric] v by simp
  moreover have "buf_ready (st, ?b)"
    using blk by (intro buf_readyI [where a = a and blk = blk]) (auto simp: Buffer_readable_def)
  moreover have "buf_view (st, ?b) = drop n (buf_view (st, b))"
    using blk
    by (auto simp: buf_view_block drop_map Buffer_readable_def min_def drop_take add.commute)
  ultimately show ?thesis by simp
qed

lemma as_string_ok:
  assumes "buf_ready (st, b)"
  shows "Buffer_as_string (st, b) = Inr (map Some (buf_view (st, b)))"
proof -
  from assms obtain a blk where blk: "buf_block b = Some a" "st_blocks st a = Some blk"
    "length (blk_data blk) = blk_capacity blk" "buf_read_pos b \<le> buf_write_pos b"
    "buf_write_pos b \<le> blk_capacity blk" "None \<notin> set (take (buf_write_pos b) (blk_data blk))"
    by (rule buf_readyE)
  have "map Some (buf_view (st, b)) = take (Buffer_readable b) (drop (buf_read_pos b) (blk_data blk))"
    unfolding buf_view_block [OF blk(1,2)] take_readable
    by (rule map_Some_the [OF None_notin_drop_take [OF blk(6)]])
  then show ?thesis
    using blk by (simp add: Buffer_as_string_def deref_def block_load_def mem_read_def Buffer_readable_def)
qed

lemma skip_ok:
  assumes "buf_wf (st, b)"
  shows "buf_wf (st, Buffer_skip b n) \<and> buf_view (st, Buffer_skip b n) = drop n (buf_view (st, b))"
  using assms
  by (auto simp: buf_wf_def Buffer_skip_def buf_view_def deref_def Buffer_readable_def drop_take
      drop_map min_def add.commute split: option.splits)

lemma reposition_wf:
  assumes "buf_wf (st, b)"
  shows "buf_wf (st, Buffer_retreat b n)" "buf_wf (st, Buffer_reset b)" "buf_wf (st, Buffer_clear b)"
  using assms
  by (auto simp: buf_wf_def Buffer_retreat_def Buffer_reset_def Buffer_clear_def split: option.splits)

lemma ctor_ready: "buf_ready (Buffer_capacity_ctor st cap)" "buf_view (Buffer_capacity_ctor st cap) = []"
  by (simp_all add: Buffer_capacity_ctor_def make_block_def buf_ready_def buf_wf_def BufferBlock_def
      buf_view_def deref_def Buffer_readable_def)

lemma default_wf: "buf_wf (st, Buffer_default)" "buf_view (st, Buffer_default) = []"
  by (simp_all add: Buffer_default_def buf_wf_def buf_view_def deref_def)

text \<open>A buffer over another block does not notice the operation.\<close>

lemma frame_view:
  assumes "store_ext a st st'" and "buf_wf (st, c)" and "buf_block c = None \<or> buf_block c \<noteq> a"
  shows "buf_wf (st', c) \<and> buf_view (st', c) = buf_view (st, c)"
proof (cases "buf_block c")
  case None
  then show ?thesis using assms by (auto simp: buf_wf_def buf_view_def deref_def)
next
  case (Some x)
  then have "x < st_next st" using assms(2) by (auto simp: buf_wf_def)
  then have "st_blocks st' x = st_blocks st x" "x < st_next st'"
    using assms(1,3) Some by (auto simp: store_ext_def)
  then show ?thesis using Some assms(2)
    by (auto simp: buf_wf_def buf_view_def deref_def split: option.splits)
qed

section \<open>The interface: a queue of bytes\<close>

text \<open>
  What a user of a buffer relies on. \<open>puts\<close> and \<open>gets\<close> are whole sequences of calls; inside the
  interface every way of cutting the stream into writes and reads is shown to give the same bytes.
\<close>

fun puts :: "('s \<Rightarrow> bytes \<Rightarrow> 'e + 's) \<Rightarrow> 's \<Rightarrow> bytes list \<Rightarrow> 'e + 's" where
  "puts put s [] = Inr s"
| "puts put s (c # cs) = rbind (put s c) (\<lambda>s'. puts put s' cs)"

fun gets :: "('s \<Rightarrow> nat \<Rightarrow> 'e + ('c list \<times> 's)) \<Rightarrow> 's \<Rightarrow> nat list \<Rightarrow> 'e + ('c list \<times> 's)" where
  "gets get s [] = Inr ([], s)"
| "gets get s (n # ns) =
     rbind (get s n) (\<lambda>(xs, s'). rbind (gets get s' ns) (\<lambda>(ys, s''). Inr (xs @ ys, s'')))"

locale byte_fifo =
  fixes put :: "'s \<Rightarrow> bytes \<Rightarrow> 'e + 's"
    and get :: "'s \<Rightarrow> nat \<Rightarrow> 'e + (byte option list \<times> 's)"
    and view :: "'s \<Rightarrow> bytes"
    and inv :: "'s \<Rightarrow> bool"
  assumes put_law: "inv s \<Longrightarrow> \<exists>s'. put s xs = Inr s' \<and> inv s' \<and> view s' = view s @ xs"
    and get_law: "inv s \<Longrightarrow> \<exists>s'. get s n = Inr (map Some (take n (view s)), s') \<and> inv s' \<and> view s' = drop n (view s)"
begin

lemma puts_view: "inv s \<Longrightarrow> \<exists>s'. puts put s cs = Inr s' \<and> inv s' \<and> view s' = view s @ concat cs"
proof (induction cs arbitrary: s)
  case Nil
  then show ?case by simp
next
  case (Cons c cs)
  from put_law [OF Cons.prems] obtain s1 where
    s1: "put s c = Inr s1" "inv s1" "view s1 = view s @ c" by blast
  from Cons.IH [OF s1(2)] s1 show ?case by auto
qed

lemma gets_view:
  "inv s \<Longrightarrow> \<exists>s'. gets get s ns = Inr (map Some (take (sum_list ns) (view s)), s') \<and> inv s' \<and>
     view s' = drop (sum_list ns) (view s)"
proof (induction ns arbitrary: s)
  case Nil
  then show ?case by simp
next
  case (Cons n ns)
  from get_law [OF Cons.prems, of n] obtain s1 where
    s1: "get s n = Inr (map Some (take n (view s)), s1)" "inv s1" "view s1 = drop n (view s)" by blast
  from Cons.IH [OF s1(2)] s1 show ?case by (auto simp: take_add add.commute)
qed

lemma stream:
  assumes "inv s"
  shows "\<exists>s1 s2. puts put s cs = Inr s1 \<and>
    gets get s1 ns = Inr (map Some (take (sum_list ns) (view s @ concat cs)), s2) \<and>
    inv s2 \<and> view s2 = drop (sum_list ns) (view s @ concat cs)"
  using puts_view [OF assms, of cs] gets_view by metis

end

interpretation buf: byte_fifo Buffer_write Buffer_read buf_view buf_ready
proof unfold_locales
  fix s :: buf_state and xs
  assume "buf_ready s"
  then show "\<exists>s'. Buffer_write s xs = Inr s' \<and> buf_ready s' \<and> buf_view s' = buf_view s @ xs"
    using write_ok [of "fst s" "snd s" xs] by (auto simp: buf_ready_def)
next
  fix s :: buf_state and n
  assume "buf_ready s"
  then show "\<exists>s'. Buffer_read s n = Inr (map Some (take n (buf_view s)), s') \<and> buf_ready s' \<and>
    buf_view s' = drop n (buf_view s)"
    using read_ok [of "fst s" "snd s" n] by auto
qed

section \<open>Sharing: buffers that point to the same block\<close>

text \<open>With \<open>read_pos_ = 0\<close> a write never touches a cell below \<open>write_pos_\<close> of the shared block.\<close>

lemma write_keeps_prefix:
  assumes "buf_ready (st, b)" "buf_read_pos b = 0" "buf_block b = Some a" "st_blocks st a = Some blk"
    and "Buffer_write (st, b) xs = Inr (st', b')"
  shows "\<exists>blk'. st_blocks st' a = Some blk' \<and>
    take (buf_write_pos b) (blk_data blk') = take (buf_write_pos b) (blk_data blk)"
proof -
  have len: "buf_write_pos b \<le> length (blk_data blk)" "a < st_next st"
    using assms by (auto elim!: buf_readyE)
  have c: "Buffer_compact (st, b) = Inr (st, b)" using assms(2) by (simp add: Buffer_compact_def)
  show ?thesis
  proof (cases "length xs \<le> Buffer_writable (st, b)")
    case True
    then show ?thesis
      using assms len
      by (auto simp: Buffer_write_def Buffer_ensure_writable_def deref_def block_store_def mem_write_def
          rbind_Inr_iff split: if_splits)
  next
    case False
    with assms c have e: "Buffer_ensure_writable (st, b) (length xs) = Buffer_grow (st, b) (length xs)"
      by (simp add: Buffer_ensure_writable_def)
    from grow_ok [OF assms(1), of "length xs"] obtain st1 b1 where
      g: "Buffer_grow (st, b) (length xs) = Inr (st1, b1)" "store_ext None st st1"
        "buf_block b1 = Some (st_next st)" by blast
    have "st_blocks st' a = st_blocks st1 a"
      using assms(5) e g len
      by (auto simp: Buffer_write_def deref_def block_store_def rbind_Inr_iff split: option.splits)
    also have "\<dots> = st_blocks st a" using g(2) len by (simp add: store_ext_def)
    finally show ?thesis using assms(4) by simp
  qed
qed

definition iovec_bytes :: "store \<Rightarrow> nat \<times> nat \<times> nat \<Rightarrow> byte option list" where
  "iovec_bytes st v =
     (case v of (a, off, n) \<Rightarrow>
        (case st_blocks st a of None \<Rightarrow> [] | Some blk \<Rightarrow> take n (drop off (blk_data blk))))"

section \<open>Properties\<close>

text \<open>
  Writing to any well-formed buffer succeeds, whether the bytes fit, the buffer has to be compacted,
  a larger block has to be allocated or there is no block yet; the new bytes come after the bytes that
  were still unread, and the result is well-formed, so no access leaves a block and no uninitialised
  cell lies below \<open>write_pos_\<close>.
\<close>

theorem Buffer_write_appends:
  "buf_wf s \<Longrightarrow> \<exists>s'. Buffer_write s xs = Inr s' \<and> buf_wf s' \<and> buf_view s' = buf_view s @ xs"
  using write_ok [of "fst s" "snd s" xs] by (auto simp: buf_ready_def)

definition empty_store :: store where
  "empty_store = \<lparr>st_blocks = Map.empty, st_next = 0\<rparr>"

theorem Buffer_write_appends_witness:
  "\<exists>s'. Buffer_write (empty_store, Buffer_default) [82, 80] = Inr s' \<and> buf_wf s' \<and> buf_view s' = [82, 80]"
  using Buffer_write_appends [OF default_wf(1) [of empty_store], of "[82, 80]"] by (simp add: default_wf)

text \<open>
  C9. A buffer is a first-in first-out stream of bytes: after any sequence of writes, any sequence of
  reads returns exactly the next bytes of the stream, in order and all initialised, however the stream
  is cut into chunks, and the unread rest stays in the buffer.
\<close>

theorem Buffer_stream_fifo:
  "buf_ready s \<Longrightarrow> \<exists>s1 s2. puts Buffer_write s cs = Inr s1 \<and>
     gets Buffer_read s1 ns = Inr (map Some (take (sum_list ns) (buf_view s @ concat cs)), s2) \<and>
     buf_ready s2 \<and> buf_view s2 = drop (sum_list ns) (buf_view s @ concat cs)"
  by (rule buf.stream)

theorem Buffer_stream_fifo_witness:
  "\<exists>s1 s2. puts Buffer_write (Buffer_capacity_ctor empty_store 4) [[1, 2, 3], [4, 5]] = Inr s1 \<and>
     gets Buffer_read s1 [1, 3] = Inr (map Some [1, 2, 3, 4], s2) \<and> buf_ready s2 \<and> buf_view s2 = [5]"
  using Buffer_stream_fifo [OF ctor_ready(1) [of empty_store 4], of "[[1, 2, 3], [4, 5]]" "[1, 3]"]
  by (simp add: ctor_ready)


lemma data_ctor_run:
  "Buffer_data_ctor st xs =
     Inr (st\<lparr>st_blocks := (st_blocks st)(st_next st \<mapsto> (BufferBlock (length xs))\<lparr>blk_data := map Some xs\<rparr>),
             st_next := Suc (st_next st)\<rparr>,
          \<lparr>buf_block = Some (st_next st), buf_read_pos = 0, buf_write_pos = length xs\<rparr>)"
  by (simp add: Buffer_data_ctor_def Buffer_write_def Buffer_capacity_ctor_def make_block_def
      Buffer_ensure_writable_def Buffer_writable_def deref_def block_store_def mem_write_def BufferBlock_def)

lemma data_ctor_ok:
  "\<exists>st' b. Buffer_data_ctor st xs = Inr (st', b) \<and> buf_ready (st', b) \<and> buf_view (st', b) = xs \<and>
     store_ext None st st' \<and> buf_read_pos b = 0"
  unfolding data_ctor_run
  by (auto simp: buf_ready_def buf_wf_def buf_view_def deref_def Buffer_readable_def BufferBlock_def
      store_ext_def comp_def)


text \<open>
  Once bytes have been consumed the sharing is visible: a write that compacts moves the unread bytes
  inside the block it shares with a copy, and the copy then shows other bytes than before, although
  both buffers were well-formed and nothing was done to the copy.
\<close>

theorem Buffer_compaction_disturbs_copy:
  "\<exists>st b c st' b'. Buffer_data_ctor empty_store [1, 2, 3, 4] = Inr (st, b) \<and>
     Buffer_read (st, b) 2 = Inr ([Some 1, Some 2], st, c) \<and>
     Buffer_write (st, c) [9] = Inr (st', b') \<and>
     buf_view (st, c) = [3, 4] \<and> buf_view (st', b') = [3, 4, 9] \<and> buf_view (st', c) = [9, 4]"
  by (simp add: data_ctor_run Buffer_read_def Buffer_write_def Buffer_ensure_writable_def Buffer_writable_def
      Buffer_readable_def Buffer_compact_def deref_def block_load_def block_store_def mem_read_def
      mem_write_def BufferBlock_def buf_view_def Let_def)

text \<open>
  Reading from a default-constructed buffer calls through the null block pointer, even a read of
  nothing, and so does \<open>as_string\<close>; after the first write the same calls succeed.
\<close>

theorem Buffer_default_null_deref:
  "Buffer_read (st, Buffer_default) n = Inl NullBlock \<and> Buffer_as_string (st, Buffer_default) = Inl NullBlock \<and>
   (\<exists>s s'. Buffer_write (st, Buffer_default) xs = Inr s \<and> Buffer_as_string s = Inr (map Some xs) \<and>
      Buffer_read s (length xs) = Inr (map Some xs, s'))"
proof -
  obtain st' b' where w: "Buffer_write (st, Buffer_default) xs = Inr (st', b')" "buf_ready (st', b')"
    "buf_view (st', b') = xs"
    using write_ok [OF default_wf(1) [of st], of xs] default_wf(2) by auto
  have "Buffer_as_string (st', b') = Inr (map Some xs)" using as_string_ok [OF w(2)] w(3) by simp
  moreover obtain s' where "Buffer_read (st', b') (length xs) = Inr (map Some xs, s')"
    using read_ok [OF w(2), of "length xs"] w(3) by auto
  moreover have "Buffer_read (st, Buffer_default) n = Inl NullBlock"
    "Buffer_as_string (st, Buffer_default) = Inl NullBlock"
    by (simp_all add: Buffer_read_def Buffer_as_string_def Buffer_default_def deref_def Let_def)
  ultimately show ?thesis using w(1) by blast
qed

lemma chain_total: "list_all (\<lambda>b. buf_wf (st, b)) bs \<Longrightarrow>
  BufferChain_total_size bs = length (concat (map (\<lambda>b. buf_view (st, b)) bs))"
  by (induction bs) (auto simp: length_buf_view)

lemma iovec_view:
  assumes "buf_wf (st, b)" and "0 < Buffer_readable b"
  shows "\<exists>a blk. deref st b = Inr (a, blk) \<and>
    iovec_bytes st (a, buf_read_pos b, Buffer_readable b) = map Some (buf_view (st, b))"
proof -
  have "buf_ready (st, b)"
    using assms by (auto simp: buf_ready_def buf_wf_def Buffer_readable_def split: option.splits)
  then obtain a blk where blk: "buf_block b = Some a" "st_blocks st a = Some blk"
    "None \<notin> set (take (buf_write_pos b) (blk_data blk))"
    by (rule buf_readyE)
  then show ?thesis
    using map_Some_the [OF None_notin_drop_take [OF blk(3), of "buf_read_pos b"]]
    by (simp add: deref_def iovec_bytes_def buf_view_block take_readable del: map_map)
qed

text \<open>
  The scatter/gather vector of a chain of well-formed buffers has one entry per non-empty buffer and
  covers exactly the unread bytes of the chain, in order; \<open>total_size\<close> is their number.
\<close>

theorem BufferChain_iovec_gathers:
  "list_all (\<lambda>b. buf_wf (st, b)) bs \<Longrightarrow>
   \<exists>vs. BufferChain_to_iovec st bs = Inr vs \<and>
     concat (map (iovec_bytes st) vs) = map Some (concat (map (\<lambda>b. buf_view (st, b)) bs)) \<and>
     list_all (\<lambda>(a, off, n). 0 < n) vs \<and>
     BufferChain_total_size bs = sum_list (map (\<lambda>(a, off, n). n) vs)"
proof (induction bs)
  case Nil
  then show ?case by simp
next
  case (Cons b bs)
  then obtain vs where vs: "BufferChain_to_iovec st bs = Inr vs"
    "concat (map (iovec_bytes st) vs) = map Some (concat (map (\<lambda>b. buf_view (st, b)) bs))"
    "list_all (\<lambda>(a, off, n). 0 < n) vs" "BufferChain_total_size bs = sum_list (map (\<lambda>(a, off, n). n) vs)"
    by auto
  show ?case
  proof (cases "0 < Buffer_readable b")
    case True
    then show ?thesis using vs iovec_view [of st b] Cons.prems by auto
  next
    case False
    then have "buf_view (st, b) = []" using length_buf_view [of st b] Cons.prems by simp
    then show ?thesis using False vs by auto
  qed
qed

theorem BufferChain_iovec_gathers_witness:
  "\<exists>st b vs. Buffer_data_ctor empty_store [7, 8] = Inr (st, b) \<and>
     BufferChain_to_iovec st [b, Buffer_default, b] = Inr vs \<and>
     concat (map (iovec_bytes st) vs) = [Some 7, Some 8, Some 7, Some 8]"
proof -
  obtain st b where c: "Buffer_data_ctor empty_store [7, 8] = Inr (st, b)" "buf_ready (st, b)"
    "buf_view (st, b) = [7, 8]"
    using data_ctor_ok [of empty_store "[7, 8]"] by blast
  then have "list_all (\<lambda>b. buf_wf (st, b)) [b, Buffer_default, b]"
    by (simp add: buf_ready_def default_wf)
  from BufferChain_iovec_gathers [OF this] obtain vs where
    "BufferChain_to_iovec st [b, Buffer_default, b] = Inr vs"
    "concat (map (iovec_bytes st) vs) = map Some (concat (map (\<lambda>b. buf_view (st, b)) [b, Buffer_default, b]))"
    by blast
  then show ?thesis
    using c(1,3) by (intro exI [of _ st] exI [of _ b] exI [of _ vs])
      (simp add: default_wf del: BufferChain_to_iovec.simps)
qed

lemma to_string_ok:
  "list_all (\<lambda>b. buf_ready (st, b)) bs \<Longrightarrow>
   BufferChain_to_string st bs = Inr (map Some (concat (map (\<lambda>b. buf_view (st, b)) bs)))"
  by (induction bs) (auto simp: as_string_ok)

end
