(* ===== verification/Rpc_Serializer.thy ===== *)
theory Rpc_Serializer
  imports Rpc_Prelude
begin

unbundle bit_operations_syntax

text \<open>
  The binary serializer of \<open>rpc/serializer.hpp\<close>.

  An integer of the source is a word of its width, for the signed and the unsigned type alike; the
  integral promotions of the code are written out (\<open>scast\<close> to a 32-bit \<open>int\<close> before a mask or a shift,
  \<open>signed_drop_bit\<close> for the arithmetic right shift). A \<open>float\<close> or \<open>double\<close> is its bit pattern, which is
  all that \<open>memcpy\<close> moves. A \<open>std::string\<close> is its list of bytes, a \<open>std::map\<close> the list of its pairs in
  key order. The pair of a pointer and a size that a decoder takes is the list of the bytes it may
  read. A decoder returns its \<open>DecodeResult\<close> and the value of its out-parameter, \<open>None\<close> where the call
  has left no determinate value there. \<open>std::vector::reserve\<close> does not change a value and is left out.
\<close>

section \<open>Encoding\<close>

definition encode_bool :: "bytes \<Rightarrow> bool \<Rightarrow> bytes" where
  "encode_bool buffer value = buffer @ [if value then 1 else 0]"

definition encode_i8 :: "bytes \<Rightarrow> 8 word \<Rightarrow> bytes" where
  "encode_i8 buffer value = buffer @ [value]"

definition encode_u8 :: "bytes \<Rightarrow> 8 word \<Rightarrow> bytes" where
  "encode_u8 buffer value = buffer @ [value]"

definition encode_i16 :: "bytes \<Rightarrow> 16 word \<Rightarrow> bytes" where
  "encode_i16 buffer value =
     (let v = (scast value :: 32 word)
      in (buffer @ [ucast (v AND 0xFF)]) @ [ucast (signed_drop_bit 8 v AND 0xFF)])"

definition encode_u16 :: "bytes \<Rightarrow> 16 word \<Rightarrow> bytes" where
  "encode_u16 buffer value = encode_i16 buffer value"

definition encode_i32 :: "bytes \<Rightarrow> 32 word \<Rightarrow> bytes" where
  "encode_i32 buffer value =
     (((buffer @ [ucast (value AND 0xFF)])
        @ [ucast (signed_drop_bit 8 value AND 0xFF)])
        @ [ucast (signed_drop_bit 16 value AND 0xFF)])
        @ [ucast (signed_drop_bit 24 value AND 0xFF)]"

definition encode_u32 :: "bytes \<Rightarrow> 32 word \<Rightarrow> bytes" where
  "encode_u32 buffer value = encode_i32 buffer value"

definition encode_i64 :: "bytes \<Rightarrow> 64 word \<Rightarrow> bytes" where
  "encode_i64 buffer value =
     foldl (\<lambda>buf i. buf @ [ucast (signed_drop_bit (i * 8) value AND 0xFF)]) buffer [0..<8]"

definition encode_u64 :: "bytes \<Rightarrow> 64 word \<Rightarrow> bytes" where
  "encode_u64 buffer value = encode_i64 buffer value"

definition encode_float :: "bytes \<Rightarrow> 32 word \<Rightarrow> bytes" where
  "encode_float buffer bits = encode_u32 buffer bits"

definition encode_double :: "bytes \<Rightarrow> 64 word \<Rightarrow> bytes" where
  "encode_double buffer bits = encode_u64 buffer bits"

definition encode_string :: "bytes \<Rightarrow> bytes \<Rightarrow> bytes" where
  "encode_string buffer value = encode_u32 buffer (of_nat (length value)) @ value"

definition encode_vector :: "(bytes \<Rightarrow> 'a \<Rightarrow> bytes) \<Rightarrow> bytes \<Rightarrow> 'a list \<Rightarrow> bytes" where
  "encode_vector encode buffer value = foldl encode (encode_u32 buffer (of_nat (length value))) value"

definition encode_map ::
  "(bytes \<Rightarrow> 'k \<Rightarrow> bytes) \<Rightarrow> (bytes \<Rightarrow> 'v \<Rightarrow> bytes) \<Rightarrow> bytes \<Rightarrow> ('k \<times> 'v) list \<Rightarrow> bytes" where
  "encode_map encode_k encode_v buffer value =
     foldl (\<lambda>buf (k, v). encode_v (encode_k buf k) v) (encode_u32 buffer (of_nat (length value))) value"

section \<open>Decoding\<close>

record DecodeResult =
  bytes_read :: nat
  success :: bool

type_synonym 'a decoder = "bytes \<Rightarrow> DecodeResult \<times> 'a option"

definition decode_fail :: DecodeResult where
  "decode_fail = \<lparr>bytes_read = 0, success = False\<rparr>"

definition decode_ok :: "nat \<Rightarrow> DecodeResult" where
  "decode_ok n = \<lparr>bytes_read = n, success = True\<rparr>"

definition decode_bool :: "bool decoder" where
  "decode_bool data = (if length data < 1 then (decode_fail, None) else (decode_ok 1, Some (data ! 0 \<noteq> 0)))"

definition decode_i8 :: "8 word decoder" where
  "decode_i8 data = (if length data < 1 then (decode_fail, None) else (decode_ok 1, Some (data ! 0)))"

definition decode_u8 :: "8 word decoder" where
  "decode_u8 data = (if length data < 1 then (decode_fail, None) else (decode_ok 1, Some (data ! 0)))"

definition decode_i16 :: "16 word decoder" where
  "decode_i16 data =
     (if length data < 2 then (decode_fail, None)
      else (decode_ok 2,
        Some (ucast ((ucast (data ! 0) :: 32 word) OR push_bit 8 (ucast (data ! 1) :: 32 word)))))"

definition decode_u16 :: "16 word decoder" where
  "decode_u16 data = (let (ret, v) = decode_i16 data in (ret, v))"

definition decode_i32 :: "32 word decoder" where
  "decode_i32 data =
     (if length data < 4 then (decode_fail, None)
      else (decode_ok 4,
        Some (ucast (data ! 0) OR push_bit 8 (ucast (data ! 1)) OR push_bit 16 (ucast (data ! 2))
          OR push_bit 24 (ucast (data ! 3)))))"

definition decode_u32 :: "32 word decoder" where
  "decode_u32 data = (let (ret, v) = decode_i32 data in (ret, v))"

definition decode_i64 :: "64 word decoder" where
  "decode_i64 data =
     (if length data < 8 then (decode_fail, None)
      else (decode_ok 8, Some (foldl (\<lambda>value i. value OR push_bit (i * 8) (ucast (data ! i))) 0 [0..<8])))"

definition decode_u64 :: "64 word decoder" where
  "decode_u64 data = (let (ret, v) = decode_i64 data in (ret, v))"

definition decode_float :: "32 word decoder" where
  "decode_float data = (let (ret, bits) = decode_u32 data in (ret, bits))"

definition decode_double :: "64 word decoder" where
  "decode_double data = (let (ret, bits) = decode_u64 data in (ret, bits))"

definition decode_string :: "bytes decoder" where
  "decode_string data =
     (let (ret, len) = decode_u32 data in
      if \<not> success ret \<or> length data < bytes_read ret + unat (the len) then (decode_fail, None)
      else (decode_ok (bytes_read ret + unat (the len)),
            Some (take (unat (the len)) (drop (bytes_read ret) data))))"

text \<open>
  The loop over the elements: \<open>k\<close> elements are still to come, \<open>value\<close> holds those decoded so far. A
  decoder that succeeds has assigned its out-parameter (the law \<open>dec_bound\<close> below).
\<close>

fun decode_items :: "'a decoder \<Rightarrow> nat \<Rightarrow> bytes \<Rightarrow> nat \<Rightarrow> 'a list \<Rightarrow> DecodeResult \<times> 'a list option" where
  "decode_items decode 0 data offset value = (decode_ok offset, Some value)"
| "decode_items decode (Suc k) data offset value =
     (let (r, item) = decode (drop offset data) in
      if \<not> success r then (decode_fail, Some value)
      else decode_items decode k data (offset + bytes_read r) (value @ [the item]))"

definition decode_vector :: "'a decoder \<Rightarrow> 'a list decoder" where
  "decode_vector decode data =
     (let (ret, len) = decode_u32 data in
      if \<not> success ret then (decode_fail, None)
      else decode_items decode (unat (the len)) data (bytes_read ret) [])"

section \<open>The free functions\<close>

definition serialize :: "(bytes \<Rightarrow> 'a \<Rightarrow> bytes) \<Rightarrow> 'a \<Rightarrow> bytes" where
  "serialize encode value = encode [] value"

definition deserialize :: "'a decoder \<Rightarrow> bytes \<Rightarrow> bool \<times> 'a option" where
  "deserialize decode data = (let (ret, value) = decode data in (success ret, value))"

section \<open>Integers are little-endian\<close>

lemma decode_result_simps [simp]:
  "success decode_fail = False" "bytes_read decode_fail = 0"
  "success (decode_ok n) = True" "bytes_read (decode_ok n) = n"
  "decode_ok n \<noteq> decode_fail" "decode_ok n = decode_ok m \<longleftrightarrow> n = m"
  by (simp_all add: decode_fail_def decode_ok_def)

lemma ucast_and_FF: "(ucast ((w :: 'a::len word) AND 0xFF) :: 8 word) = ucast w"
proof -
  have m: "(0xFF :: 'a word) = mask 8" by (simp add: mask_eq_exp_minus_1)
  have "w AND 0xFF = take_bit 8 w" unfolding m by (simp only: take_bit_eq_mask)
  then show ?thesis
    by (intro bit_word_eqI) (auto simp: bit_ucast_iff bit_take_bit_iff)
qed

lemma ucast_signed_drop_bit:
  "n + 8 \<le> LENGTH('a) \<Longrightarrow> (ucast (signed_drop_bit n (w :: 'a::len word)) :: 8 word) = ucast (drop_bit n w)"
  by (rule bit_word_eqI) (auto simp: bit_ucast_iff bit_signed_drop_bit_iff bit_drop_bit_eq)

lemma ucast_scast_drop_bit:
  "n + 8 \<le> 16 \<Longrightarrow> (ucast (drop_bit n (scast (w :: 16 word) :: 32 word)) :: 8 word) = ucast (drop_bit n w)"
  by (rule bit_word_eqI) (auto simp: bit_ucast_iff bit_drop_bit_eq bit_signed_iff)

lemma ucast_scast_byte: "(ucast (scast (w :: 16 word) :: 32 word) :: 8 word) = ucast w"
  using ucast_scast_drop_bit [of 0 w] by simp

lemma upt_small:
  "[0..<2] = [0, 1]" "[0..<4] = [0, 1, 2, 3]" "[0..<8] = [0, 1, 2, 3, 4, 5, 6, 7]"
  by (simp_all add: upt_rec)

lemma encode_ints_le:
  "encode_i16 buffer w16 = buffer @ le_bytes 2 w16"
  "encode_i32 buffer w32 = buffer @ le_bytes 4 w32"
  "encode_i64 buffer w64 = buffer @ le_bytes 8 w64"
  by (simp_all add: encode_i16_def encode_i32_def encode_i64_def le_bytes_def upt_small Let_def
      ucast_and_FF ucast_signed_drop_bit ucast_scast_drop_bit ucast_scast_byte)

lemma encode_unsigned_le [simp, le_simps]:
  "encode_u16 buffer w16 = buffer @ le_bytes 2 w16"
  "encode_u32 buffer w32 = buffer @ le_bytes 4 w32"
  "encode_u64 buffer w64 = buffer @ le_bytes 8 w64"
  by (simp_all add: encode_u16_def encode_u32_def encode_u64_def encode_ints_le)

lemma take_expand:
  "2 \<le> length d \<Longrightarrow> take 2 d = [d ! 0, d ! 1]"
  "4 \<le> length d \<Longrightarrow> take 4 d = [d ! 0, d ! 1, d ! 2, d ! 3]"
  "8 \<le> length d \<Longrightarrow> take 8 d = [d ! 0, d ! 1, d ! 2, d ! 3, d ! 4, d ! 5, d ! 6, d ! 7]"
  by (auto intro!: nth_equalityI simp: nth_Cons' less_Suc_eq numeral_eq_Suc)

lemma decode_i16_le:
  "decode_i16 d = (if length d < 2 then (decode_fail, None) else (decode_ok 2, Some (le_word (take 2 d))))"
proof (cases "length d < 2")
  case True
  then show ?thesis by (simp add: decode_i16_def)
next
  case False
  have "(ucast ((ucast (d ! 0) :: 32 word) OR push_bit 8 (ucast (d ! 1) :: 32 word)) :: 16 word)
      = le_word [d ! 0, d ! 1]"
    by (rule bit_word_eqI) (auto simp: bit_ucast_iff bit_or_iff bit_push_bit_iff dest: bit_imp_le_length)
  then show ?thesis using False by (simp add: decode_i16_def take_expand)
qed

lemma decode_i32_le:
  "decode_i32 d = (if length d < 4 then (decode_fail, None) else (decode_ok 4, Some (le_word (take 4 d))))"
  by (simp add: decode_i32_def take_expand push_bit_push_bit push_bit_or or.assoc)

lemma decode_i64_le:
  "decode_i64 d = (if length d < 8 then (decode_fail, None) else (decode_ok 8, Some (le_word (take 8 d))))"
  by (simp add: decode_i64_def take_expand push_bit_push_bit push_bit_or or.assoc upt_small)

lemma decode_unsigned_le:
  "decode_u16 d = (if length d < 2 then (decode_fail, None) else (decode_ok 2, Some (le_word (take 2 d))))"
  "decode_u32 d = (if length d < 4 then (decode_fail, None) else (decode_ok 4, Some (le_word (take 4 d))))"
  "decode_u64 d = (if length d < 8 then (decode_fail, None) else (decode_ok 8, Some (le_word (take 8 d))))"
  by (simp_all add: decode_u16_def decode_u32_def decode_u64_def decode_i16_le decode_i32_le decode_i64_le)

section \<open>The interface of a serializable type\<close>

text \<open>
  What generated code and the RPC layer rely on for a type with an encoder and a decoder: encoding
  appends, decoding reads back exactly what was encoded and nothing behind it, a truncated encoding is
  refused, and a decoder never claims bytes it was not given. \<open>fits\<close> is the set of values whose length
  prefixes fit their 32-bit fields.
\<close>

locale codec =
  fixes enc :: "bytes \<Rightarrow> 'a \<Rightarrow> bytes"
    and dec :: "bytes \<Rightarrow> DecodeResult \<times> 'a option"
    and fits :: "'a \<Rightarrow> bool"
  assumes enc_app: "enc buf x = buf @ enc [] x"
    and dec_enc: "fits x \<Longrightarrow> dec (enc [] x @ rest) = (decode_ok (length (enc [] x)), Some x)"
    and dec_trunc: "fits x \<Longrightarrow> k < length (enc [] x) \<Longrightarrow> fst (dec (take k (enc [] x))) = decode_fail"
    and dec_bound: "success (fst (dec bs)) \<Longrightarrow> bytes_read (fst (dec bs)) \<le> length bs \<and> snd (dec bs) \<noteq> None"
    and dec_failed: "\<not> success (fst (dec bs)) \<Longrightarrow> fst (dec bs) = decode_fail"
begin

lemma prefix_free:
  assumes "fits x" "fits y" "enc [] x @ r = enc [] y @ s"
  shows "x = y \<and> r = s"
proof -
  have "dec (enc [] x @ r) = dec (enc [] y @ s)" using assms(3) by simp
  then have "x = y" using dec_enc [OF assms(1)] dec_enc [OF assms(2)] by simp
  with assms(3) show ?thesis by simp
qed

lemma serialize_roundtrip: "fits x \<Longrightarrow> deserialize dec (serialize enc x @ rest) = (True, Some x)"
  by (simp add: deserialize_def serialize_def dec_enc)

lemma foldl_enc: "foldl enc buf xs = buf @ concat (map (enc []) xs)"
proof (induction xs arbitrary: buf)
  case Nil
  then show ?case by simp
next
  case (Cons x xs)
  have "foldl enc buf (x # xs) = foldl enc (buf @ enc [] x) xs" using enc_app [of buf x] by simp
  then show ?case using Cons.IH by simp
qed

lemma encode_vector_eq:
  "encode_vector enc buf xs = buf @ le_bytes 4 (of_nat (length xs) :: 32 word) @ concat (map (enc []) xs)"
  by (simp add: encode_vector_def foldl_enc)

lemma items_enc:
  "list_all fits xs \<Longrightarrow> offset = length pre \<Longrightarrow>
   decode_items dec (length xs) (pre @ concat (map (enc []) xs) @ rest) offset acc =
     (decode_ok (length pre + length (concat (map (enc []) xs))), Some (acc @ xs))"
proof (induction xs arbitrary: pre acc offset)
  case Nil
  then show ?case by simp
next
  case (Cons x xs)
  have "decode_items dec (length xs) ((pre @ enc [] x) @ concat (map (enc []) xs) @ rest)
      (length (pre @ enc [] x)) (acc @ [x]) =
    (decode_ok (length (pre @ enc [] x) + length (concat (map (enc []) xs))), Some ((acc @ [x]) @ xs))"
    by (rule Cons.IH) (use Cons.prems in auto)
  then show ?case using Cons.prems dec_enc [of x] by (simp add: add.assoc)
qed

lemma items_trunc:
  "list_all fits xs \<Longrightarrow> length pre \<le> k \<Longrightarrow> k < length (pre @ concat (map (enc []) xs)) \<Longrightarrow>
   fst (decode_items dec (length xs) (take k (pre @ concat (map (enc []) xs))) (length pre) acc) = decode_fail"
proof (induction xs arbitrary: pre acc)
  case Nil
  then show ?case by simp
next
  case (Cons x xs)
  let ?d = "take k (pre @ enc [] x @ concat (map (enc []) xs))"
  have x: "fits x" using Cons.prems by simp
  show ?case
  proof (cases "length (pre @ enc [] x) \<le> k")
    case True
    then have d: "drop (length pre) ?d = enc [] x @ take (k - length (pre @ enc [] x)) (concat (map (enc []) xs))"
      by simp
    have "fst (decode_items dec (length xs) (take k ((pre @ enc [] x) @ concat (map (enc []) xs)))
        (length (pre @ enc [] x)) (acc @ [x])) = decode_fail"
      by (rule Cons.IH) (use Cons.prems True in auto)
    then show ?thesis
      using dec_enc [OF x] by (simp only: list.map concat.simps d decode_items.simps length_Cons) simp
  next
    case False
    then have d: "drop (length pre) ?d = take (k - length pre) (enc [] x)" and lt: "k - length pre < length (enc [] x)"
      using Cons.prems(2) by simp_all
    show ?thesis
      using dec_trunc [OF x lt] by (simp only: list.map concat.simps d decode_items.simps length_Cons)
        (auto split: prod.split)
  qed
qed

lemma items_bound:
  "success (fst (decode_items dec n d offset acc)) \<Longrightarrow> offset \<le> length d \<Longrightarrow>
   bytes_read (fst (decode_items dec n d offset acc)) \<le> length d \<and>
   snd (decode_items dec n d offset acc) \<noteq> None"
proof (induction n arbitrary: offset acc)
  case 0
  then show ?case by simp
next
  case (Suc n)
  obtain r item where r: "dec (drop offset d) = (r, item)" by fastforce
  with Suc.prems have s: "success r" by (simp split: if_splits)
  have "bytes_read r \<le> length (drop offset d)" using dec_bound [of "drop offset d"] r s by simp
  with Suc r s show ?case by simp
qed

lemma items_failed:
  "\<not> success (fst (decode_items dec n d offset acc)) \<Longrightarrow> fst (decode_items dec n d offset acc) = decode_fail"
  by (induction n arbitrary: offset acc) (auto split: prod.splits)

text \<open>A vector of serializable values is serializable.\<close>

lemma vector_codec:
  "codec (encode_vector enc) (decode_vector dec) (\<lambda>xs. length xs < 2 ^ 32 \<and> list_all fits xs)"
proof
  fix buf xs
  show "encode_vector enc buf xs = buf @ encode_vector enc [] xs"
    by (simp add: encode_vector_eq)
next
  fix xs rest assume "length xs < 2 ^ 32 \<and> list_all fits xs"
  then show "decode_vector dec (encode_vector enc [] xs @ rest) =
    (decode_ok (length (encode_vector enc [] xs)), Some xs)"
    using items_enc [of xs 4 "le_bytes 4 (of_nat (length xs) :: 32 word)" rest "[]"]
    by (simp add: decode_vector_def encode_vector_eq decode_unsigned_le)
next
  fix xs k assume f: "length xs < 2 ^ 32 \<and> list_all fits xs" and k: "k < length (encode_vector enc [] xs)"
  show "fst (decode_vector dec (take k (encode_vector enc [] xs))) = decode_fail"
  proof (cases "k < 4")
    case True
    then show ?thesis by (simp add: decode_vector_def encode_vector_eq decode_unsigned_le)
  next
    case False
    then show ?thesis
      using f k items_trunc [of xs "le_bytes 4 (of_nat (length xs) :: 32 word)" k "[]"]
      by (simp add: decode_vector_def encode_vector_eq decode_unsigned_le min_def)
  qed
next
  fix bs assume "success (fst (decode_vector dec bs))"
  then show "bytes_read (fst (decode_vector dec bs)) \<le> length bs \<and> snd (decode_vector dec bs) \<noteq> None"
    using items_bound [of _ bs 4 "[]"] by (auto simp: decode_vector_def decode_unsigned_le split: if_splits)
next
  fix bs assume "\<not> success (fst (decode_vector dec bs))"
  then show "fst (decode_vector dec bs) = decode_fail"
    using items_failed [of _ bs 4 "[]"] by (auto simp: decode_vector_def decode_unsigned_le split: if_splits)
qed

end

section \<open>The types the serializer supports\<close>

lemma fixed_width_codec:
  fixes enc :: "bytes \<Rightarrow> 'a::len word \<Rightarrow> bytes"
  assumes "8 * n = LENGTH('a)" and "\<And>buf x. enc buf x = buf @ le_bytes n x"
    and "\<And>d. dec d = (if length d < n then (decode_fail, None) else (decode_ok n, Some (le_word (take n d))))"
  shows "codec enc dec (\<lambda>_. True)"
  using assms(1) by unfold_locales (auto simp: assms(2,3) split: if_splits)

lemma encode_byte_le: "encode_i8 buf v = buf @ le_bytes 1 v" "encode_u8 buf v = buf @ le_bytes 1 v"
  by (simp_all add: encode_i8_def encode_u8_def le_bytes_def)

lemma decode_byte_le:
  "decode_i8 d = (if length d < 1 then (decode_fail, None) else (decode_ok 1, Some (le_word (take 1 d))))"
  "decode_u8 d = (if length d < 1 then (decode_fail, None) else (decode_ok 1, Some (le_word (take 1 d))))"
  by (cases d; simp add: decode_i8_def decode_u8_def)+

interpretation i8: codec encode_i8 decode_i8 "\<lambda>_. True"
  by (rule fixed_width_codec [where n = 1]) (simp_all add: encode_byte_le decode_byte_le)

interpretation u8: codec encode_u8 decode_u8 "\<lambda>_. True"
  by (rule fixed_width_codec [where n = 1]) (simp_all add: encode_byte_le decode_byte_le)

interpretation i16: codec encode_i16 decode_i16 "\<lambda>_. True"
  by (rule fixed_width_codec [where n = 2]) (simp_all add: encode_ints_le decode_i16_le)

interpretation u16: codec encode_u16 decode_u16 "\<lambda>_. True"
  by (rule fixed_width_codec [where n = 2]) (simp_all add: decode_unsigned_le)

interpretation i32: codec encode_i32 decode_i32 "\<lambda>_. True"
  by (rule fixed_width_codec [where n = 4]) (simp_all add: encode_ints_le decode_i32_le)

interpretation u32: codec encode_u32 decode_u32 "\<lambda>_. True"
  by (rule fixed_width_codec [where n = 4]) (simp_all add: decode_unsigned_le)

interpretation i64: codec encode_i64 decode_i64 "\<lambda>_. True"
  by (rule fixed_width_codec [where n = 8]) (simp_all add: encode_ints_le decode_i64_le)

interpretation u64: codec encode_u64 decode_u64 "\<lambda>_. True"
  by (rule fixed_width_codec [where n = 8]) (simp_all add: decode_unsigned_le)

interpretation float: codec encode_float decode_float "\<lambda>_. True"
  by (rule fixed_width_codec [where n = 4]) (simp_all add: encode_float_def decode_float_def decode_unsigned_le)

interpretation double: codec encode_double decode_double "\<lambda>_. True"
  by (rule fixed_width_codec [where n = 8]) (simp_all add: encode_double_def decode_double_def decode_unsigned_le)

interpretation bool: codec encode_bool decode_bool "\<lambda>_. True"
  by unfold_locales (auto simp: encode_bool_def decode_bool_def Suc_le_eq split: if_splits)

lemma decode_string_eq:
  "decode_string d =
     (if length d < 4 \<or> length d < 4 + unat (le_word (take 4 d) :: 32 word) then (decode_fail, None)
      else (decode_ok (4 + unat (le_word (take 4 d) :: 32 word)),
            Some (take (unat (le_word (take 4 d) :: 32 word)) (drop 4 d))))"
  by (simp add: decode_string_def decode_unsigned_le)

lemma encode_string_eq: "encode_string buf v = buf @ le_bytes 4 (of_nat (length v) :: 32 word) @ v"
  by (simp add: encode_string_def)

interpretation string: codec encode_string decode_string "\<lambda>v. length v < 2 ^ 32"
  by unfold_locales (auto simp: decode_string_eq encode_string_eq min_def split: if_splits)

interpretation vector_string: codec "encode_vector encode_string" "decode_vector decode_string"
    "\<lambda>xs. length xs < 2 ^ 32 \<and> list_all (\<lambda>v. length v < 2 ^ 32) xs"
  by (rule string.vector_codec)

interpretation vector_i32: codec "encode_vector encode_i32" "decode_vector decode_i32"
    "\<lambda>xs. length xs < 2 ^ 32 \<and> list_all (\<lambda>_. True) xs"
  by (rule i32.vector_codec)

section \<open>Properties\<close>

text \<open>
  Every integer encoder appends the little-endian bytes of the value, whatever its sign, and every
  integer decoder reads them back: the masks, arithmetic shifts and integral promotions of the code
  amount to the byte order the protocol needs.
\<close>

theorem encode_little_endian:
  "encode_i16 buf a = buf @ le_bytes 2 a \<and> encode_i32 buf b = buf @ le_bytes 4 b \<and>
   encode_i64 buf c = buf @ le_bytes 8 c \<and>
   decode_i16 (le_bytes 2 a @ rest) = (decode_ok 2, Some a) \<and>
   decode_i32 (le_bytes 4 b @ rest) = (decode_ok 4, Some b) \<and>
   decode_i64 (le_bytes 8 c @ rest) = (decode_ok 8, Some c)"
  by (simp add: encode_ints_le decode_i16_le decode_i32_le decode_i64_le)

text \<open>
  A string is read back from its encoding followed by any bytes, and the decoder consumes exactly the
  encoding. The length prefix has 32 bits: of a longer string the decoder returns the part the prefix
  still counts.
\<close>

theorem decode_string_roundtrip:
  "decode_string (encode_string [] v @ rest) =
     (decode_ok (4 + length v mod 2 ^ 32), Some (take (length v mod 2 ^ 32) v))"
  by (simp add: decode_string_eq encode_string_eq unat_of_nat take_bit_eq_mod)

text \<open>
  C31. Vectors inherit the round trip: if the element type is serializable, decoding the encoding of a
  vector followed by any bytes returns the vector and consumes exactly its encoding.
\<close>

theorem decode_vector_roundtrip:
  assumes "codec enc dec fits" and "length xs < 2 ^ 32" and "list_all fits xs"
  shows "decode_vector dec (encode_vector enc [] xs @ rest) =
    (decode_ok (length (encode_vector enc [] xs)), Some xs)"
  using codec.dec_enc [OF codec.vector_codec [OF assms(1)]] assms(2,3) by blast

theorem decode_vector_roundtrip_witness:
  "decode_vector decode_string (encode_vector encode_string [] [[82, 80], []] @ [7]) =
    (decode_ok (length (encode_vector encode_string [] [[82, 80], []])), Some [[82, 80], []])"
  by (rule decode_vector_roundtrip [OF string.codec_axioms]) simp_all

text \<open>
  A truncated message is always refused: a decoder given a proper prefix of an encoded vector reports
  failure and zero bytes read, and whatever bytes it is given, a successful vector decoder never reports
  more bytes than there are.
\<close>

theorem decode_vector_truncated:
  assumes "codec enc dec fits" and "length xs < 2 ^ 32" and "list_all fits xs"
    and "k < length (encode_vector enc [] xs)"
  shows "fst (decode_vector dec (take k (encode_vector enc [] xs))) = decode_fail \<and>
    (success (fst (decode_vector dec bs)) \<longrightarrow> bytes_read (fst (decode_vector dec bs)) \<le> length bs)"
  using codec.dec_trunc [OF codec.vector_codec [OF assms(1)]]
    codec.dec_bound [OF codec.vector_codec [OF assms(1)]] assms(2-4) by blast

theorem decode_vector_truncated_witness:
  "fst (decode_vector decode_i32 (take 9 (encode_vector encode_i32 [] [1, 2]))) = decode_fail \<and>
   success (fst (decode_vector decode_i32 [1, 0, 0, 0, 5, 0, 0, 0, 9])) \<and>
   bytes_read (fst (decode_vector decode_i32 [1, 0, 0, 0, 5, 0, 0, 0, 9])) \<le>
     length [1, 0, 0, 0, 5, 0, 0, 0, 9 :: byte]"
proof -
  have "success (fst (decode_vector decode_i32 [1, 0, 0, 0, 5, 0, 0, 0, 9]))" by code_simp
  moreover have "9 < length (encode_vector encode_i32 [] [1, 2])"
    by (simp add: i32.encode_vector_eq encode_ints_le)
  ultimately show ?thesis
    using decode_vector_truncated [OF i32.codec_axioms, of "[1, 2]" 9 "[1, 0, 0, 0, 5, 0, 0, 0, 9]"] by simp
qed

end
