(* ===== verification/Rpc_Protocol.thy ===== *)
theory Rpc_Protocol
  imports Rpc_Prelude
begin

text \<open>
  The wire protocol of \<open>rpc/protocol.hpp\<close>: headers, metadata and \<open>RpcMessage\<close>.

  The structures are copied to and from the wire with \<open>memcpy\<close>, so their layout is that of the target:
  little-endian fields in declaration order, 16 bytes of header, 16 bytes of \<open>ResponseMeta\<close>, and 28 bytes
  of \<open>RequestMeta\<close> followed by four bytes of padding, whose content the language leaves unspecified and
  which is therefore an argument \<open>pad\<close>. An enumeration is its integer code, since a cast from the wire can
  produce codes without a name. Strings are lists of bytes. The monotonic clock is the argument \<open>now\<close>.

  Writes go through \<open>mem_write\<close>, \<open>None\<close> being a write outside the buffer. \<open>deserialize\<close> takes the memory
  behind its pointer and the \<open>size\<close> it is told separately: the receive buffers of client and server are
  larger than one message, so a read past \<open>size\<close> may still be inside the buffer and return stale bytes.
\<close>

section \<open>Enumerations\<close>

datatype MessageType = MT_Request | MT_Response | MT_Heartbeat | MT_Error | MT_Stream | MT_StreamEnd

fun message_type_code :: "MessageType \<Rightarrow> byte" where
  "message_type_code MT_Request = 0"
| "message_type_code MT_Response = 1"
| "message_type_code MT_Heartbeat = 2"
| "message_type_code MT_Error = 3"
| "message_type_code MT_Stream = 4"
| "message_type_code MT_StreamEnd = 5"

datatype ErrorCode = EC_OK | EC_Unknown | EC_InvalidRequest | EC_ServiceNotFound | EC_MethodNotFound
  | EC_SerializationError | EC_Timeout | EC_ConnectionError | EC_ServerBusy

fun error_code_val :: "ErrorCode \<Rightarrow> u32" where
  "error_code_val EC_OK = 0"
| "error_code_val EC_Unknown = -1"
| "error_code_val EC_InvalidRequest = -2"
| "error_code_val EC_ServiceNotFound = -3"
| "error_code_val EC_MethodNotFound = -4"
| "error_code_val EC_SerializationError = -5"
| "error_code_val EC_Timeout = -6"
| "error_code_val EC_ConnectionError = -7"
| "error_code_val EC_ServerBusy = -8"

section \<open>Headers and metadata\<close>

record ProtocolHeader =
  hdr_magic :: u16
  hdr_version :: byte
  hdr_type :: byte
  hdr_meta_len :: u32
  hdr_payload_len :: u32
  hdr_reserved :: u32

definition kMagic :: u16 where "kMagic = 0x5250"

definition kVersion :: byte where "kVersion = 1"

definition header_valid :: "ProtocolHeader \<Rightarrow> bool" where
  "header_valid h \<longleftrightarrow> hdr_magic h = kMagic"

definition header_init :: "MessageType \<Rightarrow> ProtocolHeader" where
  "header_init msg_type =
     \<lparr>hdr_magic = kMagic, hdr_version = kVersion, hdr_type = message_type_code msg_type,
      hdr_meta_len = 0, hdr_payload_len = 0, hdr_reserved = 0\<rparr>"

definition header_bytes :: "ProtocolHeader \<Rightarrow> bytes" where
  "header_bytes h =
     le_bytes 2 (hdr_magic h) @ [hdr_version h, hdr_type h] @ le_bytes 4 (hdr_meta_len h) @
     le_bytes 4 (hdr_payload_len h) @ le_bytes 4 (hdr_reserved h)"

definition header_of_bytes :: "bytes \<Rightarrow> ProtocolHeader" where
  "header_of_bytes bs =
     \<lparr>hdr_magic = le_word (take 2 bs), hdr_version = bs ! 2, hdr_type = bs ! 3,
      hdr_meta_len = le_word (take 4 (drop 4 bs)), hdr_payload_len = le_word (take 4 (drop 8 bs)),
      hdr_reserved = le_word (take 4 (drop 12 bs))\<rparr>"

record RequestMeta =
  rm_request_id :: u64
  rm_timestamp :: u64
  rm_timeout_ms :: u32
  rm_service_len :: u32
  rm_method_len :: u32

definition request_meta_bytes :: "bytes \<Rightarrow> RequestMeta \<Rightarrow> bytes" where
  "request_meta_bytes pad m =
     le_bytes 8 (rm_request_id m) @ le_bytes 8 (rm_timestamp m) @ le_bytes 4 (rm_timeout_ms m) @
     le_bytes 4 (rm_service_len m) @ le_bytes 4 (rm_method_len m) @ pad"

definition request_meta_of_bytes :: "bytes \<Rightarrow> RequestMeta" where
  "request_meta_of_bytes bs =
     \<lparr>rm_request_id = le_word (take 8 bs), rm_timestamp = le_word (take 8 (drop 8 bs)),
      rm_timeout_ms = le_word (take 4 (drop 16 bs)), rm_service_len = le_word (take 4 (drop 20 bs)),
      rm_method_len = le_word (take 4 (drop 24 bs))\<rparr>"

record ResponseMeta =
  sm_request_id :: u64
  sm_error_code :: u32
  sm_error_len :: u32

definition response_meta_bytes :: "ResponseMeta \<Rightarrow> bytes" where
  "response_meta_bytes m =
     le_bytes 8 (sm_request_id m) @ le_bytes 4 (sm_error_code m) @ le_bytes 4 (sm_error_len m)"

definition response_meta_of_bytes :: "bytes \<Rightarrow> ResponseMeta" where
  "response_meta_of_bytes bs =
     \<lparr>sm_request_id = le_word (take 8 bs), sm_error_code = le_word (take 4 (drop 8 bs)),
      sm_error_len = le_word (take 4 (drop 12 bs))\<rparr>"

section \<open>RpcMessage\<close>

record RpcMessage =
  msg_header :: ProtocolHeader
  msg_request_id :: u64
  msg_service :: bytes
  msg_method :: bytes
  msg_payload :: bytes
  msg_error_code :: u32
  msg_error_message :: bytes
  msg_timeout_ms :: u32
  msg_timestamp :: u64

definition RpcMessage_default :: RpcMessage where
  "RpcMessage_default =
     \<lparr>msg_header = \<lparr>hdr_magic = 0, hdr_version = 0, hdr_type = 0, hdr_meta_len = 0,
                    hdr_payload_len = 0, hdr_reserved = 0\<rparr>,
      msg_request_id = 0, msg_service = [], msg_method = [], msg_payload = [],
      msg_error_code = error_code_val EC_OK, msg_error_message = [], msg_timeout_ms = 30000,
      msg_timestamp = 0\<rparr>"

definition msg_has_type :: "RpcMessage \<Rightarrow> MessageType \<Rightarrow> bool" where
  "msg_has_type msg t \<longleftrightarrow> hdr_type (msg_header msg) = message_type_code t"

definition create_request :: "u64 \<Rightarrow> u64 \<Rightarrow> bytes \<Rightarrow> bytes \<Rightarrow> bytes \<Rightarrow> u32 \<Rightarrow> RpcMessage" where
  "create_request now request_id service method payload timeout_ms =
     RpcMessage_default\<lparr>msg_header := header_init MT_Request, msg_request_id := request_id,
       msg_service := service, msg_method := method, msg_payload := payload,
       msg_timeout_ms := timeout_ms, msg_timestamp := now\<rparr>"

definition create_response :: "u64 \<Rightarrow> bytes \<Rightarrow> ErrorCode \<Rightarrow> RpcMessage" where
  "create_response request_id payload err =
     RpcMessage_default\<lparr>msg_header := header_init MT_Response, msg_request_id := request_id,
       msg_payload := payload, msg_error_code := error_code_val err\<rparr>"

definition create_error :: "u64 \<Rightarrow> ErrorCode \<Rightarrow> bytes \<Rightarrow> RpcMessage" where
  "create_error request_id err message =
     RpcMessage_default\<lparr>msg_header := header_init MT_Response, msg_request_id := request_id,
       msg_error_code := error_code_val err, msg_error_message := message\<rparr>"

definition RpcMessage_total_size :: "RpcMessage \<Rightarrow> nat" where
  "RpcMessage_total_size msg =
     16 + unat (hdr_meta_len (msg_header msg)) + unat (hdr_payload_len (msg_header msg))"

subsection \<open>serialize\<close>

definition msg_meta_size :: "RpcMessage \<Rightarrow> nat" where
  "msg_meta_size msg =
     (if msg_has_type msg MT_Request then 32 + length (msg_service msg) + length (msg_method msg)
      else 16 + length (msg_error_message msg))"

text \<open>The header as it goes on the wire: the two lengths are narrowed to 32 bits.\<close>

definition wire_header :: "RpcMessage \<Rightarrow> ProtocolHeader" where
  "wire_header msg =
     (msg_header msg)\<lparr>hdr_meta_len := of_nat (msg_meta_size msg),
                      hdr_payload_len := of_nat (length (msg_payload msg))\<rparr>"

definition wire_request_meta :: "RpcMessage \<Rightarrow> RequestMeta" where
  "wire_request_meta msg =
     \<lparr>rm_request_id = msg_request_id msg, rm_timestamp = msg_timestamp msg,
      rm_timeout_ms = msg_timeout_ms msg, rm_service_len = of_nat (length (msg_service msg)),
      rm_method_len = of_nat (length (msg_method msg))\<rparr>"

definition wire_response_meta :: "RpcMessage \<Rightarrow> ResponseMeta" where
  "wire_response_meta msg =
     \<lparr>sm_request_id = msg_request_id msg, sm_error_code = msg_error_code msg,
      sm_error_len = of_nat (length (msg_error_message msg))\<rparr>"

definition RpcMessage_serialize :: "bytes \<Rightarrow> RpcMessage \<Rightarrow> bytes option" where
  "RpcMessage_serialize pad msg =
     (let total = 16 + msg_meta_size msg + length (msg_payload msg);
          service = msg_service msg; method = msg_method msg
      in Option.bind (mem_write (replicate total 0) 0 (header_bytes (wire_header msg))) (\<lambda>buffer.
         Option.bind
           (if msg_has_type msg MT_Request then
              Option.bind (mem_write buffer 16 (request_meta_bytes pad (wire_request_meta msg))) (\<lambda>buffer.
              Option.bind (mem_write buffer (16 + 32) service) (\<lambda>buffer.
              Option.bind (mem_write buffer (16 + 32 + length service) method) (\<lambda>buffer.
              Some (buffer, 16 + 32 + length service + length method))))
            else
              Option.bind (mem_write buffer 16 (response_meta_bytes (wire_response_meta msg))) (\<lambda>buffer.
              if msg_error_message msg \<noteq> [] then
                Option.bind (mem_write buffer (16 + 16) (msg_error_message msg)) (\<lambda>buffer.
                Some (buffer, 16 + 16 + length (msg_error_message msg)))
              else Some (buffer, 16 + 16)))
           (\<lambda>(buffer, ptr).
             if msg_payload msg \<noteq> [] then mem_write buffer ptr (msg_payload msg) else Some buffer)))"

subsection \<open>deserialize\<close>

datatype mem_fault = OutOfBoundsRead

definition fetch :: "bytes \<Rightarrow> nat \<Rightarrow> nat \<Rightarrow> mem_fault + bytes" where
  "fetch mem off n = or_fail OutOfBoundsRead (mem_read mem off n)"

definition deserialize_payload :: "bytes \<Rightarrow> nat \<Rightarrow> RpcMessage \<Rightarrow> mem_fault + (bool \<times> RpcMessage)" where
  "deserialize_payload mem ptr msg =
     (let payload_len = unat (hdr_payload_len (msg_header msg)) in
      if 0 < payload_len then rbind (fetch mem ptr payload_len) (\<lambda>p. Inr (True, msg\<lparr>msg_payload := p\<rparr>))
      else Inr (True, msg))"

definition deserialize_request :: "bytes \<Rightarrow> RpcMessage \<Rightarrow> mem_fault + (bool \<times> RpcMessage)" where
  "deserialize_request mem msg =
     rbind (fetch mem 16 32) (\<lambda>mb.
       let meta = request_meta_of_bytes mb;
           slen = unat (rm_service_len meta); mlen = unat (rm_method_len meta)
       in rbind (fetch mem (16 + 32) slen) (\<lambda>service.
          rbind (fetch mem (16 + 32 + slen) mlen) (\<lambda>method.
          deserialize_payload mem (16 + 32 + slen + mlen)
            (msg\<lparr>msg_request_id := rm_request_id meta, msg_timestamp := rm_timestamp meta,
                 msg_timeout_ms := rm_timeout_ms meta, msg_service := service, msg_method := method\<rparr>))))"

definition deserialize_response :: "bytes \<Rightarrow> RpcMessage \<Rightarrow> mem_fault + (bool \<times> RpcMessage)" where
  "deserialize_response mem msg =
     rbind (fetch mem 16 16) (\<lambda>mb.
       let meta = response_meta_of_bytes mb; elen = unat (sm_error_len meta);
           msg1 = msg\<lparr>msg_request_id := sm_request_id meta, msg_error_code := sm_error_code meta\<rparr>
       in if 0 < elen then
            rbind (fetch mem (16 + 16) elen) (\<lambda>err.
              deserialize_payload mem (16 + 16 + elen) (msg1\<lparr>msg_error_message := err\<rparr>))
          else deserialize_payload mem (16 + 16) msg1)"

definition RpcMessage_deserialize :: "bytes \<Rightarrow> nat \<Rightarrow> RpcMessage \<Rightarrow> mem_fault + (bool \<times> RpcMessage)" where
  "RpcMessage_deserialize mem sz msg =
     (if sz < 16 then Inr (False, msg)
      else rbind (fetch mem 0 16) (\<lambda>h.
        let msg1 = msg\<lparr>msg_header := header_of_bytes h\<rparr> in
        if \<not> header_valid (msg_header msg1) then Inr (False, msg1)
        else if sz < RpcMessage_total_size msg1 then Inr (False, msg1)
        else if msg_has_type msg1 MT_Request then deserialize_request mem msg1
        else if msg_has_type msg1 MT_Response then deserialize_response mem msg1
        else deserialize_payload mem 16 msg1))"

section \<open>Images of the structures\<close>

lemma length_images [simp]:
  "length (header_bytes h) = 16" "length (request_meta_bytes pad m) = 28 + length pad"
  "length (response_meta_bytes r) = 16"
  by (simp_all add: header_bytes_def request_meta_bytes_def response_meta_bytes_def)

lemma header_of_header_bytes [simp]: "header_of_bytes (header_bytes h) = h"
  by (simp add: header_of_bytes_def header_bytes_def nth_append)

lemma request_meta_of_bytes_bytes [simp]: "request_meta_of_bytes (request_meta_bytes pad m) = m"
  by (simp add: request_meta_of_bytes_def request_meta_bytes_def)

lemma response_meta_of_bytes_bytes [simp]: "response_meta_of_bytes (response_meta_bytes m) = m"
  by (simp add: response_meta_of_bytes_def response_meta_bytes_def)

text \<open>The bytes of a message: header, metadata with the names or the error text, payload.\<close>

definition wire_meta :: "bytes \<Rightarrow> RpcMessage \<Rightarrow> bytes" where
  "wire_meta pad msg =
     (if msg_has_type msg MT_Request
      then request_meta_bytes pad (wire_request_meta msg) @ msg_service msg @ msg_method msg
      else response_meta_bytes (wire_response_meta msg) @ msg_error_message msg)"

definition wire_image :: "bytes \<Rightarrow> RpcMessage \<Rightarrow> bytes" where
  "wire_image pad msg = header_bytes (wire_header msg) @ wire_meta pad msg @ msg_payload msg"

lemma length_wire_meta: "length pad = 4 \<Longrightarrow> length (wire_meta pad msg) = msg_meta_size msg"
  by (simp add: wire_meta_def msg_meta_size_def)

lemma length_wire_image:
  "length pad = 4 \<Longrightarrow> length (wire_image pad msg) = 16 + msg_meta_size msg + length (msg_payload msg)"
  by (simp add: wire_image_def length_wire_meta)

lemma mem_write_next:
  "off = length xs \<Longrightarrow> length ys \<le> n \<Longrightarrow>
   mem_write (xs @ replicate n z) off ys = Some (xs @ ys @ replicate (n - length ys) z)"
  by (simp add: mem_write_fill)

lemma mem_write_first:
  "length ys \<le> n \<Longrightarrow> mem_write (replicate n z) 0 ys = Some (ys @ replicate (n - length ys) z)"
  using mem_write_next [of 0 "[]" ys n z] by simp

lemma serialize_image:
  assumes pad: "length pad = 4"
  shows "RpcMessage_serialize pad msg = Some (wire_image pad msg)"
proof -
  let ?h = "header_bytes (wire_header msg)" and ?p = "msg_payload msg"
  have first: "mem_write (replicate (16 + msg_meta_size msg + length ?p) 0) 0 ?h =
      Some (?h @ replicate (msg_meta_size msg + length ?p) 0)"
    by (simp add: mem_write_first)
  show ?thesis
  proof (cases "msg_has_type msg MT_Request")
    case True
    let ?m = "request_meta_bytes pad (wire_request_meta msg)" and ?s = "msg_service msg" and ?t = "msg_method msg"
    have "mem_write (?h @ replicate (msg_meta_size msg + length ?p) 0) 16 ?m =
        Some ((?h @ ?m) @ replicate (length ?s + length ?t + length ?p) 0)"
      using pad True by (subst mem_write_next) (simp_all add: msg_meta_size_def)
    moreover have "mem_write ((?h @ ?m) @ replicate (length ?s + length ?t + length ?p) 0) (16 + 32) ?s =
        Some ((?h @ ?m @ ?s) @ replicate (length ?t + length ?p) 0)"
      using pad by (subst mem_write_next) simp_all
    moreover have "mem_write ((?h @ ?m @ ?s) @ replicate (length ?t + length ?p) 0) (16 + 32 + length ?s) ?t =
        Some ((?h @ ?m @ ?s @ ?t) @ replicate (length ?p) 0)"
      using pad by (subst mem_write_next) simp_all
    moreover have "mem_write ((?h @ ?m @ ?s @ ?t) @ replicate (length ?p) 0)
        (16 + 32 + length ?s + length ?t) ?p = Some (?h @ ?m @ ?s @ ?t @ ?p)"
      using pad by (subst mem_write_next) simp_all
    ultimately show ?thesis
      using True first
      by (cases "?p = []") (simp_all only: RpcMessage_serialize_def wire_image_def wire_meta_def Let_def
          if_True bind.bind_lunit prod.case append_assoc, simp_all)
  next
    case False
    let ?m = "response_meta_bytes (wire_response_meta msg)" and ?e = "msg_error_message msg"
    have "mem_write (?h @ replicate (msg_meta_size msg + length ?p) 0) 16 ?m =
        Some ((?h @ ?m) @ replicate (length ?e + length ?p) 0)"
      using False by (subst mem_write_next) (simp_all add: msg_meta_size_def)
    moreover have "mem_write ((?h @ ?m) @ replicate (length ?e + length ?p) 0) (16 + 16) ?e =
        Some ((?h @ ?m @ ?e) @ replicate (length ?p) 0)"
      by (subst mem_write_next) simp_all
    moreover have "mem_write ((?h @ ?m @ ?e) @ replicate (length ?p) 0) (16 + 16 + length ?e) ?p =
        Some (?h @ ?m @ ?e @ ?p)"
      by (subst mem_write_next) simp_all
    ultimately show ?thesis
      using False first
      by (cases "?p = []"; cases "?e = []") (simp_all add: RpcMessage_serialize_def wire_image_def wire_meta_def)
  qed
qed

section \<open>Reading a message\<close>

lemma fetch_append:
  "off = length xs \<Longrightarrow> n = length ys \<Longrightarrow> fetch (xs @ ys @ zs) off n = Inr ys"
  by (simp add: fetch_def mem_read_append)

lemma fetch_Inr_iff: "fetch mem off n = Inr xs \<longleftrightarrow> off + n \<le> length mem \<and> xs = take n (drop off mem)"
  by (auto simp: fetch_def mem_read_def)

lemma fetch_Inl_iff: "fetch mem off n = Inl e \<longleftrightarrow> length mem < off + n"
  by (cases e) (auto simp: fetch_def mem_read_def)

lemma fetch_take:
  "off + n \<le> k \<Longrightarrow> k \<le> length mem \<Longrightarrow> fetch (take k mem) off n = fetch mem off n"
  by (simp add: fetch_def mem_read_def drop_take min_def)

lemma wire_header_simps [simp]:
  "hdr_magic (wire_header msg) = hdr_magic (msg_header msg)"
  "hdr_type (wire_header msg) = hdr_type (msg_header msg)"
  "header_valid (wire_header msg) = header_valid (msg_header msg)"
  "hdr_meta_len (wire_header msg) = of_nat (msg_meta_size msg)"
  "hdr_payload_len (wire_header msg) = of_nat (length (msg_payload msg))"
  by (simp_all add: wire_header_def header_valid_def)

lemma deserialize_after_header:
  assumes "header_valid h" and "RpcMessage_total_size (m0\<lparr>msg_header := h\<rparr>) \<le> sz"
  shows "RpcMessage_deserialize (header_bytes h @ rest) sz m0 =
    (let msg = m0\<lparr>msg_header := h\<rparr> in
     if msg_has_type msg MT_Request then deserialize_request (header_bytes h @ rest) msg
     else if msg_has_type msg MT_Response then deserialize_response (header_bytes h @ rest) msg
     else deserialize_payload (header_bytes h @ rest) 16 msg)"
proof -
  have f: "fetch (header_bytes h @ rest) 0 16 = Inr (header_bytes h)"
    using fetch_append [of 0 "[]" 16 "header_bytes h" rest] by simp
  show ?thesis using assms by (simp add: RpcMessage_deserialize_def f RpcMessage_total_size_def)
qed

lemma deserialize_payload_append:
  assumes "off = length xs" and "unat (hdr_payload_len (msg_header m)) = length p"
  shows "deserialize_payload (xs @ p @ zs) off m = Inr (True, if p = [] then m else m\<lparr>msg_payload := p\<rparr>)"
  using assms fetch_append [of off xs "length p" p zs] by (simp add: deserialize_payload_def)

text \<open>A message whose lengths fit their 32-bit fields.\<close>

definition wire_fits :: "RpcMessage \<Rightarrow> bool" where
  "wire_fits msg \<longleftrightarrow> msg_meta_size msg < 2 ^ 32 \<and> length (msg_payload msg) < 2 ^ 32"

lemma image_total:
  assumes "wire_fits msg" and "length pad = 4"
  shows "RpcMessage_total_size (m0\<lparr>msg_header := wire_header msg\<rparr>) = length (wire_image pad msg)"
  using assms by (simp add: RpcMessage_total_size_def wire_fits_def length_wire_image)

lemma deserialize_request_image:
  assumes req: "msg_has_type msg MT_Request" and fits: "wire_fits msg" and pad: "length pad = 4"
    and hdr: "msg_header m = wire_header msg"
  shows "deserialize_request (wire_image pad msg @ junk) m =
    Inr (True, m\<lparr>msg_request_id := msg_request_id msg, msg_timestamp := msg_timestamp msg,
      msg_timeout_ms := msg_timeout_ms msg, msg_service := msg_service msg, msg_method := msg_method msg,
      msg_payload := (if msg_payload msg = [] then msg_payload m else msg_payload msg)\<rparr>)"
proof -
  let ?h = "header_bytes (wire_header msg)" and ?m = "request_meta_bytes pad (wire_request_meta msg)"
    and ?s = "msg_service msg" and ?t = "msg_method msg" and ?p = "msg_payload msg"
  have mem: "wire_image pad msg @ junk = ?h @ ?m @ ?s @ ?t @ ?p @ junk"
    using req by (simp add: wire_image_def wire_meta_def)
  have small: "length ?s < 2 ^ 32" "length ?t < 2 ^ 32" "length ?p < 2 ^ 32"
    using fits req by (auto simp: wire_fits_def msg_meta_size_def)
  have f1: "fetch (?h @ ?m @ ?s @ ?t @ ?p @ junk) 16 32 = Inr ?m"
    by (rule fetch_append) (simp_all add: pad)
  have f2: "fetch (?h @ ?m @ ?s @ ?t @ ?p @ junk) (16 + 32) (length ?s) = Inr ?s"
    using fetch_append [of "16 + 32" "?h @ ?m" "length ?s" ?s "?t @ ?p @ junk"] pad by simp
  have f3: "fetch (?h @ ?m @ ?s @ ?t @ ?p @ junk) (16 + 32 + length ?s) (length ?t) = Inr ?t"
    using fetch_append [of "16 + 32 + length ?s" "?h @ ?m @ ?s" "length ?t" ?t "?p @ junk"] pad by simp
  have f4: "deserialize_payload (?h @ ?m @ ?s @ ?t @ ?p @ junk) (16 + 32 + length ?s + length ?t) m' =
      Inr (True, if ?p = [] then m' else m'\<lparr>msg_payload := ?p\<rparr>)" if "msg_header m' = wire_header msg" for m'
    using deserialize_payload_append [of "16 + 32 + length ?s + length ?t" "?h @ ?m @ ?s @ ?t" m' ?p junk]
      pad small that by simp
  show ?thesis
    unfolding mem deserialize_request_def f1 rbind.simps request_meta_of_bytes_bytes Let_def
    using small f2 f3 f4 hdr by (simp add: wire_request_meta_def)
qed

lemma deserialize_response_image:
  assumes req: "\<not> msg_has_type msg MT_Request" and fits: "wire_fits msg"
    and hdr: "msg_header m = wire_header msg"
  shows "deserialize_response (wire_image pad msg @ junk) m =
    Inr (True, m\<lparr>msg_request_id := msg_request_id msg, msg_error_code := msg_error_code msg,
      msg_error_message := (if msg_error_message msg = [] then msg_error_message m else msg_error_message msg),
      msg_payload := (if msg_payload msg = [] then msg_payload m else msg_payload msg)\<rparr>)"
proof -
  let ?h = "header_bytes (wire_header msg)" and ?m = "response_meta_bytes (wire_response_meta msg)"
    and ?e = "msg_error_message msg" and ?p = "msg_payload msg"
  have mem: "wire_image pad msg @ junk = ?h @ ?m @ ?e @ ?p @ junk"
    using req by (simp add: wire_image_def wire_meta_def)
  have small: "length ?e < 2 ^ 32" "length ?p < 2 ^ 32"
    using fits req by (auto simp: wire_fits_def msg_meta_size_def)
  have f1: "fetch (?h @ ?m @ ?e @ ?p @ junk) 16 16 = Inr ?m"
    by (rule fetch_append) simp_all
  have f2: "fetch (?h @ ?m @ ?e @ ?p @ junk) (16 + 16) (length ?e) = Inr ?e"
    using fetch_append [of "16 + 16" "?h @ ?m" "length ?e" ?e "?p @ junk"] by simp
  have f3: "deserialize_payload (?h @ ?m @ ?e @ ?p @ junk) (16 + 16 + length ?e) m' =
      Inr (True, if ?p = [] then m' else m'\<lparr>msg_payload := ?p\<rparr>)" if "msg_header m' = wire_header msg" for m'
    using deserialize_payload_append [of "16 + 16 + length ?e" "?h @ ?m @ ?e" m' ?p junk] small that by simp
  show ?thesis
    unfolding mem deserialize_response_def f1 rbind.simps response_meta_of_bytes_bytes Let_def
    using small f2 f3 hdr by (cases "?e = []") (simp_all add: wire_response_meta_def)
qed

lemma deserialize_image:
  assumes "header_valid (msg_header msg)" "wire_fits msg" "length pad = 4"
  shows "RpcMessage_deserialize (wire_image pad msg @ junk) (length (wire_image pad msg)) m0 =
    (let m = m0\<lparr>msg_header := wire_header msg\<rparr> in
     if msg_has_type msg MT_Request then deserialize_request (wire_image pad msg @ junk) m
     else if msg_has_type msg MT_Response then deserialize_response (wire_image pad msg @ junk) m
     else deserialize_payload (wire_image pad msg @ junk) 16 m)"
  using deserialize_after_header [of "wire_header msg" m0 "length (wire_image pad msg)"
      "wire_meta pad msg @ msg_payload msg @ junk"]
    image_total [OF assms(2,3)] assms(1)
  by (simp add: wire_image_def msg_has_type_def Let_def)

section \<open>Framed packets\<close>

text \<open>
  A packet is framed when the lengths inside its metadata stay within the \<open>meta_len\<close> its header
  announces. Everything \<open>serialize\<close> produces is framed; the receiver does not check it.
\<close>

definition meta_framed :: "bytes \<Rightarrow> bool" where
  "meta_framed mem \<longleftrightarrow>
     (let h = header_of_bytes (take 16 mem);
          rm = request_meta_of_bytes (take 32 (drop 16 mem));
          sm = response_meta_of_bytes (take 16 (drop 16 mem)) in
      (hdr_type h = message_type_code MT_Request \<longrightarrow>
         32 + unat (rm_service_len rm) + unat (rm_method_len rm) \<le> unat (hdr_meta_len h)) \<and>
      (hdr_type h = message_type_code MT_Response \<longrightarrow>
         16 + unat (sm_error_len sm) \<le> unat (hdr_meta_len h)))"

text \<open>\<open>r\<close> read no byte outside the memory, and \<open>r'\<close>, with less memory to read from, agrees with it.\<close>

definition within :: "mem_fault + 'a \<Rightarrow> mem_fault + 'a \<Rightarrow> bool" where
  "within r r' \<longleftrightarrow> r' = r \<and> \<not> isl r"

lemma fetch_within:
  assumes "off + n \<le> sz" and "sz \<le> length mem"
  shows "fetch mem off n = Inr (take n (drop off mem))" "fetch (take sz mem) off n = Inr (take n (drop off mem))"
  using assms by (simp_all add: fetch_Inr_iff fetch_take)

lemma payload_within:
  assumes "ptr + unat (hdr_payload_len (msg_header m)) \<le> sz" and "sz \<le> length mem"
  shows "within (deserialize_payload mem ptr m) (deserialize_payload (take sz mem) ptr m)"
  using fetch_within [OF assms] by (simp add: within_def deserialize_payload_def Let_def)

lemma request_within:
  assumes "32 + unat (rm_service_len (request_meta_of_bytes (take 32 (drop 16 mem)))) +
      unat (rm_method_len (request_meta_of_bytes (take 32 (drop 16 mem)))) \<le> unat (hdr_meta_len (msg_header m))"
    and "RpcMessage_total_size m \<le> sz" and "sz \<le> length mem"
  shows "within (deserialize_request mem m) (deserialize_request (take sz mem) m)"
proof -
  let ?rm = "request_meta_of_bytes (take 32 (drop 16 mem))"
  let ?s = "unat (rm_service_len ?rm)" and ?t = "unat (rm_method_len ?rm)"
  have le: "16 + 32 + ?s + ?t + unat (hdr_payload_len (msg_header m)) \<le> sz"
    using assms(1,2) by (simp add: RpcMessage_total_size_def)
  note f1 = fetch_within [of 16 32 sz mem] and f2 = fetch_within [of "16 + 32" ?s sz mem]
    and f3 = fetch_within [of "16 + 32 + ?s" ?t sz mem]
  show ?thesis
    using f1 f2 f3 le assms(3) payload_within [of "16 + 32 + ?s + ?t" _ sz mem]
    by (simp add: deserialize_request_def Let_def)
qed

lemma response_within:
  assumes "16 + unat (sm_error_len (response_meta_of_bytes (take 16 (drop 16 mem)))) \<le> unat (hdr_meta_len (msg_header m))"
    and "RpcMessage_total_size m \<le> sz" and "sz \<le> length mem"
  shows "within (deserialize_response mem m) (deserialize_response (take sz mem) m)"
proof -
  let ?e = "unat (sm_error_len (response_meta_of_bytes (take 16 (drop 16 mem))))"
  have le: "16 + 16 + ?e + unat (hdr_payload_len (msg_header m)) \<le> sz"
    using assms(1,2) by (simp add: RpcMessage_total_size_def)
  note f1 = fetch_within [of 16 16 sz mem] and f2 = fetch_within [of "16 + 16" ?e sz mem]
  show ?thesis
    using f1 f2 le assms(3) payload_within [of "16 + 16 + ?e" _ sz mem] payload_within [of "16 + 16" _ sz mem]
    by (simp add: deserialize_response_def Let_def)
qed

lemma deserialize_within:
  assumes "meta_framed mem" and "sz \<le> length mem"
  shows "within (RpcMessage_deserialize mem sz m0) (RpcMessage_deserialize (take sz mem) sz m0)"
proof (cases "16 \<le> sz")
  case False
  then show ?thesis by (simp add: RpcMessage_deserialize_def within_def)
next
  case True
  let ?m = "m0\<lparr>msg_header := header_of_bytes (take 16 mem)\<rparr>"
  have f: "fetch mem 0 16 = Inr (take 16 mem)" "fetch (take sz mem) 0 16 = Inr (take 16 mem)"
    using fetch_within [of 0 16 sz mem] True assms(2) by simp_all
  show ?thesis
  proof (cases "header_valid (msg_header ?m) \<and> RpcMessage_total_size ?m \<le> sz")
    case False
    then show ?thesis using True by (auto simp: RpcMessage_deserialize_def f within_def Let_def)
  next
    case v: True
    have p: "16 + unat (hdr_payload_len (msg_header ?m)) \<le> sz"
      using v by (simp add: RpcMessage_total_size_def)
    show ?thesis
      using v True assms request_within [of mem ?m sz] response_within [of mem ?m sz] payload_within [OF p assms(2)]
      by (auto simp: RpcMessage_deserialize_def f meta_framed_def msg_has_type_def Let_def)
  qed
qed

section \<open>Properties\<close>

text \<open>
  Serializing a message never writes outside its buffer and fills it completely: the result is the
  16-byte header with the lengths of the two other parts, the metadata followed by the service and
  method names (requests) or the error text (all other types), and the payload.
\<close>

theorem RpcMessage_serialize_layout:
  "length pad = 4 \<Longrightarrow>
   RpcMessage_serialize pad msg =
     Some (header_bytes (wire_header msg) @
       (if msg_has_type msg MT_Request
        then request_meta_bytes pad (wire_request_meta msg) @ msg_service msg @ msg_method msg
        else response_meta_bytes (wire_response_meta msg) @ msg_error_message msg) @ msg_payload msg)"
  using serialize_image [of pad msg] by (simp add: wire_image_def wire_meta_def)

theorem RpcMessage_serialize_layout_witness:
  "RpcMessage_serialize [0, 0, 0, 0] (create_error 7 EC_Unknown [69]) =
     Some (header_bytes (wire_header (create_error 7 EC_Unknown [69])) @
       (if msg_has_type (create_error 7 EC_Unknown [69]) MT_Request
        then request_meta_bytes [0, 0, 0, 0] (wire_request_meta (create_error 7 EC_Unknown [69])) @
          msg_service (create_error 7 EC_Unknown [69]) @ msg_method (create_error 7 EC_Unknown [69])
        else response_meta_bytes (wire_response_meta (create_error 7 EC_Unknown [69])) @
          msg_error_message (create_error 7 EC_Unknown [69])) @ msg_payload (create_error 7 EC_Unknown [69]))"
  by (rule RpcMessage_serialize_layout) simp

lemma created_simps:
  "msg_has_type (create_request now i s m p t) MT_Request"
  "\<not> msg_has_type (create_response i p e) MT_Request" "msg_has_type (create_response i p e) MT_Response"
  "\<not> msg_has_type (create_error i e t') MT_Request" "msg_has_type (create_error i e t') MT_Response"
  "header_valid (msg_header (create_request now i s m p t))"
  "header_valid (msg_header (create_response i p e))" "header_valid (msg_header (create_error i e t'))"
  by (simp_all add: msg_has_type_def create_request_def create_response_def create_error_def
      header_init_def header_valid_def)

text \<open>
  C8. A request survives the wire: what the client creates and serializes, the server deserializes into
  the same message, whatever padding the compiler left in the metadata and whatever bytes follow in the
  receive buffer, as long as the lengths fit their 32-bit fields.
\<close>

theorem request_roundtrip:
  assumes "length pad = 4" and "wire_fits (create_request now i s m p t)"
  shows "\<exists>bs. RpcMessage_serialize pad (create_request now i s m p t) = Some bs \<and>
    RpcMessage_deserialize (bs @ junk) (length bs) RpcMessage_default =
      Inr (True, (create_request now i s m p t)\<lparr>msg_header := wire_header (create_request now i s m p t)\<rparr>)"
proof -
  let ?msg = "create_request now i s m p t"
  have "RpcMessage_deserialize (wire_image pad ?msg @ junk) (length (wire_image pad ?msg)) RpcMessage_default =
      Inr (True, ?msg\<lparr>msg_header := wire_header ?msg\<rparr>)"
    using deserialize_image [OF created_simps(6) assms(2,1)] created_simps(1)
      deserialize_request_image [OF created_simps(1) assms(2,1)]
    by (simp add: create_request_def RpcMessage_default_def)
  then show ?thesis using serialize_image [OF assms(1)] by blast
qed

theorem request_roundtrip_witness:
  "\<exists>bs. RpcMessage_serialize [1, 2, 3, 4] (create_request 5 1 [67] [97] [42] 30000) = Some bs \<and>
    RpcMessage_deserialize (bs @ [9, 9]) (length bs) RpcMessage_default =
      Inr (True, (create_request 5 1 [67] [97] [42] 30000)
        \<lparr>msg_header := wire_header (create_request 5 1 [67] [97] [42] 30000)\<rparr>)"
  by (rule request_roundtrip)
    (simp_all add: wire_fits_def msg_meta_size_def created_simps create_request_def RpcMessage_default_def)

text \<open>
  C19. Responses and error responses survive the wire in the same way: the client reads back the request
  id, the error code, the error text and the payload the server sent.
\<close>

theorem response_roundtrip:
  assumes "length pad = 4" and "msg = create_response i p e \<or> msg = create_error i e t" and "wire_fits msg"
  shows "\<exists>bs. RpcMessage_serialize pad msg = Some bs \<and>
    RpcMessage_deserialize (bs @ junk) (length bs) RpcMessage_default =
      Inr (True, msg\<lparr>msg_header := wire_header msg\<rparr>)"
proof -
  have k: "\<not> msg_has_type msg MT_Request" "msg_has_type msg MT_Response" "header_valid (msg_header msg)"
    using assms(2) created_simps by auto
  have "RpcMessage_deserialize (wire_image pad msg @ junk) (length (wire_image pad msg)) RpcMessage_default =
      Inr (True, msg\<lparr>msg_header := wire_header msg\<rparr>)"
    using deserialize_image [OF k(3) assms(3,1)] k deserialize_response_image [OF k(1) assms(3)] assms(2)
    by (auto simp: create_response_def create_error_def RpcMessage_default_def)
  then show ?thesis using serialize_image [OF assms(1)] by blast
qed

theorem response_roundtrip_witness:
  "\<exists>bs. RpcMessage_serialize [0, 0, 0, 0] (create_response 1 [42] EC_OK) = Some bs \<and>
    RpcMessage_deserialize (bs @ []) (length bs) RpcMessage_default =
      Inr (True, (create_response 1 [42] EC_OK)\<lparr>msg_header := wire_header (create_response 1 [42] EC_OK)\<rparr>)"
  by (rule response_roundtrip [where i = 1 and p = "[42]" and e = EC_OK and t = "[]"])
    (simp_all add: wire_fits_def msg_meta_size_def created_simps create_response_def RpcMessage_default_def)

text \<open>
  C29. On a framed packet \<open>deserialize\<close> is safe: it never reads outside the receive buffer, and it does not
  look at any byte beyond the size it was given.
\<close>

theorem deserialize_framed_safe:
  assumes "meta_framed mem" and "sz \<le> length mem"
  shows "\<not> isl (RpcMessage_deserialize mem sz m0) \<and>
    RpcMessage_deserialize (take sz mem) sz m0 = RpcMessage_deserialize mem sz m0"
  using deserialize_within [OF assms] by (simp add: within_def)

lemma meta_framed_image:
  assumes "wire_fits msg" and "length pad = 4"
  shows "meta_framed (wire_image pad msg @ junk)"
proof -
  have h: "header_of_bytes (take 16 (wire_image pad msg @ junk)) = wire_header msg"
    by (simp add: wire_image_def)
  have u: "unat (hdr_meta_len (wire_header msg)) = msg_meta_size msg"
    using assms(1) by (simp add: wire_fits_def)
  show ?thesis
  proof (cases "msg_has_type msg MT_Request")
    case True
    then have m: "take 32 (drop 16 (wire_image pad msg @ junk)) = request_meta_bytes pad (wire_request_meta msg)"
      using assms(2) by (simp add: wire_image_def wire_meta_def)
    show ?thesis
      using assms True unfolding meta_framed_def h m Let_def u
      by (simp add: msg_has_type_def wire_request_meta_def wire_fits_def msg_meta_size_def)
  next
    case False
    then have m: "take 16 (drop 16 (wire_image pad msg @ junk)) = response_meta_bytes (wire_response_meta msg)"
      by (simp add: wire_image_def wire_meta_def)
    show ?thesis
      using assms False unfolding meta_framed_def h m Let_def u
      by (simp add: msg_has_type_def wire_response_meta_def wire_fits_def msg_meta_size_def)
  qed
qed

theorem deserialize_framed_safe_witness:
  "\<not> isl (RpcMessage_deserialize (wire_image [0, 0, 0, 0] (create_response 1 [42] EC_OK)) 33 RpcMessage_default) \<and>
    RpcMessage_deserialize (take 33 (wire_image [0, 0, 0, 0] (create_response 1 [42] EC_OK))) 33 RpcMessage_default =
    RpcMessage_deserialize (wire_image [0, 0, 0, 0] (create_response 1 [42] EC_OK)) 33 RpcMessage_default"
  using meta_framed_image [of "create_response 1 [42] EC_OK" "[0, 0, 0, 0]" "[]"]
  by (intro deserialize_framed_safe)
    (simp_all add: wire_fits_def length_wire_image msg_meta_size_def created_simps create_response_def
      RpcMessage_default_def)

text \<open>
  Nothing else protects the receiver. A 16-byte packet with a valid header that announces no metadata
  passes every check of \<open>deserialize\<close>, which then reads metadata that was never received: outside the
  buffer if there is nothing behind it, and otherwise it takes the stale bytes for metadata and copies
  as many of the bytes that follow as they claim into the service name.
\<close>

theorem deserialize_overreads:
  assumes "length secret < 2 ^ 32" and "length pad = 4"
  shows "RpcMessage_deserialize (header_bytes (header_init MT_Request)) 16 m0 = Inl OutOfBoundsRead \<and>
    RpcMessage_deserialize
      (header_bytes (header_init MT_Request) @
       request_meta_bytes pad \<lparr>rm_request_id = i, rm_timestamp = ts, rm_timeout_ms = tm,
         rm_service_len = of_nat (length secret), rm_method_len = 0\<rparr> @ secret) 16 RpcMessage_default =
    Inr (True, RpcMessage_default\<lparr>msg_header := header_init MT_Request, msg_request_id := i,
      msg_timestamp := ts, msg_timeout_ms := tm, msg_service := secret\<rparr>)"
proof -
  let ?h = "header_init MT_Request"
  let ?m = "request_meta_bytes pad \<lparr>rm_request_id = i, rm_timestamp = ts, rm_timeout_ms = tm,
         rm_service_len = of_nat (length secret), rm_method_len = 0\<rparr>"
  have v: "header_valid ?h" "RpcMessage_total_size (m\<lparr>msg_header := ?h\<rparr>) = 16"
    "msg_has_type (m\<lparr>msg_header := ?h\<rparr>) MT_Request" for m
    by (simp_all add: header_init_def header_valid_def RpcMessage_total_size_def msg_has_type_def)
  have "deserialize_request (header_bytes ?h) m = Inl OutOfBoundsRead" for m
    by (simp add: deserialize_request_def fetch_def mem_read_def)
  then have 1: "RpcMessage_deserialize (header_bytes ?h) 16 m0 = Inl OutOfBoundsRead"
    using deserialize_after_header [of ?h m0 16 "[]"] v by simp
  have f1: "fetch (header_bytes ?h @ ?m @ secret) 16 32 = Inr ?m"
    by (rule fetch_append) (simp_all add: assms(2))
  have f2: "fetch (header_bytes ?h @ ?m @ secret) (16 + 32) (length secret) = Inr secret"
    using fetch_append [of "16 + 32" "header_bytes ?h @ ?m" "length secret" secret "[]"] assms(2) by simp
  have f3: "fetch (header_bytes ?h @ ?m @ secret) (16 + 32 + length secret) 0 = Inr []"
    using assms(2) by (simp add: fetch_Inr_iff)
  have "deserialize_request (header_bytes ?h @ ?m @ secret) (RpcMessage_default\<lparr>msg_header := ?h\<rparr>) =
      Inr (True, RpcMessage_default\<lparr>msg_header := ?h, msg_request_id := i,
        msg_timestamp := ts, msg_timeout_ms := tm, msg_service := secret\<rparr>)"
    unfolding deserialize_request_def f1 rbind.simps request_meta_of_bytes_bytes Let_def
    using f2 f3 assms(1) by (simp add: deserialize_payload_def header_init_def RpcMessage_default_def)
  then show ?thesis
    using 1 deserialize_after_header [of ?h RpcMessage_default 16 "?m @ secret"] v by simp
qed

theorem deserialize_overreads_witness:
  "RpcMessage_deserialize (header_bytes (header_init MT_Request)) 16 RpcMessage_default = Inl OutOfBoundsRead \<and>
    RpcMessage_deserialize
      (header_bytes (header_init MT_Request) @
       request_meta_bytes [0, 0, 0, 0] \<lparr>rm_request_id = 1, rm_timestamp = 2, rm_timeout_ms = 3,
         rm_service_len = of_nat (length [1, 2, 3 :: byte]), rm_method_len = 0\<rparr> @ [1, 2, 3]) 16 RpcMessage_default =
    Inr (True, RpcMessage_default\<lparr>msg_header := header_init MT_Request, msg_request_id := 1,
      msg_timestamp := 2, msg_timeout_ms := 3, msg_service := [1, 2, 3]\<rparr>)"
  by (rule deserialize_overreads) simp_all

text \<open>
  Messages of the other types (heartbeat, error, stream) are written with response metadata but read
  back without it: the receiver keeps its own request id and takes the first bytes of the metadata for
  the payload.
\<close>

theorem other_types_misread:
  assumes "length pad = 4" and "\<not> msg_has_type msg MT_Request" and "\<not> msg_has_type msg MT_Response"
    and "header_valid (msg_header msg)" and "wire_fits msg" and "msg_payload msg \<noteq> []"
  shows "\<exists>bs. RpcMessage_serialize pad msg = Some bs \<and>
    RpcMessage_deserialize (bs @ junk) (length bs) m0 =
      Inr (True, m0\<lparr>msg_header := wire_header msg,
        msg_payload := take (length (msg_payload msg))
          (response_meta_bytes (wire_response_meta msg) @ msg_error_message msg @ msg_payload msg)\<rparr>)"
proof -
  let ?p = "msg_payload msg" and ?h = "header_bytes (wire_header msg)"
  let ?t = "response_meta_bytes (wire_response_meta msg) @ msg_error_message msg @ ?p"
  have img: "wire_image pad msg @ junk = ?h @ take (length ?p) ?t @ drop (length ?p) ?t @ junk"
  proof -
    have "wire_image pad msg @ junk = ?h @ ?t @ junk" using assms(2) by (simp add: wire_image_def wire_meta_def)
    then show ?thesis by (metis append_assoc append_take_drop_id)
  qed
  have small: "length ?p < 2 ^ 32" using assms(5) by (simp add: wire_fits_def)
  have f: "fetch (wire_image pad msg @ junk) 16 (length ?p) = Inr (take (length ?p) ?t)"
    unfolding img by (rule fetch_append) simp_all
  have "RpcMessage_deserialize (wire_image pad msg @ junk) (length (wire_image pad msg)) m0 =
      Inr (True, m0\<lparr>msg_header := wire_header msg, msg_payload := take (length ?p) ?t\<rparr>)"
    using deserialize_image [OF assms(4,5,1)] assms(2,3,6) small f
    by (simp add: deserialize_payload_def Let_def)
  then show ?thesis using serialize_image [OF assms(1)] by blast
qed

definition heartbeat_example :: RpcMessage where
  "heartbeat_example = (create_response 77 [1, 2] EC_OK)\<lparr>msg_header := header_init MT_Heartbeat\<rparr>"

theorem other_types_misread_witness:
  "\<exists>bs. RpcMessage_serialize [0, 0, 0, 0] heartbeat_example = Some bs \<and>
    RpcMessage_deserialize (bs @ []) (length bs) RpcMessage_default =
      Inr (True, RpcMessage_default\<lparr>msg_header := wire_header heartbeat_example,
        msg_payload := take (length (msg_payload heartbeat_example))
          (response_meta_bytes (wire_response_meta heartbeat_example) @ msg_error_message heartbeat_example @
           msg_payload heartbeat_example)\<rparr>)"
  by (rule other_types_misread)
    (simp_all add: heartbeat_example_def msg_has_type_def header_init_def header_valid_def wire_fits_def
      msg_meta_size_def create_response_def RpcMessage_default_def)

end
