(* ===== verification/Rpc_Registry.thy ===== *)
theory Rpc_Registry
  imports Rpc_Prelude
begin

text \<open>
  The service registry of \<open>rpc/service_registry.hpp\<close>. A \<open>MethodHandler\<close> is a \<open>std::function\<close>, which may
  be empty, so a stored handler is an option; \<open>find_method\<close> answers \<open>nullptr\<close> (\<open>None\<close>) both for a missing
  entry and for an empty handler. The handlers themselves are a type parameter. The reader/writer lock
  makes every operation atomic.
\<close>

section \<open>State and operations\<close>

record 'h ServiceInfo =
  si_name :: bytes
  si_methods :: "(bytes, 'h option) umap"
  si_descriptions :: "(bytes, bytes) umap"

type_synonym 'h registry = "(bytes, 'h ServiceInfo) umap"

definition ServiceInfo_named :: "bytes \<Rightarrow> 'h ServiceInfo" where
  "ServiceInfo_named name = \<lparr>si_name = name, si_methods = [], si_descriptions = []\<rparr>"

definition register_service :: "'h registry \<Rightarrow> bytes \<Rightarrow> 'h registry" where
  "register_service reg name = um_put reg name (ServiceInfo_named name)"

text \<open>A \<open>ServiceRegistrar\<close> registers a service when it is constructed.\<close>

definition ServiceRegistrar_ctor :: "bytes \<Rightarrow> 'h registry \<Rightarrow> 'h registry" where
  "ServiceRegistrar_ctor name reg = register_service reg name"

definition register_method ::
  "'h registry \<Rightarrow> bytes \<Rightarrow> bytes \<Rightarrow> 'h option \<Rightarrow> bytes \<Rightarrow> 'h registry" where
  "register_method reg service_name method_name handler description =
     (let reg' = (case um_find reg service_name of
                    None \<Rightarrow> um_put reg service_name (ServiceInfo_named service_name)
                  | Some _ \<Rightarrow> reg);
          info = the (um_find reg' service_name);
          info' = info\<lparr>si_methods := um_put (si_methods info) method_name handler\<rparr>;
          info'' = (if description \<noteq> []
                    then info'\<lparr>si_descriptions := um_put (si_descriptions info') method_name description\<rparr>
                    else info')
      in um_put reg' service_name info'')"

definition unregister_service :: "'h registry \<Rightarrow> bytes \<Rightarrow> 'h registry" where
  "unregister_service reg name = um_erase reg name"

definition find_method :: "'h registry \<Rightarrow> bytes \<Rightarrow> bytes \<Rightarrow> 'h option" where
  "find_method reg service_name method_name =
     (case um_find reg service_name of
        None \<Rightarrow> None
      | Some info \<Rightarrow> (case um_find (si_methods info) method_name of None \<Rightarrow> None | Some handler \<Rightarrow> handler))"

definition has_service :: "'h registry \<Rightarrow> bytes \<Rightarrow> bool" where
  "has_service reg name \<longleftrightarrow> um_find reg name \<noteq> None"

definition has_method :: "'h registry \<Rightarrow> bytes \<Rightarrow> bytes \<Rightarrow> bool" where
  "has_method reg service_name method_name =
     (case um_find reg service_name of
        None \<Rightarrow> False
      | Some info \<Rightarrow> um_find (si_methods info) method_name \<noteq> None)"

definition list_services :: "'h registry \<Rightarrow> bytes list" where
  "list_services reg = map fst reg"

definition list_methods :: "'h registry \<Rightarrow> bytes \<Rightarrow> bytes list" where
  "list_methods reg service_name =
     (case um_find reg service_name of None \<Rightarrow> [] | Some info \<Rightarrow> map fst (si_methods info))"

definition get_service_info :: "'h registry \<Rightarrow> bytes \<Rightarrow> 'h ServiceInfo option" where
  "get_service_info reg name = um_find reg name"

section \<open>Invariant\<close>

text \<open>Keys are unique, and every service is stored under its own name.\<close>

definition registry_ok :: "'h registry \<Rightarrow> bool" where
  "registry_ok reg \<longleftrightarrow> um_ok reg \<and>
     list_all (\<lambda>(name, info). si_name info = name \<and> um_ok (si_methods info) \<and> um_ok (si_descriptions info)) reg"

lemma registry_ok_find:
  "registry_ok reg \<Longrightarrow> um_find reg s = Some info \<Longrightarrow>
   si_name info = s \<and> um_ok (si_methods info) \<and> um_ok (si_descriptions info)"
  by (force simp: registry_ok_def list_all_iff dest: map_of_SomeD)

lemma registry_ok_put:
  assumes "registry_ok reg" "si_name info = s" "um_ok (si_methods info)" "um_ok (si_descriptions info)"
  shows "registry_ok (um_put reg s info)"
proof -
  have "set (um_put reg s info) \<subseteq> insert (s, info) (set reg)"
    by (induction reg) auto
  then show ?thesis using assms by (auto simp: registry_ok_def list_all_iff)
qed

lemma registry_ok_ops:
  "registry_ok []"
  "registry_ok reg \<Longrightarrow> registry_ok (register_service reg s)"
  "registry_ok reg \<Longrightarrow> registry_ok (unregister_service reg s)"
proof -
  show "registry_ok []" by (simp add: registry_ok_def)
  show "registry_ok reg \<Longrightarrow> registry_ok (register_service reg s)"
    by (auto simp: register_service_def ServiceInfo_named_def intro: registry_ok_put)
  show "registry_ok reg \<Longrightarrow> registry_ok (unregister_service reg s)"
    by (auto simp: registry_ok_def unregister_service_def list_all_iff AList.delete_eq distinct_map_filter)
qed

lemma registry_ok_register_method:
  assumes "registry_ok reg"
  shows "registry_ok (register_method reg s m h d)"
proof -
  let ?r = "case um_find reg s of None \<Rightarrow> um_put reg s (ServiceInfo_named s) | Some _ \<Rightarrow> reg"
  have r: "registry_ok ?r"
    using assms by (auto simp: ServiceInfo_named_def intro!: registry_ok_put split: option.splits)
  obtain info where i: "um_find ?r s = Some info" by (cases "um_find reg s") auto
  from registry_ok_find [OF r i] show ?thesis
    using r i by (auto simp: register_method_def Let_def intro!: registry_ok_put)
qed

section \<open>The interface: a table of methods\<close>

text \<open>What the server relies on when it looks up the handler of a request.\<close>

fun register_all :: "('r \<Rightarrow> 's \<Rightarrow> 'm \<Rightarrow> 'h option \<Rightarrow> 'd \<Rightarrow> 'r) \<Rightarrow> 'r \<Rightarrow> ('s \<times> 'm \<times> 'h option \<times> 'd) list \<Rightarrow> 'r" where
  "register_all reg r [] = r"
| "register_all reg r ((s, m, h, d) # es) = register_all reg (reg r s m h d) es"

locale method_table =
  fixes find :: "'r \<Rightarrow> 's \<Rightarrow> 'm \<Rightarrow> 'h option"
    and reg :: "'r \<Rightarrow> 's \<Rightarrow> 'm \<Rightarrow> 'h option \<Rightarrow> 'd \<Rightarrow> 'r"
    and unreg :: "'r \<Rightarrow> 's \<Rightarrow> 'r"
    and inv :: "'r \<Rightarrow> bool"
  assumes find_reg: "find (reg r s m h d) s' m' = (if s' = s \<and> m' = m then h else find r s' m')"
    and find_unreg: "find (unreg r s) s' m' = (if s' = s then None else find r s' m')"
    and inv_reg: "inv r \<Longrightarrow> inv (reg r s m h d)"
    and inv_unreg: "inv r \<Longrightarrow> inv (unreg r s)"
begin

lemma inv_register_all: "inv r \<Longrightarrow> inv (register_all reg r es)"
  by (induction es arbitrary: r) (auto simp: inv_reg)

text \<open>The last registration of a method wins.\<close>

lemma find_register_all:
  "find (register_all reg r es) s m =
     (case map_of (map (\<lambda>(s, m, h, d). ((s, m), h)) (rev es)) (s, m) of Some h \<Rightarrow> h | None \<Rightarrow> find r s m)"
proof (induction es arbitrary: r)
  case Nil
  then show ?case by simp
next
  case (Cons e es)
  obtain s1 m1 h1 d1 where e: "e = (s1, m1, h1, d1)" by (cases e)
  show ?case using Cons.IH [of "reg r s1 m1 h1 d1"]
    by (auto simp: e find_reg map_add_def split: option.splits)
qed

end

interpretation registry: method_table find_method register_method unregister_service registry_ok
proof unfold_locales
  fix r :: "'h registry" and s m h d s' m'
  show "find_method (register_method r s m h d) s' m' = (if s' = s \<and> m' = m then h else find_method r s' m')"
    by (auto simp: find_method_def register_method_def ServiceInfo_named_def Let_def split: option.splits)
next
  fix r :: "'h registry" and s s' m'
  show "find_method (unregister_service r s) s' m' = (if s' = s then None else find_method r s' m')"
    by (simp add: find_method_def unregister_service_def)
qed (simp_all add: registry_ok_register_method registry_ok_ops)

section \<open>Properties\<close>

text \<open>
  After any sequence of registrations, looking a method up returns the handler of its last
  registration, an unregistered service answers nothing, and everything else is as it was before.
\<close>

theorem find_method_last_registration:
  "find_method (register_all register_method reg es) s m =
     (case map_of (map (\<lambda>(s, m, h, d). ((s, m), h)) (rev es)) (s, m) of Some h \<Rightarrow> h | None \<Rightarrow> find_method reg s m) \<and>
   find_method (unregister_service reg s') s m = (if s = s' then None else find_method reg s m)"
  using registry.find_register_all [of reg es s m] registry.find_unreg [of reg s' s m] by simp

text \<open>
  \<open>register_service\<close> replaces the service: methods registered before it are gone, other services keep
  theirs.
\<close>

theorem register_service_resets:
  "find_method (register_service reg s) s' m = (if s' = s then None else find_method reg s' m) \<and>
   list_methods (register_service reg s) s' = (if s' = s then [] else list_methods reg s') \<and>
   has_service (register_service reg s) s' = (s' = s \<or> has_service reg s')"
  by (simp add: find_method_def register_service_def list_methods_def has_service_def ServiceInfo_named_def)

text \<open>
  The listings agree with the lookups in every registry the operations can build: each service and
  each method is listed exactly once, a method is listed iff \<open>has_method\<close> holds, and a method that
  \<open>find_method\<close> finds is listed.
\<close>

theorem registry_listings:
  assumes "registry_ok reg"
  shows "distinct (list_services reg) \<and> distinct (list_methods reg s) \<and>
    (s \<in> set (list_services reg) \<longleftrightarrow> has_service reg s) \<and>
    (m \<in> set (list_methods reg s) \<longleftrightarrow> has_method reg s m) \<and>
    (find_method reg s m \<noteq> None \<longrightarrow> m \<in> set (list_methods reg s))"
proof -
  have "distinct (list_methods reg s)"
    using registry_ok_find [OF assms, of s] by (auto simp: list_methods_def split: option.splits)
  moreover have "distinct (list_services reg)" using assms by (simp add: registry_ok_def list_services_def)
  moreover have "s \<in> set (list_services reg) \<longleftrightarrow> has_service reg s"
    using um_keys [of reg] by (simp add: list_services_def has_service_def)
  moreover have "m \<in> set (list_methods reg s) \<longleftrightarrow> has_method reg s m"
    using um_keys by (auto simp: list_methods_def has_method_def split: option.splits) force+
  moreover have "find_method reg s m \<noteq> None \<longrightarrow> has_method reg s m"
    by (auto simp: find_method_def has_method_def split: option.splits)
  ultimately show ?thesis by blast
qed

theorem registry_listings_witness:
  "distinct (list_services (register_method [] [67] [97] (Some ()) [])) \<and>
    distinct (list_methods (register_method [] [67] [97] (Some ()) []) [67]) \<and>
    ([67] \<in> set (list_services (register_method [] [67] [97] (Some ()) [])) \<longleftrightarrow>
      has_service (register_method [] [67] [97] (Some ()) []) [67]) \<and>
    ([97] \<in> set (list_methods (register_method [] [67] [97] (Some ()) []) [67]) \<longleftrightarrow>
      has_method (register_method [] [67] [97] (Some ()) []) [67] [97]) \<and>
    find_method (register_method [] [67] [97] (Some ()) []) [67] [97] = Some () \<and>
    [97] \<in> set (list_methods (register_method [] [67] [97] (Some ()) []) [67])"
proof -
  have "find_method (register_method [] [67] [97] (Some ()) []) [67] [97] = Some ()" by code_simp
  then show ?thesis
    using registry_listings [OF registry_ok_register_method [OF registry_ok_ops(1)],
        of "[67]" "[97]" "Some ()" "[]" "[67]" "[97]"] by auto
qed

end
