(* ===== verification/Rpc_LoadBalance.thy ===== *)
theory Rpc_LoadBalance
  imports Rpc_Prelude
begin

text \<open>
  The load balancers of \<open>rpc/loadbalance/load_balancer.hpp\<close> and the static service discovery of
  \<open>rpc/registry/service_discovery.hpp\<close>. The atomic counters \<open>current_\<close> are 64-bit words, so
  \<open>fetch_add\<close> wraps as in the code. The random engine and \<open>std::uniform_int_distribution\<close> are a
  parameter \<open>dist\<close>: \<open>dist hi g\<close> is the number drawn from \<open>0..hi\<close> and the next engine state.
\<close>

section \<open>Endpoints\<close>

record Endpoint =
  ep_host :: bytes
  ep_port :: u16
  ep_weight :: int
  ep_healthy :: bool

section \<open>Round robin\<close>

record RoundRobin =
  rr_endpoints :: "Endpoint list"
  rr_current :: size_t

definition rr_update :: "RoundRobin \<Rightarrow> Endpoint list \<Rightarrow> RoundRobin" where
  "rr_update lb endpoints = lb\<lparr>rr_endpoints := endpoints, rr_current := 0\<rparr>"

definition rr_select :: "RoundRobin \<Rightarrow> Endpoint option \<times> RoundRobin" where
  "rr_select lb =
     (if rr_endpoints lb = [] then (None, lb)
      else let idx = unat (rr_current lb) mod length (rr_endpoints lb)
           in (Some (rr_endpoints lb ! idx), lb\<lparr>rr_current := rr_current lb + 1\<rparr>))"

section \<open>Weighted round robin\<close>

record WeightedRoundRobin =
  wrr_endpoints :: "Endpoint list"
  wrr_weighted_indices :: "nat list"
  wrr_current :: size_t

fun wrr_build :: "nat \<Rightarrow> Endpoint list \<Rightarrow> nat list" where
  "wrr_build i [] = []"
| "wrr_build i (ep # eps) = replicate (nat (max 1 (ep_weight ep))) i @ wrr_build (Suc i) eps"

definition wrr_update :: "WeightedRoundRobin \<Rightarrow> Endpoint list \<Rightarrow> WeightedRoundRobin" where
  "wrr_update lb endpoints =
     lb\<lparr>wrr_endpoints := endpoints, wrr_current := 0, wrr_weighted_indices := wrr_build 0 endpoints\<rparr>"

definition wrr_select :: "WeightedRoundRobin \<Rightarrow> Endpoint option \<times> WeightedRoundRobin" where
  "wrr_select lb =
     (if wrr_weighted_indices lb = [] then (None, lb)
      else let idx = unat (wrr_current lb) mod length (wrr_weighted_indices lb)
           in (Some (wrr_endpoints lb ! (wrr_weighted_indices lb ! idx)), lb\<lparr>wrr_current := wrr_current lb + 1\<rparr>))"

section \<open>Random\<close>

record 'g RandomBalancer =
  rb_endpoints :: "Endpoint list"
  rb_rng :: 'g

definition rb_update :: "'g RandomBalancer \<Rightarrow> Endpoint list \<Rightarrow> 'g RandomBalancer" where
  "rb_update lb endpoints = lb\<lparr>rb_endpoints := endpoints\<rparr>"

definition rb_select :: "(nat \<Rightarrow> 'g \<Rightarrow> nat \<times> 'g) \<Rightarrow> 'g RandomBalancer \<Rightarrow> Endpoint option \<times> 'g RandomBalancer" where
  "rb_select dist lb =
     (if rb_endpoints lb = [] then (None, lb)
      else let (i, g') = dist (length (rb_endpoints lb) - 1) (rb_rng lb)
           in (Some (rb_endpoints lb ! i), lb\<lparr>rb_rng := g'\<rparr>))"

section \<open>Static service discovery\<close>

record 'cb StaticServiceDiscovery =
  sd_services :: "(bytes, Endpoint list) umap"
  sd_callback :: "'cb option"

definition sd_add_endpoint :: "'cb StaticServiceDiscovery \<Rightarrow> bytes \<Rightarrow> Endpoint \<Rightarrow> 'cb StaticServiceDiscovery" where
  "sd_add_endpoint sd service ep =
     sd\<lparr>sd_services := um_put (sd_services sd) service
          ((case um_find (sd_services sd) service of None \<Rightarrow> [] | Some eps \<Rightarrow> eps) @ [ep])\<rparr>"

definition sd_discover :: "'cb StaticServiceDiscovery \<Rightarrow> bytes \<Rightarrow> Endpoint list" where
  "sd_discover sd service =
     (case um_find (sd_services sd) service of Some eps \<Rightarrow> eps | None \<Rightarrow> [])"

definition sd_register_service :: "'cb StaticServiceDiscovery \<Rightarrow> bytes \<Rightarrow> Endpoint \<Rightarrow> 'cb StaticServiceDiscovery" where
  "sd_register_service sd service endpoint = sd_add_endpoint sd service endpoint"

definition sd_deregister_service :: "'cb StaticServiceDiscovery \<Rightarrow> bytes \<Rightarrow> Endpoint \<Rightarrow> 'cb StaticServiceDiscovery" where
  "sd_deregister_service sd service endpoint =
     (case um_find (sd_services sd) service of
        None \<Rightarrow> sd
      | Some eps \<Rightarrow>
          sd\<lparr>sd_services := um_put (sd_services sd) service
               (filter (\<lambda>ep. \<not> (ep_host ep = ep_host endpoint \<and> ep_port ep = ep_port endpoint)) eps)\<rparr>)"

definition sd_set_callback :: "'cb StaticServiceDiscovery \<Rightarrow> 'cb option \<Rightarrow> 'cb StaticServiceDiscovery" where
  "sd_set_callback sd cb = sd\<lparr>sd_callback := cb\<rparr>"

section \<open>The interface of a load balancer\<close>

text \<open>\<open>selects\<close> is a run of \<open>n\<close> calls of \<open>select\<close>.\<close>

fun selects :: "('s \<Rightarrow> 'e option \<times> 's) \<Rightarrow> 's \<Rightarrow> nat \<Rightarrow> 'e option list" where
  "selects sel s 0 = []"
| "selects sel s (Suc n) = fst (sel s) # selects sel (snd (sel s)) n"

locale load_balancer =
  fixes upd :: "'s \<Rightarrow> Endpoint list \<Rightarrow> 's"
    and sel :: "'s \<Rightarrow> Endpoint option \<times> 's"
    and eps :: "'s \<Rightarrow> Endpoint list"
    and inv :: "'s \<Rightarrow> bool"
  assumes inv_upd: "inv (upd s es)"
    and eps_upd: "eps (upd s es) = es"
    and sel_empty: "inv s \<Longrightarrow> eps s = [] \<Longrightarrow> fst (sel s) = None"
    and sel_member: "inv s \<Longrightarrow> eps s \<noteq> [] \<Longrightarrow> \<exists>e \<in> set (eps s). fst (sel s) = Some e"
    and sel_frame: "inv s \<Longrightarrow> inv (snd (sel s)) \<and> eps (snd (sel s)) = eps s"
begin

lemma selects_members:
  "inv s \<Longrightarrow> set (selects sel s n) \<subseteq> (if eps s = [] then {None} else Some ` set (eps s))"
proof (induction n arbitrary: s)
  case 0
  then show ?case by simp
next
  case (Suc n)
  from sel_frame [OF Suc.prems] have "set (selects sel (snd (sel s)) n) \<subseteq>
      (if eps s = [] then {None} else Some ` set (eps s))"
    using Suc.IH [of "snd (sel s)"] by (auto split: if_splits)
  then show ?case using sel_empty [OF Suc.prems] sel_member [OF Suc.prems] by auto
qed

lemma selects_after_update:
  "set (selects sel (upd s es) n) \<subseteq> (if es = [] then {None} else Some ` set es)"
  using selects_members [OF inv_upd] eps_upd by metis

end

interpretation rr: load_balancer rr_update rr_select rr_endpoints "\<lambda>_. True"
  by unfold_locales (auto simp: rr_update_def rr_select_def Let_def)

lemma wrr_build_range: "i \<in> set (wrr_build k es) \<Longrightarrow> k \<le> i \<and> i < k + length es"
  by (induction k es rule: wrr_build.induct) auto

lemma wrr_build_Nil_iff [simp]: "wrr_build k es = [] \<longleftrightarrow> es = []"
  by (cases es) auto

definition wrr_ok :: "WeightedRoundRobin \<Rightarrow> bool" where
  "wrr_ok lb \<longleftrightarrow> wrr_weighted_indices lb = wrr_build 0 (wrr_endpoints lb)"

interpretation wrr: load_balancer wrr_update wrr_select wrr_endpoints wrr_ok
proof unfold_locales
  fix s assume s: "wrr_ok s" "wrr_endpoints s \<noteq> []"
  let ?i = "wrr_weighted_indices s ! (unat (wrr_current s) mod length (wrr_weighted_indices s))"
  have "wrr_weighted_indices s \<noteq> []" using s by (simp add: wrr_ok_def)
  then have "?i \<in> set (wrr_build 0 (wrr_endpoints s))" using s by (simp add: wrr_ok_def)
  then have "?i < length (wrr_endpoints s)" using wrr_build_range by fastforce
  then show "\<exists>e \<in> set (wrr_endpoints s). fst (wrr_select s) = Some e"
    using \<open>wrr_weighted_indices s \<noteq> []\<close> by (simp add: wrr_select_def Let_def)
qed (auto simp: wrr_update_def wrr_select_def wrr_ok_def Let_def)

text \<open>A generator that respects its bounds gives a load balancer.\<close>

lemma rb_load_balancer:
  assumes "\<And>hi g. fst (dist hi g) \<le> hi"
  shows "load_balancer rb_update (rb_select dist) rb_endpoints (\<lambda>_. True)"
proof
  fix s :: "'a RandomBalancer" assume "rb_endpoints s \<noteq> []"
  moreover from this have "fst (dist (length (rb_endpoints s) - 1) (rb_rng s)) < length (rb_endpoints s)"
    using assms [of "length (rb_endpoints s) - 1" "rb_rng s"] by (cases "rb_endpoints s") auto
  ultimately show "\<exists>e \<in> set (rb_endpoints s). fst (rb_select dist s) = Some e"
    by (auto simp: rb_select_def split: prod.split)
qed (auto simp: rb_update_def rb_select_def split: prod.splits)

text \<open>A concrete generator: a counter reduced to the range.\<close>

definition counter_dist :: "nat \<Rightarrow> nat \<Rightarrow> nat \<times> nat" where
  "counter_dist hi g = (g mod Suc hi, Suc g)"

interpretation rb: load_balancer rb_update "rb_select counter_dist" rb_endpoints "\<lambda>_. True"
  by (rule rb_load_balancer) (simp add: counter_dist_def mod_Suc_le_divisor)

section \<open>Cycles\<close>

lemma cycle_map:
  "map (\<lambda>k. xs ! (k mod length xs)) [0..<m * length xs] = concat (replicate m xs)"
proof (induction m)
  case 0
  then show ?case by simp
next
  case (Suc m)
  have "[0..<Suc m * length xs] = [0..<m * length xs] @ map (\<lambda>j. j + m * length xs) [0..<length xs]"
    using upt_add_eq_append [of 0 "m * length xs" "length xs"] map_add_upt [of "m * length xs" "length xs"]
    by (simp add: add.commute)
  moreover have "map (\<lambda>k. xs ! (k mod length xs)) (map (\<lambda>j. j + m * length xs) [0..<length xs]) = xs"
    by (rule nth_equalityI) auto
  ultimately have "map (\<lambda>k. xs ! (k mod length xs)) [0..<Suc m * length xs] = concat (replicate m xs) @ xs"
    by (simp only: map_append Suc.IH)
  also have "\<dots> = concat (replicate (Suc m) xs)"
    using replicate_append_same [of m xs] by (metis append_Cons append_Nil concat.simps concat_append replicate_Suc append_Nil2)
  finally show ?case .
qed

lemma unat_of_nat_64: "c < 2 ^ 64 \<Longrightarrow> unat (of_nat c :: 64 word) = c"
  by simp

lemma rr_selects:
  assumes "rr_endpoints lb \<noteq> []" "rr_current lb = of_nat c" "c + n \<le> 2 ^ 64"
  shows "selects rr_select lb n =
    map (\<lambda>k. Some (rr_endpoints lb ! (k mod length (rr_endpoints lb)))) [c..<c + n]"
  using assms
proof (induction n arbitrary: lb c)
  case 0
  then show ?case by simp
next
  case (Suc n)
  let ?lb = "lb\<lparr>rr_current := rr_current lb + 1\<rparr>"
  have "selects rr_select ?lb n =
      map (\<lambda>k. Some (rr_endpoints ?lb ! (k mod length (rr_endpoints ?lb)))) [Suc c..<Suc c + n]"
    by (rule Suc.IH) (use Suc.prems in auto)
  moreover have "rr_select lb = (Some (rr_endpoints lb ! (c mod length (rr_endpoints lb))), ?lb)"
    using Suc.prems unat_of_nat_64 [of c] by (simp add: rr_select_def)
  ultimately show ?case by (simp add: upt_conv_Cons del: upt_Suc)
qed

lemma wrr_selects:
  assumes "wrr_weighted_indices lb \<noteq> []" "wrr_current lb = of_nat c" "c + n \<le> 2 ^ 64"
  shows "selects wrr_select lb n =
    map (\<lambda>k. Some (wrr_endpoints lb ! (wrr_weighted_indices lb ! (k mod length (wrr_weighted_indices lb))))) [c..<c + n]"
  using assms
proof (induction n arbitrary: lb c)
  case 0
  then show ?case by simp
next
  case (Suc n)
  let ?lb = "lb\<lparr>wrr_current := wrr_current lb + 1\<rparr>"
  have "selects wrr_select ?lb n =
      map (\<lambda>k. Some (wrr_endpoints ?lb ! (wrr_weighted_indices ?lb ! (k mod length (wrr_weighted_indices ?lb)))))
        [Suc c..<Suc c + n]"
    by (rule Suc.IH) (use Suc.prems in auto)
  moreover have "wrr_select lb =
      (Some (wrr_endpoints lb ! (wrr_weighted_indices lb ! (c mod length (wrr_weighted_indices lb)))), ?lb)"
    using Suc.prems unat_of_nat_64 [of c] by (simp add: wrr_select_def)
  ultimately show ?case by (simp add: upt_conv_Cons del: upt_Suc)
qed

lemma wrr_build_endpoints:
  "map ((!) (pre @ es)) (wrr_build (length pre) es) =
     concat (map (\<lambda>e. replicate (nat (max 1 (ep_weight e))) e) es)"
proof (induction es arbitrary: pre)
  case Nil
  then show ?case by simp
next
  case (Cons e es)
  from Cons.IH [of "pre @ [e]"] show ?case by simp
qed

section \<open>Properties\<close>

text \<open>
  Round robin: after an update the endpoints are selected in their order, over and over; every run of
  \<open>m\<close> full cycles serves each endpoint exactly \<open>m\<close> times (until the 64-bit counter wraps).
\<close>

theorem rr_cycles:
  assumes "m * length es \<le> 2 ^ 64"
  shows "selects rr_select (rr_update lb es) (m * length es) = concat (replicate m (map Some es))"
proof (cases "es = []")
  case True
  then show ?thesis by simp
next
  case False
  have "map (\<lambda>k. Some (es ! (k mod length es))) [0..<m * length es] =
      map Some (map (\<lambda>k. es ! (k mod length es)) [0..<m * length es])" by simp
  then show ?thesis
    using rr_selects [of "rr_update lb es" 0 "m * length es"] False assms
    by (simp add: rr_update_def cycle_map map_concat del: map_map)
qed

theorem rr_cycles_witness:
  "selects rr_select
     (rr_update \<lparr>rr_endpoints = [], rr_current = 5\<rparr>
       [\<lparr>ep_host = [97], ep_port = 1, ep_weight = 1, ep_healthy = True\<rparr>,
        \<lparr>ep_host = [98], ep_port = 2, ep_weight = 1, ep_healthy = True\<rparr>])
     (2 * length [\<lparr>ep_host = [97], ep_port = 1, ep_weight = 1, ep_healthy = True\<rparr>,
        \<lparr>ep_host = [98], ep_port = 2, ep_weight = 1, ep_healthy = True\<rparr>]) =
   concat (replicate 2 (map Some
     [\<lparr>ep_host = [97], ep_port = 1, ep_weight = 1, ep_healthy = True\<rparr>,
      \<lparr>ep_host = [98], ep_port = 2, ep_weight = 1, ep_healthy = True\<rparr>]))"
  by (rule rr_cycles) simp

text \<open>
  C38. Weighted round robin: every cycle selects each endpoint as often as its weight says, where a weight
  below one counts as one.
\<close>

theorem wrr_cycles:
  assumes "m * length (wrr_build 0 es) \<le> 2 ^ 64"
  shows "selects wrr_select (wrr_update lb es) (m * length (wrr_build 0 es)) =
    concat (replicate m (concat (map (\<lambda>e. replicate (nat (max 1 (ep_weight e))) (Some e)) es)))"
proof (cases "es = []")
  case True
  then show ?thesis by simp
next
  case False
  let ?ix = "wrr_build 0 es"
  have "map (\<lambda>k. Some (es ! (?ix ! (k mod length ?ix)))) [0..<m * length ?ix] =
      map (\<lambda>i. Some (es ! i)) (map (\<lambda>k. ?ix ! (k mod length ?ix)) [0..<m * length ?ix])" by simp
  also have "\<dots> = concat (replicate m (map Some (map ((!) es) ?ix)))"
    by (simp only: cycle_map map_concat map_replicate map_map comp_def)
  also have "map ((!) es) ?ix = concat (map (\<lambda>e. replicate (nat (max 1 (ep_weight e))) e) es)"
    using wrr_build_endpoints [of "[]" es] by simp
  finally show ?thesis
    using wrr_selects [of "wrr_update lb es" 0 "m * length ?ix"] False assms
    by (simp add: wrr_update_def map_concat comp_def)
qed

theorem wrr_cycles_witness:
  "selects wrr_select
     (wrr_update \<lparr>wrr_endpoints = [], wrr_weighted_indices = [], wrr_current = 0\<rparr>
       [\<lparr>ep_host = [97], ep_port = 1, ep_weight = 2, ep_healthy = True\<rparr>])
     (3 * length (wrr_build 0 [\<lparr>ep_host = [97], ep_port = 1, ep_weight = 2, ep_healthy = True\<rparr>])) =
   concat (replicate 3 (concat (map (\<lambda>e. replicate (nat (max 1 (ep_weight e))) (Some e))
     [\<lparr>ep_host = [97], ep_port = 1, ep_weight = 2, ep_healthy = True\<rparr>])))"
  by (rule wrr_cycles) simp

text \<open>
  Discovery: registering appends the endpoint to its service, deregistering removes every endpoint with
  the same host and port and keeps the order of the others, and other services do not change.
\<close>

theorem discover_after_update:
  "sd_discover (sd_register_service sd s ep) s' = (if s' = s then sd_discover sd s @ [ep] else sd_discover sd s') \<and>
   sd_discover (sd_deregister_service sd s ep) s' =
     (if s' = s then filter (\<lambda>e. \<not> (ep_host e = ep_host ep \<and> ep_port e = ep_port ep)) (sd_discover sd s)
      else sd_discover sd s')"
  by (auto simp: sd_discover_def sd_register_service_def sd_add_endpoint_def sd_deregister_service_def
      split: option.splits)

text \<open>
  A deregistered endpoint is never selected again: whichever of the three balancers is updated from
  the discovery after the deregistration, none of its selections has that host and port.
\<close>

theorem deregistered_never_selected:
  assumes "\<And>hi g. fst (dist hi g) \<le> hi"
    and "Some e \<in> set (selects rr_select (rr_update lb (sd_discover (sd_deregister_service sd s ep) s)) n) \<or>
      Some e \<in> set (selects wrr_select (wrr_update wlb (sd_discover (sd_deregister_service sd s ep) s)) n) \<or>
      Some e \<in> set (selects (rb_select dist) (rb_update rlb (sd_discover (sd_deregister_service sd s ep) s)) n)"
  shows "\<not> (ep_host e = ep_host ep \<and> ep_port e = ep_port ep)"
proof -
  let ?es = "sd_discover (sd_deregister_service sd s ep) s"
  have "e \<in> set ?es"
    using assms(2) rr.selects_after_update [of lb ?es n] wrr.selects_after_update [of wlb ?es n]
      load_balancer.selects_after_update [OF rb_load_balancer [where dist = dist, OF assms(1)], where s = rlb and es = ?es and n = n]
    by (auto split: if_splits)
  then show ?thesis by (auto simp: sd_discover_def sd_deregister_service_def split: option.splits)
qed

text \<open>Two endpoints of one service; after the first is deregistered a round robin selects the second.\<close>

definition ep_a :: Endpoint where
  "ep_a = \<lparr>ep_host = [97], ep_port = 1, ep_weight = 1, ep_healthy = True\<rparr>"

definition ep_b :: Endpoint where
  "ep_b = \<lparr>ep_host = [98], ep_port = 2, ep_weight = 1, ep_healthy = True\<rparr>"

definition sd_ab :: "unit StaticServiceDiscovery" where
  "sd_ab = sd_register_service (sd_register_service \<lparr>sd_services = [], sd_callback = None\<rparr> [115] ep_a) [115] ep_b"

theorem deregistered_never_selected_witness:
  "\<not> (ep_host ep_b = ep_host ep_a \<and> ep_port ep_b = ep_port ep_a)"
  by (rule deregistered_never_selected [where dist = counter_dist and sd = sd_ab and s = "[115]" and n = 1
        and lb = "\<lparr>rr_endpoints = [], rr_current = 0\<rparr>" and e = ep_b and ep = ep_a
        and wlb = "\<lparr>wrr_endpoints = [], wrr_weighted_indices = [], wrr_current = 0\<rparr>"
        and rlb = "\<lparr>rb_endpoints = [], rb_rng = 0\<rparr>"])
    (simp_all add: counter_dist_def mod_Suc_le_divisor sd_ab_def ep_a_def ep_b_def sd_register_service_def
      sd_add_endpoint_def sd_deregister_service_def sd_discover_def rr_select_def rr_update_def)

end
