(* ===== verification/Io_TimingWheel.thy ===== *)
theory Io_TimingWheel
  imports Rpc_Prelude
begin

text \<open>
  The hashed timing wheel of \<open>io/timer.hpp\<close>. Ticks, delays and identifiers are 64-bit words, so the
  arithmetic of \<open>add_timer\<close> wraps as in the code; a division by zero and an index outside the wheel
  are error values. A call under the mutex is one atomic operation. The callbacks of the expired
  timers run after the mutex is released and may call the wheel again: their effect is a parameter
  \<open>run\<close> on the wheel and on the rest of the world.
\<close>

named_theorems wheel_defs \<open>definitions of the timing wheel\<close>

section \<open>The wheel and its operations\<close>

record 'c TimerEntry =
  te_id :: u64
  te_expire_tick :: size_t
  te_callback :: 'c

record 'c TimingWheel =
  tw_slots :: size_t
  tw_tick_ms :: size_t
  tw_current_tick :: size_t
  tw_next_id :: u64
  tw_wheels :: "'c TimerEntry list list"
  tw_timer_slot :: "(u64, size_t) umap"

datatype wheel_error = DivideByZero | BadSlot

definition TimingWheel_ctor :: "size_t \<Rightarrow> size_t \<Rightarrow> 'c TimingWheel" where
  "TimingWheel_ctor slots tick_ms =
     \<lparr>tw_slots = slots, tw_tick_ms = tick_ms, tw_current_tick = 0, tw_next_id = 1,
      tw_wheels = replicate (unat slots) [], tw_timer_slot = []\<rparr>"

definition timer_ticks :: "'c TimingWheel \<Rightarrow> size_t \<Rightarrow> size_t" where
  "timer_ticks w delay_ms = (delay_ms + tw_tick_ms w - 1) div tw_tick_ms w"

definition add_timer :: "'c TimingWheel \<Rightarrow> size_t \<Rightarrow> 'c \<Rightarrow> wheel_error + (u64 \<times> 'c TimingWheel)" where
  "add_timer w delay_ms callback =
     (if tw_tick_ms w = 0 \<or> tw_slots w = 0 then Inl DivideByZero
      else
        let tid = tw_next_id w;
            expire_tick = tw_current_tick w + timer_ticks w delay_ms - 1;
            slot = expire_tick mod tw_slots w
        in if length (tw_wheels w) \<le> unat slot then Inl BadSlot
           else Inr (tid, w\<lparr>tw_next_id := tid + 1,
             tw_wheels := (tw_wheels w)[unat slot := tw_wheels w ! unat slot @
               [\<lparr>te_id = tid, te_expire_tick = expire_tick, te_callback = callback\<rparr>]],
             tw_timer_slot := um_put (tw_timer_slot w) tid slot\<rparr>))"

definition cancel_timer :: "'c TimingWheel \<Rightarrow> u64 \<Rightarrow> wheel_error + (bool \<times> 'c TimingWheel)" where
  "cancel_timer w tid =
     (case um_find (tw_timer_slot w) tid of
        None \<Rightarrow> Inr (False, w)
      | Some slot \<Rightarrow>
          if length (tw_wheels w) \<le> unat slot then Inl BadSlot
          else Inr (True, w\<lparr>
            tw_wheels := (tw_wheels w)[unat slot := filter (\<lambda>e. te_id e \<noteq> tid) (tw_wheels w ! unat slot)],
            tw_timer_slot := um_erase (tw_timer_slot w) tid\<rparr>))"

text \<open>
  The critical section of \<open>tick\<close>: the slot of the current tick is split into the expired entries,
  whose callbacks are handed out, and the entries of later rounds, which stay.
\<close>

definition current_slot :: "'c TimingWheel \<Rightarrow> nat" where
  "current_slot w = unat (tw_current_tick w mod tw_slots w)"

definition tick_expired :: "'c TimingWheel \<Rightarrow> 'c TimerEntry list" where
  "tick_expired w = filter (\<lambda>e. te_expire_tick e \<le> tw_current_tick w) (tw_wheels w ! current_slot w)"

definition tick_locked :: "'c TimingWheel \<Rightarrow> 'c TimingWheel" where
  "tick_locked w = w\<lparr>
     tw_timer_slot := fold (\<lambda>e m. um_erase m (te_id e)) (tick_expired w) (tw_timer_slot w),
     tw_wheels := (tw_wheels w)[current_slot w :=
       filter (\<lambda>e. \<not> te_expire_tick e \<le> tw_current_tick w) (tw_wheels w ! current_slot w)],
     tw_current_tick := tw_current_tick w + 1\<rparr>"

definition tick :: "('c \<Rightarrow> 'c TimingWheel \<times> 'w \<Rightarrow> 'c TimingWheel \<times> 'w) \<Rightarrow> 'c TimingWheel \<times> 'w \<Rightarrow>
    wheel_error + (nat \<times> ('c TimingWheel \<times> 'w))" where
  "tick run s =
     (let w = fst s in
      if tw_slots w = 0 then Inl DivideByZero
      else if length (tw_wheels w) \<le> current_slot w then Inl BadSlot
      else let expired = map te_callback (tick_expired w)
           in Inr (length expired, fold run expired (tick_locked w, snd s)))"

fun advance :: "('c \<Rightarrow> 'c TimingWheel \<times> 'w \<Rightarrow> 'c TimingWheel \<times> 'w) \<Rightarrow> nat \<Rightarrow> 'c TimingWheel \<times> 'w \<Rightarrow>
    wheel_error + (nat \<times> ('c TimingWheel \<times> 'w))" where
  "advance run 0 s = Inr (0, s)"
| "advance run (Suc ticks) s =
     rbind (tick run s) (\<lambda>(n, s'). rbind (advance run ticks s') (\<lambda>(total, s''). Inr (n + total, s'')))"

section \<open>Invariant\<close>

text \<open>
  Every entry sits in the slot its expiry hashes to, identifiers are unique and were handed out before,
  and \<open>timer_slot_\<close> names exactly the pending timers with their slots.
\<close>

definition pending :: "'c TimingWheel \<Rightarrow> 'c TimerEntry list" where
  "pending w = concat (tw_wheels w)"

definition hashed :: "size_t \<Rightarrow> 'c TimerEntry list list \<Rightarrow> bool" where
  "hashed slots W \<longleftrightarrow> (\<forall>i < length W. \<forall>e \<in> set (W ! i). unat (te_expire_tick e mod slots) = i)"

definition slots_known :: "'c TimingWheel \<Rightarrow> bool" where
  "slots_known w \<longleftrightarrow> (\<forall>tid s. um_find (tw_timer_slot w) tid = Some s \<longleftrightarrow>
     (\<exists>e \<in> set (pending w). te_id e = tid \<and> s = te_expire_tick e mod tw_slots w))"

definition wheel_ok :: "'c TimingWheel \<Rightarrow> bool" where
  "wheel_ok w \<longleftrightarrow> tw_slots w \<noteq> 0 \<and> tw_tick_ms w \<noteq> 0 \<and> length (tw_wheels w) = unat (tw_slots w) \<and>
     hashed (tw_slots w) (tw_wheels w) \<and> distinct (map te_id (pending w)) \<and>
     (\<forall>e \<in> set (pending w). te_id e < tw_next_id w) \<and> slots_known w"

text \<open>No pending timer lies in the past.\<close>

definition wheel_due :: "'c TimingWheel \<Rightarrow> bool" where
  "wheel_due w \<longleftrightarrow> (\<forall>e \<in> set (pending w). tw_current_tick w \<le> te_expire_tick e)"

section \<open>One slot of a list of slots\<close>

lemma mset_concat_update:
  assumes "i < length W"
  shows "mset (concat (W[i := W ! i @ [e]])) = add_mset e (mset (concat W))"
proof -
  have "concat W = concat (take i W) @ W ! i @ concat (drop (Suc i) W)"
    using id_take_nth_drop [OF assms] by (metis concat.simps(2) concat_append)
  moreover have "concat (W[i := W ! i @ [e]]) = concat (take i W) @ (W ! i @ [e]) @ concat (drop (Suc i) W)"
    using assms by (simp add: upd_conv_take_nth_drop)
  ultimately show ?thesis by simp
qed

lemma concat_filter_slot:
  assumes "i < length W" "\<And>j e. j < length W \<Longrightarrow> j \<noteq> i \<Longrightarrow> e \<in> set (W ! j) \<Longrightarrow> P e"
  shows "concat (W[i := filter P (W ! i)]) = filter P (concat W)"
proof -
  have "W[i := filter P (W ! i)] = map (filter P) W"
    using assms by (intro nth_equalityI) (auto simp: nth_list_update filter_id_conv)
  then show ?thesis by (simp add: filter_concat)
qed

lemma filter_slot_only:
  assumes "i < length W" "\<And>j e. j < length W \<Longrightarrow> j \<noteq> i \<Longrightarrow> e \<in> set (W ! j) \<Longrightarrow> \<not> P e"
  shows "filter P (concat W) = filter P (W ! i)"
proof -
  have "concat W = concat (take i W) @ W ! i @ concat (drop (Suc i) W)"
    using id_take_nth_drop [OF assms(1)] by (metis concat.simps(2) concat_append)
  moreover have "\<not> P e" if e: "e \<in> set (concat (take i W))" for e
  proof -
    from e obtain xs where "xs \<in> set (take i W)" "e \<in> set xs" by auto
    then obtain j where "j < i" "e \<in> set (W ! j)" by (auto simp: in_set_conv_nth [of xs])
    then show ?thesis using assms(1) assms(2) [of j e] by simp
  qed
  moreover have "\<not> P e" if e: "e \<in> set (concat (drop (Suc i) W))" for e
  proof -
    from e obtain xs where "xs \<in> set (drop (Suc i) W)" "e \<in> set xs" by auto
    then obtain j where "j < length W - Suc i" "e \<in> set (W ! (Suc i + j))" by (auto simp: in_set_conv_nth [of xs])
    then show ?thesis using assms(2) [of "Suc i + j" e] by simp
  qed
  ultimately show ?thesis by (simp add: filter_empty_conv)
qed

lemma hashed_update:
  assumes "hashed slots W" "\<And>e. e \<in> set ys \<Longrightarrow> unat (te_expire_tick e mod slots) = i"
  shows "hashed slots (W[i := ys])"
  unfolding hashed_def
proof (intro allI impI ballI)
  fix j e assume "j < length (W[i := ys])" "e \<in> set (W[i := ys] ! j)"
  then show "unat (te_expire_tick e mod slots) = j"
    using assms by (cases "i = j") (auto simp: hashed_def)
qed

lemma hashed_filter: "hashed slots W \<Longrightarrow> i < length W \<Longrightarrow> hashed slots (W[i := filter P (W ! i)])"
  by (rule hashed_update) (auto simp: hashed_def)

lemma hashed_slot_unique:
  assumes "hashed slots W" "i < length W" "e \<in> set (W ! i)"
  shows "i = unat (te_expire_tick e mod slots)"
  using assms by (simp add: hashed_def)

lemma hashed_concat:
  assumes "hashed slots W" "e \<in> set (concat W)"
  shows "unat (te_expire_tick e mod slots) < length W \<and> e \<in> set (W ! unat (te_expire_tick e mod slots))"
  using assms by (auto simp: in_set_conv_nth hashed_slot_unique [OF assms(1), symmetric]) (metis hashed_slot_unique nth_mem assms(1))+

lemma unat_mod_less: "tw_slots w \<noteq> 0 \<Longrightarrow> unat (x mod tw_slots w) < unat (tw_slots w)"
  by (simp add: unat_mod unat_gt_0)

lemma find_fold_erase:
  "um_find (fold (\<lambda>e m. um_erase m (te_id e)) es m) tid =
     (if tid \<in> te_id ` set es then None else um_find m tid)"
  by (induction es arbitrary: m) auto

section \<open>Operations keep the invariant\<close>

lemma pending_id_unique:
  assumes "wheel_ok w" "e \<in> set (pending w)" "e' \<in> set (pending w)" "te_id e = te_id e'"
  shows "e = e'"
  using assms by (auto simp: wheel_ok_def distinct_map inj_on_def)

lemma wheel_ok_remove:
  assumes "wheel_ok w" "tw_slots w' = tw_slots w" "tw_tick_ms w' = tw_tick_ms w" "tw_next_id w' = tw_next_id w"
    and "length (tw_wheels w') = length (tw_wheels w)" "hashed (tw_slots w) (tw_wheels w')"
    and "pending w' = filter P (pending w)"
    and "\<And>tid. um_find (tw_timer_slot w') tid =
      (if tid \<in> te_id ` {e \<in> set (pending w). \<not> P e} then None else um_find (tw_timer_slot w) tid)"
  shows "wheel_ok w'"
proof -
  have "slots_known w" using assms(1) by (simp add: wheel_ok_def)
  then have "slots_known w'"
    using assms(2,7,8) pending_id_unique [OF assms(1)] by (auto simp: slots_known_def) blast
  with assms(1-7) show ?thesis by (auto simp: wheel_ok_def distinct_map inj_on_def)
qed

lemma wheel_ok_ctor: "slots \<noteq> 0 \<Longrightarrow> tick_ms \<noteq> 0 \<Longrightarrow> wheel_ok (TimingWheel_ctor slots tick_ms)"
  by (auto simp: wheel_ok_def TimingWheel_ctor_def hashed_def pending_def slots_known_def)

definition new_entry :: "'c TimingWheel \<Rightarrow> size_t \<Rightarrow> 'c \<Rightarrow> 'c TimerEntry" where
  "new_entry w delay_ms cb = \<lparr>te_id = tw_next_id w,
     te_expire_tick = tw_current_tick w + timer_ticks w delay_ms - 1, te_callback = cb\<rparr>"

lemma add_timer_effect:
  assumes "wheel_ok w"
  obtains w' where "add_timer w d cb = Inr (tw_next_id w, w')"
    and "mset (pending w') = add_mset (new_entry w d cb) (mset (pending w))"
    and "tw_current_tick w' = tw_current_tick w" "tw_slots w' = tw_slots w" "tw_tick_ms w' = tw_tick_ms w"
    and "tw_next_id w \<noteq> - 1 \<Longrightarrow> wheel_ok w'"
proof -
  let ?e = "new_entry w d cb"
  let ?s = "te_expire_tick ?e mod tw_slots w"
  let ?w' = "w\<lparr>tw_next_id := tw_next_id w + 1,
    tw_wheels := (tw_wheels w)[unat ?s := tw_wheels w ! unat ?s @ [?e]],
    tw_timer_slot := um_put (tw_timer_slot w) (tw_next_id w) ?s\<rparr>"
  have s: "unat ?s < length (tw_wheels w)" using assms unat_mod_less by (auto simp: wheel_ok_def)
  then have add: "add_timer w d cb = Inr (tw_next_id w, ?w')"
    using assms by (auto simp: add_timer_def wheel_ok_def new_entry_def Let_def)
  have ms: "mset (pending ?w') = add_mset ?e (mset (pending w))"
    using mset_concat_update [OF s] by (simp add: pending_def)
  then have st: "set (pending ?w') = insert ?e (set (pending w))"
    by (metis set_mset_add_mset_insert set_mset_mset)
  have "wheel_ok ?w'" if nw: "tw_next_id w \<noteq> - 1"
  proof -
    have lt: "tw_next_id w < tw_next_id w + 1" using nw by (rule word_less_inc)
    have new: "tw_next_id w \<notin> te_id ` set (pending w)" using assms by (auto simp: wheel_ok_def)
    have "hashed (tw_slots w) (tw_wheels ?w')"
      using assms s hashed_slot_unique [of "tw_slots w" "tw_wheels w" "unat ?s", symmetric]
      by (auto intro!: hashed_update simp: wheel_ok_def)
    moreover have "distinct (map te_id (pending ?w'))"
    proof -
      have "mset (map te_id (pending ?w')) = mset (map te_id (?e # pending w))" using ms by simp
      then have "distinct (map te_id (pending ?w')) = distinct (map te_id (?e # pending w))"
        by (rule mset_eq_imp_distinct_iff)
      then show ?thesis using new assms by (simp add: wheel_ok_def new_entry_def)
    qed
    moreover have "slots_known ?w'"
      using assms new unfolding slots_known_def st by (auto simp: wheel_ok_def slots_known_def new_entry_def)
    moreover have "\<forall>e \<in> set (pending ?w'). te_id e < tw_next_id ?w'"
      using assms lt unfolding st by (auto simp: wheel_ok_def new_entry_def intro: less_trans)
    ultimately show ?thesis using assms by (simp add: wheel_ok_def)
  qed
  with add ms show ?thesis by (intro that [of ?w']) simp_all
qed

lemma cancel_timer_effect:
  assumes "wheel_ok w"
  obtains w' where "cancel_timer w tid = Inr (tid \<in> te_id ` set (pending w), w')"
    and "pending w' = filter (\<lambda>e. te_id e \<noteq> tid) (pending w)"
    and "tw_current_tick w' = tw_current_tick w" "tw_next_id w' = tw_next_id w" "wheel_ok w'"
proof (cases "um_find (tw_timer_slot w) tid")
  case None
  then have no: "tid \<notin> te_id ` set (pending w)"
    using assms unfolding wheel_ok_def slots_known_def by (metis imageE option.distinct(1))
  then have "filter (\<lambda>e. te_id e \<noteq> tid) (pending w) = pending w" by (auto simp: filter_id_conv)
  with None no assms show ?thesis by (intro that [of w]) (simp_all add: cancel_timer_def)
next
  case (Some s)
  then obtain e where e: "e \<in> set (pending w)" "te_id e = tid" "s = te_expire_tick e mod tw_slots w"
    using assms unfolding wheel_ok_def slots_known_def by metis
  have h: "hashed (tw_slots w) (tw_wheels w)" using assms by (simp add: wheel_ok_def)
  have s: "unat s < length (tw_wheels w)" using hashed_concat [OF h] e by (simp add: pending_def)
  let ?w' = "w\<lparr>tw_wheels := (tw_wheels w)[unat s := filter (\<lambda>e. te_id e \<noteq> tid) (tw_wheels w ! unat s)],
    tw_timer_slot := um_erase (tw_timer_slot w) tid\<rparr>"
  have "te_id e' \<noteq> tid" if "j < length (tw_wheels w)" "j \<noteq> unat s" "e' \<in> set (tw_wheels w ! j)" for j e'
  proof
    assume "te_id e' = tid"
    moreover have "e' \<in> set (pending w)" using that by (auto simp: pending_def)
    ultimately have "e' = e" using pending_id_unique [OF assms] e by blast
    then show False using hashed_slot_unique [OF h that(1,3)] that(2) e(3) by simp
  qed
  then have p: "pending ?w' = filter (\<lambda>e. te_id e \<noteq> tid) (pending w)"
    using concat_filter_slot [OF s, of "\<lambda>e. te_id e \<noteq> tid"] by (simp add: pending_def)
  have "wheel_ok ?w'"
    by (rule wheel_ok_remove [OF assms _ _ _ _ _ p]) (use hashed_filter [OF h s] e in \<open>auto simp: p\<close>)
  with p s Some e show ?thesis by (intro that [of ?w']) (auto simp: cancel_timer_def)
qed

lemma current_slot_less: "wheel_ok w \<Longrightarrow> current_slot w < length (tw_wheels w)"
  using unat_mod_less by (auto simp: wheel_ok_def current_slot_def)

text \<open>The critical section of \<open>tick\<close> takes out what expired in the current slot and nothing else.\<close>

definition expires_now :: "'c TimingWheel \<Rightarrow> 'c TimerEntry \<Rightarrow> bool" where
  "expires_now w e \<longleftrightarrow> te_expire_tick e \<le> tw_current_tick w \<and> te_expire_tick e mod tw_slots w = tw_current_tick w mod tw_slots w"

lemma expires_now_slot:
  assumes "wheel_ok w" "j < length (tw_wheels w)" "e \<in> set (tw_wheels w ! j)"
  shows "te_expire_tick e mod tw_slots w = tw_current_tick w mod tw_slots w \<longleftrightarrow> j = current_slot w"
proof -
  have "hashed (tw_slots w) (tw_wheels w)" using assms(1) by (simp add: wheel_ok_def)
  from hashed_slot_unique [OF this assms(2,3)] show ?thesis
    by (auto simp: current_slot_def word_unat_eq_iff)
qed

lemma tick_expired_eq:
  assumes "wheel_ok w"
  shows "tick_expired w = filter (expires_now w) (pending w)"
proof -
  note slot = expires_now_slot [OF assms]
  have "filter (expires_now w) (pending w) = filter (expires_now w) (tw_wheels w ! current_slot w)"
    unfolding pending_def by (rule filter_slot_only) (auto simp: current_slot_less assms slot expires_now_def)
  also have "\<dots> = tick_expired w"
    unfolding tick_expired_def
    by (rule filter_cong) (auto simp: expires_now_def slot [OF current_slot_less [OF assms]])
  finally show ?thesis by simp
qed

lemma tick_locked_pending:
  assumes "wheel_ok w"
  shows "pending (tick_locked w) = filter (\<lambda>e. \<not> expires_now w e) (pending w)"
proof -
  let ?P = "\<lambda>e. \<not> expires_now w e"
  have "filter (\<lambda>e. \<not> te_expire_tick e \<le> tw_current_tick w) (tw_wheels w ! current_slot w) =
      filter ?P (tw_wheels w ! current_slot w)"
    using expires_now_slot [OF assms current_slot_less [OF assms]] by (auto simp: expires_now_def intro!: filter_cong)
  then show ?thesis
    using concat_filter_slot [OF current_slot_less [OF assms], of ?P] expires_now_slot [OF assms]
    by (auto simp: tick_locked_def pending_def expires_now_def)
qed

lemma wheel_ok_tick_locked:
  assumes "wheel_ok w"
  shows "wheel_ok (tick_locked w)"
proof (rule wheel_ok_remove [OF assms _ _ _ _ _ tick_locked_pending [OF assms]])
  show "hashed (tw_slots w) (tw_wheels (tick_locked w))"
    using hashed_filter [OF _ current_slot_less [OF assms]] assms by (simp add: tick_locked_def wheel_ok_def)
  show "um_find (tw_timer_slot (tick_locked w)) tid =
      (if tid \<in> te_id ` {e \<in> set (pending w). \<not> \<not> expires_now w e} then None else um_find (tw_timer_slot w) tid)" for tid
    by (simp add: tick_locked_def find_fold_erase tick_expired_eq [OF assms])
qed (simp_all add: tick_locked_def)

section \<open>Firing\<close>

text \<open>
  A callback that records the tick in which it ran. \<open>fired\<close> is what an entry records when it fires
  in the tick it expires in.
\<close>

definition log_run :: "'c \<Rightarrow> 'c TimingWheel \<times> (nat \<times> 'c) list \<Rightarrow> 'c TimingWheel \<times> (nat \<times> 'c) list" where
  "log_run cb s = (fst s, snd s @ [(unat (tw_current_tick (fst s)) - 1, cb)])"

definition fired :: "'c TimerEntry \<Rightarrow> nat \<times> 'c" where
  "fired e = (unat (te_expire_tick e), te_callback e)"

lemma fold_log_run: "fold log_run cbs (w, log) = (w, log @ map (Pair (unat (tw_current_tick w) - 1)) cbs)"
  by (induction cbs arbitrary: log) (auto simp: log_run_def)

lemma expires_now_due:
  assumes "wheel_due w" "e \<in> set (pending w)"
  shows "expires_now w e \<longleftrightarrow> te_expire_tick e = tw_current_tick w"
  using assms by (auto simp: wheel_due_def expires_now_def)

lemma tick_log:
  assumes "wheel_ok w" "wheel_due w" "tw_current_tick w \<noteq> - 1"
  shows "tick log_run (w, log) = Inr (length (tick_expired w), (tick_locked w, log @ map fired (tick_expired w)))"
proof -
  have "map (Pair (unat (tw_current_tick (tick_locked w)) - 1)) (map te_callback (tick_expired w)) =
      map fired (tick_expired w)"
    using assms expires_now_due [OF assms(2)]
    by (auto simp: tick_expired_eq fired_def tick_locked_def unat_inc)
  then show ?thesis
    using assms current_slot_less [OF assms(1)] by (simp add: tick_def fold_log_run wheel_ok_def Let_def)
qed

lemma wheel_due_tick_locked:
  assumes "wheel_ok w" "wheel_due w"
  shows "wheel_due (tick_locked w)"
proof -
  have "tw_current_tick w + 1 \<le> te_expire_tick e" if "e \<in> set (pending w)" "\<not> expires_now w e" for e
    using that assms(2) expires_now_due [OF assms(2)] by (intro inc_le) (auto simp: wheel_due_def order_le_less)
  then show ?thesis
    using tick_locked_pending [OF assms(1)] by (simp add: wheel_due_def tick_locked_def)
qed

lemma advance_log:
  assumes "wheel_ok w" "wheel_due w" "unat (tw_current_tick w) + n < 2 ^ 64"
  shows "\<exists>w' new. advance log_run n (w, log) = Inr (length new, (w', log @ new)) \<and>
    mset new = image_mset fired (filter_mset (\<lambda>e. unat (te_expire_tick e) < unat (tw_current_tick w) + n) (mset (pending w))) \<and>
    sorted (map fst new) \<and> (\<forall>t \<in> set (map fst new). unat (tw_current_tick w) \<le> t) \<and>
    pending w' = filter (\<lambda>e. unat (tw_current_tick w) + n \<le> unat (te_expire_tick e)) (pending w) \<and>
    wheel_ok w' \<and> wheel_due w' \<and> unat (tw_current_tick w') = unat (tw_current_tick w) + n"
  using assms
proof (induction n arbitrary: w log)
  case 0
  have "filter_mset (\<lambda>e. unat (te_expire_tick e) < unat (tw_current_tick w)) (mset (pending w)) = {#}"
    using "0.prems"(2) by (auto simp: wheel_due_def word_le_nat_alt not_less)
  moreover have "filter (\<lambda>e. unat (tw_current_tick w) \<le> unat (te_expire_tick e)) (pending w) = pending w"
    using "0.prems"(2) by (auto simp: wheel_due_def filter_id_conv word_le_nat_alt)
  ultimately show ?case using "0.prems" by simp
next
  case (Suc n)
  let ?c = "unat (tw_current_tick w)" and ?ex = "tick_expired w" and ?w = "tick_locked w"
  have c: "tw_current_tick w \<noteq> - 1" by (rule word_not_max) (use Suc.prems(3) in simp)
  have c': "unat (tw_current_tick ?w) = Suc ?c" using c by (simp add: tick_locked_def unat_inc)
  have exp: "expires_now w e \<longleftrightarrow> unat (te_expire_tick e) = ?c" if "e \<in> set (pending w)" for e
    using expires_now_due [OF Suc.prems(2) that] by (simp add: word_unat_eq_iff)
  have ge: "?c \<le> unat (te_expire_tick e)" if "e \<in> set (pending w)" for e
    using Suc.prems(2) that by (simp add: wheel_due_def word_le_nat_alt)
  from Suc.IH [OF wheel_ok_tick_locked wheel_due_tick_locked, of w "log @ map fired ?ex"] Suc.prems c'
  obtain w' new where IH: "advance log_run n (?w, log @ map fired ?ex) = Inr (length new, (w', (log @ map fired ?ex) @ new))"
      "mset new = image_mset fired (filter_mset (\<lambda>e. unat (te_expire_tick e) < Suc ?c + n) (mset (pending ?w)))"
      "sorted (map fst new)" "\<forall>t \<in> set (map fst new). Suc ?c \<le> t"
      "pending w' = filter (\<lambda>e. Suc ?c + n \<le> unat (te_expire_tick e)) (pending ?w)"
      "wheel_ok w'" "wheel_due w'" "unat (tw_current_tick w') = Suc ?c + n"
    by auto
  have adv: "advance log_run (Suc n) (w, log) = Inr (length (map fired ?ex @ new), (w', log @ map fired ?ex @ new))"
    using IH(1) tick_log [OF Suc.prems(1,2) c] by simp
  have ex: "map fst (map fired ?ex) = replicate (length ?ex) ?c"
    using exp by (auto simp: tick_expired_eq [OF Suc.prems(1)] fired_def intro!: replicate_eqI)
  have "mset (pending w) = mset ?ex + mset (pending ?w)"
    by (simp add: tick_expired_eq tick_locked_pending Suc.prems(1))
  moreover have "filter (\<lambda>e. unat (te_expire_tick e) < ?c + Suc n) ?ex = ?ex"
    using exp by (auto simp: filter_id_conv tick_expired_eq [OF Suc.prems(1)] simp del: filter_filter)
  then have "filter_mset (\<lambda>e. unat (te_expire_tick e) < ?c + Suc n) (mset ?ex) = mset ?ex"
    by (metis mset_filter)
  ultimately have "mset (map fired ?ex @ new) =
      image_mset fired (filter_mset (\<lambda>e. unat (te_expire_tick e) < ?c + Suc n) (mset (pending w)))"
    using IH(2) by simp
  moreover have "pending w' = filter (\<lambda>e. ?c + Suc n \<le> unat (te_expire_tick e)) (pending w)"
    using IH(5) exp by (auto simp: tick_locked_pending [OF Suc.prems(1)] intro!: filter_cong)
  moreover have "sorted (map fst (map fired ?ex @ new))"
    using IH(3,4) by (auto simp: map_append ex sorted_append simp del: map_map)
  moreover have "\<forall>t \<in> set (map fst (map fired ?ex @ new)). ?c \<le> t"
    using IH(4) ex by (auto simp del: map_map simp: map_append)
  ultimately show ?case using adv IH(6-8) by auto
qed

section \<open>Callbacks that use the wheel\<close>

text \<open>
  The contract of a callback: it may use the wheel in any way that keeps its invariant. Then no tick
  divides by zero or leaves the wheel, and the invariant holds after all callbacks have run.
\<close>

locale wheel_callbacks =
  fixes run :: "'c \<Rightarrow> 'c TimingWheel \<times> 'w \<Rightarrow> 'c TimingWheel \<times> 'w"
  assumes run_keeps: "wheel_ok (fst s) \<Longrightarrow> wheel_ok (fst (run cb s))"
begin

lemma fold_run_keeps: "wheel_ok (fst s) \<Longrightarrow> wheel_ok (fst (fold run cbs s))"
proof (induction cbs arbitrary: s)
  case Nil
  then show ?case by simp
next
  case (Cons cb cbs)
  from Cons.IH [OF run_keeps [OF Cons.prems, of cb]] show ?case by simp
qed

lemma tick_keeps:
  assumes "wheel_ok (fst s)"
  shows "\<exists>n s'. tick run s = Inr (n, s') \<and> wheel_ok (fst s')"
  using assms current_slot_less [OF assms] fold_run_keeps wheel_ok_tick_locked [OF assms]
  by (simp add: tick_def Let_def wheel_ok_def [of "fst s"])

lemma advance_keeps: "wheel_ok (fst s) \<Longrightarrow> \<exists>n s'. advance run k s = Inr (n, s') \<and> wheel_ok (fst s')"
proof (induction k arbitrary: s)
  case 0
  then show ?case by simp
next
  case (Suc k)
  from tick_keeps [OF Suc.prems] obtain n s' where "tick run s = Inr (n, s')" "wheel_ok (fst s')" by blast
  with Suc.IH [of s'] show ?case by auto
qed

end

interpretation logging: wheel_callbacks log_run
  by unfold_locales (simp add: log_run_def)

text \<open>A callback that cancels another timer, the way a completed call cancels its timeout.\<close>

definition cancel_run :: "u64 \<Rightarrow> u64 TimingWheel \<times> nat \<Rightarrow> u64 TimingWheel \<times> nat" where
  "cancel_run tid s = (case cancel_timer (fst s) tid of Inl _ \<Rightarrow> s
     | Inr (b, w) \<Rightarrow> (w, if b then Suc (snd s) else snd s))"

interpretation cancelling: wheel_callbacks cancel_run
proof
  fix s :: "u64 TimingWheel \<times> nat" and cb assume "wheel_ok (fst s)"
  then obtain w' where "cancel_timer (fst s) cb = Inr (cb \<in> te_id ` set (pending (fst s)), w')" "wheel_ok w'"
    by (rule cancel_timer_effect [where tid = cb])
  then show "wheel_ok (fst (cancel_run cb s))" by (simp add: cancel_run_def)
qed

section \<open>Properties\<close>

definition fire_log :: "nat \<Rightarrow> 'c TimingWheel \<Rightarrow> (nat \<times> 'c) list" where
  "fire_log n w = (case advance log_run n (w, []) of Inl _ \<Rightarrow> [] | Inr (_, (_, log)) \<Rightarrow> log)"

lemma fire_log_mset:
  assumes "wheel_ok w" "wheel_due w" "unat (tw_current_tick w) + n < 2 ^ 64"
  shows "mset (fire_log n w) = image_mset fired
    (filter_mset (\<lambda>e. unat (te_expire_tick e) < unat (tw_current_tick w) + n) (mset (pending w)))"
  using advance_log [OF assms, of "[]"] by (auto simp: fire_log_def)

lemma wheel_due_ctor: "wheel_due (TimingWheel_ctor slots tick_ms)"
  by (auto simp: wheel_due_def TimingWheel_ctor_def pending_def)

text \<open>The rounding up of \<open>add_timer\<close>, when none of its sums wraps.\<close>

lemma timer_ticks_ceiling:
  assumes "tw_tick_ms w \<noteq> 0" "0 < unat d" "unat d + unat (tw_tick_ms w) \<le> 2 ^ 64"
  shows "unat (timer_ticks w d) = (unat d + unat (tw_tick_ms w) - 1) div unat (tw_tick_ms w)"
    and "0 < unat (timer_ticks w d)"
proof -
  have t: "0 < unat (tw_tick_ms w)" using assms(1) by (simp add: unat_gt_0)
  have "unat (d + tw_tick_ms w - 1) = unat d + unat (tw_tick_ms w) - 1"
    by (rule unat_add_dec) (use assms(3) t in simp_all)
  then show ceil: "unat (timer_ticks w d) = (unat d + unat (tw_tick_ms w) - 1) div unat (tw_tick_ms w)"
    by (simp add: timer_ticks_def unat_div)
  show "0 < unat (timer_ticks w d)"
    using t assms(2) by (simp add: ceil div_greater_zero_iff)
qed

lemma new_entry_expire:
  assumes "0 < unat (timer_ticks w d)" "unat (tw_current_tick w) + unat (timer_ticks w d) \<le> 2 ^ 64"
  shows "unat (te_expire_tick (new_entry w d cb)) = unat (tw_current_tick w) + unat (timer_ticks w d) - 1"
  using assms by (simp add: new_entry_def unat_add_dec)

lemma wheel_due_insert:
  assumes "wheel_due w" "mset (pending w') = add_mset e (mset (pending w))" "tw_current_tick w' = tw_current_tick w"
    and "unat (tw_current_tick w) \<le> unat (te_expire_tick e)"
  shows "wheel_due w'"
proof -
  have "set (pending w') = insert e (set (pending w))"
    by (metis assms(2) set_mset_add_mset_insert set_mset_mset)
  then show ?thesis using assms by (simp add: wheel_due_def word_le_nat_alt)
qed

text \<open>A wheel with four slots and one timer that expires in its second tick.\<close>

definition wheel_ex :: "nat TimingWheel" where
  "wheel_ex = (case add_timer (TimingWheel_ctor 4 1) 2 7 of Inl _ \<Rightarrow> TimingWheel_ctor 4 1 | Inr (_, w) \<Rightarrow> w)"

lemma wheel_ex: "wheel_ok wheel_ex" "wheel_due wheel_ex" "tw_current_tick wheel_ex = 0" "tw_next_id wheel_ex = 2"
proof -
  have ok: "wheel_ok (TimingWheel_ctor 4 1 :: nat TimingWheel)" by (rule wheel_ok_ctor) simp_all
  from ok show "wheel_ok wheel_ex"
    by (rule add_timer_effect [where d = 2 and cb = 7]) (simp add: wheel_ex_def, simp add: TimingWheel_ctor_def)
  show "wheel_due wheel_ex" "tw_current_tick wheel_ex = 0" "tw_next_id wheel_ex = 2" by code_simp+
qed



text \<open>
  C22. A timer with a positive delay fires exactly once, in the tick whose number is the delay divided by the
  tick length, rounded up; until then it does not fire, and every other timer fires as it would have
  without it.
\<close>

theorem add_timer_fires:
  assumes "wheel_ok w" "wheel_due w" "tw_next_id w \<noteq> - 1"
    and "0 < unat d" "unat d + unat (tw_tick_ms w) \<le> 2 ^ 64"
    and "unat (tw_current_tick w) + (unat d + unat (tw_tick_ms w) - 1) div unat (tw_tick_ms w) \<le> 2 ^ 64"
    and "unat (tw_current_tick w) + n < 2 ^ 64"
  shows "\<exists>w'. add_timer w d cb = Inr (tw_next_id w, w') \<and> wheel_ok w' \<and> wheel_due w' \<and>
    mset (fire_log n w') = mset (fire_log n w) +
      (let k = (unat d + unat (tw_tick_ms w) - 1) div unat (tw_tick_ms w)
       in if k \<le> n then {#(unat (tw_current_tick w) + k - 1, cb)#} else {#})"
proof -
  have "tw_tick_ms w \<noteq> 0" using assms(1) by (simp add: wheel_ok_def)
  note k = timer_ticks_ceiling [OF this assms(4,5)]
  have e: "unat (te_expire_tick (new_entry w d cb)) = unat (tw_current_tick w) + unat (timer_ticks w d) - 1"
    by (rule new_entry_expire) (use k assms(6) in simp_all)
  from assms(1) show ?thesis
  proof (rule add_timer_effect [where d = d and cb = cb])
    fix w' assume w': "add_timer w d cb = Inr (tw_next_id w, w')"
      "mset (pending w') = add_mset (new_entry w d cb) (mset (pending w))"
      "tw_current_tick w' = tw_current_tick w" "tw_next_id w \<noteq> - 1 \<Longrightarrow> wheel_ok w'"
    have due: "wheel_due w'" by (rule wheel_due_insert [OF assms(2) w'(2,3)]) (use e k(2) in simp)
    have "fired (new_entry w d cb) = (unat (tw_current_tick w) + unat (timer_ticks w d) - 1, cb)"
      using e by (simp add: fired_def new_entry_def)
    then have "mset (fire_log n w') = mset (fire_log n w) + (if unat (timer_ticks w d) \<le> n
        then {#(unat (tw_current_tick w) + unat (timer_ticks w d) - 1, cb)#} else {#})"
      using fire_log_mset [OF w'(4) [OF assms(3)] due] fire_log_mset [OF assms(1,2,7)] assms(7) w'(2,3) e k(2) by auto
    then show ?thesis using w' due assms(3) by (simp only: Let_def k(1) [symmetric]) blast
  qed
qed

theorem add_timer_fires_witness:
  "\<exists>w'. add_timer wheel_ex 3 9 = Inr (tw_next_id wheel_ex, w') \<and> wheel_ok w' \<and> wheel_due w' \<and>
    mset (fire_log 5 w') = mset (fire_log 5 wheel_ex) +
      (let k = (unat (3 :: 64 word) + unat (tw_tick_ms wheel_ex) - 1) div unat (tw_tick_ms wheel_ex)
       in if k \<le> 5 then {#(unat (tw_current_tick wheel_ex) + k - 1, 9)#} else {#})"
proof -
  have "tw_tick_ms wheel_ex = 1" by code_simp
  then show ?thesis using add_timer_fires [of wheel_ex 3 5 9] wheel_ex by simp
qed

text \<open>
  Cancelling a pending timer reports success, the timer never fires afterwards and all others fire as
  before; cancelling it a second time, or cancelling an unknown or already expired timer, reports
  failure and changes nothing.
\<close>

theorem cancel_timer_silences:
  assumes "wheel_ok w" "wheel_due w" "unat (tw_current_tick w) + n < 2 ^ 64"
  shows "\<exists>w'. cancel_timer w tid = Inr (tid \<in> te_id ` set (pending w), w') \<and>
    wheel_ok w' \<and> wheel_due w' \<and> cancel_timer w' tid = Inr (False, w') \<and>
    mset (fire_log n w') = image_mset fired (filter_mset (\<lambda>e. te_id e \<noteq> tid \<and>
      unat (te_expire_tick e) < unat (tw_current_tick w) + n) (mset (pending w)))"
  using assms(1)
proof (rule cancel_timer_effect [where tid = tid])
  fix w' assume w': "cancel_timer w tid = Inr (tid \<in> te_id ` set (pending w), w')"
    "pending w' = filter (\<lambda>e. te_id e \<noteq> tid) (pending w)" "tw_current_tick w' = tw_current_tick w" "wheel_ok w'"
  then have due: "wheel_due w'" using assms(2) by (simp add: wheel_due_def)
  have "um_find (tw_timer_slot w') tid \<noteq> Some sl" for sl
    using w'(2,4) by (auto simp: wheel_ok_def slots_known_def)
  then have "um_find (tw_timer_slot w') tid = None" by (cases "um_find (tw_timer_slot w') tid") auto
  then have "cancel_timer w' tid = Inr (False, w')" by (simp add: cancel_timer_def)
  moreover have "mset (fire_log n w') = image_mset fired (filter_mset (\<lambda>e. te_id e \<noteq> tid \<and>
      unat (te_expire_tick e) < unat (tw_current_tick w) + n) (mset (pending w)))"
    using fire_log_mset [OF w'(4) due, of n] assms(3) by (simp add: w'(2,3) filter_filter_mset)
  ultimately show ?thesis using w'(1,4) due by blast
qed

theorem cancel_timer_silences_witness:
  "\<exists>w'. cancel_timer wheel_ex 1 = Inr (1 \<in> te_id ` set (pending wheel_ex), w') \<and>
    wheel_ok w' \<and> wheel_due w' \<and> cancel_timer w' 1 = Inr (False, w') \<and>
    mset (fire_log 5 w') = image_mset fired (filter_mset (\<lambda>e. te_id e \<noteq> 1 \<and>
      unat (te_expire_tick e) < unat (tw_current_tick wheel_ex) + 5) (mset (pending wheel_ex)))"
  by (rule cancel_timer_silences) (simp_all add: wheel_ex)



text \<open>
  A delay of zero is not an immediate timer. Before the first tick its expiry wraps to the largest
  64-bit tick and it never fires; later it is put behind the hand of the wheel and waits for a whole
  revolution, here the four ticks 2 to 5 of a wheel with four slots.
\<close>

theorem zero_delay_misses:
  assumes "wheel_ok w" "wheel_due w" "tw_next_id w \<noteq> - 1" "tw_current_tick w = 0" "n < 2 ^ 64 - 1"
  shows "(\<exists>w'. add_timer w 0 cb = Inr (tw_next_id w, w') \<and> mset (fire_log n w') = mset (fire_log n w)) \<and>
    (case advance log_run 2 (TimingWheel_ctor 4 1, []) of
       Inr (_, (w2, _)) \<Rightarrow> (case add_timer w2 0 (7 :: nat) of
         Inr (_, w3) \<Rightarrow> fire_log 3 w3 = [] \<and> fire_log 4 w3 = [(5, 7)] | Inl _ \<Rightarrow> False) | Inl _ \<Rightarrow> False)"
    (is "?never \<and> ?late")
proof
  show ?late by code_simp
  have "unat (timer_ticks w 0) = 0" using assms(1)
    by (simp add: timer_ticks_def wheel_ok_def unat_div unat_minus_one div_eq_0_iff unat_gt_0)
  then have "timer_ticks w 0 = 0" by (simp add: unat_eq_zero)
  then have e: "te_expire_tick (new_entry w 0 cb) = - 1" using assms(4) by (simp add: new_entry_def)
  then have u: "unat (te_expire_tick (new_entry w 0 cb)) = 2 ^ 64 - 1"
    by (simp add: unsigned_minus_1_eq_mask mask_eq_exp_minus_1)
  from assms(1) show ?never
  proof (rule add_timer_effect [where d = 0 and cb = cb])
    fix w' assume w': "add_timer w 0 cb = Inr (tw_next_id w, w')"
      "mset (pending w') = add_mset (new_entry w 0 cb) (mset (pending w))"
      "tw_current_tick w' = tw_current_tick w" "tw_next_id w \<noteq> - 1 \<Longrightarrow> wheel_ok w'"
    have due: "wheel_due w'" by (rule wheel_due_insert [OF assms(2) w'(2,3)]) (use u assms(4) in simp)
    have "mset (fire_log n w') = mset (fire_log n w)"
      using fire_log_mset [OF w'(4) [OF assms(3)] due, of n] fire_log_mset [OF assms(1,2), of n] assms(4,5) w'(2,3) u
      by simp
    then show ?thesis using w'(1) by blast
  qed
qed

theorem zero_delay_misses_witness:
  "\<exists>w'. add_timer wheel_ex 0 9 = Inr (tw_next_id wheel_ex, w') \<and>
     mset (fire_log 100 w') = mset (fire_log 100 wheel_ex)"
  using zero_delay_misses [of wheel_ex 100 9] wheel_ex by simp

end
