(* ===== verification/Io_Uring.thy ===== *)
theory Io_Uring
  imports Rpc_Prelude
begin

text \<open>
  The ring wrapper of \<open>io/io_uring.hpp\<close>: the table of 65536 completion callbacks, the \<open>prepare_*\<close>
  functions, submission and the processing of completions. The library liburing is a parameter: a
  record of the calls the wrapper makes, over an abstract ring state. A completion callback may use
  the ring again; its effect is a parameter \<open>run\<close> on the wrapper and the rest of the world.
\<close>

section \<open>Submission and completion entries\<close>

text \<open>A \<open>__kernel_timespec\<close>: seconds and nanoseconds.\<close>
type_synonym timespec = "int \<times> int"

datatype sqe_op =
    Op_read int nat nat int | Op_write int nat nat int
  | Op_recv int nat nat int | Op_send int nat nat int
  | Op_accept int nat nat int | Op_connect int nat nat
  | Op_timeout timespec u32 | Op_link_timeout timespec
  | Op_cancel u64 | Op_msg_ring int u64 | Op_nop

record sqe =
  sqe_op :: sqe_op
  sqe_flags :: u32
  sqe_user_data :: u64

record cqe =
  cqe_res :: int
  cqe_flags :: u32
  cqe_user_data :: u64

text \<open>The error codes of the wrapper's exceptions; \<open>BadFunctionCall\<close> is the exception of an empty \<open>std::function\<close>.\<close>

datatype IoUringError =
  SetupFailed | QueueFull | SubmitFailed | InvalidParameter | Overflow | Timeout | Cancelled | BadFunctionCall

record IoUringConfig =
  queue_depth :: u32
  sq_thread_cpu :: u32
  sq_thread_idle :: u32
  sq_poll :: bool
  iopoll :: bool
  fixed_files :: bool
  fixed_files_count :: u32
  setup_coop_taskrun :: bool

definition IoUringConfig_default :: IoUringConfig where
  "IoUringConfig_default = \<lparr>queue_depth = 1024, sq_thread_cpu = 0, sq_thread_idle = 2000, sq_poll = False, iopoll = False,
     fixed_files = False, fixed_files_count = 0, setup_coop_taskrun = False\<rparr>"

record io_uring_params =
  par_sqpoll :: bool
  par_iopoll :: bool
  par_coop_taskrun :: bool
  par_sq_thread_cpu :: u32
  par_sq_thread_idle :: u32

text \<open>
  The calls into liburing. \<open>lu_get_sqe\<close> is \<open>None\<close> for a null pointer; \<open>lu_fill_sqe\<close> writes the entry last
  obtained; \<open>lu_peek\<close> and \<open>lu_wait\<close> give the completion at the head of the queue, \<open>None\<close> when the call fails.
\<close>

record 'r liburing =
  lu_init :: "u32 \<Rightarrow> io_uring_params \<Rightarrow> int \<times> 'r"
  lu_exit :: "'r \<Rightarrow> 'r"
  lu_get_sqe :: "'r \<Rightarrow> 'r option"
  lu_fill_sqe :: "sqe \<Rightarrow> 'r \<Rightarrow> 'r"
  lu_submit :: "'r \<Rightarrow> int \<times> 'r"
  lu_submit_and_wait :: "u32 \<Rightarrow> 'r \<Rightarrow> int \<times> 'r"
  lu_wait :: "'r \<Rightarrow> cqe option \<times> 'r"
  lu_peek :: "'r \<Rightarrow> cqe option"
  lu_seen :: "'r \<Rightarrow> 'r"

section \<open>The wrapper\<close>

definition kMaxCallbacks :: nat where
  "kMaxCallbacks = 65536"

record ('r, 'cb) IoUring =
  iu_config :: IoUringConfig
  iu_ring :: 'r
  iu_running :: bool
  iu_callbacks :: "nat \<Rightarrow> 'cb option"
  iu_next_callback_id :: u64

definition setup_params :: "IoUringConfig \<Rightarrow> io_uring_params" where
  "setup_params c =
     \<lparr>par_sqpoll = sq_poll c, par_iopoll = iopoll c, par_coop_taskrun = setup_coop_taskrun c,
      par_sq_thread_cpu = (if sq_poll c then sq_thread_cpu c else 0),
      par_sq_thread_idle = (if sq_poll c then sq_thread_idle c else 0)\<rparr>"

definition IoUring_setup :: "'r liburing \<Rightarrow> IoUringConfig \<Rightarrow> IoUringError + 'r" where
  "IoUring_setup lib c =
     (case lu_init lib (queue_depth c) (setup_params c) of (ret, r) \<Rightarrow> if ret < 0 then Inl SetupFailed else Inr r)"

definition IoUring_ctor :: "'r liburing \<Rightarrow> IoUringConfig \<Rightarrow> IoUringError + ('r, 'cb) IoUring" where
  "IoUring_ctor lib c =
     rbind (IoUring_setup lib c) (\<lambda>r.
       Inr \<lparr>iu_config = c, iu_ring = r, iu_running = True, iu_callbacks = (\<lambda>_. None), iu_next_callback_id = 1\<rparr>)"

definition IoUring_shutdown :: "'r liburing \<Rightarrow> ('r, 'cb) IoUring \<Rightarrow> ('r, 'cb) IoUring" where
  "IoUring_shutdown lib u =
     (if iu_running u then u\<lparr>iu_running := False, iu_ring := lu_exit lib (iu_ring u)\<rparr> else u)"

definition IoUring_dtor :: "'r liburing \<Rightarrow> ('r, 'cb) IoUring \<Rightarrow> ('r, 'cb) IoUring" where
  "IoUring_dtor lib u = IoUring_shutdown lib u"

text \<open>
  The move constructor takes over configuration, ring and running flag; the callback table and the counter
  have no initializer there, so the new object starts with its defaults.
\<close>

definition IoUring_move :: "'r \<Rightarrow> ('r, 'cb) IoUring \<Rightarrow> ('r, 'cb) IoUring \<times> ('r, 'cb) IoUring" where
  "IoUring_move empty_ring other =
     (\<lparr>iu_config = iu_config other, iu_ring = iu_ring other, iu_running = iu_running other,
       iu_callbacks = (\<lambda>_. None), iu_next_callback_id = 1\<rparr>,
      other\<lparr>iu_ring := empty_ring, iu_running := False\<rparr>)"

text \<open>Move assignment likewise leaves the table and the counter of the target as they were.\<close>

definition IoUring_move_assign :: "'r liburing \<Rightarrow> 'r \<Rightarrow> ('r, 'cb) IoUring \<Rightarrow> ('r, 'cb) IoUring \<Rightarrow> ('r, 'cb) IoUring \<times> ('r, 'cb) IoUring" where
  "IoUring_move_assign lib empty_ring this other =
     ((IoUring_shutdown lib this)\<lparr>iu_config := iu_config other, iu_ring := iu_ring other, iu_running := iu_running other\<rparr>,
      other\<lparr>iu_ring := empty_ring, iu_running := False\<rparr>)"

definition set_callback :: "('r, 'cb) IoUring \<Rightarrow> 'cb \<Rightarrow> u64 \<times> ('r, 'cb) IoUring" where
  "set_callback u cb =
     (let cid = iu_next_callback_id u mod of_nat kMaxCallbacks
      in (cid, u\<lparr>iu_next_callback_id := iu_next_callback_id u + 1,
                 iu_callbacks := (iu_callbacks u)(unat cid := Some cb)\<rparr>))"

text \<open>\<open>get_callback\<close> is \<open>None\<close> for a null pointer and \<open>Some f\<close> for a pointer to a table entry.\<close>

definition get_callback :: "('r, 'cb) IoUring \<Rightarrow> cqe \<Rightarrow> 'cb option option" where
  "get_callback u c =
     (if cqe_user_data c = 0 \<or> of_nat kMaxCallbacks \<le> cqe_user_data c then None
      else Some (iu_callbacks u (unat (cqe_user_data c))))"

definition peek_next_callback_id :: "('r, 'cb) IoUring \<Rightarrow> u64" where
  "peek_next_callback_id u = iu_next_callback_id u"

definition prepare :: "'r liburing \<Rightarrow> sqe_op \<Rightarrow> u32 \<Rightarrow> 'cb \<Rightarrow> ('r, 'cb) IoUring \<Rightarrow> IoUringError + (u64 \<times> ('r, 'cb) IoUring)" where
  "prepare lib op flags cb u =
     (case lu_get_sqe lib (iu_ring u) of
        None \<Rightarrow> Inl QueueFull
      | Some r \<Rightarrow>
          let (cid, u') = set_callback u cb
          in Inr (cid, u'\<lparr>iu_ring := lu_fill_sqe lib \<lparr>sqe_op = op, sqe_flags = flags, sqe_user_data = cid\<rparr> r\<rparr>))"

definition prepare_read where
  "prepare_read lib fd buffer sz offset = prepare lib (Op_read fd buffer sz offset) 0"

definition prepare_write where
  "prepare_write lib fd buffer sz offset = prepare lib (Op_write fd buffer sz offset) 0"

definition prepare_recv where
  "prepare_recv lib fd buffer sz flags = prepare lib (Op_recv fd buffer sz flags) 0"

definition prepare_send where
  "prepare_send lib fd buffer sz flags = prepare lib (Op_send fd buffer sz flags) 0"

definition prepare_accept where
  "prepare_accept lib fd addr addrlen flags = prepare lib (Op_accept fd addr addrlen flags) 0"

definition prepare_connect where
  "prepare_connect lib fd addr addrlen = prepare lib (Op_connect fd addr addrlen) 0"

definition prepare_timeout where
  "prepare_timeout lib ts cnt cb flags = prepare lib (Op_timeout ts cnt) flags cb"

definition prepare_link_timeout where
  "prepare_link_timeout lib ts = prepare lib (Op_link_timeout ts) 0"

definition prepare_async_cancel where
  "prepare_async_cancel lib user_data_to_cancel = prepare lib (Op_cancel user_data_to_cancel) 0"

definition prepare_msg_ring where
  "prepare_msg_ring lib target_ring_fd user_data_msg = prepare lib (Op_msg_ring target_ring_fd user_data_msg) 0"

definition prepare_nop where
  "prepare_nop lib = prepare lib Op_nop 0"

definition submit :: "'r liburing \<Rightarrow> ('r, 'cb) IoUring \<Rightarrow> IoUringError + (int \<times> ('r, 'cb) IoUring)" where
  "submit lib u =
     (case lu_submit lib (iu_ring u) of (ret, r) \<Rightarrow>
        if ret < 0 then Inl SubmitFailed else Inr (ret, u\<lparr>iu_ring := r\<rparr>))"

definition submit_and_wait :: "'r liburing \<Rightarrow> u32 \<Rightarrow> ('r, 'cb) IoUring \<Rightarrow> IoUringError + (int \<times> ('r, 'cb) IoUring)" where
  "submit_and_wait lib wait_nr u =
     (case lu_submit_and_wait lib wait_nr (iu_ring u) of (ret, r) \<Rightarrow>
        if ret < 0 then Inl SubmitFailed else Inr (ret, u\<lparr>iu_ring := r\<rparr>))"

text \<open>
  An entry prepared and submitted inside a \<open>try\<close> block: whether it succeeded, and the ring afterwards. A failed
  submission leaves the prepared entry behind.
\<close>

definition try_submit :: "'r liburing \<Rightarrow> sqe_op \<Rightarrow> 'cb \<Rightarrow> ('r, 'cb) IoUring \<Rightarrow> bool \<times> ('r, 'cb) IoUring" where
  "try_submit lib op cb u =
     (case prepare lib op 0 cb u of
        Inl _ \<Rightarrow> (False, u)
      | Inr (_, u1) \<Rightarrow> (case lu_submit lib (iu_ring u1) of (ret, r) \<Rightarrow> (0 \<le> ret, u1\<lparr>iu_ring := r\<rparr>)))"

text \<open>Calling an empty \<open>std::function\<close> throws \<open>bad_function_call\<close>.\<close>

type_synonym ('r, 'cb, 'w) runner = "'cb \<Rightarrow> int \<Rightarrow> u32 \<Rightarrow> ('r, 'cb) IoUring \<times> 'w \<Rightarrow> ('r, 'cb) IoUring \<times> 'w"

definition ring_seen :: "'r liburing \<Rightarrow> ('r, 'cb) IoUring \<times> 'w \<Rightarrow> ('r, 'cb) IoUring \<times> 'w" where
  "ring_seen lib s = ((fst s)\<lparr>iu_ring := lu_seen lib (iu_ring (fst s))\<rparr>, snd s)"

definition process_cqe :: "'r liburing \<Rightarrow> ('r, 'cb, 'w) runner \<Rightarrow> cqe \<Rightarrow> ('r, 'cb) IoUring \<times> 'w \<Rightarrow>
    IoUringError + (('r, 'cb) IoUring \<times> 'w)" where
  "process_cqe lib run c s =
     (case get_callback (fst s) c of
        None \<Rightarrow> Inr (ring_seen lib s)
      | Some None \<Rightarrow> Inl BadFunctionCall
      | Some (Some cb) \<Rightarrow> Inr (ring_seen lib (run cb (cqe_res c) (cqe_flags c) s)))"

text \<open>The completion at the head of the queue: \<open>None\<close> when the function returns false.\<close>

definition wait_cqe :: "'r liburing \<Rightarrow> ('r, 'cb) IoUring \<Rightarrow> cqe option \<times> ('r, 'cb) IoUring" where
  "wait_cqe lib u = (case lu_wait lib (iu_ring u) of (found, r) \<Rightarrow> (found, u\<lparr>iu_ring := r\<rparr>))"

definition peek_cqe :: "'r liburing \<Rightarrow> ('r, 'cb) IoUring \<Rightarrow> cqe option" where
  "peek_cqe lib u = lu_peek lib (iu_ring u)"

text \<open>
  The loop over all completions ends only when the queue is empty; callbacks may refill it, so not returning
  is the value \<open>None\<close>.
\<close>

partial_function (option) process_all_cqe :: "'r liburing \<Rightarrow> ('r, 'cb, 'w) runner \<Rightarrow> ('r, 'cb) IoUring \<times> 'w \<Rightarrow>
    (IoUringError + (u32 \<times> (('r, 'cb) IoUring \<times> 'w))) option" where
  "process_all_cqe lib run s =
     (case peek_cqe lib (fst s) of
        None \<Rightarrow> Some (Inr (0, s))
      | Some c \<Rightarrow>
          (case process_cqe lib run c s of
             Inl e \<Rightarrow> Some (Inl e)
           | Inr s' \<Rightarrow> Option.bind (process_all_cqe lib run s')
               (\<lambda>res. Some (case res of Inl e \<Rightarrow> Inl e | Inr (n, s'') \<Rightarrow> Inr (1 + n, s'')))))"

text \<open>
  \<open>run_once\<close>: with a time limit a timeout entry with user data 0 is submitted first; then one completion
  is awaited, then all others are processed.
\<close>

definition run_once_arm :: "'r liburing \<Rightarrow> int \<Rightarrow> ('r, 'cb) IoUring \<Rightarrow> IoUringError + ('r, 'cb) IoUring" where
  "run_once_arm lib timeout_ms u =
     (if timeout_ms < 0 then Inr u
      else case lu_get_sqe lib (iu_ring u) of
          None \<Rightarrow> Inr u
        | Some r \<Rightarrow> rbind (submit lib (u\<lparr>iu_ring := lu_fill_sqe lib
              \<lparr>sqe_op = Op_timeout (timeout_ms div 1000, timeout_ms mod 1000 * 1000000) 1, sqe_flags = 0, sqe_user_data = 0\<rparr> r\<rparr>))
            (\<lambda>(_, u'). Inr u'))"

definition run_once_wait :: "'r liburing \<Rightarrow> ('r, 'cb, 'w) runner \<Rightarrow> ('r, 'cb) IoUring \<times> 'w \<Rightarrow>
    IoUringError + (('r, 'cb) IoUring \<times> 'w)" where
  "run_once_wait lib run s =
     (case wait_cqe lib (fst s) of
        (None, u) \<Rightarrow> Inr (u, snd s)
      | (Some c, u) \<Rightarrow> if cqe_user_data c \<noteq> 0 then process_cqe lib run c (u, snd s) else Inr (ring_seen lib (u, snd s)))"

definition run_once :: "'r liburing \<Rightarrow> ('r, 'cb, 'w) runner \<Rightarrow> int \<Rightarrow> ('r, 'cb) IoUring \<times> 'w \<Rightarrow>
    (IoUringError + (u32 \<times> (('r, 'cb) IoUring \<times> 'w))) option" where
  "run_once lib run timeout_ms s =
     (case rbind (run_once_arm lib timeout_ms (fst s)) (\<lambda>u. run_once_wait lib run (u, snd s)) of
        Inl e \<Rightarrow> Some (Inl e)
      | Inr s' \<Rightarrow> Option.bind (process_all_cqe lib run s')
          (\<lambda>res. Some (case res of Inl e \<Rightarrow> Inl e | Inr (n, s'') \<Rightarrow> Inr (1 + n, s''))))"

section \<open>Identifiers\<close>

lemma kMax_mod: "unat ((n :: u64) mod of_nat kMaxCallbacks) = unat n mod kMaxCallbacks"
  by (simp add: kMaxCallbacks_def unat_mod)

lemma kMax_add_mod: "unat (n + of_nat i :: u64) mod kMaxCallbacks = (unat n + i) mod kMaxCallbacks"
proof -
  have "unat (n + of_nat i :: u64) = (unat n + i) mod 2 ^ 64"
    by (simp add: unat_word_ariths unat_of_nat mod_simps take_bit_eq_mod)
  then show ?thesis by (simp add: kMaxCallbacks_def mod_mod_cancel)
qed

lemma set_callback_eq:
  "set_callback u cb = (iu_next_callback_id u mod of_nat kMaxCallbacks,
     u\<lparr>iu_next_callback_id := iu_next_callback_id u + 1,
       iu_callbacks := (iu_callbacks u)(unat (iu_next_callback_id u) mod kMaxCallbacks := Some cb)\<rparr>)"
  by (simp add: set_callback_def Let_def kMax_mod)

lemma prepare_Inr:
  assumes "prepare lib op fl cb u = Inr (cid, u')"
  shows "cid = iu_next_callback_id u mod of_nat kMaxCallbacks"
    and "iu_next_callback_id u' = iu_next_callback_id u + 1"
    and "iu_callbacks u' = (iu_callbacks u)(unat (iu_next_callback_id u) mod kMaxCallbacks := Some cb)"
  using assms by (auto simp: prepare_def set_callback_eq split: option.splits)

lemma get_callback_slot:
  assumes "unat (cqe_user_data c) = k mod kMaxCallbacks"
  shows "get_callback u c = (if k mod kMaxCallbacks = 0 then None else Some (iu_callbacks u (k mod kMaxCallbacks)))"
proof -
  have "k mod kMaxCallbacks < 65536" by (simp add: kMaxCallbacks_def)
  moreover have "cqe_user_data c = 0 \<longleftrightarrow> k mod kMaxCallbacks = 0"
    using assms by (metis unat_eq_zero)
  moreover have "of_nat kMaxCallbacks \<le> cqe_user_data c \<longleftrightarrow> 65536 \<le> k mod kMaxCallbacks"
    using assms by (simp add: word_le_nat_alt kMaxCallbacks_def)
  ultimately show ?thesis using assms by (simp add: get_callback_def)
qed

text \<open>A run of \<open>prepare\<close> calls, with the user data each one got.\<close>

fun prepares :: "'r liburing \<Rightarrow> (sqe_op \<times> u32 \<times> 'cb) list \<Rightarrow> ('r, 'cb) IoUring \<Rightarrow> IoUringError + (u64 list \<times> ('r, 'cb) IoUring)" where
  "prepares lib [] u = Inr ([], u)"
| "prepares lib ((op, fl, cb) # xs) u =
     rbind (prepare lib op fl cb u) (\<lambda>(cid, u'). rbind (prepares lib xs u') (\<lambda>(ids, u''). Inr (cid # ids, u'')))"

lemma next_id_shift:
  assumes "prepare lib op fl cb u = Inr (cid, u1)"
  shows "(unat (iu_next_callback_id u1) + i) mod kMaxCallbacks = (unat (iu_next_callback_id u) + Suc i) mod kMaxCallbacks"
proof -
  let ?n = "iu_next_callback_id u"
  have "(unat (?n + 1) + i) mod kMaxCallbacks = (unat (?n + 1) mod kMaxCallbacks + i) mod kMaxCallbacks"
    by (simp only: mod_add_left_eq)
  also have "unat (?n + 1) mod kMaxCallbacks = (unat ?n + 1) mod kMaxCallbacks"
    using kMax_add_mod [of ?n 1] by (simp only: of_nat_1)
  finally have "(unat (?n + 1) + i) mod kMaxCallbacks = (unat ?n + 1 + i) mod kMaxCallbacks"
    by (simp only: mod_add_left_eq)
  then show ?thesis by (simp only: prepare_Inr(2) [OF assms] add_Suc_right add_Suc Suc_eq_plus1 add.assoc add.commute [of 1 i])
qed

lemma prepares_ids:
  assumes "prepares lib xs u = Inr (ids, u')"
  shows "length ids = length xs" and "i < length xs \<Longrightarrow> unat (ids ! i) = (unat (iu_next_callback_id u) + i) mod kMaxCallbacks"
proof -
  have "length ids = length xs \<and> (\<forall>i < length xs. unat (ids ! i) = (unat (iu_next_callback_id u) + i) mod kMaxCallbacks)"
    using assms
  proof (induction lib xs u arbitrary: ids u' rule: prepares.induct)
    case (1 lib u)
    then show ?case by simp
  next
    case (2 lib op fl cb xs u)
    from "2.prems" obtain cid u1 ids' where p: "prepare lib op fl cb u = Inr (cid, u1)"
        and q: "prepares lib xs u1 = Inr (ids', u')" and ids: "ids = cid # ids'"
      by (auto simp: rbind_Inr_iff)
    note IH = "2.IH" [OF q]
    show ?case
    proof (intro conjI allI impI)
      show "length ids = length ((op, fl, cb) # xs)" using IH ids by simp
      fix i assume "i < length ((op, fl, cb) # xs)"
      then show "unat (ids ! i) = (unat (iu_next_callback_id u) + i) mod kMaxCallbacks"
        using IH prepare_Inr(1) [OF p] kMax_mod next_id_shift [OF p]
        by (cases i) (simp_all add: ids)
    qed
  qed
  then show "length ids = length xs"
    and "i < length xs \<Longrightarrow> unat (ids ! i) = (unat (iu_next_callback_id u) + i) mod kMaxCallbacks" by auto
qed

lemma prepares_keep:
  assumes "prepares lib xs u = Inr (ids, u')"
    and "\<And>i. i < length xs \<Longrightarrow> (unat (iu_next_callback_id u) + i) mod kMaxCallbacks \<noteq> k"
  shows "iu_callbacks u' k = iu_callbacks u k"
  using assms
proof (induction lib xs u arbitrary: ids u' rule: prepares.induct)
  case (1 lib u)
  then show ?case by simp
next
  case (2 lib op fl cb xs u)
  from "2.prems"(1) obtain cid u1 ids' where p: "prepare lib op fl cb u = Inr (cid, u1)"
      and q: "prepares lib xs u1 = Inr (ids', u')" by (auto simp: rbind_Inr_iff)
  have "iu_callbacks u' k = iu_callbacks u1 k"
  proof (rule "2.IH" [OF q])
    fix i assume "i < length xs"
    then show "(unat (iu_next_callback_id u1) + i) mod kMaxCallbacks \<noteq> k"
      using "2.prems"(2) [of "Suc i"] next_id_shift [OF p, of i] by simp
  qed
  then show ?case using prepare_Inr(3) [OF p] "2.prems"(2) [of 0] by simp
qed

lemma slots_differ:
  assumes "0 < i" "i < kMaxCallbacks"
  shows "(n + i) mod kMaxCallbacks \<noteq> n mod kMaxCallbacks"
proof
  assume "(n + i) mod kMaxCallbacks = n mod kMaxCallbacks"
  then have "kMaxCallbacks dvd n + i - n" by (metis mod_eq_dvd_iff_nat le_add1)
  then show False using assms by (auto dest: dvd_imp_le)
qed

lemma prepares_callbacks:
  assumes "prepares lib xs u = Inr (ids, u')" "length xs \<le> kMaxCallbacks" "i < length xs"
  shows "iu_callbacks u' ((unat (iu_next_callback_id u) + i) mod kMaxCallbacks) = Some (snd (snd (xs ! i)))"
  using assms
proof (induction lib xs u arbitrary: ids u' i rule: prepares.induct)
  case (1 lib u)
  then show ?case by simp
next
  case (2 lib op fl cb xs u)
  from "2.prems"(1) obtain cid u1 ids' where p: "prepare lib op fl cb u = Inr (cid, u1)"
      and q: "prepares lib xs u1 = Inr (ids', u')" by (auto simp: rbind_Inr_iff)
  show ?case
  proof (cases i)
    case 0
    have "iu_callbacks u' (unat (iu_next_callback_id u) mod kMaxCallbacks) =
        iu_callbacks u1 (unat (iu_next_callback_id u) mod kMaxCallbacks)"
    proof (rule prepares_keep [OF q])
      fix j assume "j < length xs"
      then show "(unat (iu_next_callback_id u1) + j) mod kMaxCallbacks \<noteq> unat (iu_next_callback_id u) mod kMaxCallbacks"
        unfolding next_id_shift [OF p] using "2.prems"(2) by (intro slots_differ) auto
    qed
    then show ?thesis using prepare_Inr(3) [OF p] 0 by simp
  next
    case (Suc j)
    with "2.IH" [OF q, of j] "2.prems"(2,3) show ?thesis by (simp add: next_id_shift [OF p])
  qed
qed

section \<open>Draining the completion queue\<close>

text \<open>
  What the wrapper relies on from liburing's completion queue: \<open>peek\<close> shows its head and \<open>seen\<close> removes it.
  A ringless callback does not touch the ring.
\<close>

definition ringless :: "('cb \<Rightarrow> int \<Rightarrow> u32 \<Rightarrow> 'w \<Rightarrow> 'w) \<Rightarrow> ('r, 'cb, 'w) runner" where
  "ringless eff cb res fl s = (fst s, eff cb res fl (snd s))"

text \<open>Delivering a completion: its callback, if it has one, sees its result and flags.\<close>

definition deliver :: "(nat \<Rightarrow> 'cb option) \<Rightarrow> ('cb \<Rightarrow> int \<Rightarrow> u32 \<Rightarrow> 'w \<Rightarrow> 'w) \<Rightarrow> cqe \<Rightarrow> 'w \<Rightarrow> 'w" where
  "deliver tbl eff c w =
     (if cqe_user_data c = 0 \<or> of_nat kMaxCallbacks \<le> cqe_user_data c then w
      else case tbl (unat (cqe_user_data c)) of None \<Rightarrow> w | Some cb \<Rightarrow> eff cb (cqe_res c) (cqe_flags c) w)"

definition callable :: "(nat \<Rightarrow> 'cb option) \<Rightarrow> cqe \<Rightarrow> bool" where
  "callable tbl c \<longleftrightarrow> cqe_user_data c = 0 \<or> of_nat kMaxCallbacks \<le> cqe_user_data c \<or> tbl (unat (cqe_user_data c)) \<noteq> None"

lemma process_cqe_ringless:
  "process_cqe lib (ringless eff) c (u, w) =
     (if callable (iu_callbacks u) c
      then Inr (u\<lparr>iu_ring := lu_seen lib (iu_ring u)\<rparr>, deliver (iu_callbacks u) eff c w)
      else Inl BadFunctionCall)"
  by (auto simp: process_cqe_def get_callback_def callable_def deliver_def ringless_def ring_seen_def split: option.splits)

locale completion_queue =
  fixes lib :: "'r liburing" and cq :: "'r \<Rightarrow> cqe list"
  assumes peek_head: "lu_peek lib r = (case cq r of [] \<Rightarrow> None | c # _ \<Rightarrow> Some c)"
    and seen_tail: "cq (lu_seen lib r) = tl (cq r)"
begin

lemma process_all_drains:
  assumes "list_all (callable (iu_callbacks u)) (cq (iu_ring u))"
  shows "\<exists>r'. process_all_cqe lib (ringless eff) (u, w) = Some (Inr (of_nat (length (cq (iu_ring u))),
      (u\<lparr>iu_ring := r'\<rparr>, fold (deliver (iu_callbacks u) eff) (cq (iu_ring u)) w))) \<and> cq r' = []"
  using assms
proof (induction "cq (iu_ring u)" arbitrary: u w)
  case Nil
  then have "peek_cqe lib u = None" by (simp add: peek_head peek_cqe_def)
  with Nil show ?case by (subst process_all_cqe.simps) (auto intro: exI [of _ "iu_ring u"])
next
  case (Cons c cs)
  let ?u = "u\<lparr>iu_ring := lu_seen lib (iu_ring u)\<rparr>"
  have cq: "cq (iu_ring u) = c # cs" using Cons.hyps(2) by simp
  have "cs = cq (iu_ring ?u)" using cq by (simp add: seen_tail)
  from Cons.hyps(1) [OF this, of "deliver (iu_callbacks u) eff c w"] Cons.prems
  obtain r' where "process_all_cqe lib (ringless eff) (?u, deliver (iu_callbacks u) eff c w) =
      Some (Inr (of_nat (length cs), (u\<lparr>iu_ring := r'\<rparr>, fold (deliver (iu_callbacks u) eff) cs (deliver (iu_callbacks u) eff c w))))"
      "cq r' = []"
    by (auto simp: seen_tail cq)
  moreover have "peek_cqe lib u = Some c" by (simp add: peek_head cq peek_cqe_def)
  moreover have "callable (iu_callbacks u) c" using Cons.prems by (simp add: cq)
  ultimately show ?case
    by (subst process_all_cqe.simps) (auto simp: process_cqe_ringless cq)
qed

end

text \<open>A ring kept in lists: a submission queue of fixed capacity whose entries complete when submitted.\<close>

record list_ring =
  lr_capacity :: nat
  lr_sq :: "sqe list"
  lr_cq :: "cqe list"

definition list_lib :: "list_ring liburing" where
  "list_lib = \<lparr>
     lu_init = (\<lambda>depth _. (0, \<lparr>lr_capacity = unat depth, lr_sq = [], lr_cq = []\<rparr>)),
     lu_exit = (\<lambda>r. r\<lparr>lr_sq := [], lr_cq := []\<rparr>),
     lu_get_sqe = (\<lambda>r. if length (lr_sq r) < lr_capacity r
       then Some (r\<lparr>lr_sq := lr_sq r @ [\<lparr>sqe_op = Op_nop, sqe_flags = 0, sqe_user_data = 0\<rparr>]\<rparr>) else None),
     lu_fill_sqe = (\<lambda>e r. r\<lparr>lr_sq := butlast (lr_sq r) @ [e]\<rparr>),
     lu_submit = (\<lambda>r. (int (length (lr_sq r)), r\<lparr>lr_sq := [],
       lr_cq := lr_cq r @ map (\<lambda>e. \<lparr>cqe_res = 0, cqe_flags = 0, cqe_user_data = sqe_user_data e\<rparr>) (lr_sq r)\<rparr>)),
     lu_submit_and_wait = (\<lambda>_ r. (int (length (lr_sq r)), r\<lparr>lr_sq := [],
       lr_cq := lr_cq r @ map (\<lambda>e. \<lparr>cqe_res = 0, cqe_flags = 0, cqe_user_data = sqe_user_data e\<rparr>) (lr_sq r)\<rparr>)),
     lu_wait = (\<lambda>r. (case lr_cq r of [] \<Rightarrow> None | c # _ \<Rightarrow> Some c, r)),
     lu_peek = (\<lambda>r. case lr_cq r of [] \<Rightarrow> None | c # _ \<Rightarrow> Some c),
     lu_seen = (\<lambda>r. r\<lparr>lr_cq := tl (lr_cq r)\<rparr>)\<rparr>"

interpretation list_cq: completion_queue list_lib lr_cq
  by unfold_locales (simp_all add: list_lib_def)

section \<open>Properties\<close>

text \<open>
  C18. Completions reach their callbacks: of at most 65536 operations prepared since, every operation whose
  user data is not zero has its own callback invoked, with the result and the flags of the completion
  that carries this user data; no other callback is invoked.
\<close>

theorem callback_dispatch:
  assumes "prepares lib ops u = Inr (ids, u')" "length ops \<le> kMaxCallbacks" "i < length ops"
    and "ids ! i \<noteq> 0" "cqe_user_data c = ids ! i"
  shows "process_cqe lib run c (u', w) =
    Inr (ring_seen lib (run (snd (snd (ops ! i))) (cqe_res c) (cqe_flags c) (u', w)))"
proof -
  have k: "unat (cqe_user_data c) = (unat (iu_next_callback_id u) + i) mod kMaxCallbacks"
    using prepares_ids(2) [OF assms(1,3)] assms(5) by simp
  moreover have "unat (cqe_user_data c) \<noteq> 0" using assms(4,5) by (simp add: unat_eq_zero)
  ultimately show ?thesis
    using get_callback_slot [OF k, of u'] prepares_callbacks [OF assms(1-3)] by (simp add: process_cqe_def)
qed

definition uring_ex :: "u64 \<Rightarrow> (list_ring, nat) IoUring" where
  "uring_ex n = \<lparr>iu_config = \<lparr>queue_depth = 8, sq_thread_cpu = 0, sq_thread_idle = 0, sq_poll = False, iopoll = False,
     fixed_files = False, fixed_files_count = 0, setup_coop_taskrun = False\<rparr>, iu_ring = \<lparr>lr_capacity = 8, lr_sq = [], lr_cq = []\<rparr>, iu_running = True,
     iu_callbacks = (\<lambda>_. None), iu_next_callback_id = n\<rparr>"

theorem callback_dispatch_witness:
  "(case prepares list_lib [(Op_nop, 0, 10), (Op_nop, 0, 20)] (uring_ex 1) of Inl _ \<Rightarrow> False
    | Inr (ids, u') \<Rightarrow>
        process_cqe list_lib (ringless (\<lambda>cb res _ log. log @ [(cb, res)])) \<lparr>cqe_res = 5, cqe_flags = 0, cqe_user_data = 2\<rparr> (u', []) =
        Inr (ring_seen list_lib (ringless (\<lambda>cb res _ log. log @ [(cb, res)]) (20 :: nat) 5 0 (u', []))))"
proof -
  obtain ids u' where p: "prepares list_lib [(Op_nop, 0, 10), (Op_nop, 0, 20)] (uring_ex 1) = Inr (ids, u')" "ids = [1, 2]"
    by (simp add: prepare_def list_lib_def uring_ex_def set_callback_def kMaxCallbacks_def)
  with callback_dispatch [OF p(1), of 1 "\<lparr>cqe_res = 5, cqe_flags = 0, cqe_user_data = 2\<rparr>"
      "ringless (\<lambda>cb res _ log. log @ [(cb, res)])" "[]"]
  show ?thesis by (simp add: kMaxCallbacks_def)
qed

text \<open>
  Every 65536th operation loses its callback: it gets user data 0, which the dispatcher takes for an
  internal timeout, so its completion is discarded and whoever waits for it is never resumed.
\<close>

theorem callback_lost:
  assumes "prepares lib ops u = Inr (ids, u')" "i < length ops"
    and "kMaxCallbacks dvd unat (iu_next_callback_id u) + i" "cqe_user_data c = ids ! i"
  shows "ids ! i = 0 \<and> process_cqe lib run c (u', w) = Inr (ring_seen lib (u', w))"
proof -
  have "unat (ids ! i) = 0" using prepares_ids(2) [OF assms(1,2)] assms(3) by (simp add: dvd_eq_mod_eq_0)
  then have "ids ! i = 0" by (simp add: unat_eq_zero)
  with assms(4) show ?thesis by (simp add: process_cqe_def get_callback_def)
qed

theorem callback_lost_witness:
  "(case prepares list_lib [(Op_nop, 0, 10)] (uring_ex 65536) of Inl _ \<Rightarrow> False
    | Inr (ids, u') \<Rightarrow> ids ! 0 = 0 \<and>
        process_cqe list_lib (ringless (\<lambda>cb res _ log. log @ [(cb, res)])) \<lparr>cqe_res = 5, cqe_flags = 0, cqe_user_data = 0\<rparr> (u', []) =
        Inr (ring_seen list_lib (u', [])))"
proof -
  obtain ids u' where p: "prepares list_lib [(Op_nop, 0, 10)] (uring_ex 65536) = Inr (ids, u')" "ids = [0]"
    by (simp add: prepare_def list_lib_def uring_ex_def set_callback_def kMaxCallbacks_def)
  with callback_lost [OF p(1), of 0 "\<lparr>cqe_res = 5, cqe_flags = 0, cqe_user_data = 0\<rparr>"
      "ringless (\<lambda>cb res _ log. log @ [(cb, res)])" "[]"]
  show ?thesis by (simp add: kMaxCallbacks_def uring_ex_def)
qed

text \<open>
  With callbacks that leave the ring alone, \<open>process_all_cqe\<close> terminates, returns the number of queued
  completions (modulo the range of the counter), has delivered each of them to its callback in queue order, and leaves the queue empty.
\<close>

theorem process_all_delivers:
  assumes "completion_queue lib cq" "list_all (callable (iu_callbacks u)) (cq (iu_ring u))"
  shows "\<exists>r'. process_all_cqe lib (ringless eff) (u, w) = Some (Inr (of_nat (length (cq (iu_ring u))),
    (u\<lparr>iu_ring := r'\<rparr>, fold (deliver (iu_callbacks u) eff) (cq (iu_ring u)) w))) \<and> cq r' = []"
  by (rule completion_queue.process_all_drains [OF assms])

definition uring_ex2 :: "(list_ring, nat) IoUring" where
  "uring_ex2 = (uring_ex 3)\<lparr>iu_callbacks := (\<lambda>_. None)(2 := Some 20),
     iu_ring := \<lparr>lr_capacity = 8, lr_sq = [], lr_cq = [\<lparr>cqe_res = 5, cqe_flags = 0, cqe_user_data = 2\<rparr>]\<rparr>\<rparr>"

theorem process_all_delivers_witness:
  "\<exists>r'. process_all_cqe list_lib (ringless (\<lambda>cb res _ log. log @ [(cb, res)])) (uring_ex2, []) =
    Some (Inr (1, (uring_ex2\<lparr>iu_ring := r'\<rparr>, [(20, 5)]))) \<and> lr_cq r' = []"
proof -
  let ?eff = "\<lambda>cb res (_ :: u32) log. log @ [(cb :: nat, res :: int)]"
  have "list_all (callable (iu_callbacks uring_ex2)) (lr_cq (iu_ring uring_ex2))"
    by (simp add: callable_def uring_ex2_def kMaxCallbacks_def)
  note del = process_all_delivers [OF list_cq.completion_queue_axioms this, of ?eff "[]"]
  have "of_nat (length (lr_cq (iu_ring uring_ex2))) = (1 :: u32)" by (simp add: uring_ex2_def)
  moreover have "fold (deliver (iu_callbacks uring_ex2) ?eff) (lr_cq (iu_ring uring_ex2)) [] = [(20, 5)]"
    by (simp add: uring_ex2_def deliver_def kMaxCallbacks_def)
  ultimately show ?thesis using del by (simp only:)
qed

end
