(* ===== verification/Io_Async.thy ===== *)
theory Io_Async
  imports Io_Uring "HOL-Library.Signed_Division"
begin

text \<open>
  The awaitable operations of \<open>io/async_io.hpp\<close>, the loops \<open>async_read_all\<close> and \<open>async_write_all\<close>, and the
  sleeping awaiter of \<open>io/timer.hpp\<close>. An awaiter is named by a number, a coroutine handle by a number; resuming
  a handle is recorded in the world. An exception in an \<open>await_suspend\<close>, which is \<open>noexcept\<close>, is the
  value \<open>Terminate\<close>.
\<close>

section \<open>Awaiters of ring operations\<close>

datatype io_cb = Resume nat nat

record io_world =
  iw_result :: "nat \<Rightarrow> int"
  iw_resumed :: "nat list"

datatype abort = Terminate

definition noexcept :: "IoUringError + 'a \<Rightarrow> abort + 'a" where
  "noexcept m = (case m of Inl _ \<Rightarrow> Inl Terminate | Inr x \<Rightarrow> Inr x)"

text \<open>The completion callback shared by the awaiters: store the result, then resume.\<close>

definition resume_run :: "('r, io_cb, io_world) runner" where
  "resume_run cb res fl s =
     (case cb of Resume a h \<Rightarrow>
        (fst s, (snd s)\<lparr>iw_result := (iw_result (snd s))(a := res), iw_resumed := iw_resumed (snd s) @ [h]\<rparr>))"

definition suspend_with :: "'r liburing \<Rightarrow> (('r, io_cb) IoUring \<Rightarrow> IoUringError + (u64 \<times> ('r, io_cb) IoUring)) \<Rightarrow>
    ('r, io_cb) IoUring \<Rightarrow> abort + ('r, io_cb) IoUring" where
  "suspend_with lib prep u =
     noexcept (rbind (prep u) (\<lambda>(_, u'). rbind (submit lib u') (\<lambda>(_, u''). Inr u'')))"

text \<open>
  The awaiter objects. The completion callback captures \<open>this\<close>, so an awaiter has an address, and its member
  \<open>result_\<close> lives in the world under that address; the other members never change after construction.
  Construction stores the initial value of \<open>result_\<close>: 0 for the operations that count bytes, -1 for the others.
\<close>

definition init_result :: "nat \<Rightarrow> int \<Rightarrow> io_world \<Rightarrow> io_world" where
  "init_result this v w = w\<lparr>iw_result := (iw_result w)(this := v)\<rparr>"

record AsyncReadAwaiter =
  rda_this :: nat
  rda_fd :: int
  rda_buffer :: nat
  rda_size :: nat
  rda_offset :: int

definition AsyncReadAwaiter_ctor :: "nat \<Rightarrow> int \<Rightarrow> nat \<Rightarrow> nat \<Rightarrow> int \<Rightarrow> io_world \<Rightarrow> AsyncReadAwaiter \<times> io_world" where
  "AsyncReadAwaiter_ctor this fd buffer sz offset w =
     (\<lparr>rda_this = this, rda_fd = fd, rda_buffer = buffer, rda_size = sz, rda_offset = offset\<rparr>, init_result this 0 w)"

definition AsyncReadAwaiter_suspend where
  "AsyncReadAwaiter_suspend lib aw h =
     suspend_with lib (prepare_read lib (rda_fd aw) (rda_buffer aw) (rda_size aw) (rda_offset aw) (Resume (rda_this aw) h))"

record AsyncWriteAwaiter =
  wra_this :: nat
  wra_fd :: int
  wra_buffer :: nat
  wra_size :: nat
  wra_offset :: int

definition AsyncWriteAwaiter_ctor :: "nat \<Rightarrow> int \<Rightarrow> nat \<Rightarrow> nat \<Rightarrow> int \<Rightarrow> io_world \<Rightarrow> AsyncWriteAwaiter \<times> io_world" where
  "AsyncWriteAwaiter_ctor this fd buffer sz offset w =
     (\<lparr>wra_this = this, wra_fd = fd, wra_buffer = buffer, wra_size = sz, wra_offset = offset\<rparr>, init_result this 0 w)"

definition AsyncWriteAwaiter_suspend where
  "AsyncWriteAwaiter_suspend lib aw h =
     suspend_with lib (prepare_write lib (wra_fd aw) (wra_buffer aw) (wra_size aw) (wra_offset aw) (Resume (wra_this aw) h))"

record AsyncRecvAwaiter =
  rva_this :: nat
  rva_fd :: int
  rva_buffer :: nat
  rva_size :: nat
  rva_flags :: int

definition AsyncRecvAwaiter_ctor :: "nat \<Rightarrow> int \<Rightarrow> nat \<Rightarrow> nat \<Rightarrow> int \<Rightarrow> io_world \<Rightarrow> AsyncRecvAwaiter \<times> io_world" where
  "AsyncRecvAwaiter_ctor this fd buffer sz flags w =
     (\<lparr>rva_this = this, rva_fd = fd, rva_buffer = buffer, rva_size = sz, rva_flags = flags\<rparr>, init_result this 0 w)"

definition AsyncRecvAwaiter_suspend where
  "AsyncRecvAwaiter_suspend lib aw h =
     suspend_with lib (prepare_recv lib (rva_fd aw) (rva_buffer aw) (rva_size aw) (rva_flags aw) (Resume (rva_this aw) h))"

record AsyncSendAwaiter =
  sda_this :: nat
  sda_fd :: int
  sda_buffer :: nat
  sda_size :: nat
  sda_flags :: int

definition AsyncSendAwaiter_ctor :: "nat \<Rightarrow> int \<Rightarrow> nat \<Rightarrow> nat \<Rightarrow> int \<Rightarrow> io_world \<Rightarrow> AsyncSendAwaiter \<times> io_world" where
  "AsyncSendAwaiter_ctor this fd buffer sz flags w =
     (\<lparr>sda_this = this, sda_fd = fd, sda_buffer = buffer, sda_size = sz, sda_flags = flags\<rparr>, init_result this 0 w)"

definition AsyncSendAwaiter_suspend where
  "AsyncSendAwaiter_suspend lib aw h =
     suspend_with lib (prepare_send lib (sda_fd aw) (sda_buffer aw) (sda_size aw) (sda_flags aw) (Resume (sda_this aw) h))"

record AsyncAcceptAwaiter =
  aca_this :: nat
  aca_fd :: int
  aca_addr :: nat
  aca_addrlen :: nat
  aca_flags :: int

definition AsyncAcceptAwaiter_ctor :: "nat \<Rightarrow> int \<Rightarrow> nat \<Rightarrow> nat \<Rightarrow> int \<Rightarrow> io_world \<Rightarrow> AsyncAcceptAwaiter \<times> io_world" where
  "AsyncAcceptAwaiter_ctor this fd addr addrlen flags w =
     (\<lparr>aca_this = this, aca_fd = fd, aca_addr = addr, aca_addrlen = addrlen, aca_flags = flags\<rparr>, init_result this (- 1) w)"

definition AsyncAcceptAwaiter_suspend where
  "AsyncAcceptAwaiter_suspend lib aw h =
     suspend_with lib (prepare_accept lib (aca_fd aw) (aca_addr aw) (aca_addrlen aw) (aca_flags aw) (Resume (aca_this aw) h))"

record AsyncConnectAwaiter =
  coa_this :: nat
  coa_fd :: int
  coa_addr :: nat
  coa_addrlen :: nat

definition AsyncConnectAwaiter_ctor :: "nat \<Rightarrow> int \<Rightarrow> nat \<Rightarrow> nat \<Rightarrow> io_world \<Rightarrow> AsyncConnectAwaiter \<times> io_world" where
  "AsyncConnectAwaiter_ctor this fd addr addrlen w =
     (\<lparr>coa_this = this, coa_fd = fd, coa_addr = addr, coa_addrlen = addrlen\<rparr>, init_result this (- 1) w)"

definition AsyncConnectAwaiter_suspend where
  "AsyncConnectAwaiter_suspend lib aw h =
     suspend_with lib (prepare_connect lib (coa_fd aw) (coa_addr aw) (coa_addrlen aw) (Resume (coa_this aw) h))"

text \<open>No awaiter is ready at once; the value of the \<open>co_await\<close> expression is the stored result.\<close>

definition io_await_ready :: bool where
  "io_await_ready = False"

definition await_resume :: "nat \<Rightarrow> io_world \<Rightarrow> int" where
  "await_resume a w = iw_result w a"

section \<open>Convenience functions\<close>

definition async_read where
  "async_read = AsyncReadAwaiter_ctor"

definition async_write where
  "async_write = AsyncWriteAwaiter_ctor"

definition async_recv where
  "async_recv = AsyncRecvAwaiter_ctor"

definition async_send where
  "async_send = AsyncSendAwaiter_ctor"

definition async_accept where
  "async_accept = AsyncAcceptAwaiter_ctor"

definition async_connect where
  "async_connect = AsyncConnectAwaiter_ctor"

section \<open>Durations\<close>

text \<open>The division of C++ rounds towards zero.\<close>

definition to_kernel_timespec_ns :: "int \<Rightarrow> timespec" where
  "to_kernel_timespec_ns ns = (ns sdiv 1000000000, ns smod 1000000000)"

definition to_kernel_timespec_ms :: "int \<Rightarrow> timespec" where
  "to_kernel_timespec_ms ms = to_kernel_timespec_ns (ms * 1000000)"

definition to_kernel_timespec_s :: "int \<Rightarrow> timespec" where
  "to_kernel_timespec_s s = to_kernel_timespec_ns (s * 1000000000)"

section \<open>Sleeping\<close>

record TimeoutAwaiter =
  toa_this :: nat
  toa_ts :: timespec

definition TimeoutAwaiter_ctor_ns :: "nat \<Rightarrow> int \<Rightarrow> io_world \<Rightarrow> TimeoutAwaiter \<times> io_world" where
  "TimeoutAwaiter_ctor_ns this duration w = (\<lparr>toa_this = this, toa_ts = to_kernel_timespec_ns duration\<rparr>, init_result this 0 w)"

definition TimeoutAwaiter_ctor_ms :: "nat \<Rightarrow> int \<Rightarrow> io_world \<Rightarrow> TimeoutAwaiter \<times> io_world" where
  "TimeoutAwaiter_ctor_ms this ms w = (\<lparr>toa_this = this, toa_ts = to_kernel_timespec_ms ms\<rparr>, init_result this 0 w)"

definition TimeoutAwaiter_suspend where
  "TimeoutAwaiter_suspend lib aw h =
     suspend_with lib (\<lambda>u. prepare_timeout lib (toa_ts aw) 0 (Resume (toa_this aw) h) 0 u)"

definition ETIME :: int where "ETIME = 62"

definition ECANCELED :: int where "ECANCELED = 125"

definition TimeoutAwaiter_timed_out :: "nat \<Rightarrow> io_world \<Rightarrow> bool" where
  "TimeoutAwaiter_timed_out a w \<longleftrightarrow> iw_result w a = - ETIME"

section \<open>Reading and writing everything\<close>

text \<open>
  \<open>rd off len w\<close> is a read of at most \<open>len\<close> bytes at file offset \<open>off\<close>; an empty result stands for \<open>n \<le> 0\<close>.
  \<open>resize\<close> is \<open>std::string::resize\<close>.
\<close>

definition resize :: "nat \<Rightarrow> bytes \<Rightarrow> bytes" where
  "resize n xs = take n xs @ replicate (n - length xs) 0"

function read_all_loop :: "(nat \<Rightarrow> nat \<Rightarrow> 'w \<Rightarrow> bytes \<times> 'w) \<Rightarrow> nat \<Rightarrow> bytes \<Rightarrow> nat \<Rightarrow> 'w \<Rightarrow> (bytes \<times> nat) \<times> 'w" where
  "read_all_loop rd max_size result tot w =
     (if tot < max_size then
        let (data, w') = rd tot (length result - tot) w;
            tot' = tot + length data;
            result' = take tot result @ data @ drop tot' result
        in if data = [] then ((result, tot), w')
           else read_all_loop rd max_size
             (if tot' = length result' then resize (min (length result' * 2) max_size) result' else result') tot' w'
      else ((result, tot), w))"
  by pat_completeness auto
termination
  by (relation "measure (\<lambda>(_, max_size, _, tot, _). max_size - tot)") (auto intro!: diff_less_mono2)

declare read_all_loop.simps [simp del]

definition async_read_all :: "(nat \<Rightarrow> nat \<Rightarrow> 'w \<Rightarrow> bytes \<times> 'w) \<Rightarrow> nat \<Rightarrow> 'w \<Rightarrow> bytes \<times> 'w" where
  "async_read_all rd max_size w =
     (case read_all_loop rd max_size (replicate 4096 0) 0 w of ((result, tot), w') \<Rightarrow> (resize tot result, w'))"

text \<open>\<open>wr off data w\<close> is a write at file offset \<open>off\<close>; it returns how many bytes were taken, 0 for \<open>n \<le> 0\<close>.\<close>

function write_all_loop :: "(nat \<Rightarrow> bytes \<Rightarrow> 'w \<Rightarrow> nat \<times> 'w) \<Rightarrow> bytes \<Rightarrow> nat \<Rightarrow> 'w \<Rightarrow> nat \<times> 'w" where
  "write_all_loop wr buffer written w =
     (if written < length buffer then
        let (n, w') = wr written (drop written buffer) w
        in if n = 0 then (written, w') else write_all_loop wr buffer (written + n) w'
      else (written, w))"
  by pat_completeness auto
termination by (relation "measure (\<lambda>(_, buffer, written, _). length buffer - written)") auto

declare write_all_loop.simps [simp del]

definition async_write_all :: "(nat \<Rightarrow> bytes \<Rightarrow> 'w \<Rightarrow> nat \<times> 'w) \<Rightarrow> bytes \<Rightarrow> 'w \<Rightarrow> nat \<times> 'w" where
  "async_write_all wr buffer w = write_all_loop wr buffer 0 w"

section \<open>Reading: lemmas\<close>

text \<open>The contract of a read from a regular file: some bytes of the file at that offset, none only at its end.\<close>

definition reads_file :: "(nat \<Rightarrow> nat \<Rightarrow> 'w \<Rightarrow> bytes \<times> 'w) \<Rightarrow> bytes \<Rightarrow> bool" where
  "reads_file rd f \<longleftrightarrow> (\<forall>off len w. \<exists>k \<le> len. fst (rd off len w) = take k (drop off f) \<and>
     (0 < len \<and> off < length f \<longrightarrow> 0 < k))"

lemma length_resize [simp]: "length (resize n xs) = n"
  by (simp add: resize_def)

lemma take_resize: "k \<le> n \<Longrightarrow> k \<le> length xs \<Longrightarrow> take k (resize n xs) = take k xs"
  by (simp add: resize_def)

lemma read_all_loop_file:
  assumes "reads_file rd f" "max_size \<le> length f \<or> tot \<le> length f" "take tot result = take tot f"
    and "tot \<le> length f" "tot \<le> max_size" "length result \<le> max_size" "tot < length result \<or> tot = max_size"
    and "tot \<le> length result"
  shows "\<exists>result' w'. read_all_loop rd max_size result tot w = ((result', min max_size (length f)), w') \<and>
    take (min max_size (length f)) result' = take max_size f \<and> min max_size (length f) \<le> length result'"
  using assms
proof (induction rd max_size result tot w rule: read_all_loop.induct)
  case (1 rd max_size result tot w)
  show ?case
  proof (cases "tot < max_size")
    case False
    with "1.prems" show ?thesis by (subst read_all_loop.simps) (auto simp: min_def)
  next
    case True
    obtain data w' where rd: "rd tot (length result - tot) w = (data, w')" by fastforce
    from "1.prems"(1) obtain k where k: "k \<le> length result - tot" "data = take k (drop tot f)"
        "0 < length result - tot \<and> tot < length f \<longrightarrow> 0 < k"
      unfolding reads_file_def by (metis fst_conv rd)
    have room: "tot < length result" using "1.prems"(7) True by auto
    show ?thesis
    proof (cases "data = []")
      case True': True
      then have "tot = length f" using k room "1.prems"(4) by (auto simp: take_eq_Nil)
      then show ?thesis
        using "1.prems" True rd True' by (subst read_all_loop.simps) (auto simp: min_def)
    next
      case False
      let ?tot = "tot + length data"
      let ?res = "take tot result @ data @ drop ?tot result"
      let ?res' = "if ?tot = length ?res then resize (min (length ?res * 2) max_size) ?res else ?res"
      have len: "length data \<le> length result - tot" "length data \<le> length f - tot" using k by auto
      have lres: "length ?res = length result" using len room by simp
      have data: "data = take (length data) (drop tot f)" using k(2) by (metis append_take_drop_id append_eq_conv_conj)
      have tk: "take ?tot ?res = take ?tot f"
        using "1.prems"(3,4,8) data by (simp add: take_add)
      have "\<exists>result' w''. read_all_loop rd max_size ?res' ?tot w' = ((result', min max_size (length f)), w'') \<and>
          take (min max_size (length f)) result' = take max_size f \<and> min max_size (length f) \<le> length result'"
      proof (rule "1.IH" [OF True rd [symmetric] refl refl refl False])
        show "reads_file rd f" by (rule "1.prems"(1))
        show t1: "?tot \<le> length f" using len "1.prems"(4) by simp
        then show "max_size \<le> length f \<or> ?tot \<le> length f" by simp
        have ltot: "?tot \<le> length result" using len room by simp
        show t2: "?tot \<le> max_size" using ltot "1.prems"(6) by simp
        show "length ?res' \<le> max_size" using lres "1.prems"(6) by simp
        show "?tot < length ?res' \<or> ?tot = max_size" using lres ltot t2 room by auto
        show "?tot \<le> length ?res'" using lres ltot t2 by auto
        show "take ?tot ?res' = take ?tot f"
        proof (cases "?tot = length ?res")
          case eq: True
          have "take ?tot (resize (min (length ?res * 2) max_size) ?res) = take ?tot ?res"
            by (rule take_resize) (use t2 eq in auto)
          then show ?thesis unfolding if_P [OF eq] tk .
        qed (use tk in simp)
      qed
      then show ?thesis
        using True rd False by (subst read_all_loop.simps) (simp add: Let_def)
    qed
  qed
qed

section \<open>Writing: lemmas\<close>

text \<open>
  A writer that takes \<open>k off len\<close> bytes of what it is offered and records them with their offset.
\<close>

definition logging_writer :: "(nat \<Rightarrow> nat \<Rightarrow> nat) \<Rightarrow> nat \<Rightarrow> bytes \<Rightarrow> (nat \<times> bytes) list \<Rightarrow> nat \<times> (nat \<times> bytes) list" where
  "logging_writer k off data w = (k off (length data), w @ [(off, take (k off (length data)) data)])"

fun contiguous :: "nat \<Rightarrow> (nat \<times> bytes) list \<Rightarrow> bool" where
  "contiguous off [] \<longleftrightarrow> True"
| "contiguous off ((o1, ch) # cs) \<longleftrightarrow> o1 = off \<and> contiguous (off + length ch) cs"

lemma write_all_loop_log:
  assumes "\<And>off len. 0 < len \<Longrightarrow> 0 < k off len \<and> k off len \<le> len" "written \<le> length buffer"
  shows "\<exists>chunks. write_all_loop (logging_writer k) buffer written w = (length buffer, w @ chunks) \<and>
    concat (map snd chunks) = drop written buffer \<and> contiguous written chunks"
  using assms(2)
proof (induction "length buffer - written" arbitrary: written w rule: less_induct)
  case less
  show ?case
  proof (cases "written < length buffer")
    case False
    with less.prems show ?thesis by (subst write_all_loop.simps) auto
  next
    case True
    let ?n = "k written (length buffer - written)"
    have n: "0 < ?n" "?n \<le> length buffer - written" using assms(1) [of "length buffer - written" written] True by auto
    let ?ch = "take ?n (drop written buffer)"
    have m: "length buffer - (written + ?n) < length buffer - written" "written + ?n \<le> length buffer" using n True by linarith+
    from less.hyps [OF m, of "w @ [(written, ?ch)]"]
    obtain chunks where IH: "write_all_loop (logging_writer k) buffer (written + ?n) (w @ [(written, ?ch)]) =
        (length buffer, (w @ [(written, ?ch)]) @ chunks)" "concat (map snd chunks) = drop (written + ?n) buffer"
        "contiguous (written + ?n) chunks" by blast
    have "write_all_loop (logging_writer k) buffer written w = (length buffer, w @ (written, ?ch) # chunks)"
      using IH(1) n True by (subst write_all_loop.simps) (simp add: logging_writer_def)
    moreover have "concat (map snd ((written, ?ch) # chunks)) = drop written buffer"
      using IH(2) append_take_drop_id [of ?n "drop written buffer"] by (simp add: add.commute)
    moreover have "contiguous written ((written, ?ch) # chunks)" using IH(3) by (simp add: min_absorb2 [OF n(2)])
    ultimately show ?thesis by blast
  qed
qed

section \<open>Properties\<close>

lemma suspend_with_Inr:
  assumes "suspend_with lib prep u = Inr u'"
  obtains cid u1 r where "prep u = Inr (cid, u1)" and "u' = u1\<lparr>iu_ring := r\<rparr>"
proof (cases "prep u")
  case (Inl e)
  with assms show ?thesis by (simp add: suspend_with_def noexcept_def)
next
  case (Inr x)
  obtain cid u1 where x: "x = (cid, u1)" by fastforce
  obtain ret r where "lu_submit lib (iu_ring u1) = (ret, r)" by fastforce
  with assms Inr x have "u' = u1\<lparr>iu_ring := r\<rparr>"
    by (cases "ret < 0") (simp_all add: suspend_with_def noexcept_def submit_def)
  with Inr x show ?thesis by (intro that) simp_all
qed

text \<open>
  An awaited ring operation: the coroutine is suspended with its operation submitted; the completion with
  the user data it was given stores its result in the awaiter and resumes the coroutine exactly once.
  When the submission queue is full, or the submission fails, the exception leaves a \<open>noexcept\<close>
  function and the program is terminated.
\<close>

theorem awaiter_completes:
  assumes "suspend_with lib (prepare lib op fl (Resume a h)) u = Inr u'"
    and "cqe_user_data c = iu_next_callback_id u mod of_nat kMaxCallbacks" "cqe_user_data c \<noteq> 0"
  shows "process_cqe lib resume_run c (u', w) =
      Inr (ring_seen lib (u', w\<lparr>iw_result := (iw_result w)(a := cqe_res c), iw_resumed := iw_resumed w @ [h]\<rparr>)) \<and>
    (lu_get_sqe lib (iu_ring v) = None \<longrightarrow> suspend_with lib (prepare lib op fl (Resume a h)) v = Inl Terminate)"
proof -
  obtain cid u1 r where p: "prepare lib op fl (Resume a h) u = Inr (cid, u1)" and u': "u' = u1\<lparr>iu_ring := r\<rparr>"
    using assms(1) by (rule suspend_with_Inr)
  have k: "unat (cqe_user_data c) = unat (iu_next_callback_id u) mod kMaxCallbacks"
    using assms(2) kMax_mod by simp
  moreover have "unat (cqe_user_data c) \<noteq> 0" using assms(3) by (simp add: unat_eq_zero)
  ultimately have "get_callback u' c = Some (Some (Resume a h))"
    using get_callback_slot [OF k, of u'] prepare_Inr(3) [OF p] u' by simp
  then show ?thesis
    by (simp add: process_cqe_def resume_run_def suspend_with_def noexcept_def prepare_def)
qed

definition io_uring_ex :: "(list_ring, io_cb) IoUring" where
  "io_uring_ex = \<lparr>iu_config = \<lparr>queue_depth = 1, sq_thread_cpu = 0, sq_thread_idle = 0, sq_poll = False, iopoll = False,
     fixed_files = False, fixed_files_count = 0, setup_coop_taskrun = False\<rparr>, iu_ring = \<lparr>lr_capacity = 1, lr_sq = [], lr_cq = []\<rparr>, iu_running = True,
     iu_callbacks = (\<lambda>_. None), iu_next_callback_id = 1\<rparr>"

theorem awaiter_completes_witness:
  "(case AsyncRecvAwaiter_suspend list_lib (fst (async_recv 0 3 0 64 0 \<lparr>iw_result = (\<lambda>_. 0), iw_resumed = []\<rparr>)) 7 io_uring_ex of Inl _ \<Rightarrow> False
    | Inr u' \<Rightarrow> process_cqe list_lib resume_run \<lparr>cqe_res = 5, cqe_flags = 0, cqe_user_data = 1\<rparr>
        (u', \<lparr>iw_result = (\<lambda>_. 0), iw_resumed = []\<rparr>) =
      Inr (ring_seen list_lib (u', \<lparr>iw_result = (\<lambda>_. 0)(0 := 5), iw_resumed = [7]\<rparr>))) \<and>
   suspend_with list_lib (prepare list_lib (Op_recv 3 0 64 0) 0 (Resume 0 7)) (io_uring_ex\<lparr>iu_ring := \<lparr>lr_capacity = 0, lr_sq = [], lr_cq = []\<rparr>\<rparr>) = Inl Terminate"
proof -
  let ?s = "suspend_with list_lib (prepare list_lib (Op_recv 3 0 64 0) 0 (Resume 0 7)) io_uring_ex"
  let ?v = "io_uring_ex\<lparr>iu_ring := \<lparr>lr_capacity = 0, lr_sq = [], lr_cq = []\<rparr>\<rparr>"
  let ?c = "\<lparr>cqe_res = 5, cqe_flags = 0, cqe_user_data = 1\<rparr>"
  obtain u' where u': "?s = Inr u'"
    by (simp add: suspend_with_def noexcept_def prepare_def list_lib_def io_uring_ex_def set_callback_eq submit_def)
  have ud: "cqe_user_data ?c = iu_next_callback_id io_uring_ex mod of_nat kMaxCallbacks"
    by (simp add: io_uring_ex_def kMaxCallbacks_def)
  have "lu_get_sqe list_lib (iu_ring ?v) = None" by (simp add: list_lib_def)
  with awaiter_completes [OF u' ud, of "\<lparr>iw_result = (\<lambda>_. 0), iw_resumed = []\<rparr>" ?v] u'
  show ?thesis by (simp add: AsyncRecvAwaiter_suspend_def prepare_recv_def async_recv_def AsyncRecvAwaiter_ctor_def)
qed

text \<open>
  \<open>async_read_all\<close> with a limit of at least 4096 bytes returns exactly the first \<open>max_size\<close> bytes of
  the file, or all of it, however the reads are split. With a smaller limit a first read of 4096 bytes
  is cut to the limit and then padded with zero bytes to 4096: the result is longer than the limit and
  holds bytes the file does not have.
\<close>

theorem async_read_all_prefix:
  assumes "reads_file rd f"
  shows "(4096 \<le> max_size \<longrightarrow> fst (async_read_all rd max_size w) = take max_size f) \<and>
    (0 < max_size \<and> max_size < 4096 \<and> fst (rd 0 4096 w) = take 4096 f \<and> 4096 \<le> length f \<longrightarrow>
      fst (async_read_all rd max_size w) = take max_size f @ replicate (4096 - max_size) 0)"
proof (intro conjI impI)
  assume "4096 \<le> max_size"
  then obtain result' w' where "read_all_loop rd max_size (replicate 4096 0) 0 w = ((result', min max_size (length f)), w')"
      "take (min max_size (length f)) result' = take max_size f" "min max_size (length f) \<le> length result'"
    using read_all_loop_file [OF assms, of max_size 0 "replicate 4096 0" w] by auto
  then show "fst (async_read_all rd max_size w) = take max_size f"
    by (simp add: async_read_all_def resize_def)
next
  assume a: "0 < max_size \<and> max_size < 4096 \<and> fst (rd 0 4096 w) = take 4096 f \<and> 4096 \<le> length f"
  obtain w' where "rd 0 4096 w = (take 4096 f, w')" using a by (metis prod.collapse)
  then have "read_all_loop rd max_size (replicate 4096 0) 0 w = ((resize max_size (take 4096 f), 4096), w')"
    using a by (subst read_all_loop.simps) (auto simp: Let_def read_all_loop.simps [of _ _ _ 4096] min_def)
  then show "fst (async_read_all rd max_size w) = take max_size f @ replicate (4096 - max_size) 0"
    using a by (simp add: async_read_all_def resize_def min_def)
qed

theorem async_read_all_prefix_witness:
  "fst (async_read_all (\<lambda>off len w. (take len (drop off (replicate 4096 1)), w)) 5000 ()) = take 5000 (replicate 4096 1) \<and>
   fst (async_read_all (\<lambda>off len w. (take len (drop off (replicate 4096 1)), w)) 2 ()) =
     take 2 (replicate 4096 1) @ replicate (4096 - 2) 0"
proof -
  have "reads_file (\<lambda>off len w. (take len (drop off (replicate 4096 1)), w)) (replicate 4096 1)"
    by (auto simp: reads_file_def)
  from async_read_all_prefix [OF this, of 5000 "()"] async_read_all_prefix [OF this, of 2 "()"]
  show ?thesis by simp
qed

text \<open>
  C35. \<open>async_write_all\<close> writes the whole buffer: if every write takes at least one byte of what it is offered,
  the loop ends, the pieces written follow each other without gap or overlap from offset 0, together
  they are the buffer, and the returned count is its size.
\<close>

theorem async_write_all_complete:
  assumes "\<And>off len. 0 < len \<Longrightarrow> 0 < k off len \<and> k off len \<le> len"
  shows "\<exists>chunks. async_write_all (logging_writer k) buffer [] = (length buffer, chunks) \<and>
    concat (map snd chunks) = buffer \<and> contiguous 0 chunks"
  using write_all_loop_log [where k = k and written = 0 and w = "[]", OF assms] by (auto simp: async_write_all_def)

theorem async_write_all_complete_witness:
  "\<exists>chunks. async_write_all (logging_writer (\<lambda>off len. min 2 len)) [1, 2, 3, 4, 5] [] = (length [1, 2, 3, 4, 5 :: byte], chunks) \<and>
    concat (map snd chunks) = [1, 2, 3, 4, 5] \<and> contiguous 0 chunks"
  by (rule async_write_all_complete) simp

text \<open>
  A duration and its timespec denote the same time; for a duration that is not negative the nanoseconds are in range.
\<close>

theorem timespec_exact:
  "fst (to_kernel_timespec_ns ns) * 1000000000 + snd (to_kernel_timespec_ns ns) = ns \<and>
   (0 \<le> ns \<longrightarrow> 0 \<le> snd (to_kernel_timespec_ns ns) \<and> snd (to_kernel_timespec_ns ns) < 1000000000)"
  using sdiv_mult_smod_eq [of ns 1000000000] by (auto simp: to_kernel_timespec_ns_def signed_modulo_int_def sgn_if)

end
