(* ===== verification/Co_Sync.thy ===== *)
theory Co_Sync
  imports Rpc_Prelude
begin

text \<open>
  The coroutine mutex, semaphore and condition variable of \<open>coroutine/sync.hpp\<close>. Coroutine handles are
  numbers. Every atomic access is one step, so two coroutines may interleave between the \<open>await_ready\<close> and
  the \<open>await_suspend\<close> of the same \<open>co_await\<close>. A handle is resumed on the spot, while the
  \<open>waiters_mutex_\<close> is still locked; what the resumed coroutine does until it suspends again is the parameter
  \<open>resume\<close>, and locking a mutex the same thread already holds is the fault \<open>SelfDeadlock\<close>.
\<close>

datatype sync_fault = SelfDeadlock

text \<open>
  What resuming a handle does to the object and the rest of the world, and the scope of a \<open>lock_guard\<close> on the
  \<open>waiters_mutex_\<close> of an object.
\<close>

type_synonym ('s, 'w) resumer = "nat \<Rightarrow> 's \<times> 'w \<Rightarrow> sync_fault + ('s \<times> 'w)"

definition lock_scope :: "('s \<Rightarrow> bool) \<Rightarrow> (bool \<Rightarrow> 's \<Rightarrow> 's) \<Rightarrow> ('s \<times> 'w \<Rightarrow> sync_fault + ('s \<times> 'w)) \<Rightarrow>
    's \<times> 'w \<Rightarrow> sync_fault + ('s \<times> 'w)" where
  "lock_scope held set_held body s =
     (if held (fst s) then Inl SelfDeadlock
      else rbind (body (set_held True (fst s), snd s)) (\<lambda>(m, w). Inr (set_held False m, w)))"

text \<open>The contract of such a lock: whoever enters the scope again before leaving it blocks for ever.\<close>

locale waiters_lock =
  fixes held :: "'s \<Rightarrow> bool" and set_held :: "bool \<Rightarrow> 's \<Rightarrow> 's"
  assumes held_set [simp]: "held (set_held b s) = b"
begin

lemma scope_reenters: "held (fst s) \<Longrightarrow> lock_scope held set_held body s = Inl SelfDeadlock"
  by (simp add: lock_scope_def)

lemma scope_ends: "lock_scope held set_held body s = Inr s' \<Longrightarrow> \<not> held (fst s) \<and> \<not> held (fst s')"
  by (auto simp: lock_scope_def rbind_Inr_iff split: if_splits)

lemma scope_body_deadlocks:
  "body (set_held True (fst s), snd s) = Inl SelfDeadlock \<Longrightarrow> lock_scope held set_held body s = Inl SelfDeadlock"
  by (simp add: lock_scope_def)

end

section \<open>Mutex\<close>

record AsyncMutex =
  mx_locked :: bool
  mx_waiters :: "nat list"
  mx_waiters_mutex :: bool

definition AsyncMutex_ctor :: AsyncMutex where
  "AsyncMutex_ctor = \<lparr>mx_locked = False, mx_waiters = [], mx_waiters_mutex = False\<rparr>"

definition LockAwaiter_await_ready :: "AsyncMutex \<Rightarrow> bool" where
  "LockAwaiter_await_ready m \<longleftrightarrow> \<not> mx_locked m"

definition guarded :: "(AsyncMutex \<times> 'w \<Rightarrow> sync_fault + (AsyncMutex \<times> 'w)) \<Rightarrow> AsyncMutex \<times> 'w \<Rightarrow> sync_fault + (AsyncMutex \<times> 'w)" where
  "guarded = lock_scope mx_waiters_mutex (\<lambda>b m. m\<lparr>mx_waiters_mutex := b\<rparr>)"

interpretation mutex_lock: waiters_lock mx_waiters_mutex "\<lambda>b m. m\<lparr>mx_waiters_mutex := b\<rparr>"
  by unfold_locales simp

definition LockAwaiter_await_suspend :: "(AsyncMutex, 'w) resumer \<Rightarrow> nat \<Rightarrow> AsyncMutex \<times> 'w \<Rightarrow> sync_fault + (AsyncMutex \<times> 'w)" where
  "LockAwaiter_await_suspend resume h = guarded (\<lambda>(m, w).
     if \<not> mx_locked m then resume h (m\<lparr>mx_locked := True\<rparr>, w)
     else Inr (m\<lparr>mx_waiters := mx_waiters m @ [h]\<rparr>, w))"

definition AsyncMutex_unlock :: "(AsyncMutex, 'w) resumer \<Rightarrow> AsyncMutex \<times> 'w \<Rightarrow> sync_fault + (AsyncMutex \<times> 'w)" where
  "AsyncMutex_unlock resume = guarded (\<lambda>(m, w).
     case mx_waiters m of
       [] \<Rightarrow> Inr (m\<lparr>mx_locked := False\<rparr>, w)
     | next # rest \<Rightarrow> resume next (m\<lparr>mx_waiters := rest\<rparr>, w))"

text \<open>The destructor of \<open>AsyncLockGuard\<close>; its constructor locks nothing.\<close>

definition AsyncLockGuard_dtor :: "(AsyncMutex, 'w) resumer \<Rightarrow> AsyncMutex \<times> 'w \<Rightarrow> sync_fault + (AsyncMutex \<times> 'w)" where
  "AsyncLockGuard_dtor resume = AsyncMutex_unlock resume"

section \<open>Semaphore\<close>

record AsyncSemaphore =
  sem_count :: size_t
  sem_waiters :: "nat list"
  sem_waiters_mutex :: bool

definition AsyncSemaphore_ctor :: "size_t \<Rightarrow> AsyncSemaphore" where
  "AsyncSemaphore_ctor n = \<lparr>sem_count = n, sem_waiters = [], sem_waiters_mutex = False\<rparr>"

definition sem_guarded :: "(AsyncSemaphore \<times> 'w \<Rightarrow> sync_fault + (AsyncSemaphore \<times> 'w)) \<Rightarrow> AsyncSemaphore \<times> 'w \<Rightarrow>
    sync_fault + (AsyncSemaphore \<times> 'w)" where
  "sem_guarded = lock_scope sem_waiters_mutex (\<lambda>b s. s\<lparr>sem_waiters_mutex := b\<rparr>)"

interpretation sem_lock: waiters_lock sem_waiters_mutex "\<lambda>b s. s\<lparr>sem_waiters_mutex := b\<rparr>"
  by unfold_locales simp

definition AcquireAwaiter_await_ready :: "AsyncSemaphore \<Rightarrow> bool" where
  "AcquireAwaiter_await_ready s \<longleftrightarrow> 0 < sem_count s"

definition AcquireAwaiter_await_suspend :: "(AsyncSemaphore, 'w) resumer \<Rightarrow> nat \<Rightarrow> AsyncSemaphore \<times> 'w \<Rightarrow>
    sync_fault + (AsyncSemaphore \<times> 'w)" where
  "AcquireAwaiter_await_suspend resume h = sem_guarded (\<lambda>(s, w).
     let old = sem_count s; s' = s\<lparr>sem_count := old - 1\<rparr>
     in if 0 < old then resume h (s', w) else Inr (s'\<lparr>sem_waiters := sem_waiters s' @ [h]\<rparr>, w))"

definition AsyncSemaphore_release :: "(AsyncSemaphore, 'w) resumer \<Rightarrow> AsyncSemaphore \<times> 'w \<Rightarrow> sync_fault + (AsyncSemaphore \<times> 'w)" where
  "AsyncSemaphore_release resume = sem_guarded (\<lambda>(s, w).
     case sem_waiters s of
       [] \<Rightarrow> Inr (s\<lparr>sem_count := sem_count s + 1\<rparr>, w)
     | next # rest \<Rightarrow> resume next (s\<lparr>sem_waiters := rest\<rparr>, w))"

text \<open>\<open>co_await sem.acquire()\<close> without interference; a coroutine that need not wait goes on at once.\<close>

definition sem_acquire :: "(AsyncSemaphore, 'w) resumer \<Rightarrow> nat \<Rightarrow> AsyncSemaphore \<times> 'w \<Rightarrow> sync_fault + (AsyncSemaphore \<times> 'w)" where
  "sem_acquire resume h s =
     (if AcquireAwaiter_await_ready (fst s) then resume h s else AcquireAwaiter_await_suspend resume h s)"

section \<open>Condition variable\<close>

record AsyncConditionVariable =
  cv_waiters :: "nat list"
  cv_waiters_mutex :: bool

definition cv_guarded :: "(AsyncConditionVariable \<times> 'w \<Rightarrow> sync_fault + (AsyncConditionVariable \<times> 'w)) \<Rightarrow> AsyncConditionVariable \<times> 'w \<Rightarrow>
    sync_fault + (AsyncConditionVariable \<times> 'w)" where
  "cv_guarded = lock_scope cv_waiters_mutex (\<lambda>b cv. cv\<lparr>cv_waiters_mutex := b\<rparr>)"

interpretation cv_lock: waiters_lock cv_waiters_mutex "\<lambda>b cv. cv\<lparr>cv_waiters_mutex := b\<rparr>"
  by unfold_locales simp

text \<open>
  Waiting queues the handle in a scope of its own and then releases the mutex; the world of the mutex's waiters
  includes the variable.
\<close>

definition WaitAwaiter_await_suspend :: "(AsyncMutex, AsyncConditionVariable \<times> 'w) resumer \<Rightarrow> nat \<Rightarrow>
    AsyncMutex \<times> (AsyncConditionVariable \<times> 'w) \<Rightarrow> sync_fault + (AsyncMutex \<times> (AsyncConditionVariable \<times> 'w))" where
  "WaitAwaiter_await_suspend resume h s =
     rbind (cv_guarded (\<lambda>(cv, w). Inr (cv\<lparr>cv_waiters := cv_waiters cv @ [h]\<rparr>, w)) (snd s))
       (\<lambda>cvw. AsyncMutex_unlock resume (fst s, cvw))"

definition cv_notify_one :: "(AsyncConditionVariable, 'w) resumer \<Rightarrow> AsyncConditionVariable \<times> 'w \<Rightarrow> sync_fault + (AsyncConditionVariable \<times> 'w)" where
  "cv_notify_one resume = cv_guarded (\<lambda>(cv, w).
     case cv_waiters cv of [] \<Rightarrow> Inr (cv, w) | next # rest \<Rightarrow> resume next (cv\<lparr>cv_waiters := rest\<rparr>, w))"

text \<open>The loop of \<open>notify_all\<close>, which ends when nobody waits; \<open>None\<close> is a loop that never ends.\<close>

partial_function (option) notify_loop :: "(AsyncConditionVariable, 'w) resumer \<Rightarrow> AsyncConditionVariable \<times> 'w \<Rightarrow>
    (sync_fault + (AsyncConditionVariable \<times> 'w)) option" where
  "notify_loop resume s =
     (case cv_waiters (fst s) of
        [] \<Rightarrow> Some (Inr s)
      | next # rest \<Rightarrow>
          (case resume next ((fst s)\<lparr>cv_waiters := rest\<rparr>, snd s) of
             Inl f \<Rightarrow> Some (Inl f)
           | Inr s' \<Rightarrow> notify_loop resume s'))"

definition cv_notify_all :: "(AsyncConditionVariable, 'w) resumer \<Rightarrow> AsyncConditionVariable \<times> 'w \<Rightarrow>
    (sync_fault + (AsyncConditionVariable \<times> 'w)) option" where
  "cv_notify_all resume s =
     (if cv_waiters_mutex (fst s) then Some (Inl SelfDeadlock)
      else map_option (\<lambda>r. rbind r (\<lambda>(cv, w). Inr (cv\<lparr>cv_waiters_mutex := False\<rparr>, w)))
        (notify_loop resume ((fst s)\<lparr>cv_waiters_mutex := True\<rparr>, snd s)))"

section \<open>Coroutines using a mutex\<close>

text \<open>
  The system: the mutex, the coroutines between \<open>lock()\<close> and \<open>unlock()\<close> (the holders) and the coroutines that
  saw \<open>await_ready\<close> fail and have not yet reached \<open>await_suspend\<close>. A resumed coroutine becomes a holder.
  The test \<open>ready\<close> is a parameter, so that the code's test can be compared with one that always
  takes the slow path.
\<close>

definition enter :: "(AsyncMutex, nat list) resumer" where
  "enter h s = Inr (fst s, h # snd s)"

type_synonym mutex_sys = "(AsyncMutex \<times> nat list) \<times> nat list"

inductive mutex_step :: "(AsyncMutex \<Rightarrow> bool) \<Rightarrow> mutex_sys \<Rightarrow> mutex_sys \<Rightarrow> bool" for ready where
  pass: "ready m \<Longrightarrow> mutex_step ready ((m, hs), ps) ((m, h # hs), ps)"
| block: "\<not> ready m \<Longrightarrow> mutex_step ready ((m, hs), ps) ((m, hs), h # ps)"
| suspend: "h \<in> set ps \<Longrightarrow> LockAwaiter_await_suspend enter h (m, hs) = Inr s' \<Longrightarrow>
    mutex_step ready ((m, hs), ps) (s', remove1 h ps)"
| unlock: "h \<in> set hs \<Longrightarrow> AsyncMutex_unlock enter (m, remove1 h hs) = Inr s' \<Longrightarrow>
    mutex_step ready ((m, hs), ps) (s', ps)"

inductive mutex_reach :: "(AsyncMutex \<Rightarrow> bool) \<Rightarrow> mutex_sys \<Rightarrow> bool" for ready where
  init: "mutex_reach ready ((AsyncMutex_ctor, []), [])"
| step: "mutex_reach ready s \<Longrightarrow> mutex_step ready s s' \<Longrightarrow> mutex_reach ready s'"

lemma suspend_enter:
  "LockAwaiter_await_suspend enter h (m, hs) =
     (if mx_waiters_mutex m then Inl SelfDeadlock
      else if mx_locked m then Inr (m\<lparr>mx_waiters := mx_waiters m @ [h]\<rparr>, hs)
      else Inr (m\<lparr>mx_locked := True\<rparr>, h # hs))"
  by (auto simp: LockAwaiter_await_suspend_def guarded_def lock_scope_def enter_def)

lemma unlock_enter:
  "AsyncMutex_unlock enter (m, hs) =
     (if mx_waiters_mutex m then Inl SelfDeadlock
      else case mx_waiters m of [] \<Rightarrow> Inr (m\<lparr>mx_locked := False\<rparr>, hs)
        | next # rest \<Rightarrow> Inr (m\<lparr>mx_waiters := rest\<rparr>, next # hs))"
  by (auto simp: AsyncMutex_unlock_def guarded_def lock_scope_def enter_def split: list.splits)

text \<open>The invariant of the slow path: the mutex is locked exactly while someone holds it.\<close>

definition mutex_ok :: "mutex_sys \<Rightarrow> bool" where
  "mutex_ok s \<longleftrightarrow> length (snd (fst s)) \<le> 1 \<and> (mx_locked (fst (fst s)) \<longleftrightarrow> snd (fst s) \<noteq> []) \<and>
     (mx_waiters (fst (fst s)) \<noteq> [] \<longrightarrow> mx_locked (fst (fst s)))"

lemma slow_path_step:
  assumes "mutex_step (\<lambda>_. False) s s'" "mutex_ok s"
  shows "mutex_ok s'"
  using assms
proof (cases rule: mutex_step.cases)
  case (unlock h hs m s1 ps)
  then have "hs = [h]" using assms(2) by (cases hs) (auto simp: mutex_ok_def)
  then show ?thesis using unlock assms(2)
    by (auto simp: unlock_enter mutex_ok_def split: if_splits list.splits)
qed (auto simp: mutex_ok_def suspend_enter split: if_splits)

lemma code_step:
  assumes "mutex_step LockAwaiter_await_ready s s'"
    and "fst (fst s) = AsyncMutex_ctor" "snd s = []"
  shows "fst (fst s') = AsyncMutex_ctor \<and> snd s' = []"
  using assms
  by (cases rule: mutex_step.cases)
    (auto simp: LockAwaiter_await_ready_def AsyncMutex_ctor_def unlock_enter)

lemma mutex_reach_fast: "mutex_reach LockAwaiter_await_ready ((AsyncMutex_ctor, rev [0..<n]), [])"
proof (induction n)
  case 0
  then show ?case by (simp add: mutex_reach.init)
next
  case (Suc n)
  have "mutex_step LockAwaiter_await_ready ((AsyncMutex_ctor, rev [0..<n]), []) ((AsyncMutex_ctor, n # rev [0..<n]), [])"
    by (rule mutex_step.pass) (simp add: LockAwaiter_await_ready_def AsyncMutex_ctor_def)
  with Suc show ?case by (simp add: mutex_reach.step)
qed

section \<open>Queues of waiters\<close>

text \<open>
  A resumer that leaves the object alone: the resumed coroutine does something to the world and suspends, without using the
  object it was resumed from.
\<close>

definition leaves_alone :: "('s, 'w) resumer \<Rightarrow> (nat \<Rightarrow> 'w \<Rightarrow> 'w) \<Rightarrow> bool" where
  "leaves_alone resume act \<longleftrightarrow> (\<forall>h s w. resume h (s, w) = Inr (s, act h w))"

lemma leaves_alone_resume: "leaves_alone resume act \<Longrightarrow> resume h (s, w) = Inr (s, act h w)"
  by (simp add: leaves_alone_def)

lemma enter_alone: "leaves_alone (\<lambda>h s. Inr (fst s, h # snd s)) (\<lambda>h hs. h # hs)"
  by (simp add: leaves_alone_def)

lemma notify_loop_fifo:
  assumes "leaves_alone resume act"
  shows "notify_loop resume (cv, w) = Some (Inr (cv\<lparr>cv_waiters := []\<rparr>, fold act (cv_waiters cv) w))"
proof (induction "cv_waiters cv" arbitrary: cv w)
  case Nil
  then show ?case by (subst notify_loop.simps) (cases cv, simp)
next
  case (Cons h hs)
  from Cons.hyps(1) [of "cv\<lparr>cv_waiters := hs\<rparr>"] Cons.hyps(2) [symmetric] show ?case
    by (subst notify_loop.simps) (simp add: leaves_alone_resume [OF assms])
qed

lemma notify_one_fifo:
  assumes "leaves_alone resume act" "\<not> cv_waiters_mutex cv"
  shows "cv_notify_one resume (cv, w) = Inr (cv\<lparr>cv_waiters := tl (cv_waiters cv)\<rparr>, fold act (take 1 (cv_waiters cv)) w)"
  using assms(2)
  by (cases "cv_waiters cv")
    (cases cv, simp_all add: cv_notify_one_def cv_guarded_def lock_scope_def leaves_alone_resume [OF assms(1)])

fun cv_notify_n :: "nat \<Rightarrow> (AsyncConditionVariable, 'w) resumer \<Rightarrow> AsyncConditionVariable \<times> 'w \<Rightarrow> sync_fault + (AsyncConditionVariable \<times> 'w)" where
  "cv_notify_n 0 resume s = Inr s"
| "cv_notify_n (Suc n) resume s = rbind (cv_notify_one resume s) (cv_notify_n n resume)"

lemma cv_notify_n_eq:
  assumes "leaves_alone resume act" "\<not> cv_waiters_mutex cv"
  shows "cv_notify_n n resume (cv, w) = Inr (cv\<lparr>cv_waiters := drop n (cv_waiters cv)\<rparr>, fold act (take n (cv_waiters cv)) w)"
  using assms(2)
proof (induction n arbitrary: cv w)
  case 0
  then show ?case by simp
next
  case (Suc n)
  then show ?case by (cases "cv_waiters cv") (simp_all add: notify_one_fifo [OF assms(1)])
qed

fun sem_acquires :: "(AsyncSemaphore, 'w) resumer \<Rightarrow> nat list \<Rightarrow> AsyncSemaphore \<times> 'w \<Rightarrow> sync_fault + (AsyncSemaphore \<times> 'w)" where
  "sem_acquires resume [] s = Inr s"
| "sem_acquires resume (h # hs) s = rbind (sem_acquire resume h s) (sem_acquires resume hs)"

lemma sem_acquires_ready:
  "leaves_alone resume act \<Longrightarrow> 0 < sem_count s \<Longrightarrow> sem_acquires resume hs (s, w) = Inr (s, fold act hs w)"
  by (induction hs arbitrary: w) (simp_all add: sem_acquire_def AcquireAwaiter_await_ready_def leaves_alone_resume)

section \<open>Properties\<close>

text \<open>
  C39. The mutex does not exclude: \<open>await_ready\<close> lets a coroutine through without marking the mutex locked, so
  in every reachable state \<open>locked_\<close> is false and nobody waits, and any number of coroutines can be between
  \<open>lock()\<close> and \<open>unlock()\<close> at the same time. The slow path alone would exclude: if \<open>await_ready\<close>
  always answered false, no reachable state had two holders.
\<close>

theorem mutex_exclusion:
  "(mutex_reach LockAwaiter_await_ready s \<longrightarrow> \<not> mx_locked (fst (fst s)) \<and> mx_waiters (fst (fst s)) = [] \<and> snd s = []) \<and>
   (\<exists>m. mutex_reach LockAwaiter_await_ready ((m, rev [0..<n]), [])) \<and>
   (mutex_reach (\<lambda>_. False) s' \<longrightarrow> length (snd (fst s')) \<le> 1)"
proof (intro conjI impI)
  assume "mutex_reach LockAwaiter_await_ready s"
  then have "fst (fst s) = AsyncMutex_ctor \<and> snd s = []"
    by (induction rule: mutex_reach.induct) (auto dest: code_step)
  then show "\<not> mx_locked (fst (fst s))" "mx_waiters (fst (fst s)) = []" "snd s = []"
    by (simp_all add: AsyncMutex_ctor_def)
next
  show "\<exists>m. mutex_reach LockAwaiter_await_ready ((m, rev [0..<n]), [])" using mutex_reach_fast by blast
next
  assume "mutex_reach (\<lambda>_. False) s'"
  then have "mutex_ok s'"
  proof (induction rule: mutex_reach.induct)
    case init
    show ?case by (simp add: mutex_ok_def AsyncMutex_ctor_def)
  qed (rule slow_path_step)
  then show "length (snd (fst s')) \<le> 1" by (simp add: mutex_ok_def)
qed

theorem mutex_exclusion_witness:
  "\<not> mx_locked AsyncMutex_ctor \<and> (\<exists>m. mutex_reach LockAwaiter_await_ready ((m, rev [0..<2]), [])) \<and>
   length (snd (fst ((AsyncMutex_ctor, [] :: nat list), [] :: nat list))) \<le> 1"
  using mutex_exclusion [of "((AsyncMutex_ctor, []), [])" 2 "((AsyncMutex_ctor, []), [])"] mutex_reach.init by simp

text \<open>
  The semaphore does not count: while \<open>count_\<close> is positive every acquisition passes and none consumes a
  permit. On a count of zero the first acquisition waits, but its \<open>fetch_sub\<close> wraps the count to the
  largest 64-bit value, and every later acquisition passes at once.
\<close>

theorem semaphore_unbounded:
  assumes "leaves_alone resume act"
  shows "(0 < sem_count s \<longrightarrow> sem_acquires resume hs (s, w) = Inr (s, fold act hs w)) \<and>
   sem_acquires resume (h # hs) (AsyncSemaphore_ctor 0, w) =
     Inr (\<lparr>sem_count = - 1, sem_waiters = [h], sem_waiters_mutex = False\<rparr>, fold act hs w)"
proof -
  let ?s = "\<lparr>sem_count = - 1, sem_waiters = [h], sem_waiters_mutex = False\<rparr>"
  have "sem_acquire resume h (AsyncSemaphore_ctor 0, w) = Inr (?s, w)"
    by (simp add: sem_acquire_def AcquireAwaiter_await_ready_def AcquireAwaiter_await_suspend_def AsyncSemaphore_ctor_def sem_guarded_def lock_scope_def)
  moreover have "sem_acquires resume hs (?s, w) = Inr (?s, fold act hs w)"
    by (rule sem_acquires_ready [OF assms]) (simp add: word_gt_0)
  ultimately show ?thesis using sem_acquires_ready [OF assms] by simp
qed

theorem semaphore_unbounded_witness:
  "sem_acquires (\<lambda>h s. Inr (fst s, h # snd s)) [1, 2, 3] (AsyncSemaphore_ctor 1, []) = Inr (AsyncSemaphore_ctor 1, [3, 2, 1])"
  using semaphore_unbounded [OF enter_alone, of "AsyncSemaphore_ctor 1" "[1, 2, 3]" "[]" 0] by (simp add: AsyncSemaphore_ctor_def)

text \<open>
  The condition variable is first in, first out: \<open>n\<close> calls of \<open>notify_one\<close> resume the first \<open>n\<close>
  waiters in the order they came, \<open>notify_all\<close> ends and resumes all of them in that order, and the others stay queued; this is for
  coroutines that do not use the variable before they suspend again.
\<close>

theorem condition_variable_fifo:
  assumes "leaves_alone resume act" "\<not> cv_waiters_mutex cv"
  shows "cv_notify_n n resume (cv, w) = Inr (cv\<lparr>cv_waiters := drop n (cv_waiters cv)\<rparr>, fold act (take n (cv_waiters cv)) w) \<and>
   cv_notify_all resume (cv, w) = Some (cv_notify_n (length (cv_waiters cv)) resume (cv, w))"
  unfolding cv_notify_n_eq [OF assms]
  using assms(2) by (cases cv) (simp add: cv_notify_all_def notify_loop_fifo [OF assms(1)])

theorem condition_variable_fifo_witness:
  "cv_notify_n 1 (\<lambda>h s. Inr (fst s, h # snd s)) (\<lparr>cv_waiters = [4, 5], cv_waiters_mutex = False\<rparr>, []) =
     Inr (\<lparr>cv_waiters = [5], cv_waiters_mutex = False\<rparr>, [4])"
  using condition_variable_fifo [OF enter_alone, of "\<lparr>cv_waiters = [4, 5], cv_waiters_mutex = False\<rparr>" 1 "[]"] by simp

text \<open>
  A waiter is resumed inside \<open>unlock\<close>, \<open>release\<close>, \<open>notify_one\<close> or \<open>notify_all\<close>, with \<open>waiters_mutex_\<close> locked: if the
  resumed coroutine leaves its own critical section, releases the semaphore, notifies or waits again before it suspends, it locks that
  mutex a second time in the same thread and the program deadlocks.
\<close>

theorem unlock_self_deadlock:
  assumes "mx_waiters m \<noteq> []" "sem_waiters s \<noteq> []" "cv_waiters cv \<noteq> []"
  shows "AsyncMutex_unlock (\<lambda>h. AsyncMutex_unlock resume) (m, w) = Inl SelfDeadlock \<and>
    AsyncSemaphore_release (\<lambda>h. AsyncSemaphore_release resume') (s, w') = Inl SelfDeadlock \<and>
    cv_notify_one (\<lambda>h. cv_notify_one resume'') (cv, w'') = Inl SelfDeadlock \<and>
    cv_notify_all (\<lambda>h (cv, m). map_sum id (\<lambda>(m, cv, _). (cv, m)) (WaitAwaiter_await_suspend enter_cv h (m, cv, ()))) (cv, m) = Some (Inl SelfDeadlock)"
proof (intro conjI)
  show "AsyncMutex_unlock (\<lambda>h. AsyncMutex_unlock resume) (m, w) = Inl SelfDeadlock"
    using assms(1) by (cases "mx_waiters m") (auto simp: AsyncMutex_unlock_def guarded_def lock_scope_def)
  show "AsyncSemaphore_release (\<lambda>h. AsyncSemaphore_release resume') (s, w') = Inl SelfDeadlock"
    using assms(2) by (cases "sem_waiters s") (auto simp: AsyncSemaphore_release_def sem_guarded_def lock_scope_def)
  show "cv_notify_one (\<lambda>h. cv_notify_one resume'') (cv, w'') = Inl SelfDeadlock"
    using assms(3) by (cases "cv_waiters cv") (auto simp: cv_notify_one_def cv_guarded_def lock_scope_def)
  show "cv_notify_all (\<lambda>h (cv, m). map_sum id (\<lambda>(m, cv, _). (cv, m)) (WaitAwaiter_await_suspend enter_cv h (m, cv, ()))) (cv, m) = Some (Inl SelfDeadlock)"
    using assms(3)
    by (cases "cv_waiters cv")
      (auto simp: cv_notify_all_def notify_loop.simps WaitAwaiter_await_suspend_def cv_guarded_def lock_scope_def)
qed

theorem unlock_self_deadlock_witness:
  "AsyncMutex_unlock (\<lambda>h. AsyncMutex_unlock enter) (\<lparr>mx_locked = True, mx_waiters = [7], mx_waiters_mutex = False\<rparr>, []) = Inl SelfDeadlock"
  by (rule conjunct1 [OF unlock_self_deadlock [of _ "\<lparr>sem_count = 0, sem_waiters = [7], sem_waiters_mutex = False\<rparr>"
      "\<lparr>cv_waiters = [7], cv_waiters_mutex = False\<rparr>"]]) simp_all

end
