(* ===== verification/Co_Scheduler.thy ===== *)
theory Co_Scheduler
  imports Rpc_Prelude
begin

text \<open>
  The work stealing scheduler of \<open>coroutine/scheduler.hpp\<close>. A coroutine handle is a value of type
  \<open>'t\<close>. Each queue operation runs under the queue's mutex and is atomic. The threads are a step relation: at
  any time a thread may pop from its queue, steal from another, or schedule a task. The queue sizes and
  emptiness tests that \<open>schedule\<close> and \<open>worker_loop\<close> make one by one may be out of date when they act, so
  in the relation the queue is any queue; the functions \<open>schedule\<close> and \<open>worker_take\<close> are the rounds
  without interference.
\<close>

section \<open>Queues\<close>

definition WSQ_push :: "'t list \<Rightarrow> 't \<Rightarrow> 't list" where
  "WSQ_push queue task = queue @ [task]"

definition WSQ_pop :: "'t list \<Rightarrow> ('t \<times> 't list) option" where
  "WSQ_pop queue = (if queue = [] then None else Some (last queue, butlast queue))"

definition WSQ_steal :: "'t list \<Rightarrow> ('t \<times> 't list) option" where
  "WSQ_steal queue = (case queue of [] \<Rightarrow> None | task # rest \<Rightarrow> Some (task, rest))"

definition WSQ_size :: "'t list \<Rightarrow> nat" where
  "WSQ_size queue = length queue"

definition WSQ_empty :: "'t list \<Rightarrow> bool" where
  "WSQ_empty queue \<longleftrightarrow> queue = []"

section \<open>Scheduler\<close>

record 't Scheduler =
  sc_thread_count :: nat
  sc_running :: bool
  sc_local_queues :: "'t list list"

definition kDefaultThreadCount :: nat where
  "kDefaultThreadCount = 4"

definition Scheduler_ctor :: "nat \<Rightarrow> 't Scheduler" where
  "Scheduler_ctor thread_count =
     (let n = (if 0 < thread_count then thread_count else kDefaultThreadCount)
      in \<lparr>sc_thread_count = n, sc_running = True, sc_local_queues = replicate n []\<rparr>)"

definition set_queue :: "'t Scheduler \<Rightarrow> nat \<Rightarrow> 't list \<Rightarrow> 't Scheduler" where
  "set_queue s i q = s\<lparr>sc_local_queues := (sc_local_queues s)[i := q]\<rparr>"

definition push_local :: "'t Scheduler \<Rightarrow> nat \<Rightarrow> 't \<Rightarrow> 't Scheduler" where
  "push_local s i handle = set_queue s i (WSQ_push (sc_local_queues s ! i) handle)"

definition shortest_queue :: "'t Scheduler \<Rightarrow> nat" where
  "shortest_queue s =
     (let sizes = map WSQ_size (sc_local_queues s) in scan_min 0 (hd sizes) 1 (tl sizes))"

definition schedule :: "'t Scheduler \<Rightarrow> 't \<Rightarrow> int \<Rightarrow> 't Scheduler" where
  "schedule s handle thread_id =
     (if 0 \<le> thread_id \<and> nat thread_id < sc_thread_count s then push_local s (nat thread_id) handle
      else push_local s (shortest_queue s) handle)"

definition schedule_batch :: "'t Scheduler \<Rightarrow> 't list \<Rightarrow> 't Scheduler" where
  "schedule_batch s handles = foldl (\<lambda>s h. schedule s h (- 1)) s handles"

definition pending_count :: "'t Scheduler \<Rightarrow> nat" where
  "pending_count s = sum_list (map WSQ_size (sc_local_queues s))"

definition sched_stop :: "'t Scheduler \<Rightarrow> 't Scheduler" where
  "sched_stop s = s\<lparr>sc_running := False\<rparr>"

definition Scheduler_dtor :: "'t Scheduler \<Rightarrow> 't Scheduler" where
  "Scheduler_dtor s = sched_stop s"

definition Scheduler_thread_count :: "'t Scheduler \<Rightarrow> nat" where
  "Scheduler_thread_count s = sc_thread_count s"

text \<open>The loop over the other queues, and one round of \<open>worker_loop\<close>: the task it would resume.\<close>

fun steal_loop :: "nat \<Rightarrow> 't list list \<Rightarrow> nat list \<Rightarrow> ('t \<times> 't list list) option" where
  "steal_loop tid queues [] = None"
| "steal_loop tid queues (i # is) =
     (if i \<noteq> tid then
        (case WSQ_steal (queues ! i) of
           Some (task, q') \<Rightarrow> Some (task, queues[i := q'])
         | None \<Rightarrow> steal_loop tid queues is)
      else steal_loop tid queues is)"

definition worker_take :: "'t Scheduler \<Rightarrow> nat \<Rightarrow> ('t \<times> 't Scheduler) option" where
  "worker_take s tid =
     (case WSQ_pop (sc_local_queues s ! tid) of
        Some (task, q') \<Rightarrow> Some (task, set_queue s tid q')
      | None \<Rightarrow>
          (case steal_loop tid (sc_local_queues s) [0..<sc_thread_count s] of
             Some (task, qs) \<Rightarrow> Some (task, s\<lparr>sc_local_queues := qs\<rparr>)
           | None \<Rightarrow> None))"

section \<open>The system\<close>

record 't sched_sys =
  ss_sched :: "'t Scheduler"
  ss_scheduled :: "'t list"
  ss_executed :: "'t list"

inductive sched_step :: "'t sched_sys \<Rightarrow> 't sched_sys \<Rightarrow> bool" where
  sched: "i < sc_thread_count (ss_sched s) \<Longrightarrow>
    sched_step s (s\<lparr>ss_sched := push_local (ss_sched s) i h, ss_scheduled := ss_scheduled s @ [h]\<rparr>)"
| pop: "sc_running (ss_sched s) \<Longrightarrow> tid < sc_thread_count (ss_sched s) \<Longrightarrow>
    WSQ_pop (sc_local_queues (ss_sched s) ! tid) = Some (h, q) \<Longrightarrow>
    sched_step s (s\<lparr>ss_sched := set_queue (ss_sched s) tid q, ss_executed := ss_executed s @ [h]\<rparr>)"
| steal: "sc_running (ss_sched s) \<Longrightarrow> i < sc_thread_count (ss_sched s) \<Longrightarrow>
    WSQ_steal (sc_local_queues (ss_sched s) ! i) = Some (h, q) \<Longrightarrow>
    sched_step s (s\<lparr>ss_sched := set_queue (ss_sched s) i q, ss_executed := ss_executed s @ [h]\<rparr>)"
| halt: "sched_step s (s\<lparr>ss_sched := sched_stop (ss_sched s)\<rparr>)"

inductive sched_reach :: "nat \<Rightarrow> 't sched_sys \<Rightarrow> bool" for n where
  init: "sched_reach n \<lparr>ss_sched = Scheduler_ctor n, ss_scheduled = [], ss_executed = []\<rparr>"
| step: "sched_reach n s \<Longrightarrow> sched_step s s' \<Longrightarrow> sched_reach n s'"

text \<open>The abstraction: the bag of waiting tasks.\<close>

definition waiting :: "'t Scheduler \<Rightarrow> 't multiset" where
  "waiting s = mset (concat (sc_local_queues s))"

definition sched_ok :: "'t Scheduler \<Rightarrow> bool" where
  "sched_ok s \<longleftrightarrow> 0 < sc_thread_count s \<and> length (sc_local_queues s) = sc_thread_count s"

lemma mset_concat_set:
  assumes "i < length W"
  shows "mset (concat (W[i := q])) + mset (W ! i) = mset (concat W) + mset q"
proof -
  have "concat W = concat (take i W) @ W ! i @ concat (drop (Suc i) W)"
    using id_take_nth_drop [OF assms] by (metis concat.simps(2) concat_append)
  moreover have "concat (W[i := q]) = concat (take i W) @ q @ concat (drop (Suc i) W)"
    using assms by (simp add: upd_conv_take_nth_drop)
  ultimately show ?thesis by simp
qed

lemma sched_ok_ctor: "sched_ok (Scheduler_ctor n)" "waiting (Scheduler_ctor n) = {#}"
  by (auto simp: sched_ok_def Scheduler_ctor_def Let_def kDefaultThreadCount_def waiting_def)

lemma push_local_waiting:
  assumes "sched_ok s" "i < sc_thread_count s"
  shows "sched_ok (push_local s i h)" "waiting (push_local s i h) = add_mset h (waiting s)"
  using assms mset_concat_set [of i "sc_local_queues s" "sc_local_queues s ! i @ [h]"]
  by (simp_all add: sched_ok_def push_local_def set_queue_def waiting_def WSQ_push_def)

lemma set_queue_waiting:
  assumes "sched_ok s" "i < sc_thread_count s" "mset (sc_local_queues s ! i) = add_mset h (mset q)"
  shows "sched_ok (set_queue s i q)" "waiting s = add_mset h (waiting (set_queue s i q))"
  using assms mset_concat_set [of i "sc_local_queues s" q]
  by (simp_all add: sched_ok_def set_queue_def waiting_def)

lemma WSQ_pop_Some: "WSQ_pop xs = Some (h, q) \<Longrightarrow> mset xs = add_mset h (mset q)"
  by (cases xs rule: rev_cases) (auto simp: WSQ_pop_def)

lemma WSQ_steal_Some: "WSQ_steal xs = Some (h, q) \<Longrightarrow> mset xs = add_mset h (mset q)"
  by (cases xs) (auto simp: WSQ_steal_def)

lemma steal_loop_None:
  "steal_loop tid qs is = None \<longleftrightarrow> (\<forall>i \<in> set is. i \<noteq> tid \<longrightarrow> qs ! i = [])"
  by (induction tid qs "is" rule: steal_loop.induct) (auto simp: WSQ_steal_def split: list.splits)

lemma worker_take_progress:
  assumes "sched_ok s" "tid < sc_thread_count s"
  shows "worker_take s tid = None \<longleftrightarrow> waiting s = {#}"
proof -
  have "worker_take s tid = None \<longleftrightarrow> (\<forall>i < sc_thread_count s. sc_local_queues s ! i = [])"
    using assms(2) steal_loop_None [of tid "sc_local_queues s" "[0..<sc_thread_count s]"]
    by (auto simp: worker_take_def WSQ_pop_def split: option.splits)
  also have "\<dots> \<longleftrightarrow> waiting s = {#}" using assms(1)
    by (auto simp: waiting_def sched_ok_def all_set_conv_all_nth)
  finally show ?thesis .
qed

definition sys_ok :: "'t sched_sys \<Rightarrow> bool" where
  "sys_ok s \<longleftrightarrow> sched_ok (ss_sched s) \<and> mset (ss_scheduled s) = mset (ss_executed s) + waiting (ss_sched s)"

lemma sys_ok_step: "sched_step s s' \<Longrightarrow> sys_ok s \<Longrightarrow> sys_ok s'"
proof (induction rule: sched_step.induct)
  case (sched i s h)
  then show ?case using push_local_waiting [of "ss_sched s" i h] by (simp add: sys_ok_def)
next
  case (pop s tid h q)
  then show ?case using set_queue_waiting [OF _ _ WSQ_pop_Some, of "ss_sched s" tid h q] by (simp add: sys_ok_def)
next
  case (steal s i h q)
  then show ?case using set_queue_waiting [OF _ _ WSQ_steal_Some, of "ss_sched s" i h q] by (simp add: sys_ok_def)
next
  case (halt s)
  then show ?case by (simp add: sys_ok_def sched_ok_def sched_stop_def waiting_def)
qed

lemma sys_ok_reach: "sched_reach n s \<Longrightarrow> sys_ok s"
proof (induction rule: sched_reach.induct)
  case init
  show ?case by (simp add: sys_ok_def sched_ok_ctor)
qed (rule sys_ok_step)

text \<open>A round of \<open>worker_loop\<close> that finds a task is a pop or a steal.\<close>

lemma steal_loop_Some:
  "steal_loop tid qs is = Some (h, qs') \<Longrightarrow>
     \<exists>i \<in> set is. i \<noteq> tid \<and> (\<exists>q. WSQ_steal (qs ! i) = Some (h, q) \<and> qs' = qs[i := q])"
  by (induction tid qs "is" rule: steal_loop.induct) (auto split: if_splits option.splits)

lemma worker_take_step:
  assumes "sc_running (ss_sched s)" "tid < sc_thread_count (ss_sched s)" "worker_take (ss_sched s) tid = Some (h, s')"
  shows "sched_step s (s\<lparr>ss_sched := s', ss_executed := ss_executed s @ [h]\<rparr>)"
proof (cases "WSQ_pop (sc_local_queues (ss_sched s) ! tid)")
  case None
  then obtain qs where "steal_loop tid (sc_local_queues (ss_sched s)) [0..<sc_thread_count (ss_sched s)] = Some (h, qs)"
      and s': "s' = (ss_sched s)\<lparr>sc_local_queues := qs\<rparr>"
    using assms(3) by (auto simp: worker_take_def split: option.splits)
  from steal_loop_Some [OF this(1)] obtain i q where "i < sc_thread_count (ss_sched s)"
      "WSQ_steal (sc_local_queues (ss_sched s) ! i) = Some (h, q)" "qs = (sc_local_queues (ss_sched s))[i := q]" by auto
  with sched_step.steal [of s i h q] assms(1) s' show ?thesis by (simp add: set_queue_def)
next
  case (Some x)
  obtain t q where "x = (t, q)" by fastforce
  with Some assms sched_step.pop [of s tid h q] show ?thesis by (auto simp: worker_take_def)
qed

lemma stopped_step:
  assumes "sched_step s s'" "\<not> sc_running (ss_sched s)"
  shows "\<not> sc_running (ss_sched s') \<and> ss_executed s' = ss_executed s"
  using assms by (induction rule: sched_step.induct) (auto simp: push_local_def set_queue_def sched_stop_def)

lemma schedule_shortest:
  assumes "sched_ok s"
  shows "shortest_queue s < sc_thread_count s"
    and "i < sc_thread_count s \<Longrightarrow> length (sc_local_queues s ! shortest_queue s) \<le> length (sc_local_queues s ! i)"
proof -
  let ?sizes = "map WSQ_size (sc_local_queues s)"
  have "?sizes \<noteq> []" using assms by (auto simp: sched_ok_def)
  note m = scan_min_first [OF this, folded shortest_queue_def [of s, unfolded Let_def]]
  show "shortest_queue s < sc_thread_count s" using m(1) assms by (simp add: sched_ok_def)
  then show "i < sc_thread_count s \<Longrightarrow> length (sc_local_queues s ! shortest_queue s) \<le> length (sc_local_queues s ! i)"
    using m(2) [of i] assms by (simp add: sched_ok_def WSQ_size_def)
qed

section \<open>Properties\<close>



text \<open>
  \<open>schedule\<close> puts the task on the requested queue, and without a valid thread number on the first of the
  shortest queues; no other queue changes.
\<close>

theorem schedule_target:
  assumes "sched_ok s"
  shows "\<exists>i < sc_thread_count s. schedule s h tid = push_local s i h \<and>
    (0 \<le> tid \<and> nat tid < sc_thread_count s \<longrightarrow> i = nat tid) \<and>
    (\<not> (0 \<le> tid \<and> nat tid < sc_thread_count s) \<longrightarrow>
      (\<forall>j < sc_thread_count s. length (sc_local_queues s ! i) \<le> length (sc_local_queues s ! j)))"
  using schedule_shortest [OF assms] by (auto simp: schedule_def)

theorem schedule_target_witness:
  "\<exists>i < 2. schedule (push_local (Scheduler_ctor 2) 0 (7 :: nat)) 8 (- 1) = push_local (push_local (Scheduler_ctor 2) 0 7) i 8"
proof -
  have "sched_ok (push_local (Scheduler_ctor 2) 0 (7 :: nat))"
    by (rule push_local_waiting) (simp_all add: sched_ok_ctor, simp add: Scheduler_ctor_def Let_def)
  from schedule_target [OF this, of 8 "- 1"] show ?thesis
    by (auto simp: push_local_def set_queue_def Scheduler_ctor_def Let_def)
qed

end
