(* ===== verification/Co_Task.thy ===== *)
theory Co_Task
  imports Rpc_Prelude
begin

text \<open>
  The task of \<open>coroutine/task.hpp\<close>. A coroutine frame holds its promise and the point where it is suspended; a store maps
  handles to the frames that exist. The body of a coroutine is what it does next: return, throw, suspend for an
  outside event, or await a task and go on with its outcome. \<open>exec\<close> is the meaning of \<open>resume\<close>: it runs frames until
  control returns to the caller, following \<open>continuation\<close> and the symmetric transfer of \<open>await_suspend\<close>. It is a partial
  function in the option type, \<open>None\<close> meaning that control never comes back; undefined behaviour of the code is an error value.
  The promise of \<open>Task<void>\<close> is the same one without a result, told apart by a flag.
\<close>

section \<open>Frames\<close>

datatype CoroutineState = CS_Created | CS_Running | CS_Suspended | CS_Completed | CS_Cancelled

type_synonym handle = nat

text \<open>An awaited outcome is an exception or the value, which is absent for \<open>void\<close>.\<close>

type_synonym ('v, 'e) outcome = "'e + 'v option"

datatype ('v, 'e) body =
  Co_return 'v
| Co_return_void
| Co_throw 'e
| Co_suspend "('v, 'e) body"
| Co_await "handle option" "('v, 'e) outcome \<Rightarrow> ('v, 'e) body"

datatype ('v, 'e) point =
  At_body "('v, 'e) body"
| At_await handle "('v, 'e) outcome \<Rightarrow> ('v, 'e) body"
| Executing
| At_final

record ('v, 'e) TaskPromise =
  tp_void :: bool
  tp_result :: "'v option"
  tp_exception :: "'e option"
  tp_state :: CoroutineState
  tp_continuation :: "handle option"
  tp_ref_count :: int
  tp_point :: "('v, 'e) point"

type_synonym ('v, 'e) frames = "handle \<rightharpoonup> ('v, 'e) TaskPromise"

datatype co_error = Bad_handle | Null_result | Resumed_done | Resumed_running | Flowed_off

text \<open>A call of a coroutine: the frame is made, \<open>initial_suspend\<close> suspends it, and the task that holds its handle is returned.\<close>

definition TaskPromise_init :: "bool \<Rightarrow> ('v, 'e) body \<Rightarrow> ('v, 'e) TaskPromise" where
  "TaskPromise_init is_void b = \<lparr>tp_void = is_void, tp_result = None, tp_exception = None, tp_state = CS_Created,
     tp_continuation = None, tp_ref_count = 1, tp_point = At_body b\<rparr>"

definition get_return_object :: "handle \<Rightarrow> handle option" where
  "get_return_object h = Some h"

definition call_coroutine ::
  "('v, 'e) frames \<Rightarrow> handle \<Rightarrow> bool \<Rightarrow> ('v, 'e) body \<Rightarrow> ('v, 'e) frames \<times> handle option" where
  "call_coroutine st h is_void b = (st(h \<mapsto> TaskPromise_init is_void b), get_return_object h)"

definition return_value :: "'v \<Rightarrow> ('v, 'e) TaskPromise \<Rightarrow> ('v, 'e) TaskPromise" where
  "return_value v p = p\<lparr>tp_result := Some v\<rparr>"

definition unhandled_exception :: "'e \<Rightarrow> ('v, 'e) TaskPromise \<Rightarrow> ('v, 'e) TaskPromise" where
  "unhandled_exception e p = p\<lparr>tp_exception := Some e\<rparr>"

text \<open>\<open>final_suspend\<close>: the frame after the state is stored, and the continuation to resume.\<close>

definition final_suspend :: "('v, 'e) TaskPromise \<Rightarrow> ('v, 'e) TaskPromise \<times> handle option" where
  "final_suspend p = (p\<lparr>tp_state := CS_Completed, tp_point := At_final\<rparr>, tp_continuation p)"

section \<open>Awaiting\<close>

definition Task_await_ready :: "('v, 'e) TaskPromise \<Rightarrow> bool" where
  "Task_await_ready p \<longleftrightarrow> tp_state p = CS_Completed \<or> tp_state p = CS_Cancelled"

text \<open>The promise after \<open>await_suspend\<close>, and whether control is transferred to the awaited frame (else to the awaiting one).\<close>

definition Task_await_suspend :: "handle \<Rightarrow> ('v, 'e) TaskPromise \<Rightarrow> ('v, 'e) TaskPromise \<times> bool" where
  "Task_await_suspend cont p =
     (let p' = p\<lparr>tp_continuation := Some cont\<rparr>
      in if tp_state p' = CS_Created then (p'\<lparr>tp_state := CS_Running\<rparr>, True) else (p', False))"

definition Task_await_resume_value :: "('v, 'e) TaskPromise \<Rightarrow> co_error + ('v, 'e) outcome" where
  "Task_await_resume_value p =
     (case tp_exception p of
        Some e \<Rightarrow> Inr (Inl e)
      | None \<Rightarrow> (case tp_result p of None \<Rightarrow> Inl Null_result | Some v \<Rightarrow> Inr (Inr (Some v))))"

definition Task_await_resume_void :: "('v, 'e) TaskPromise \<Rightarrow> co_error + ('v, 'e) outcome" where
  "Task_await_resume_void p = (case tp_exception p of Some e \<Rightarrow> Inr (Inl e) | None \<Rightarrow> Inr (Inr None))"

definition Task_await_resume :: "('v, 'e) TaskPromise \<Rightarrow> co_error + ('v, 'e) outcome" where
  "Task_await_resume p = (if tp_void p then Task_await_resume_void p else Task_await_resume_value p)"

lemma Task_await_resume_eq:
  "Task_await_resume p =
     (case tp_exception p of
        Some e \<Rightarrow> Inr (Inl e)
      | None \<Rightarrow>
          if tp_void p then Inr (Inr None)
          else (case tp_result p of None \<Rightarrow> Inl Null_result | Some v \<Rightarrow> Inr (Inr (Some v))))"
  by (simp add: Task_await_resume_def Task_await_resume_void_def Task_await_resume_value_def split: option.split)

section \<open>Running frames\<close>

datatype ('v, 'e) job = Resume handle | Run handle "('v, 'e) body"

definition set_point :: "('v, 'e) frames \<Rightarrow> handle \<Rightarrow> ('v, 'e) point \<Rightarrow> ('v, 'e) frames" where
  "set_point st h pt = (case st h of None \<Rightarrow> st | Some p \<Rightarrow> st(h \<mapsto> p\<lparr>tp_point := pt\<rparr>))"

text \<open>What one frame does before control moves on: it stops (with or without an error), or another job follows.\<close>

definition finish :: "('v, 'e) frames \<Rightarrow> handle \<Rightarrow> ('v, 'e) TaskPromise \<Rightarrow> (co_error + ('v, 'e) frames \<times> ('v, 'e) job option)" where
  "finish st h p =
     (case final_suspend p of (p', cont) \<Rightarrow> Inr (st(h \<mapsto> p'), map_option Resume cont))"

definition resume_outcome ::
  "('v, 'e) frames \<Rightarrow> handle \<Rightarrow> handle \<Rightarrow> (('v, 'e) outcome \<Rightarrow> ('v, 'e) body) \<Rightarrow> (co_error + ('v, 'e) frames \<times> ('v, 'e) job option)" where
  "resume_outcome st h t k =
     (case st t of
        None \<Rightarrow> Inl Bad_handle
      | Some p \<Rightarrow> (case Task_await_resume p of Inl err \<Rightarrow> Inl err | Inr r \<Rightarrow> Inr (set_point st h Executing, Some (Run h (k r)))))"

fun step_resume :: "('v, 'e) frames \<Rightarrow> handle \<Rightarrow> ('v, 'e) TaskPromise \<Rightarrow> (co_error + ('v, 'e) frames \<times> ('v, 'e) job option)" where
  "step_resume st h p =
     (case tp_point p of
        At_final \<Rightarrow> Inl Resumed_done
      | Executing \<Rightarrow> Inl Resumed_running
      | At_body b \<Rightarrow> Inr (set_point st h Executing, Some (Run h b))
      | At_await t k \<Rightarrow> resume_outcome st h t k)"

definition step_await ::
  "('v, 'e) frames \<Rightarrow> handle \<Rightarrow> handle \<Rightarrow> (('v, 'e) outcome \<Rightarrow> ('v, 'e) body) \<Rightarrow> (co_error + ('v, 'e) frames \<times> ('v, 'e) job option)" where
  "step_await st h t k =
     (case st t of
        None \<Rightarrow> Inl Bad_handle
      | Some p \<Rightarrow>
          if Task_await_ready p then resume_outcome st h t k
          else (case Task_await_suspend h p of
                  (p', transfer) \<Rightarrow>
                    Inr (set_point (st(t \<mapsto> p')) h (At_await t k), Some (Resume (if transfer then t else h)))))"

fun step_job :: "('v, 'e) frames \<Rightarrow> ('v, 'e) job \<Rightarrow> (co_error + ('v, 'e) frames \<times> ('v, 'e) job option)" where
  "step_job st (Resume h) = (case st h of None \<Rightarrow> Inl Bad_handle | Some p \<Rightarrow> step_resume st h p)"
| "step_job st (Run h b) =
     (case st h of
        None \<Rightarrow> Inl Bad_handle
      | Some p \<Rightarrow>
          (case b of
             Co_return v \<Rightarrow> if tp_void p then Inl Flowed_off else finish st h (return_value v p)
           | Co_return_void \<Rightarrow> if tp_void p then finish st h p else Inl Flowed_off
           | Co_throw e \<Rightarrow> finish st h (unhandled_exception e p)
           | Co_suspend b' \<Rightarrow> Inr (set_point st h (At_body b'), None)
           | Co_await t k \<Rightarrow> (case t of None \<Rightarrow> Inl Bad_handle | Some t \<Rightarrow> step_await st h t k)))"

partial_function (option) exec :: "('v, 'e) frames \<Rightarrow> ('v, 'e) job \<Rightarrow> (co_error + ('v, 'e) frames) option" where
  "exec st j =
     (case step_job st j of
        Inl err \<Rightarrow> Some (Inl err)
      | Inr (st', None) \<Rightarrow> Some (Inr st')
      | Inr (st', Some j') \<Rightarrow> exec st' j')"

declare step_resume.simps [simp del] step_job.simps [simp del]

section \<open>The operations of a task\<close>

definition Task_valid :: "handle option \<Rightarrow> bool" where
  "Task_valid t \<longleftrightarrow> t \<noteq> None"

text \<open>The state of a task; \<open>None\<close> when its frame is gone.\<close>

definition Task_state :: "('v, 'e) frames \<Rightarrow> handle option \<Rightarrow> CoroutineState option" where
  "Task_state st t = (case t of None \<Rightarrow> Some CS_Cancelled | Some h \<Rightarrow> map_option tp_state (st h))"

definition set_state :: "('v, 'e) frames \<Rightarrow> handle \<Rightarrow> CoroutineState \<Rightarrow> ('v, 'e) frames" where
  "set_state st h s = (case st h of None \<Rightarrow> st | Some p \<Rightarrow> st(h \<mapsto> p\<lparr>tp_state := s\<rparr>))"

definition Task_start :: "('v, 'e) frames \<Rightarrow> handle option \<Rightarrow> (co_error + ('v, 'e) frames) option" where
  "Task_start st t =
     (case t of
        None \<Rightarrow> Some (Inr st)
      | Some h \<Rightarrow>
          (case st h of
             None \<Rightarrow> Some (Inl Bad_handle)
           | Some p \<Rightarrow> if tp_state p = CS_Created then exec (set_state st h CS_Running) (Resume h) else Some (Inr st)))"

text \<open>
  The loop of \<open>get\<close>: between two looks at the state another thread may resume a frame; the list holds the frames that
  are resumed so, in order. \<open>None\<close>: the loop goes on for ever.
\<close>

fun get_loop :: "('v, 'e) frames \<Rightarrow> handle \<Rightarrow> handle list \<Rightarrow> (co_error + ('v, 'e) frames) option" where
  "get_loop st h others =
     (case st h of
        None \<Rightarrow> Some (Inl Bad_handle)
      | Some p \<Rightarrow>
          if tp_state p = CS_Completed \<or> tp_state p = CS_Cancelled then Some (Inr st)
          else (case others of
                  [] \<Rightarrow> None
                | r # others' \<Rightarrow>
                    (case exec st (Resume r) of
                       None \<Rightarrow> None
                     | Some (Inl err) \<Rightarrow> Some (Inl err)
                     | Some (Inr st') \<Rightarrow> get_loop st' h others')))"

declare get_loop.simps [simp del]

datatype ('v, 'e) get_result = Task_is_null | Got "('v, 'e) outcome"

definition Task_get ::
  "('v, 'e) frames \<Rightarrow> handle option \<Rightarrow> handle list \<Rightarrow> (co_error + ('v, 'e) frames \<times> ('v, 'e) get_result) option" where
  "Task_get st t others =
     (case t of
        None \<Rightarrow> Some (Inr (st, Task_is_null))
      | Some h \<Rightarrow>
          (case Task_start st t of
             None \<Rightarrow> None
           | Some (Inl err) \<Rightarrow> Some (Inl err)
           | Some (Inr st1) \<Rightarrow>
               (case get_loop st1 h others of
                  None \<Rightarrow> None
                | Some (Inl err) \<Rightarrow> Some (Inl err)
                | Some (Inr st2) \<Rightarrow>
                    (case st2 h of
                       None \<Rightarrow> Some (Inl Bad_handle)
                     | Some p \<Rightarrow> (case Task_await_resume p of Inl err \<Rightarrow> Some (Inl err) | Inr r \<Rightarrow> Some (Inr (st2, Got r)))))))"

definition Task_cancel :: "('v, 'e) frames \<Rightarrow> handle option \<Rightarrow> ('v, 'e) frames" where
  "Task_cancel st t =
     (case t of
        None \<Rightarrow> st
      | Some h \<Rightarrow> if Task_state st t \<noteq> Some CS_Completed then set_state st h CS_Cancelled else st)"

definition Task_destroy :: "('v, 'e) frames \<Rightarrow> handle option \<Rightarrow> ('v, 'e) frames \<times> handle option" where
  "Task_destroy st t = (case t of None \<Rightarrow> (st, None) | Some h \<Rightarrow> (st(h := None), None))"

text \<open>Move construction and assignment: the handles of the two tasks afterwards.\<close>

definition Task_move :: "handle option \<Rightarrow> handle option \<times> handle option" where
  "Task_move other = (other, None)"

definition Task_move_assign ::
  "('v, 'e) frames \<Rightarrow> bool \<Rightarrow> handle option \<Rightarrow> handle option \<Rightarrow> ('v, 'e) frames \<times> handle option \<times> handle option" where
  "Task_move_assign st same this other =
     (if same then (st, this, other)
      else case Task_destroy st this of (st', _) \<Rightarrow> (st', other, None))"

definition make_ready_task :: "'v \<Rightarrow> ('v, 'e) body" where
  "make_ready_task v = Co_return v"

definition make_ready_task_void :: "('v, 'e) body" where
  "make_ready_task_void = Co_return_void"


section \<open>What a task evaluates to\<close>

text \<open>
  The reference: the outcome of a body when the outcomes of the tasks it awaits are known, and the outcome of the tasks of a
  program in which every task awaits only tasks made before it.
\<close>

type_synonym ('v, 'e) program = "handle \<Rightarrow> bool \<times> ('v, 'e) body"

primrec denot_body :: "(handle \<Rightarrow> ('v, 'e) outcome) \<Rightarrow> ('v, 'e) body \<Rightarrow> ('v, 'e) outcome" where
  "denot_body D (Co_return v) = Inr (Some v)"
| "denot_body D Co_return_void = Inr None"
| "denot_body D (Co_throw e) = Inl e"
| "denot_body D (Co_suspend b) = denot_body D b"
| "denot_body D (Co_await t k) = (case t of None \<Rightarrow> Inr None | Some j \<Rightarrow> denot_body D (k (D j)))"

function denot :: "('v, 'e) program \<Rightarrow> handle \<Rightarrow> ('v, 'e) outcome" where
  "denot P i = denot_body (\<lambda>j. if j < i then denot P j else Inr None) (snd (P i))"
  by pat_completeness auto
termination by (relation "measure snd") auto

declare denot.simps [simp del]

text \<open>Bodies that never suspend for an outside event, return what their kind returns and await earlier tasks only.\<close>

primrec plain :: "bool \<Rightarrow> handle \<Rightarrow> ('v, 'e) body \<Rightarrow> bool" where
  "plain is_void i (Co_return v) = (\<not> is_void)"
| "plain is_void i Co_return_void = is_void"
| "plain is_void i (Co_throw e) = True"
| "plain is_void i (Co_suspend b) = False"
| "plain is_void i (Co_await t k) = ((case t of None \<Rightarrow> False | Some j \<Rightarrow> j < i) \<and> (\<forall>r. plain is_void i (k r)))"

lemma denot_body_cong:
  "plain is_void i b \<Longrightarrow> \<forall>j < i. D j = D' j \<Longrightarrow> denot_body D b = denot_body D' b"
  by (induction b) (auto split: option.splits)

lemma denot_plain: "plain is_void i (snd (P i)) \<Longrightarrow> denot P i = denot_body (denot P) (snd (P i))"
  by (subst denot.simps) (rule denot_body_cong, auto)

definition task_init :: "('v, 'e) program \<Rightarrow> handle \<Rightarrow> ('v, 'e) TaskPromise" where
  "task_init P j = TaskPromise_init (fst (P j)) (snd (P j))"

definition task_done :: "('v, 'e) outcome \<Rightarrow> ('v, 'e) TaskPromise \<Rightarrow> bool" where
  "task_done r p \<longleftrightarrow> tp_state p = CS_Completed \<and> Task_await_resume p = Inr r"

definition tasks_inv :: "('v, 'e) program \<Rightarrow> ('v, 'e) frames \<Rightarrow> handle \<Rightarrow> bool" where
  "tasks_inv P st n \<longleftrightarrow> (\<forall>j < n. \<exists>p. st j = Some p \<and> (p = task_init P j \<or> task_done (denot P j) p))"

definition task_runs :: "bool \<Rightarrow> ('v, 'e) TaskPromise \<Rightarrow> bool" where
  "task_runs is_void p \<longleftrightarrow> tp_point p = Executing \<and> tp_state p = CS_Running \<and> tp_result p = None \<and> tp_exception p = None \<and> tp_void p = is_void"

definition control_returns :: "('v, 'e) frames \<Rightarrow> handle option \<Rightarrow> (co_error + ('v, 'e) frames) option" where
  "control_returns st cont = (case cont of None \<Rightarrow> Some (Inr st) | Some c \<Rightarrow> exec st (Resume c))"

lemma exec_step:
  "step_job st j = Inr (st', Some j') \<Longrightarrow> exec st j = exec st' j'"
  "step_job st j = Inr (st', None) \<Longrightarrow> exec st j = Some (Inr st')"
  "step_job st j = Inl err \<Longrightarrow> exec st j = Some (Inl err)"
  by (simp_all add: exec.simps [of st j])

lemma exec_finish:
  assumes "step_job st j = finish st h p"
  shows "exec st j = control_returns (st(h \<mapsto> p\<lparr>tp_state := CS_Completed, tp_point := At_final\<rparr>)) (tp_continuation p)"
  using assms by (cases "tp_continuation p") (simp_all add: finish_def final_suspend_def exec_step control_returns_def)

lemma run_return:
  assumes "st h = Some p" "task_runs is_void p"
  shows "\<not> is_void \<Longrightarrow> \<exists>p'. exec st (Run h (Co_return v)) = control_returns (st(h \<mapsto> p')) (tp_continuation p) \<and> task_done (Inr (Some v)) p'"
    and "is_void \<Longrightarrow> \<exists>p'. exec st (Run h Co_return_void) = control_returns (st(h \<mapsto> p')) (tp_continuation p) \<and> task_done (Inr None) p'"
    and "\<exists>p'. exec st (Run h (Co_throw e)) = control_returns (st(h \<mapsto> p')) (tp_continuation p) \<and> task_done (Inl e) p'"
proof -
  show "\<exists>p'. exec st (Run h (Co_return v)) = control_returns (st(h \<mapsto> p')) (tp_continuation p) \<and> task_done (Inr (Some v)) p'" if "\<not> is_void"
    using exec_finish [of st "Run h (Co_return v)" h "return_value v p"] assms that
    by (intro exI [of _ "(return_value v p)\<lparr>tp_state := CS_Completed, tp_point := At_final\<rparr>"])
      (simp add: step_job.simps task_runs_def task_done_def Task_await_resume_eq return_value_def)
  show "\<exists>p'. exec st (Run h Co_return_void) = control_returns (st(h \<mapsto> p')) (tp_continuation p) \<and> task_done (Inr None) p'" if "is_void"
    using exec_finish [of st "Run h Co_return_void" h p] assms that
    by (intro exI [of _ "p\<lparr>tp_state := CS_Completed, tp_point := At_final\<rparr>"])
      (simp add: step_job.simps task_runs_def task_done_def Task_await_resume_eq)
  show "\<exists>p'. exec st (Run h (Co_throw e)) = control_returns (st(h \<mapsto> p')) (tp_continuation p) \<and> task_done (Inl e) p'"
    using exec_finish [of st "Run h (Co_throw e)" h "unhandled_exception e p"] assms
    by (intro exI [of _ "(unhandled_exception e p)\<lparr>tp_state := CS_Completed, tp_point := At_final\<rparr>"])
      (simp add: step_job.simps task_runs_def task_done_def Task_await_resume_eq unhandled_exception_def)
qed

text \<open>Awaiting a task that is done goes on at once; awaiting a new one starts it with the awaiting frame as its continuation.\<close>

lemma run_await_done:
  assumes "st h = Some p" "st t = Some q" "task_done r q" "tp_point p = Executing"
  shows "exec st (Run h (Co_await (Some t) k)) = exec st (Run h (k r))"
proof -
  have "set_point st h Executing = st" using assms(1,4) by (simp add: set_point_def fun_upd_idem)
  then have "step_job st (Run h (Co_await (Some t) k)) = Inr (st, Some (Run h (k r)))"
    using assms by (simp add: step_job.simps step_await_def Task_await_ready_def resume_outcome_def task_done_def)
  then show ?thesis by (rule exec_step)
qed

lemma run_await_new:
  assumes "st h = Some p" "st t = Some (task_init P t)" "t \<noteq> h"
  shows "exec st (Run h (Co_await (Some t) k)) =
    exec (st(t \<mapsto> (task_init P t)\<lparr>tp_continuation := Some h, tp_state := CS_Running, tp_point := Executing\<rparr>,
             h \<mapsto> p\<lparr>tp_point := At_await t k\<rparr>)) (Run t (snd (P t)))"
proof -
  let ?q = "(task_init P t)\<lparr>tp_continuation := Some h, tp_state := CS_Running\<rparr>"
  let ?st = "st(t \<mapsto> ?q, h \<mapsto> p\<lparr>tp_point := At_await t k\<rparr>)"
  have "step_job st (Run h (Co_await (Some t) k)) = Inr (?st, Some (Resume t))"
    using assms by (simp add: step_job.simps step_await_def Task_await_ready_def Task_await_suspend_def set_point_def task_init_def TaskPromise_init_def)
  moreover have "step_job ?st (Resume t) =
      Inr (?st(t \<mapsto> ?q\<lparr>tp_point := Executing\<rparr>), Some (Run t (snd (P t))))"
    using assms(3) by (simp add: step_job.simps step_resume.simps set_point_def task_init_def TaskPromise_init_def)
  ultimately show ?thesis using assms(3) by (simp add: exec_step fun_upd_twist [of t h])
qed

lemma resume_awaiting:
  assumes "st h = Some p" "tp_point p = At_await t k" "st t = Some q" "task_done r q"
  shows "exec st (Resume h) = exec (st(h \<mapsto> p\<lparr>tp_point := Executing\<rparr>)) (Run h (k r))"
  using assms by (simp add: exec_step step_job.simps step_resume.simps resume_outcome_def task_done_def set_point_def)


text \<open>
  A running frame whose earlier tasks are new or done completes with the outcome of its body and hands control to its
  continuation; later frames are not touched.
\<close>

definition runs_to :: "('v, 'e) program \<Rightarrow> handle \<Rightarrow> bool \<Rightarrow> ('v, 'e) body \<Rightarrow> bool" where
  "runs_to P i is_void b \<longleftrightarrow>
     (\<forall>st p. tasks_inv P st i \<longrightarrow> st i = Some p \<longrightarrow> task_runs is_void p \<longrightarrow>
        (\<exists>st' p'. exec st (Run i b) = control_returns st' (tp_continuation p) \<and> tasks_inv P st' i \<and>
           (\<forall>j > i. st' j = st j) \<and> st' i = Some p' \<and> task_done (denot_body (denot P) b) p'))"

lemma runs_toD:
  assumes "runs_to P i is_void b" "tasks_inv P st i" "st i = Some p" "task_runs is_void p"
  obtains st' p' where "exec st (Run i b) = control_returns st' (tp_continuation p)" "tasks_inv P st' i" "\<forall>j > i. st' j = st j"
    "st' i = Some p'" "task_done (denot_body (denot P) b) p'"
  using assms unfolding runs_to_def by blast

lemma runs_to_return:
  assumes "\<And>st p. st i = Some p \<Longrightarrow> task_runs is_void p \<Longrightarrow>
    \<exists>p'. exec st (Run i b) = control_returns (st(i \<mapsto> p')) (tp_continuation p) \<and> task_done (denot_body (denot P) b) p'"
  shows "runs_to P i is_void b"
  unfolding runs_to_def
proof (intro allI impI)
  fix st p assume a: "tasks_inv P st i" "st i = Some p" "task_runs is_void p"
  from assms [of st p, OF a(2,3)] obtain p' where
    "exec st (Run i b) = control_returns (st(i \<mapsto> p')) (tp_continuation p)" "task_done (denot_body (denot P) b) p'" by blast
  with a(1) show "\<exists>st' p'. exec st (Run i b) = control_returns st' (tp_continuation p) \<and> tasks_inv P st' i \<and>
      (\<forall>j > i. st' j = st j) \<and> st' i = Some p' \<and> task_done (denot_body (denot P) b) p'"
    by (intro exI [of _ "st(i \<mapsto> p')"] exI [of _ p']) (auto simp: tasks_inv_def)
qed

lemma runs_to_await:
  assumes "j < i" "runs_to P j (fst (P j)) (snd (P j))" "plain (fst (P j)) j (snd (P j))" "\<And>r. runs_to P i is_void (k r)"
  shows "runs_to P i is_void (Co_await (Some j) k)"
  unfolding runs_to_def
proof (intro allI impI)
  fix st p assume inv: "tasks_inv P st i" and p: "st i = Some p" "task_runs is_void p"
  let ?b = "Co_await (Some j) k"
  let ?goal = "\<exists>st' p'. exec st (Run i ?b) = control_returns st' (tp_continuation p) \<and> tasks_inv P st' i \<and>
    (\<forall>j > i. st' j = st j) \<and> st' i = Some p' \<and> task_done (denot_body (denot P) ?b) p'"
  have cont: ?goal if c: "exec st (Run i ?b) = exec st1 (Run i (k (denot P j)))" "tasks_inv P st1 i" "st1 i = Some p"
      "\<forall>j > i. st1 j = st j" for st1
  proof -
    obtain st' p' where "exec st1 (Run i (k (denot P j))) = control_returns st' (tp_continuation p)" "tasks_inv P st' i"
      "\<forall>j > i. st' j = st1 j" "st' i = Some p'" "task_done (denot_body (denot P) (k (denot P j))) p'"
      by (rule runs_toD [OF assms(4) [of "denot P j"] c(2,3) p(2)])
    with c(1,4) show ?thesis by (intro exI [of _ st'] exI [of _ p']) simp
  qed
  from inv assms(1) obtain q where q: "st j = Some q" "q = task_init P j \<or> task_done (denot P j) q"
    unfolding tasks_inv_def by blast
  show ?goal
  proof (cases "task_done (denot P j) q")
    case True
    show ?thesis
      by (rule cont [of st]) (use run_await_done [OF p(1) q(1) True] p inv in \<open>simp_all add: task_runs_def\<close>)
  next
    case False
    with q have init: "st j = Some (task_init P j)" by simp
    let ?q1 = "(task_init P j)\<lparr>tp_continuation := Some i, tp_state := CS_Running, tp_point := Executing\<rparr>"
    let ?p1 = "p\<lparr>tp_point := At_await j k\<rparr>"
    let ?st1 = "st(j \<mapsto> ?q1, i \<mapsto> ?p1)"
    have e1: "exec st (Run i ?b) = exec ?st1 (Run j (snd (P j)))" using run_await_new [OF p(1) init] assms(1) by simp
    have "tasks_inv P ?st1 j" using inv assms(1) unfolding tasks_inv_def by (auto split: if_splits)
    moreover have "?st1 j = Some ?q1" "task_runs (fst (P j)) ?q1"
      using assms(1) by (simp_all add: task_runs_def task_init_def TaskPromise_init_def)
    ultimately obtain st2 q2 where st2: "exec ?st1 (Run j (snd (P j))) = control_returns st2 (tp_continuation ?q1)"
      "tasks_inv P st2 j" "\<forall>l > j. st2 l = ?st1 l" "st2 j = Some q2" "task_done (denot_body (denot P) (snd (P j))) q2"
      by (rule runs_toD [OF assms(2)])
    then have q2: "task_done (denot P j) q2" using denot_plain [of _ j P, OF assms(3)] by simp
    have p1: "st2 i = Some ?p1" using st2(3) assms(1) by simp
    let ?st3 = "st2(i \<mapsto> p)"
    have "p\<lparr>tp_point := Executing\<rparr> = p" using p(2) by (simp add: task_runs_def)
    then have "exec st (Run i ?b) = exec ?st3 (Run i (k (denot P j)))"
      using e1 st2(1) resume_awaiting [OF p1 _ st2(4) q2, of k] by (simp add: control_returns_def)
    moreover have "\<exists>p'. ?st3 l = Some p' \<and> (p' = task_init P l \<or> task_done (denot P l) p')" if "l < i" for l
    proof (cases l j rule: linorder_cases)
      case less
      with st2(2) that show ?thesis by (auto simp: tasks_inv_def)
    next
      case equal
      with st2(4) q2 assms(1) show ?thesis by simp
    next
      case greater
      with inv st2(3) that show ?thesis by (auto simp: tasks_inv_def)
    qed
    then have "tasks_inv P ?st3 i" by (simp add: tasks_inv_def)
    moreover have "\<forall>l > i. ?st3 l = st l" using st2(3) assms(1) by simp
    ultimately show ?thesis by (intro cont [of ?st3]) simp_all
  qed
qed

lemma runs_to_all:
  assumes "\<forall>j \<le> i. plain (fst (P j)) j (snd (P j))"
  shows "runs_to P i (fst (P i)) (snd (P i))"
  using assms
proof (induction i rule: less_induct)
  case (less i)
  have "runs_to P i is_void b" if "plain is_void i b" for is_void b
    using that
  proof (induction b)
    case (Co_await t k)
    then obtain j where j: "t = Some j" "j < i" by (auto split: option.splits)
    have "runs_to P j (fst (P j)) (snd (P j))" using less.IH [OF j(2)] less.prems j(2) by auto
    moreover have "runs_to P i is_void (k r)" for r using Co_await by auto
    ultimately show ?case unfolding j(1) using less.prems j(2) by (intro runs_to_await) auto
  qed (auto intro!: runs_to_return run_return)
  then show ?case using less.prems by auto
qed



definition prog_ex :: "(int, string) program" where
  "prog_ex h =
     (if h = 0 then (False, Co_return 5)
      else if h = 1 then (False, Co_throw ''no'')
      else (False, Co_await (Some 0) (\<lambda>a. Co_await (Some 1) (\<lambda>b.
        (case (a, b) of (Inr (Some x), Inl _) \<Rightarrow> Co_return (x + 1) | _ \<Rightarrow> Co_throw ''bad'')))))"


section \<open>All operations\<close>

text \<open>
  A world is the frames and the task objects, a map from the names of the live variables to their handles. The steps are the
  operations of a task, and the resumption of a frame by whoever holds its handle.
\<close>

type_synonym ('v, 'e) world = "('v, 'e) frames \<times> (nat \<rightharpoonup> handle option)"

inductive task_step :: "('v, 'e) world \<Rightarrow> ('v, 'e) world \<Rightarrow> bool" where
  ts_call: "\<lbrakk>st h = None; vars x = None; call_coroutine st h is_void b = (st', t)\<rbrakk> \<Longrightarrow> task_step (st, vars) (st', vars(x \<mapsto> t))"
| ts_default: "vars x = None \<Longrightarrow> task_step (st, vars) (st, vars(x \<mapsto> None))"
| ts_move: "\<lbrakk>vars x = None; vars y = Some t; Task_move t = (t1, t2)\<rbrakk> \<Longrightarrow> task_step (st, vars) (st, vars(x \<mapsto> t1, y \<mapsto> t2))"
| ts_assign: "\<lbrakk>vars x = Some t; vars y = Some u; Task_move_assign st (x = y) t u = (st', t', u')\<rbrakk> \<Longrightarrow>
    task_step (st, vars) (st', if x = y then vars else vars(x \<mapsto> t', y \<mapsto> u'))"
| ts_dtor: "\<lbrakk>vars x = Some t; Task_destroy st t = (st', t')\<rbrakk> \<Longrightarrow> task_step (st, vars) (st', vars(x := None))"
| ts_start: "\<lbrakk>vars x = Some t; Task_start st t = Some (Inr st')\<rbrakk> \<Longrightarrow> task_step (st, vars) (st', vars)"
| ts_get: "\<lbrakk>vars x = Some t; Task_get st t others = Some (Inr (st', r))\<rbrakk> \<Longrightarrow> task_step (st, vars) (st', vars)"
| ts_cancel: "vars x = Some t \<Longrightarrow> task_step (st, vars) (Task_cancel st t, vars)"
| ts_resume: "exec st (Resume h) = Some (Inr st') \<Longrightarrow> task_step (st, vars) (st', vars)"

inductive task_reach :: "('v, 'e) world \<Rightarrow> bool" where
  tr_start: "task_reach (Map.empty, Map.empty)"
| tr_step: "task_reach w \<Longrightarrow> task_step w w' \<Longrightarrow> task_reach w'"

text \<open>A promise is completed exactly when its frame is at the final suspension point, and then it has an outcome.\<close>

definition promise_ok :: "('v, 'e) TaskPromise \<Rightarrow> bool" where
  "promise_ok p \<longleftrightarrow> (tp_state p = CS_Completed \<longleftrightarrow> tp_point p = At_final) \<and> tp_state p \<noteq> CS_Suspended \<and>
     (tp_state p = CS_Completed \<longrightarrow> tp_void p \<or> tp_result p \<noteq> None \<or> tp_exception p \<noteq> None)"

definition frames_ok :: "('v, 'e) frames \<Rightarrow> bool" where
  "frames_ok st \<longleftrightarrow> (\<forall>h p. st h = Some p \<longrightarrow> promise_ok p)"

fun job_ok :: "('v, 'e) frames \<Rightarrow> ('v, 'e) job \<Rightarrow> bool" where
  "job_ok st (Resume h) = True"
| "job_ok st (Run h b) = (case st h of None \<Rightarrow> True | Some p \<Rightarrow> tp_point p = Executing)"

lemma frames_ok_upd: "frames_ok st \<Longrightarrow> promise_ok p \<Longrightarrow> frames_ok (st(h \<mapsto> p))"
  by (simp add: frames_ok_def)

lemma frames_ok_point:
  assumes "frames_ok st" "\<And>p. st h = Some p \<Longrightarrow> tp_point p \<noteq> At_final" "pt \<noteq> At_final"
  shows "frames_ok (set_point st h pt)"
  using assms by (auto simp: set_point_def frames_ok_def promise_ok_def split: option.splits)

lemma set_point_get: "set_point st h pt h' = (if h' = h then map_option (\<lambda>p. p\<lparr>tp_point := pt\<rparr>) (st h) else st h')"
  by (simp add: set_point_def split: option.splits)

lemma finish_ok:
  assumes "frames_ok st" "finish st h p = Inr (st', j')" "tp_void p \<or> tp_result p \<noteq> None \<or> tp_exception p \<noteq> None"
  shows "frames_ok st' \<and> (case j' of None \<Rightarrow> True | Some j' \<Rightarrow> job_ok st' j')"
proof -
  have "promise_ok (p\<lparr>tp_state := CS_Completed, tp_point := At_final\<rparr>)" using assms(3) by (simp add: promise_ok_def)
  with assms(1,2) show ?thesis
    by (cases "tp_continuation p") (auto simp: finish_def final_suspend_def frames_ok_upd)
qed

lemma resume_outcome_ok:
  assumes "frames_ok st" "resume_outcome st h t k = Inr (st', j')" "\<And>p. st h = Some p \<Longrightarrow> tp_point p \<noteq> At_final"
  shows "frames_ok st' \<and> (case j' of None \<Rightarrow> True | Some j' \<Rightarrow> job_ok st' j')"
  using assms frames_ok_point [OF assms(1), of h Executing]
  by (auto simp: resume_outcome_def set_point_get split: option.splits sum.splits)

lemma step_await_ok:
  assumes "frames_ok st" "step_await st h t k = Inr (st', j')" "\<And>p. st h = Some p \<Longrightarrow> tp_point p \<noteq> At_final"
  shows "frames_ok st' \<and> (case j' of None \<Rightarrow> True | Some j' \<Rightarrow> job_ok st' j')"
proof (cases "\<exists>p. st t = Some p \<and> \<not> Task_await_ready p")
  case True
  then obtain p p' transfer where p: "st t = Some p" "\<not> Task_await_ready p" and s: "Task_await_suspend h p = (p', transfer)" by fastforce
  have "promise_ok p" using assms(1) p(1) by (simp add: frames_ok_def)
  with p s have p': "promise_ok p'" "tp_point p' \<noteq> At_final"
    by (auto simp: promise_ok_def Task_await_ready_def Task_await_suspend_def Let_def split: if_splits)
  have "frames_ok (set_point (st(t \<mapsto> p')) h (At_await t k))"
    using frames_ok_upd [OF assms(1) p'(1)] assms(3) p'(2) by (intro frames_ok_point) (auto split: if_splits)
  with assms(2) p s show ?thesis by (auto simp: step_await_def)
next
  case False
  with assms resume_outcome_ok [of st h t k st' j'] show ?thesis by (auto simp: step_await_def split: option.splits if_splits)
qed

lemma step_job_ok:
  assumes "frames_ok st" "job_ok st j" "step_job st j = Inr (st', j')"
  shows "frames_ok st' \<and> (case j' of None \<Rightarrow> True | Some j' \<Rightarrow> job_ok st' j')"
proof (cases j)
  case (Resume h)
  with assms(3) obtain p where p: "st h = Some p" "step_resume st h p = Inr (st', j')" by (auto simp: step_job.simps split: option.splits)
  show ?thesis
    using assms(1) p resume_outcome_ok [of st h _ _ st' j'] frames_ok_point [OF assms(1), of h Executing]
    by (auto simp: step_resume.simps set_point_get split: point.splits)
next
  case (Run h b)
  with assms(2,3) obtain p where p: "st h = Some p" "tp_point p = Executing" by (auto simp: step_job.simps split: option.splits)
  have ne: "tp_point q \<noteq> At_final" if "st h = Some q" for q using that p by simp
  show ?thesis
  proof (cases b)
    case (Co_await t k)
    with Run assms(1,3) p(1) step_await_ok [of st h _ k st' j', OF _ _ ne] show ?thesis
      by (auto simp: step_job.simps split: option.splits)
  next
    case (Co_suspend b')
    with Run assms(1,3) p(1) frames_ok_point [of st h "At_body b'", OF _ ne] show ?thesis by (auto simp: step_job.simps)
  qed (use Run assms(1,3) p(1) in \<open>auto simp: step_job.simps return_value_def unhandled_exception_def split: if_splits dest!: finish_ok [rotated]\<close>)
qed


lemma step_job_dom: "step_job st j = Inr (st', j') \<Longrightarrow> dom st' = dom st"
  by (cases j) (auto simp: step_job.simps step_resume.simps resume_outcome_def step_await_def finish_def final_suspend_def set_point_def
      Task_await_suspend_def Let_def split: option.splits body.splits point.splits if_splits sum.splits prod.splits)

text \<open>Whatever a resumption does, the frames stay well formed and no frame comes or goes.\<close>

lemma exec_ok:
  fixes st :: "('v, 'e) frames"
  assumes "exec st j = Some (Inr st')" "frames_ok st" "job_ok st j"
  shows "frames_ok st' \<and> dom st' = dom st"
proof -
  let ?P = "\<lambda>(st :: ('v, 'e) frames) j (y :: co_error + ('v, 'e) frames). \<forall>st'. y = Inr st' \<longrightarrow> frames_ok st \<longrightarrow> job_ok st j \<longrightarrow> frames_ok st' \<and> dom st' = dom st"
  have "?P st j (Inr st')"
  proof (rule exec.raw_induct [of ?P, OF _ assms(1)], intro allI impI)
    fix exec :: "('v, 'e) frames \<Rightarrow> ('v, 'e) job \<Rightarrow> (co_error + ('v, 'e) frames) option" and st j y st'
    assume IH: "\<And>st j y. exec st j = Some y \<Longrightarrow> ?P st j y"
      and e: "(case step_job st j of Inl err \<Rightarrow> Some (Inl err) | Inr (st', None) \<Rightarrow> Some (Inr st') | Inr (st', Some j') \<Rightarrow> exec st' j') = Some y"
      and a: "y = Inr st'" "frames_ok st" "job_ok st j"
    from e a(1) obtain st1 j1 where s: "step_job st j = Inr (st1, j1)" by (auto split: sum.splits)
    note ok = step_job_ok [OF a(2,3) s] step_job_dom [OF s]
    show "frames_ok st' \<and> dom st' = dom st"
    proof (cases j1)
      case None
      with e s a(1) ok show ?thesis by simp
    next
      case (Some j2)
      with e s a(1) have "exec st1 j2 = Some (Inr st')" by simp
      from IH [OF this] Some ok show ?thesis by simp
    qed
  qed
  with assms(2,3) show ?thesis by blast
qed

lemma set_state_ok:
  assumes "frames_ok st" "s \<noteq> CS_Completed" "s \<noteq> CS_Suspended" "\<And>p. st h = Some p \<Longrightarrow> tp_state p \<noteq> CS_Completed"
  shows "frames_ok (set_state st h s) \<and> dom (set_state st h s) = dom st"
  using assms by (auto simp: set_state_def frames_ok_def promise_ok_def split: option.splits)

lemma Task_start_ok:
  assumes "Task_start st t = Some (Inr st')" "frames_ok st"
  shows "frames_ok st' \<and> dom st' = dom st"
proof (cases "\<exists>h p. t = Some h \<and> st h = Some p \<and> tp_state p = CS_Created")
  case True
  then obtain h p where h: "t = Some h" "st h = Some p" "tp_state p = CS_Created" by blast
  have ok: "frames_ok (set_state st h CS_Running) \<and> dom (set_state st h CS_Running) = dom st" using h assms(2) by (intro set_state_ok) auto
  with exec_ok [of "set_state st h CS_Running" "Resume h" st'] assms(1) h show ?thesis by (simp add: Task_start_def)
next
  case False
  with assms show ?thesis by (auto simp: Task_start_def split: option.splits if_splits)
qed

lemma get_loop_ok:
  assumes "get_loop st h others = Some (Inr st')" "frames_ok st"
  shows "frames_ok st' \<and> dom st' = dom st"
  using assms
proof (induction st h others rule: get_loop.induct)
  case (1 st h others)
  show ?case
  proof (cases others)
    case Nil
    with 1 show ?thesis by (auto simp: get_loop.simps [of st] split: option.splits if_splits)
  next
    case (Cons r others')
    with 1 exec_ok [of st "Resume r"] show ?thesis
      by (auto simp: get_loop.simps [of st] split: option.splits if_splits sum.splits)
  qed
qed

lemma Task_get_ok:
  assumes "Task_get st t others = Some (Inr (st', r))" "frames_ok st"
  shows "frames_ok st' \<and> dom st' = dom st"
proof (cases t)
  case None
  with assms show ?thesis by (simp add: Task_get_def)
next
  case (Some h)
  with assms(1) obtain st1 where "Task_start st t = Some (Inr st1)" "get_loop st1 h others = Some (Inr st')"
    by (auto simp: Task_get_def split: option.splits sum.splits)
  with Task_start_ok get_loop_ok assms(2) show ?thesis by metis
qed

lemma Task_cancel_ok:
  assumes "frames_ok st"
  shows "frames_ok (Task_cancel st t) \<and> dom (Task_cancel st t) = dom st"
proof (cases "\<exists>h. t = Some h \<and> Task_state st t \<noteq> Some CS_Completed")
  case True
  then obtain h where h: "t = Some h" "Task_state st t \<noteq> Some CS_Completed" by blast
  then have "Task_cancel st t = set_state st h CS_Cancelled" by (simp add: Task_cancel_def)
  moreover have "frames_ok (set_state st h CS_Cancelled) \<and> dom (set_state st h CS_Cancelled) = dom st"
    by (rule set_state_ok) (use assms h in \<open>auto simp: Task_state_def\<close>)
  ultimately show ?thesis by simp
next
  case False
  with assms show ?thesis by (auto simp: Task_cancel_def split: option.splits)
qed

definition holds :: "(nat \<rightharpoonup> handle option) \<Rightarrow> nat \<Rightarrow> handle \<Rightarrow> bool" where
  "holds vars x h \<longleftrightarrow> vars x = Some (Some h)"

definition owned :: "handle set \<Rightarrow> (nat \<rightharpoonup> handle option) \<Rightarrow> bool" where
  "owned hs vars \<longleftrightarrow> (\<forall>h. (h \<in> hs) = (\<exists>x. holds vars x h)) \<and> (\<forall>x y h. holds vars x h \<longrightarrow> holds vars y h \<longrightarrow> x = y)"

definition world_ok :: "('v, 'e) world \<Rightarrow> bool" where
  "world_ok w \<longleftrightarrow> frames_ok (fst w) \<and> owned (dom (fst w)) (snd w)"

lemma holds_upd:
  "holds (vars(x \<mapsto> t)) z h = (if z = x then t = Some h else holds vars z h)"
  "holds (vars(x := None)) z h = (z \<noteq> x \<and> holds vars z h)"
  by (simp_all add: holds_def)

lemma not_holds: "vars x = None \<or> vars x = Some None \<Longrightarrow> \<not> holds vars x h"
  by (auto simp: holds_def)

lemma owned_add:
  assumes "owned hs vars" "h \<notin> hs" "vars x = None"
  shows "owned (insert h hs) (vars(x \<mapsto> Some h))"
  using assms(1,2) not_holds [of vars x] assms(3) unfolding owned_def holds_upd by (metis insert_iff option.inject)

lemma owned_null: "owned hs vars \<Longrightarrow> vars x = None \<Longrightarrow> owned hs (vars(x \<mapsto> None))"
  using not_holds [of vars x] unfolding owned_def holds_upd by (metis option.distinct(1))

text \<open>A handle moves to another variable, or its variable goes and with it the frame.\<close>

lemma owned_move:
  assumes "owned hs vars" "vars x = None \<or> vars x = Some None" "vars y = Some t" "x \<noteq> y"
  shows "owned hs (vars(x \<mapsto> t, y \<mapsto> None))"
proof -
  have y: "holds vars y h = (t = Some h)" for h using assms(3) by (simp add: holds_def)
  have x: "\<not> holds vars x h" for h using assms(2) by (rule not_holds)
  have u: "holds (vars(x \<mapsto> t, y \<mapsto> None)) z h = (if z = x then holds vars y h else z \<noteq> y \<and> holds vars z h)" for z h
    using assms(4) by (simp add: holds_upd y)
  have "(\<exists>z. holds (vars(x \<mapsto> t, y \<mapsto> None)) z h) = (\<exists>z. holds vars z h)" for h unfolding u using x assms(4) by metis
  moreover have "z = w" if "holds (vars(x \<mapsto> t, y \<mapsto> None)) z h" "holds (vars(x \<mapsto> t, y \<mapsto> None)) w h" for z w h
    using that assms(1) unfolding u owned_def by (auto split: if_splits)
  ultimately show ?thesis using assms(1) unfolding owned_def by blast
qed

lemma owned_drop:
  assumes "owned hs vars" "vars x = Some t" "\<And>z h. holds vars' z h = (z \<noteq> x \<and> holds vars z h)"
  shows "owned (case t of None \<Rightarrow> hs | Some h \<Rightarrow> hs - {h}) vars'"
proof -
  have x: "holds vars x h = (t = Some h)" for h using assms(2) by (simp add: holds_def)
  have hs: "(h \<in> (case t of None \<Rightarrow> hs | Some h \<Rightarrow> hs - {h})) = (h \<in> hs \<and> t \<noteq> Some h)" for h by (cases t) auto
  have "(\<exists>z. z \<noteq> x \<and> holds vars z h) = ((\<exists>z. holds vars z h) \<and> t \<noteq> Some h)" for h
    using x assms(1) unfolding owned_def by metis
  with assms(1) show ?thesis unfolding owned_def hs assms(3) by blast
qed

lemma frames_ok_drop: "frames_ok st \<Longrightarrow> frames_ok (st(h := None))"
  by (simp add: frames_ok_def)

lemma world_ok_run: "world_ok (st, vars) \<Longrightarrow> frames_ok st' \<Longrightarrow> dom st' = dom st \<Longrightarrow> world_ok (st', vars)"
  by (simp add: world_ok_def)


lemma world_ok_step: "task_step w w' \<Longrightarrow> world_ok w \<Longrightarrow> world_ok w'"
proof (induction rule: task_step.induct)
  case (ts_call st h vars x is_void b st' t)
  then have "st' = st(h \<mapsto> TaskPromise_init is_void b)" "t = Some h" by (simp_all add: call_coroutine_def get_return_object_def)
  moreover have "promise_ok (TaskPromise_init is_void b)" by (simp add: promise_ok_def TaskPromise_init_def)
  moreover have "frames_ok st" "owned (dom st) vars" using ts_call(4) by (simp_all add: world_ok_def)
  ultimately show ?case using ts_call(1,2) by (auto simp: world_ok_def intro!: frames_ok_upd owned_add)
next
  case (ts_default vars x st)
  then show ?case by (simp add: world_ok_def owned_null)
next
  case (ts_move vars x y t t1 t2 st)
  then have "x \<noteq> y" "t1 = t" "t2 = None" by (auto simp: Task_move_def)
  then show ?case using ts_move owned_move [of _ vars x y t] by (simp add: world_ok_def)
next
  case (ts_assign vars x t y u st st' t' u')
  show ?case
  proof (cases "x = y")
    case True
    with ts_assign show ?thesis by (simp add: Task_move_assign_def)
  next
    case False
    then have a: "t' = u" "u' = None" "st' = (case t of None \<Rightarrow> st | Some h \<Rightarrow> st(h := None))"
      using ts_assign(3) by (auto simp: Task_move_assign_def Task_destroy_def split: option.splits)
    have d: "dom st' = (case t of None \<Rightarrow> dom st | Some h \<Rightarrow> dom st - {h})" by (auto simp: a split: option.splits)
    from ts_assign(4) have "frames_ok st" "owned (dom st) vars" by (simp_all add: world_ok_def)
    then have "frames_ok st'" "owned (dom st') (vars(x \<mapsto> None))"
      unfolding d using owned_drop [of "dom st" vars x t "vars(x \<mapsto> None)"] ts_assign(1) a(3) by (auto simp: holds_upd intro: frames_ok_drop split: option.splits)
    moreover have "vars(x \<mapsto> t', y \<mapsto> u') = (vars(x \<mapsto> None))(x \<mapsto> u, y \<mapsto> None)" using a by simp
    ultimately show ?thesis
      using owned_move [of "dom st'" "vars(x \<mapsto> None)" x y u] ts_assign(2) False by (simp add: world_ok_def)
  qed
next
  case (ts_dtor vars x t st st' t')
  then have a: "st' = (case t of None \<Rightarrow> st | Some h \<Rightarrow> st(h := None))" by (auto simp: Task_destroy_def split: option.splits)
  have d: "dom st' = (case t of None \<Rightarrow> dom st | Some h \<Rightarrow> dom st - {h})" by (auto simp: a split: option.splits)
  from ts_dtor(3) have "frames_ok st" "owned (dom st) vars" by (simp_all add: world_ok_def)
  then have "owned (dom st') (vars(x := None))"
    unfolding d using ts_dtor(1) by (intro owned_drop [of "dom st" vars x t]) (auto simp: holds_upd)
  moreover have "frames_ok st'" using \<open>frames_ok st\<close> a frames_ok_drop by (simp split: option.splits)
  ultimately show ?case by (simp add: world_ok_def)
next
  case (ts_start vars x t st st')
  then show ?case using Task_start_ok [of st t st'] world_ok_run [of st vars st'] by (simp add: world_ok_def)
next
  case (ts_get vars x t st others st' r)
  then show ?case using Task_get_ok [of st t others st' r] world_ok_run [of st vars st'] by (simp add: world_ok_def)
next
  case (ts_cancel vars x t st)
  then show ?case using Task_cancel_ok [of st t] world_ok_run [of st vars "Task_cancel st t"] by (simp add: world_ok_def)
next
  case (ts_resume st h st' vars)
  then show ?case using exec_ok [of st "Resume h" st'] world_ok_run [of st vars st'] by (simp add: world_ok_def)
qed

lemma task_reach_ok: "task_reach w \<Longrightarrow> world_ok w"
proof (induction rule: task_reach.induct)
  case tr_start
  then show ?case by (simp add: world_ok_def frames_ok_def owned_def holds_def)
next
  case (tr_step w w')
  then show ?case using world_ok_step by blast
qed


definition frame_ex :: "(int, string) TaskPromise" where
  "frame_ex = (TaskPromise_init False (Co_return 5))\<lparr>tp_result := Some 5, tp_state := CS_Completed, tp_point := At_final\<rparr>"

lemma task_reach_ex: "task_reach ([1 \<mapsto> frame_ex], [0 \<mapsto> Some 1])"
proof -
  let ?p = "TaskPromise_init False (Co_return 5) :: (int, string) TaskPromise"
  have "task_step (Map.empty, Map.empty) ([1 \<mapsto> ?p], [0 \<mapsto> Some 1])"
    by (rule ts_call [where h = 1]) (simp_all add: call_coroutine_def get_return_object_def)
  with tr_start have "task_reach ([1 \<mapsto> ?p], [0 \<mapsto> Some 1])" by (rule tr_step)
  moreover have "step_job [1 \<mapsto> ?p\<lparr>tp_state := CS_Running\<rparr>] (Resume 1) =
      Inr ([1 \<mapsto> ?p\<lparr>tp_state := CS_Running, tp_point := Executing\<rparr>], Some (Run 1 (Co_return 5)))"
    by (simp add: step_job.simps step_resume.simps set_point_def TaskPromise_init_def)
  moreover have "step_job [1 \<mapsto> ?p\<lparr>tp_state := CS_Running, tp_point := Executing\<rparr>] (Run 1 (Co_return 5)) = Inr ([1 \<mapsto> frame_ex], None)"
    by (simp add: step_job.simps finish_def final_suspend_def return_value_def TaskPromise_init_def frame_ex_def)
  ultimately have "Task_start [1 \<mapsto> ?p] (Some 1) = Some (Inr [1 \<mapsto> frame_ex])"
    by (simp add: Task_start_def set_state_def exec_step) (simp add: TaskPromise_init_def)
  then have "task_step ([1 \<mapsto> ?p], [0 \<mapsto> Some 1]) ([1 \<mapsto> frame_ex], [0 \<mapsto> Some 1])" by (intro ts_start [of _ 0]) simp_all
  with \<open>task_reach ([1 \<mapsto> ?p], [0 \<mapsto> Some 1])\<close> show ?thesis by (rule tr_step)
qed


text \<open>
  C26. Whatever the tasks of a program do, a promise is completed exactly when its frame is at the final suspension point,
  and it then has an outcome, which \<open>get\<close> returns at once.
\<close>

theorem completed_has_outcome:
  assumes "task_reach (st, vars)" "st h = Some p"
  shows "promise_ok p \<and> (tp_state p = CS_Completed \<longrightarrow> (\<exists>r. Task_get st (Some h) others = Some (Inr (st, Got r))))"
proof -
  have "promise_ok p" using task_reach_ok [OF assms(1)] assms(2) by (simp add: world_ok_def frames_ok_def)
  then show ?thesis using assms(2)
    by (auto simp: promise_ok_def Task_get_def Task_start_def get_loop.simps Task_await_resume_eq split: option.splits)
qed

theorem completed_has_outcome_witness: "\<exists>r. Task_get [1 \<mapsto> frame_ex] (Some 1) [] = Some (Inr ([1 \<mapsto> frame_ex], Got r))"
  using completed_has_outcome [OF task_reach_ex, of 1 frame_ex "[]"] by (simp add: frame_ex_def)

text \<open>
  Awaiting a task that is already running does not wait for it: the awaiting coroutine goes on at once, and, unless
  the task returns nothing, it dereferences a result that does not exist.
\<close>

theorem await_running_undefined:
  assumes "st h = Some p" "tp_point p = Executing" "st t = Some q" "t \<noteq> h" "tp_state q = CS_Running" "tp_exception q = None" "tp_result q = None"
  shows "exec st (Run h (Co_await (Some t) k)) =
    (if tp_void q then exec (st(t \<mapsto> q\<lparr>tp_continuation := Some h\<rparr>)) (Run h (k (Inr None))) else Some (Inl Null_result))"
proof -
  let ?st = "st(t \<mapsto> q\<lparr>tp_continuation := Some h\<rparr>, h \<mapsto> p\<lparr>tp_point := At_await t k\<rparr>)"
  have "step_job st (Run h (Co_await (Some t) k)) = Inr (?st, Some (Resume h))"
    using assms by (simp add: step_job.simps step_await_def Task_await_ready_def Task_await_suspend_def set_point_def)
  then have e: "exec st (Run h (Co_await (Some t) k)) = exec ?st (Resume h)" by (rule exec_step)
  have pe: "p\<lparr>tp_point := Executing\<rparr> = p" using assms(2) by simp
  have "st(t \<mapsto> q\<lparr>tp_continuation := Some h\<rparr>, h \<mapsto> p) = st(t \<mapsto> q\<lparr>tp_continuation := Some h\<rparr>)" using assms(1,4) by auto
  then show ?thesis
    unfolding e using assms by (simp add: exec.simps [of ?st] step_job.simps step_resume.simps resume_outcome_def Task_await_resume_eq set_point_def pe)
qed

theorem await_running_undefined_witness:
  "exec [0 \<mapsto> (TaskPromise_init False (Co_return 5))\<lparr>tp_point := Executing, tp_state := CS_Running\<rparr>,
     1 \<mapsto> (TaskPromise_init False (Co_return 6))\<lparr>tp_state := CS_Running\<rparr>] (Run 0 (Co_await (Some 1) (\<lambda>_. Co_throw ''late''))) =
   Some (Inl Null_result :: co_error + (int, string) frames)"
  by (subst await_running_undefined) (auto simp: TaskPromise_init_def)

text \<open>
  A task that is cancelled before it has a result stays without one: \<open>get\<close> dereferences the missing result. And
  cancelling does not stop a coroutine: when it is resumed it goes on as before and its state becomes completed.
\<close>

theorem cancel_get_undefined:
  assumes "st h = Some p" "tp_state p \<noteq> CS_Completed" "tp_exception p = None" "tp_result p = None" "\<not> tp_void p"
    and "tp_point p = At_body (Co_return v)" "tp_continuation p = None"
  defines "st1 \<equiv> Task_cancel st (Some h)"
  shows "Task_get st1 (Some h) others = Some (Inl Null_result) \<and>
    (\<exists>st2. exec st1 (Resume h) = Some (Inr st2) \<and> Task_get st2 (Some h) others = Some (Inr (st2, Got (Inr (Some v)))))"
proof -
  let ?p1 = "p\<lparr>tp_state := CS_Cancelled\<rparr>"
  have c: "st1 = st(h \<mapsto> ?p1)"
    unfolding st1_def using assms by (simp add: Task_cancel_def Task_state_def set_state_def)
  let ?st = "st(h \<mapsto> ?p1\<lparr>tp_point := Executing\<rparr>)"
  let ?p2 = "p\<lparr>tp_result := Some v, tp_state := CS_Completed, tp_point := At_final\<rparr>"
  have "step_job st1 (Resume h) = Inr (?st, Some (Run h (Co_return v)))"
    unfolding c using assms by (simp add: step_job.simps step_resume.simps set_point_def)
  moreover have "step_job ?st (Run h (Co_return v)) = Inr (st(h \<mapsto> ?p2), None)"
    using assms by (simp add: step_job.simps finish_def final_suspend_def return_value_def)
  ultimately have "exec st1 (Resume h) = Some (Inr (st(h \<mapsto> ?p2)))" by (simp add: exec_step)
  moreover have "Task_get (st(h \<mapsto> ?p2)) (Some h) others = Some (Inr (st(h \<mapsto> ?p2), Got (Inr (Some v))))"
    using assms by (simp add: Task_get_def Task_start_def get_loop.simps Task_await_resume_eq)
  moreover have "Task_get st1 (Some h) others = Some (Inl Null_result)"
    unfolding c using assms by (simp add: Task_get_def Task_start_def get_loop.simps Task_await_resume_eq)
  ultimately show ?thesis by blast
qed


theorem cancel_get_undefined_witness:
  "Task_get (Task_cancel [1 \<mapsto> TaskPromise_init False (Co_return 5 :: (int, string) body)] (Some 1)) (Some 1) [] = Some (Inl Null_result)"
  using cancel_get_undefined [of "[1 \<mapsto> TaskPromise_init False (Co_return 5 :: (int, string) body)]" 1 _ 5 "[]"]
  by (simp add: TaskPromise_init_def)

end
