(* ===== verification/Co_Generator.thy ===== *)
theory Co_Generator
  imports Rpc_Prelude
begin

text \<open>
  The generator of \<open>coroutine/generator.hpp\<close>. The body of a generator coroutine is the possibly infinite sequence of what it does:
  yield a value, return, or end with an exception that leaves it. A frame is the promise together with the point where
  the body is suspended. A generator holds a handle or none, an iterator a handle and the address of the
  promise's \<open>current_value\<close>, which is named by the same handle. Undefined behaviour of the code is an error value.
\<close>

section \<open>Frames, generators and iterators\<close>

codatatype (gen_values: 'v, 'e) gen_body =
  is_yield: Co_yield (yielded: 'v) (gen_rest: "('v, 'e) gen_body")
| is_return: Gen_return
| is_throw: Gen_throw (thrown: 'e)

record ('v, 'e) GeneratorPromise =
  gp_current_value :: 'v
  gp_exception :: "'e option"
  gp_point :: "('v, 'e) gen_body option"

type_synonym ('v, 'e) gframes = "nat \<rightharpoonup> ('v, 'e) GeneratorPromise"

type_synonym generator = "nat option"

record gen_iterator =
  it_handle :: "nat option"
  it_value_ptr :: "nat option"

datatype gen_error = Gen_bad_handle | Gen_resumed_done | Gen_null_value

datatype ('v, 'e) gen_result = Gen_ub gen_error | Gen_raised 'e | Gen_ok 'v

definition yield_value :: "'v \<Rightarrow> ('v, 'e) GeneratorPromise \<Rightarrow> ('v, 'e) GeneratorPromise" where
  "yield_value v p = p\<lparr>gp_current_value := v\<rparr>"

definition gen_unhandled_exception :: "'e \<Rightarrow> ('v, 'e) GeneratorPromise \<Rightarrow> ('v, 'e) GeneratorPromise" where
  "gen_unhandled_exception e p = p\<lparr>gp_exception := Some e\<rparr>"

text \<open>A call of a generator coroutine, suspended at its start; \<open>v0\<close> is what \<open>current_value\<close> holds at first.\<close>

definition Generator_call :: "('v, 'e) gframes \<Rightarrow> nat \<Rightarrow> 'v \<Rightarrow> ('v, 'e) gen_body \<Rightarrow> ('v, 'e) gframes \<times> generator" where
  "Generator_call fr h v0 b = (fr(h \<mapsto> \<lparr>gp_current_value = v0, gp_exception = None, gp_point = Some b\<rparr>), Some h)"

text \<open>\<open>resume\<close> runs the body to its next suspension: a yield, or the final suspension point (\<open>None\<close>).\<close>

definition gen_run :: "('v, 'e) gen_body \<Rightarrow> ('v, 'e) GeneratorPromise \<Rightarrow> ('v, 'e) GeneratorPromise" where
  "gen_run b p =
     (case b of
        Co_yield v b' \<Rightarrow> (yield_value v p)\<lparr>gp_point := Some b'\<rparr>
      | Gen_return \<Rightarrow> p\<lparr>gp_point := None\<rparr>
      | Gen_throw e \<Rightarrow> (gen_unhandled_exception e p)\<lparr>gp_point := None\<rparr>)"

definition gen_resume :: "('v, 'e) gframes \<Rightarrow> nat \<Rightarrow> gen_error + ('v, 'e) gframes" where
  "gen_resume fr h =
     (case fr h of
        None \<Rightarrow> Inl Gen_bad_handle
      | Some p \<Rightarrow> (case gp_point p of None \<Rightarrow> Inl Gen_resumed_done | Some b \<Rightarrow> Inr (fr(h \<mapsto> gen_run b p))))"

definition gen_done :: "('v, 'e) gframes \<Rightarrow> nat \<Rightarrow> bool" where
  "gen_done fr h \<longleftrightarrow> (case fr h of None \<Rightarrow> False | Some p \<Rightarrow> gp_point p = None)"

section \<open>Operations\<close>

definition Generator_end :: gen_iterator where
  "Generator_end = \<lparr>it_handle = None, it_value_ptr = None\<rparr>"

definition Generator_begin :: "('v, 'e) gframes \<Rightarrow> generator \<Rightarrow> (gen_iterator, 'e) gen_result \<times> ('v, 'e) gframes" where
  "Generator_begin fr g =
     (case g of
        None \<Rightarrow> (Gen_ok Generator_end, fr)
      | Some h \<Rightarrow>
          (case gen_resume fr h of
             Inl err \<Rightarrow> (Gen_ub err, fr)
           | Inr fr' \<Rightarrow>
               if gen_done fr' h then (Gen_ok Generator_end, fr')
               else (case Option.bind (fr' h) gp_exception of
                       Some e \<Rightarrow> (Gen_raised e, fr')
                     | None \<Rightarrow> (Gen_ok \<lparr>it_handle = Some h, it_value_ptr = Some h\<rparr>, fr'))))"

definition Generator_empty :: "generator \<Rightarrow> bool" where
  "Generator_empty g \<longleftrightarrow> g = None"

definition Iterator_deref :: "('v, 'e) gframes \<Rightarrow> gen_iterator \<Rightarrow> gen_error + 'v" where
  "Iterator_deref fr it =
     (case it_value_ptr it of
        None \<Rightarrow> Inl Gen_null_value
      | Some h \<Rightarrow> (case fr h of None \<Rightarrow> Inl Gen_bad_handle | Some p \<Rightarrow> Inr (gp_current_value p)))"

definition Iterator_next :: "('v, 'e) gframes \<Rightarrow> gen_iterator \<Rightarrow> gen_error + gen_iterator \<times> ('v, 'e) gframes" where
  "Iterator_next fr it =
     (case it_handle it of
        None \<Rightarrow> Inl Gen_bad_handle
      | Some h \<Rightarrow>
          (case gen_resume fr h of
             Inl err \<Rightarrow> Inl err
           | Inr fr' \<Rightarrow>
               Inr (if gen_done fr' h then it\<lparr>it_handle := None, it_value_ptr := None\<rparr> else it, fr')))"

definition Iterator_eq :: "gen_iterator \<Rightarrow> gen_iterator \<Rightarrow> bool" where
  "Iterator_eq a b \<longleftrightarrow> it_handle a = it_handle b"

definition Generator_move :: "generator \<Rightarrow> generator \<times> generator" where
  "Generator_move other = (other, None)"

definition Generator_dtor :: "('v, 'e) gframes \<Rightarrow> generator \<Rightarrow> ('v, 'e) gframes" where
  "Generator_dtor fr g = (case g of None \<Rightarrow> fr | Some h \<Rightarrow> fr(h := None))"

definition Generator_move_assign ::
  "('v, 'e) gframes \<Rightarrow> bool \<Rightarrow> generator \<Rightarrow> generator \<Rightarrow> ('v, 'e) gframes \<times> generator \<times> generator" where
  "Generator_move_assign fr same this other = (if same then (fr, this, other) else (Generator_dtor fr this, other, None))"

text \<open>
  A range-based \<open>for\<close> that is left by \<open>break\<close> once it has seen \<open>n\<close> values: the values, whether the loop ended by itself, and
  the frames.
\<close>

fun for_loop :: "nat \<Rightarrow> ('v, 'e) gframes \<Rightarrow> gen_iterator \<Rightarrow> 'v list \<Rightarrow> gen_error + 'v list \<times> bool \<times> ('v, 'e) gframes" where
  "for_loop n fr it vs =
     (if Iterator_eq it Generator_end then Inr (vs, True, fr)
      else case Iterator_deref fr it of
             Inl err \<Rightarrow> Inl err
           | Inr v \<Rightarrow>
               (case n of
                  0 \<Rightarrow> Inr (vs, False, fr)
                | Suc 0 \<Rightarrow> Inr (vs @ [v], False, fr)
                | Suc n' \<Rightarrow>
                    (case Iterator_next fr it of
                       Inl err \<Rightarrow> Inl err
                     | Inr (it', fr') \<Rightarrow> for_loop n' fr' it' (vs @ [v]))))"

declare for_loop.simps [simp del]

definition range_for :: "nat \<Rightarrow> ('v, 'e) gframes \<Rightarrow> generator \<Rightarrow> ('v list \<times> bool \<times> ('v, 'e) gframes, 'e) gen_result" where
  "range_for n fr g =
     (case Generator_begin fr g of
        (Gen_ub err, _) \<Rightarrow> Gen_ub err
      | (Gen_raised e, _) \<Rightarrow> Gen_raised e
      | (Gen_ok it, fr') \<Rightarrow> (case for_loop n fr' it [] of Inl err \<Rightarrow> Gen_ub err | Inr r \<Rightarrow> Gen_ok r))"

section \<open>The values of a body\<close>

text \<open>The first \<open>n\<close> values a body yields, and the body that is left behind them.\<close>

fun gen_take :: "nat \<Rightarrow> ('v, 'e) gen_body \<Rightarrow> 'v list" where
  "gen_take 0 b = []"
| "gen_take (Suc n) b = (case b of Co_yield v b' \<Rightarrow> v # gen_take n b' | _ \<Rightarrow> [])"

fun gen_drop :: "nat \<Rightarrow> ('v, 'e) gen_body \<Rightarrow> ('v, 'e) gen_body" where
  "gen_drop 0 b = b"
| "gen_drop (Suc n) b = (case b of Co_yield v b' \<Rightarrow> gen_drop n b' | _ \<Rightarrow> b)"

lemma for_loop_end: "for_loop n fr Generator_end vs = Inr (vs, True, fr)"
  by (simp add: for_loop.simps Iterator_eq_def Generator_end_def)

text \<open>The loop at an iterator that stands on a value: \<open>b\<close> is what the frame still has to do.\<close>

definition at_value :: "('v, 'e) gframes \<Rightarrow> nat \<Rightarrow> 'v \<Rightarrow> ('v, 'e) gen_body \<Rightarrow> bool" where
  "at_value fr h v b \<longleftrightarrow> fr h = Some \<lparr>gp_current_value = v, gp_exception = None, gp_point = Some b\<rparr>"

definition gen_iter :: "nat \<Rightarrow> gen_iterator" where
  "gen_iter h = \<lparr>it_handle = Some h, it_value_ptr = Some h\<rparr>"

lemma next_yield:
  assumes "at_value fr h v (Co_yield w b)"
  shows "\<exists>fr'. Iterator_next fr (gen_iter h) = Inr (gen_iter h, fr') \<and> at_value fr' h w b"
  using assms
  by (simp add: Iterator_next_def gen_iter_def at_value_def gen_resume_def gen_run_def yield_value_def gen_done_def)

lemma next_final:
  assumes "at_value fr h v b" "\<not> is_yield b"
  shows "\<exists>fr'. Iterator_next fr (gen_iter h) = Inr (Generator_end, fr') \<and> gen_done fr' h"
  using assms
  by (cases b) (simp_all add: Iterator_next_def gen_iter_def at_value_def gen_resume_def gen_run_def gen_unhandled_exception_def gen_done_def
      Generator_end_def)

lemma for_loop_step:
  "for_loop (Suc n) fr (gen_iter h) vs =
     (case Iterator_deref fr (gen_iter h) of
        Inl err \<Rightarrow> Inl err
      | Inr v \<Rightarrow> if n = 0 then Inr (vs @ [v], False, fr)
          else (case Iterator_next fr (gen_iter h) of Inl err \<Rightarrow> Inl err | Inr (it', fr') \<Rightarrow> for_loop n fr' it' (vs @ [v])))"
  by (subst for_loop.simps) (auto simp: Iterator_eq_def gen_iter_def Generator_end_def split: sum.split nat.split)

lemma for_loop_values:
  "at_value fr h v b \<Longrightarrow>
   \<exists>fr'. for_loop (Suc n) fr (gen_iter h) vs = Inr (vs @ v # gen_take n b, length (gen_take n b) < n, fr') \<and>
     (if length (gen_take n b) < n then gen_done fr' h else map_option gp_point (fr' h) = Some (Some (gen_drop n b)))"
proof (induction n arbitrary: fr v b vs)
  case 0
  then have "Iterator_deref fr (gen_iter h) = Inr v" by (simp add: Iterator_deref_def gen_iter_def at_value_def)
  with 0 show ?case by (simp add: for_loop_step at_value_def)
next
  case (Suc n)
  have d: "Iterator_deref fr (gen_iter h) = Inr v" using Suc.prems by (simp add: Iterator_deref_def gen_iter_def at_value_def)
  show ?case
  proof (cases "is_yield b")
    case True
    then obtain w b' where b: "b = Co_yield w b'" by (cases b) auto
    with Suc.prems next_yield obtain fr' where "Iterator_next fr (gen_iter h) = Inr (gen_iter h, fr')" "at_value fr' h w b'" by metis
    with Suc.IH [of fr' w b' "vs @ [v]"] d b show ?thesis by (auto simp add: for_loop_step [of "Suc n"] split: if_splits)
  next
    case False
    with Suc.prems next_final obtain fr' where "Iterator_next fr (gen_iter h) = Inr (Generator_end, fr')" "gen_done fr' h" by metis
    moreover have "gen_take (Suc n) b = []" using False by (cases b) auto
    ultimately show ?thesis using d by (simp add: for_loop_step [of "Suc n"] for_loop_end)
  qed
qed

lemma range_for_values:
  fixes b :: "('v, 'e) gen_body"
  assumes "Generator_call fr h v0 b = (fr0, g)"
  shows "\<exists>fr'. range_for (Suc n) fr0 g = Gen_ok (gen_take (Suc n) b, length (gen_take (Suc n) b) < Suc n, fr') \<and>
    (if length (gen_take (Suc n) b) < Suc n then gen_done fr' h
     else map_option gp_point (fr' h) = Some (Some (gen_drop (Suc n) b)))"
proof (cases b)
  case (Co_yield v b')
  let ?fr = "fr(h \<mapsto> \<lparr>gp_current_value = v, gp_exception = None, gp_point = Some b'\<rparr>)"
  have "Generator_begin fr0 g = (Gen_ok (gen_iter h) :: (gen_iterator, 'e) gen_result, ?fr)" using assms Co_yield
    by (auto simp: Generator_call_def Generator_begin_def gen_resume_def gen_run_def yield_value_def gen_done_def gen_iter_def)
  moreover have "at_value ?fr h v b'" by (simp add: at_value_def)
  from for_loop_values [OF this, of n "[]"] obtain fr' where
    "for_loop (Suc n) ?fr (gen_iter h) [] = Inr (v # gen_take n b', length (gen_take n b') < n, fr')"
    "if length (gen_take n b') < n then gen_done fr' h else map_option gp_point (fr' h) = Some (Some (gen_drop n b'))" by auto
  ultimately show ?thesis using Co_yield by (simp add: range_for_def)
qed (use assms in \<open>auto simp: Generator_call_def range_for_def Generator_begin_def gen_resume_def gen_run_def gen_unhandled_exception_def
  gen_done_def for_loop_end\<close>)

text \<open>
  C27. A loop over a new generator sees the values its body yields, in order and each once: all of them when there are
  fewer than \<open>n\<close>, and the loop then ends by itself; else the first \<open>n\<close>, and the body has been run no further
  than its \<open>n\<close>-th yield. This holds for bodies that yield for ever as well.
\<close>

theorem range_for_yields:
  fixes b :: "('v, 'e) gen_body"
  assumes "Generator_call fr h v0 b = (fr0, g)"
  shows "\<exists>fr'. range_for (Suc n) fr0 g = Gen_ok (gen_take (Suc n) b, length (gen_take (Suc n) b) < Suc n, fr') \<and>
    (if length (gen_take (Suc n) b) < Suc n then gen_done fr' h
     else map_option gp_point (fr' h) = Some (Some (gen_drop (Suc n) b)))"
  using assms by (rule range_for_values)

primcorec count_from :: "int \<Rightarrow> (int, string) gen_body" where
  "count_from i = Co_yield i (count_from (i + 1))"

theorem range_for_yields_witness:
  "\<exists>fr'. range_for 3 [0 \<mapsto> \<lparr>gp_current_value = 0, gp_exception = None, gp_point = Some (count_from 7)\<rparr>] (Some 0) =
     Gen_ok ([7, 8, 9], False, fr')"
proof -
  have c: "count_from i = Co_yield i (count_from (i + 1))" for i by (rule count_from.code)
  have "gen_take 3 (count_from 7) = [7, 8, 9]"
    by (simp add: numeral_3_eq_3 c [of 7] c [of 8] c [of 9])
  then show ?thesis
    using range_for_yields [of Map.empty 0 0 "count_from 7" _ _ 2] by (simp add: Generator_call_def numeral_3_eq_3) blast
qed

text \<open>
  An exception that leaves the body is lost: the loop ends as if the body had returned, whether it was thrown before the
  first value or behind the last. A second loop over a generator that has ended resumes a finished coroutine.
\<close>

fun gen_of_list :: "'v list \<Rightarrow> ('v, 'e) gen_body \<Rightarrow> ('v, 'e) gen_body" where
  "gen_of_list [] b = b"
| "gen_of_list (v # vs) b = Co_yield v (gen_of_list vs b)"

lemma gen_take_list: "\<not> is_yield b \<Longrightarrow> gen_take (Suc (length vs)) (gen_of_list vs b) = vs"
  by (induction vs) (auto split: gen_body.splits)

theorem generator_exception_lost:
  assumes "Generator_call fr h v0 (gen_of_list vs (Gen_throw e)) = (fr0, g)"
  shows "\<exists>fr'. range_for (Suc (length vs)) fr0 g = Gen_ok (vs, True, fr') \<and> Generator_begin fr' g = (Gen_ub Gen_resumed_done, fr')"
proof -
  have "gen_take (Suc (length vs)) (gen_of_list vs (Gen_throw e)) = vs" by (rule gen_take_list) simp
  with range_for_values [OF assms, of "length vs"] obtain fr' where
    r: "range_for (Suc (length vs)) fr0 g = Gen_ok (vs, True, fr')" and d: "gen_done fr' h" by auto
  have "g = Some h" using assms by (simp add: Generator_call_def)
  with d have "Generator_begin fr' g = (Gen_ub Gen_resumed_done, fr')"
    by (auto simp: Generator_begin_def gen_resume_def gen_done_def split: option.splits)
  with r show ?thesis by blast
qed

theorem generator_exception_lost_witness:
  "\<exists>fr'. range_for 3 [0 \<mapsto> \<lparr>gp_current_value = 0, gp_exception = None, gp_point = Some (gen_of_list [1, 2] (Gen_throw ''boom''))\<rparr>] (Some 0) =
     (Gen_ok ([1, 2 :: int], True, fr') :: (_, string) gen_result)"
  using generator_exception_lost [of Map.empty 0 0 "[1, 2]" "''boom''"] by (auto simp: Generator_call_def numeral_3_eq_3)

end
