(* ===== verification/Co_Awaitable.thy ===== *)
theory Co_Awaitable
  imports Rpc_Prelude "HOL-Library.While_Combinator"
begin

text \<open>
  The awaitables of \<open>coroutine/awaitable.hpp\<close>: the awaiter that another thread completes, the sleeping awaiter and the awaiter
  that polls a predicate. The accesses of the awaiting coroutine and of the completing thread to the
  \<open>AsyncAwaiter\<close> are steps of a relation, so that every interleaving of them is covered. The specialisation for \<open>void\<close> has
  its own definitions and is shown to be the instance at the unit type.
\<close>

section \<open>The asynchronous awaiter\<close>

record ('v, 'e) AsyncAwaiter =
  aw_ready :: bool
  aw_continuation :: "nat option"
  aw_result :: 'v
  aw_exception :: "'e option"

definition AsyncAwaiter_init :: "'v \<Rightarrow> ('v, 'e) AsyncAwaiter" where
  "AsyncAwaiter_init v0 = \<lparr>aw_ready = False, aw_continuation = None, aw_result = v0, aw_exception = None\<rparr>"

definition Async_await_ready :: "('v, 'e) AsyncAwaiter \<Rightarrow> bool" where
  "Async_await_ready a = aw_ready a"

definition Async_await_suspend :: "nat \<Rightarrow> ('v, 'e) AsyncAwaiter \<Rightarrow> ('v, 'e) AsyncAwaiter" where
  "Async_await_suspend handle a = a\<lparr>aw_continuation := Some handle\<rparr>"

definition Async_await_resume :: "('v, 'e) AsyncAwaiter \<Rightarrow> 'e + 'v" where
  "Async_await_resume a = (case aw_exception a of Some e \<Rightarrow> Inl e | None \<Rightarrow> Inr (aw_result a))"

text \<open>What a completing thread does: store the outcome, store the flag, then read the continuation to resume.\<close>

definition store_outcome :: "'e + 'v \<Rightarrow> ('v, 'e) AsyncAwaiter \<Rightarrow> ('v, 'e) AsyncAwaiter" where
  "store_outcome r a = (case r of Inl e \<Rightarrow> a\<lparr>aw_exception := Some e\<rparr> | Inr v \<Rightarrow> a\<lparr>aw_result := v\<rparr>)"

definition store_ready :: "('v, 'e) AsyncAwaiter \<Rightarrow> ('v, 'e) AsyncAwaiter" where
  "store_ready a = a\<lparr>aw_ready := True\<rparr>"

definition set_result :: "'v \<Rightarrow> ('v, 'e) AsyncAwaiter \<Rightarrow> ('v, 'e) AsyncAwaiter \<times> nat option" where
  "set_result value a = (let a' = store_ready (store_outcome (Inr value) a) in (a', aw_continuation a'))"

definition set_exception :: "'e \<Rightarrow> ('v, 'e) AsyncAwaiter \<Rightarrow> ('v, 'e) AsyncAwaiter \<times> nat option" where
  "set_exception e a = (let a' = store_ready (store_outcome (Inl e) a) in (a', aw_continuation a'))"

text \<open>The specialisation for \<open>void\<close>, which has no result.\<close>

record 'e AsyncAwaiter_void =
  av_ready :: bool
  av_continuation :: "nat option"
  av_exception :: "'e option"

definition AsyncAwaiter_void_init :: "'e AsyncAwaiter_void" where
  "AsyncAwaiter_void_init = \<lparr>av_ready = False, av_continuation = None, av_exception = None\<rparr>"

definition AsyncVoid_await_ready :: "'e AsyncAwaiter_void \<Rightarrow> bool" where
  "AsyncVoid_await_ready a = av_ready a"

definition AsyncVoid_await_suspend :: "nat \<Rightarrow> 'e AsyncAwaiter_void \<Rightarrow> 'e AsyncAwaiter_void" where
  "AsyncVoid_await_suspend handle a = a\<lparr>av_continuation := Some handle\<rparr>"

definition AsyncVoid_await_resume :: "'e AsyncAwaiter_void \<Rightarrow> 'e + unit" where
  "AsyncVoid_await_resume a = (case av_exception a of Some e \<Rightarrow> Inl e | None \<Rightarrow> Inr ())"

definition set_completed :: "'e AsyncAwaiter_void \<Rightarrow> 'e AsyncAwaiter_void \<times> nat option" where
  "set_completed a = (let a' = a\<lparr>av_ready := True\<rparr> in (a', av_continuation a'))"

definition set_exception_void :: "'e \<Rightarrow> 'e AsyncAwaiter_void \<Rightarrow> 'e AsyncAwaiter_void \<times> nat option" where
  "set_exception_void e a = (let a' = a\<lparr>av_exception := Some e, av_ready := True\<rparr> in (a', av_continuation a'))"

text \<open>It is the instance at the unit type: the operations commute with adding a result that carries nothing.\<close>

definition with_unit :: "'e AsyncAwaiter_void \<Rightarrow> (unit, 'e) AsyncAwaiter" where
  "with_unit a = \<lparr>aw_ready = av_ready a, aw_continuation = av_continuation a, aw_result = (), aw_exception = av_exception a\<rparr>"

lemma async_void_agrees:
  "with_unit AsyncAwaiter_void_init = AsyncAwaiter_init ()"
  "AsyncVoid_await_ready a = Async_await_ready (with_unit a)"
  "with_unit (AsyncVoid_await_suspend handle a) = Async_await_suspend handle (with_unit a)"
  "AsyncVoid_await_resume a = Async_await_resume (with_unit a)"
  "map_prod with_unit id (set_completed a) = set_result () (with_unit a)"
  "map_prod with_unit id (set_exception_void e a) = set_exception e (with_unit a)"
  by (simp_all add: with_unit_def AsyncAwaiter_void_init_def AsyncAwaiter_init_def AsyncVoid_await_ready_def Async_await_ready_def
      AsyncVoid_await_suspend_def Async_await_suspend_def AsyncVoid_await_resume_def Async_await_resume_def set_completed_def set_result_def
      set_exception_void_def set_exception_def store_ready_def store_outcome_def split: option.split)

section \<open>Interleavings\<close>

text \<open>The awaiting coroutine and the completing thread, each with the next thing it does.\<close>

datatype ('v, 'e) consumer = C_start | C_not_ready | C_suspended | C_resumed "'e + 'v"

datatype producer = P_start | P_stored | P_ready | P_done

record ('v, 'e) await_run =
  ar_awaiter :: "('v, 'e) AsyncAwaiter"
  ar_consumer :: "('v, 'e) consumer"
  ar_producer :: producer

definition ar_start :: "'v \<Rightarrow> ('v, 'e) await_run" where
  "ar_start v0 = \<lparr>ar_awaiter = AsyncAwaiter_init v0, ar_consumer = C_start, ar_producer = P_start\<rparr>"

inductive await_step :: "nat \<Rightarrow> 'e + 'v \<Rightarrow> ('v, 'e) await_run \<Rightarrow> ('v, 'e) await_run \<Rightarrow> bool" for h r where
  as_check: "ar_consumer s = C_start \<Longrightarrow>
    await_step h r s (s\<lparr>ar_consumer := (if Async_await_ready (ar_awaiter s) then C_resumed (Async_await_resume (ar_awaiter s)) else C_not_ready)\<rparr>)"
| as_suspend: "ar_consumer s = C_not_ready \<Longrightarrow>
    await_step h r s (s\<lparr>ar_consumer := C_suspended, ar_awaiter := Async_await_suspend h (ar_awaiter s)\<rparr>)"
| as_outcome: "ar_producer s = P_start \<Longrightarrow> await_step h r s (s\<lparr>ar_producer := P_stored, ar_awaiter := store_outcome r (ar_awaiter s)\<rparr>)"
| as_flag: "ar_producer s = P_stored \<Longrightarrow> await_step h r s (s\<lparr>ar_producer := P_ready, ar_awaiter := store_ready (ar_awaiter s)\<rparr>)"
| as_wake: "ar_producer s = P_ready \<Longrightarrow> aw_continuation (ar_awaiter s) = Some h \<Longrightarrow>
    await_step h r s (s\<lparr>ar_producer := P_done, ar_consumer := C_resumed (Async_await_resume (ar_awaiter s))\<rparr>)"
| as_no_wake: "ar_producer s = P_ready \<Longrightarrow> aw_continuation (ar_awaiter s) = None \<Longrightarrow> await_step h r s (s\<lparr>ar_producer := P_done\<rparr>)"

inductive_cases await_stepE: "await_step h r s s'"

inductive await_reach :: "nat \<Rightarrow> 'e + 'v \<Rightarrow> 'v \<Rightarrow> ('v, 'e) await_run \<Rightarrow> bool" for h r v0 where
  ar_init: "await_reach h r v0 (ar_start v0)"
| ar_step: "await_reach h r v0 s \<Longrightarrow> await_step h r s s' \<Longrightarrow> await_reach h r v0 s'"

text \<open>
  The invariant: once the flag is up the outcome is in place, a continuation is that of the suspended coroutine, and a
  coroutine that was resumed got the outcome.
\<close>

definition await_inv :: "nat \<Rightarrow> 'e + 'v \<Rightarrow> ('v, 'e) await_run \<Rightarrow> bool" where
  "await_inv h r s \<longleftrightarrow>
     (case ar_producer s of
        P_start \<Rightarrow> aw_exception (ar_awaiter s) = None \<and> \<not> aw_ready (ar_awaiter s)
      | P_stored \<Rightarrow> Async_await_resume (ar_awaiter s) = r \<and> \<not> aw_ready (ar_awaiter s)
      | _ \<Rightarrow> Async_await_resume (ar_awaiter s) = r \<and> aw_ready (ar_awaiter s)) \<and>
     (case ar_consumer s of C_resumed r' \<Rightarrow> r' = r \<and> aw_ready (ar_awaiter s) \<and> (ar_producer s = P_done \<or> aw_continuation (ar_awaiter s) = None)
        | C_suspended \<Rightarrow> aw_continuation (ar_awaiter s) = Some h
        | _ \<Rightarrow> aw_continuation (ar_awaiter s) = None)"

lemma await_inv_start: "await_inv h r (ar_start v0)"
  by (simp add: await_inv_def ar_start_def AsyncAwaiter_init_def)

lemma await_resume_upd [simp]:
  "Async_await_resume (a\<lparr>aw_continuation := c\<rparr>) = Async_await_resume a" "Async_await_resume (a\<lparr>aw_ready := b\<rparr>) = Async_await_resume a"
  by (cases "aw_exception a"; simp add: Async_await_resume_def)+

lemma await_inv_step: "await_step h r s s' \<Longrightarrow> await_inv h r s \<Longrightarrow> await_inv h r s'"
proof (induction rule: await_step.induct)
  case (as_check s)
  then show ?case by (cases "ar_producer s") (simp_all add: await_inv_def Async_await_ready_def)
next
  case (as_suspend s)
  then show ?case by (cases "ar_producer s") (simp_all add: await_inv_def Async_await_suspend_def)
next
  case (as_outcome s)
  then show ?case
    by (cases "ar_consumer s"; cases r) (simp_all add: await_inv_def store_outcome_def Async_await_resume_def)
next
  case (as_flag s)
  then show ?case by (cases "ar_consumer s") (simp_all add: await_inv_def store_ready_def)
next
  case (as_wake s)
  then show ?case by (simp add: await_inv_def)
next
  case (as_no_wake s)
  then show ?case by (cases "ar_consumer s"; cases "ar_producer s") (simp_all add: await_inv_def)
qed

lemma await_reach_inv: "await_reach h r v0 s \<Longrightarrow> await_inv h r s"
  by (induction rule: await_reach.induct) (auto intro: await_inv_start await_inv_step)


lemma await_path_ex:
  "await_reach 3 (Inr 42 :: string + int) 0
     \<lparr>ar_awaiter = \<lparr>aw_ready = True, aw_continuation = Some 3, aw_result = 42, aw_exception = None\<rparr>, ar_consumer = C_suspended, ar_producer = P_ready\<rparr>"
proof -
  let ?a = "\<lambda>rd c v. \<lparr>aw_ready = rd, aw_continuation = c, aw_result = v, aw_exception = None\<rparr> :: (int, string) AsyncAwaiter"
  let ?s = "\<lambda>a c p. \<lparr>ar_awaiter = a, ar_consumer = c, ar_producer = p\<rparr> :: (int, string) await_run"
  let ?r = "Inr 42 :: string + int"
  have 0: "await_reach 3 ?r 0 (?s (?a False None 0) C_start P_start)"
    using ar_init [of 3 ?r 0] by (simp add: ar_start_def AsyncAwaiter_init_def)
  have 1: "await_reach 3 ?r 0 (?s (?a False None 0) C_not_ready P_start)"
    using ar_step [OF 0 as_check] by (simp add: Async_await_ready_def)
  have 2: "await_reach 3 ?r 0 (?s (?a False (Some 3) 0) C_suspended P_start)"
    using ar_step [OF 1 as_suspend] by (simp add: Async_await_suspend_def)
  have 3: "await_reach 3 ?r 0 (?s (?a False (Some 3) 42) C_suspended P_stored)"
    using ar_step [OF 2 as_outcome] by (simp add: store_outcome_def)
  show ?thesis using ar_step [OF 3 as_flag] by (simp add: store_ready_def)
qed


definition await_stuck :: "nat \<Rightarrow> 'e + 'v \<Rightarrow> ('v, 'e) await_run \<Rightarrow> bool" where
  "await_stuck h r s \<longleftrightarrow> ar_consumer s = C_suspended \<and> ar_producer s = P_done \<and> aw_ready (ar_awaiter s) \<and> (\<forall>s'. \<not> await_step h r s s')"

text \<open>
  The check and the suspension are two steps, and the completing thread does not lock them out: for every outcome there is
  a run at whose end the awaiter is complete, the thread has finished, and the coroutine is suspended for ever.
\<close>

theorem awaiter_lost_wakeup: "\<exists>s. await_reach h r v0 s \<and> await_stuck h r s"
proof -
  let ?s = "\<lambda>a c p. \<lparr>ar_awaiter = a, ar_consumer = c, ar_producer = p\<rparr> :: ('a, 'b) await_run"
  let ?a0 = "AsyncAwaiter_init v0 :: ('a, 'b) AsyncAwaiter"
  let ?a1 = "store_outcome r ?a0"
  let ?a2 = "store_ready ?a1"
  let ?a3 = "Async_await_suspend h ?a2"
  have n: "aw_continuation ?a2 = None" by (simp add: store_ready_def store_outcome_def AsyncAwaiter_init_def split: sum.split)
  have 0: "await_reach h r v0 (?s ?a0 C_start P_start)" using ar_init [of h r v0] by (simp add: ar_start_def)
  have 1: "await_reach h r v0 (?s ?a0 C_not_ready P_start)"
    using ar_step [OF 0 as_check] by (simp add: Async_await_ready_def AsyncAwaiter_init_def)
  have 2: "await_reach h r v0 (?s ?a1 C_not_ready P_stored)" using ar_step [OF 1 as_outcome] by simp
  have 3: "await_reach h r v0 (?s ?a2 C_not_ready P_ready)" using ar_step [OF 2 as_flag] by simp
  have 4: "await_reach h r v0 (?s ?a2 C_not_ready P_done)" using ar_step [OF 3 as_no_wake] n by simp
  have "await_reach h r v0 (?s ?a3 C_suspended P_done)" using ar_step [OF 4 as_suspend] by simp
  moreover have "await_stuck h r (?s ?a3 C_suspended P_done)"
    by (auto simp: await_stuck_def store_ready_def Async_await_suspend_def elim: await_stepE)
  ultimately show ?thesis by blast
qed

section \<open>Sleeping\<close>

text \<open>A sleeping awaiter has a duration in milliseconds; a detached thread is the time at which it wakes and what it resumes.\<close>

type_synonym sleeper = "int \<times> nat"

definition Sleep_await_ready :: "int \<Rightarrow> bool" where
  "Sleep_await_ready duration \<longleftrightarrow> duration = 0"

definition Sleep_await_suspend :: "int \<Rightarrow> int \<Rightarrow> nat \<Rightarrow> sleeper list \<Rightarrow> sleeper list" where
  "Sleep_await_suspend duration now handle threads = threads @ [(now + max 0 duration, handle)]"

definition sleep_for :: "int \<Rightarrow> int \<Rightarrow> nat \<Rightarrow> sleeper list \<Rightarrow> bool \<times> sleeper list" where
  "sleep_for milliseconds now handle threads =
     (if Sleep_await_ready milliseconds then (True, threads) else (False, Sleep_await_suspend milliseconds now handle threads))"

section \<open>Polling a predicate\<close>

text \<open>
  The predicate may give another answer each time it is called: it is a function of the number of the call. \<open>wait_until\<close> is the number of the call
  after which the coroutine goes on, \<open>None\<close> when it never does.
\<close>

definition WaitUntil_await_ready :: "(nat \<Rightarrow> bool) \<Rightarrow> nat \<Rightarrow> bool" where
  "WaitUntil_await_ready predicate i = predicate i"

definition WaitUntil_await_suspend :: "(nat \<Rightarrow> bool) \<Rightarrow> nat \<Rightarrow> nat option" where
  "WaitUntil_await_suspend predicate i = while_option (\<lambda>k. \<not> predicate k) Suc i"

definition wait_until :: "(nat \<Rightarrow> bool) \<Rightarrow> nat \<Rightarrow> nat option" where
  "wait_until predicate i =
     (if WaitUntil_await_ready predicate i then Some i else WaitUntil_await_suspend predicate (Suc i))"

lemma poll_first:
  "while_option (\<lambda>k. \<not> p k) Suc i = Some j \<longleftrightarrow> i \<le> j \<and> p j \<and> (\<forall>k. i \<le> k \<and> k < j \<longrightarrow> \<not> p k)"
proof
  assume w: "while_option (\<lambda>k. \<not> p k) Suc i = Some j"
  have "i \<le> j \<and> (\<forall>k. i \<le> k \<and> k < j \<longrightarrow> \<not> p k)"
    by (rule while_option_rule [OF _ w, of "\<lambda>m. i \<le> m \<and> (\<forall>k. i \<le> k \<and> k < m \<longrightarrow> \<not> p k)"]) (auto simp: less_Suc_eq)
  with while_option_stop [OF w] show "i \<le> j \<and> p j \<and> (\<forall>k. i \<le> k \<and> k < j \<longrightarrow> \<not> p k)" by simp
next
  assume a: "i \<le> j \<and> p j \<and> (\<forall>k. i \<le> k \<and> k < j \<longrightarrow> \<not> p k)"
  then show "while_option (\<lambda>k. \<not> p k) Suc i = Some j"
  proof (induction "j - i" arbitrary: i)
    case 0
    then show ?case by (simp add: while_option_unfold)
  next
    case (Suc n)
    then have "\<not> p i" by simp
    moreover have "while_option (\<lambda>k. \<not> p k) Suc (Suc i) = Some j" using Suc by (intro Suc.hyps(1)) auto
    ultimately show ?case by (subst while_option_unfold) simp
  qed
qed

text \<open>
  Waiting for a predicate ends after the first call that answers true, and after no other; it ends if there is such a
  call.
\<close>

theorem wait_until_first:
  "(wait_until predicate i = Some j) = (i \<le> j \<and> predicate j \<and> (\<forall>k. i \<le> k \<and> k < j \<longrightarrow> \<not> predicate k)) \<and>
   (wait_until predicate i = None) = (\<nexists>k. i \<le> k \<and> predicate k)"
proof -
  have w: "wait_until predicate i = while_option (\<lambda>k. \<not> predicate k) Suc i"
    by (subst while_option_unfold) (simp add: wait_until_def WaitUntil_await_ready_def WaitUntil_await_suspend_def)
  have "\<exists>j. while_option (\<lambda>k. \<not> predicate k) Suc i = Some j" if "i \<le> k" "predicate k" for k
  proof -
    let ?P = "\<lambda>k. i \<le> k \<and> predicate k"
    have "?P (LEAST k. ?P k)" using that LeastI [of ?P k] by simp
    moreover have "\<not> ?P m" if "m < (LEAST k. ?P k)" for m using that by (rule not_less_Least)
    ultimately show ?thesis using poll_first [of predicate i "LEAST k. ?P k"] by blast
  qed
  then show ?thesis unfolding w poll_first using poll_first [of predicate i] by (metis option.exhaust option.distinct(1))
qed

theorem wait_until_first_witness: "wait_until (\<lambda>k. 5 < k) 2 = Some 6"
  using wait_until_first [of "\<lambda>k. 5 < k" 2 6] by auto

end
