(* ===== verification/Co_Runtime.thy ===== *)
theory Co_Runtime
  imports Co_Task Co_Scheduler
begin

text \<open>
  Coroutines on the scheduler: the awaiters of \<open>coroutine/scheduler.hpp\<close> that put the awaiting coroutine into a queue, and the
  worker that takes handles out of the queues and resumes them, on the frames of the tasks. What the worker
  relies on of the queues is stated as a locale, which the scheduler interprets.
\<close>

section \<open>Awaiters and workers\<close>

definition ScheduleOn_await_suspend :: "handle Scheduler \<Rightarrow> handle \<Rightarrow> int \<Rightarrow> handle Scheduler" where
  "ScheduleOn_await_suspend s handle thread_id = schedule s handle thread_id"

definition yield_await_suspend :: "handle Scheduler \<Rightarrow> handle \<Rightarrow> handle Scheduler" where
  "yield_await_suspend s handle = schedule s handle (- 1)"

text \<open>
  One round of a worker: it takes a handle and resumes it; when the coroutine awaits \<open>schedule_on\<close>, its awaiter puts it back,
  for the thread \<open>target h\<close> that it names. A round that finds no handle changes nothing.
\<close>

definition suspended :: "('v, 'e) frames \<Rightarrow> handle \<Rightarrow> bool" where
  "suspended st h \<longleftrightarrow> (case st h of Some p \<Rightarrow> (case tp_point p of At_body _ \<Rightarrow> True | _ \<Rightarrow> False) | None \<Rightarrow> False)"

definition queue_round :: "('s \<Rightarrow> handle \<Rightarrow> int \<Rightarrow> 's) \<Rightarrow> ('s \<Rightarrow> nat \<Rightarrow> (handle \<times> 's) option) \<Rightarrow> (handle \<Rightarrow> int) \<Rightarrow> nat \<Rightarrow>
    's \<times> ('v, 'e) frames \<Rightarrow> (co_error + 's \<times> ('v, 'e) frames) option" where
  "queue_round put take_next target tid c =
     (case take_next (fst c) tid of
        None \<Rightarrow> Some (Inr c)
      | Some (h, s) \<Rightarrow>
          (case exec (snd c) (Resume h) of
             None \<Rightarrow> None
           | Some (Inl err) \<Rightarrow> Some (Inl err)
           | Some (Inr st) \<Rightarrow> Some (Inr (if suspended st h then put s h (target h) else s, st))))"

definition worker_round :: "(handle \<Rightarrow> int) \<Rightarrow> nat \<Rightarrow> handle Scheduler \<times> ('v, 'e) frames \<Rightarrow>
    (co_error + handle Scheduler \<times> ('v, 'e) frames) option" where
  "worker_round = queue_round ScheduleOn_await_suspend worker_take"

fun rounds :: "(nat \<Rightarrow> 'c \<Rightarrow> ('e + 'c) option) \<Rightarrow> nat list \<Rightarrow> 'c \<Rightarrow> ('e + 'c) option" where
  "rounds r [] c = Some (Inr c)"
| "rounds r (tid # tids) c =
     (case r tid c of None \<Rightarrow> None | Some (Inl err) \<Rightarrow> Some (Inl err) | Some (Inr c') \<Rightarrow> rounds r tids c')"

section \<open>Bodies that only reschedule themselves\<close>

primrec straight :: "bool \<Rightarrow> ('v, 'e) body \<Rightarrow> bool" where
  "straight is_void (Co_return v) = (\<not> is_void)"
| "straight is_void Co_return_void = is_void"
| "straight is_void (Co_throw e) = True"
| "straight is_void (Co_suspend b) = straight is_void b"
| "straight is_void (Co_await t k) = False"

primrec suspensions :: "('v, 'e) body \<Rightarrow> nat" where
  "suspensions (Co_return v) = 0"
| "suspensions Co_return_void = 0"
| "suspensions (Co_throw e) = 0"
| "suspensions (Co_suspend b) = Suc (suspensions b)"
| "suspensions (Co_await t k) = 0"

definition body_outcome :: "('v, 'e) body \<Rightarrow> ('v, 'e) outcome" where
  "body_outcome b = denot_body (\<lambda>_. Inr None) b"

text \<open>A frame that waits in a queue, and its share of the work that is left.\<close>

definition frame_ready :: "('v, 'e) outcome \<Rightarrow> nat \<Rightarrow> ('v, 'e) TaskPromise \<Rightarrow> bool" where
  "frame_ready r n p \<longleftrightarrow> tp_result p = None \<and> tp_exception p = None \<and> tp_continuation p = None \<and>
     (\<exists>b. tp_point p = At_body b \<and> straight (tp_void p) b \<and> body_outcome b = r \<and> suspensions b = n)"

lemma resume_ready:
  assumes "st h = Some p" "frame_ready r n p"
  shows "\<exists>p'. exec st (Resume h) = Some (Inr (st(h \<mapsto> p'))) \<and>
    (case n of 0 \<Rightarrow> task_done r p' \<and> tp_point p' = At_final | Suc m \<Rightarrow> frame_ready r m p')"
proof -
  obtain b where b: "tp_point p = At_body b" "straight (tp_void p) b" "body_outcome b = r" "suspensions b = n"
    and p: "tp_result p = None" "tp_exception p = None" "tp_continuation p = None"
    using assms(2) unfolding frame_ready_def by blast
  let ?st = "st(h \<mapsto> p\<lparr>tp_point := Executing\<rparr>)"
  have e: "exec st (Resume h) = exec ?st (Run h b)"
    using assms(1) b(1) by (simp add: exec_step step_job.simps step_resume.simps set_point_def)
  have ends: ?thesis if "step_job ?st (Run h b) = finish ?st h q" "tp_continuation q = None" "suspensions b = 0"
      "task_done r (q\<lparr>tp_state := CS_Completed, tp_point := At_final\<rparr>)" for q
    unfolding e exec_finish [OF that(1)] using that(2-4) b(4)
    by (intro exI [of _ "q\<lparr>tp_state := CS_Completed, tp_point := At_final\<rparr>"]) (simp add: control_returns_def)
  show ?thesis
  proof (cases b)
    case (Co_suspend b')
    then have "exec ?st (Run h b) = Some (Inr (st(h \<mapsto> p\<lparr>tp_point := At_body b'\<rparr>)))"
      by (simp add: exec_step step_job.simps set_point_def)
    with e b p Co_suspend show ?thesis
      by (intro exI [of _ "p\<lparr>tp_point := At_body b'\<rparr>"]) (auto simp: frame_ready_def body_outcome_def)
  next
    case (Co_return v)
    then have "step_job ?st (Run h b) = finish ?st h (return_value v (p\<lparr>tp_point := Executing\<rparr>))" using b(2) by (simp add: step_job.simps)
    from ends [OF this] Co_return b p show ?thesis by (simp add: return_value_def task_done_def Task_await_resume_eq body_outcome_def)
  next
    case Co_return_void
    then have "step_job ?st (Run h b) = finish ?st h (p\<lparr>tp_point := Executing\<rparr>)" using b(2) by (simp add: step_job.simps)
    from ends [OF this] Co_return_void b p show ?thesis by (simp add: task_done_def Task_await_resume_eq body_outcome_def)
  next
    case (Co_throw x)
    then have "step_job ?st (Run h b) = finish ?st h (unhandled_exception x (p\<lparr>tp_point := Executing\<rparr>))" by (simp add: step_job.simps)
    from ends [OF this] Co_throw b p show ?thesis by (simp add: unhandled_exception_def task_done_def Task_await_resume_eq body_outcome_def)
  next
    case (Co_await t k)
    with b(2) show ?thesis by simp
  qed
qed

section \<open>The interface of the queues\<close>

locale ready_queue =
  fixes put :: "'s \<Rightarrow> handle \<Rightarrow> int \<Rightarrow> 's" and take_next :: "'s \<Rightarrow> nat \<Rightarrow> (handle \<times> 's) option"
    and content :: "'s \<Rightarrow> handle multiset" and ok :: "'s \<Rightarrow> bool" and workers :: "'s \<Rightarrow> nat"
  assumes put_adds: "ok s \<Longrightarrow> ok (put s h i) \<and> content (put s h i) = add_mset h (content s) \<and> workers (put s h i) = workers s"
    and take_none: "ok s \<Longrightarrow> w < workers s \<Longrightarrow> take_next s w = None \<longleftrightarrow> content s = {#}"
    and take_some: "ok s \<Longrightarrow> w < workers s \<Longrightarrow> take_next s w = Some (h, s') \<Longrightarrow>
      ok s' \<and> content s = add_mset h (content s') \<and> workers s' = workers s"
begin

text \<open>
  The handles \<open>H\<close> with their outcomes \<open>R\<close> and what is left for each to do: a handle is in a queue once, with a frame that
  is ready, or nowhere, and its task is done.
\<close>

definition running_inv :: "handle set \<Rightarrow> (handle \<Rightarrow> ('v, 'e) outcome) \<Rightarrow> (handle \<Rightarrow> nat) \<Rightarrow> 's \<times> ('v, 'e) frames \<Rightarrow> bool" where
  "running_inv H R left c \<longleftrightarrow> ok (fst c) \<and> set_mset (content (fst c)) \<subseteq> H \<and> (\<forall>h. count (content (fst c)) h \<le> 1) \<and>
     (\<forall>h \<in> H. \<exists>p. snd c h = Some p \<and> (if h \<in># content (fst c) then frame_ready (R h) (left h) p else task_done (R h) p))"

definition work :: "(handle \<Rightarrow> nat) \<Rightarrow> 's \<times> ('v, 'e) frames \<Rightarrow> nat" where
  "work left c = (\<Sum>h \<in># content (fst c). Suc (left h))"

lemma work_other: "h \<notin># content s \<Longrightarrow> (\<Sum>x \<in># content s. Suc ((left(h := n)) x)) = (\<Sum>x \<in># content s. Suc (left x))"
  by (rule arg_cong [where f = sum_mset], rule image_mset_cong) auto

lemma round_works:
  assumes "running_inv H R left c" "tid < workers (fst c)"
  shows "\<exists>c' left'. queue_round put take_next target tid c = Some (Inr c') \<and> running_inv H R left' c' \<and>
    work left' c' = work left c - 1 \<and> workers (fst c') = workers (fst c)"
proof (cases "take_next (fst c) tid")
  case None
  then have "content (fst c) = {#}" using assms take_none by (simp add: running_inv_def)
  with None assms(1) show ?thesis by (auto simp: queue_round_def work_def)
next
  case (Some hs)
  obtain s st where c: "c = (s, st)" by fastforce
  obtain h s1 where hs: "hs = (h, s1)" by fastforce
  have inv: "ok s" "set_mset (content s) \<subseteq> H" "\<And>x. count (content s) x \<le> 1"
    and fr: "\<And>x. x \<in> H \<Longrightarrow> \<exists>p. st x = Some p \<and> (if x \<in># content s then frame_ready (R x) (left x) p else task_done (R x) p)"
    using assms(1) by (auto simp: running_inv_def c)
  have s1: "ok s1" "content s = add_mset h (content s1)" "workers s1 = workers s"
    using take_some [OF inv(1)] assms(2) Some hs by (auto simp: c)
  have h: "h \<in> H" "h \<notin># content s1" using inv(2) inv(3) [of h] s1(2) by (auto simp: not_in_iff)
  obtain p where p: "st h = Some p" "frame_ready (R h) (left h) p" using fr [OF h(1)] s1(2) by auto
  obtain p' where e: "exec st (Resume h) = Some (Inr (st(h \<mapsto> p')))"
    and p': "case left h of 0 \<Rightarrow> task_done (R h) p' \<and> tp_point p' = At_final | Suc m \<Rightarrow> frame_ready (R h) m p'"
    using resume_ready [of st h p "R h" "left h", OF p] by blast
  have cnt: "count (content s1) x \<le> 1" for x using inv(3) [of x] s1(2) by (simp split: if_splits)
  have frs: "\<exists>q. st x = Some q \<and> (if x \<in># content s1 then frame_ready (R x) (left x) q else task_done (R x) q)"
    if "x \<in> H" "x \<noteq> h" for x using fr [OF that(1)] that(2) s1(2) by simp
  have sub: "set_mset (content s1) \<subseteq> H" using inv(2) s1(2) by simp
  show ?thesis
  proof (cases "left h")
    case 0
    with p' have d: "task_done (R h) p'" "\<not> suspended (st(h \<mapsto> p')) h" by (simp_all add: suspended_def)
    have "\<exists>q. (st(h \<mapsto> p')) x = Some q \<and> (if x \<in># content s1 then frame_ready (R x) (left x) q else task_done (R x) q)"
      if "x \<in> H" for x using frs [OF that] d(1) h(2) by (cases "x = h") simp_all
    then have "running_inv H R left (s1, st(h \<mapsto> p'))" using s1(1) sub cnt by (simp add: running_inv_def)
    moreover have "work left (s1, st(h \<mapsto> p')) = work left c - 1" using 0 s1(2) by (simp add: work_def c)
    ultimately show ?thesis using Some hs e d(2) s1(3) c by (auto simp: queue_round_def)
  next
    case (Suc m)
    with p' have d: "frame_ready (R h) m p'" "suspended (st(h \<mapsto> p')) h" by (auto simp: suspended_def frame_ready_def)
    let ?s2 = "put s1 h (target h)" and ?left = "left(h := m)"
    have s2: "ok ?s2" "content ?s2 = content s" "workers ?s2 = workers s" using put_adds [OF s1(1), of h "target h"] s1 by simp_all
    have "\<exists>q. (st(h \<mapsto> p')) x = Some q \<and> (if x \<in># content s then frame_ready (R x) (?left x) q else task_done (R x) q)"
      if "x \<in> H" for x using frs [OF that] d(1) s1(2) by (cases "x = h") (auto split: if_splits)
    then have "running_inv H R ?left (?s2, st(h \<mapsto> p'))" using s2(1,2) inv(2,3) by (simp add: running_inv_def)
    moreover have "work ?left (?s2, st(h \<mapsto> p')) = work left c - 1"
      using Suc s1(2) s2(2) work_other [OF h(2), of left m] by (simp add: work_def c)
    ultimately show ?thesis using Some hs e d(2) s2(3) c by (auto simp: queue_round_def)
  qed
qed

lemma rounds_work:
  assumes "running_inv H R left c" "\<forall>tid \<in> set tids. tid < workers (fst c)" "work left c \<le> length tids"
  shows "\<exists>c'. rounds (queue_round put take_next target) tids c = Some (Inr c') \<and> content (fst c') = {#} \<and>
    (\<forall>h \<in> H. \<exists>p. snd c' h = Some p \<and> task_done (R h) p)"
  using assms
proof (induction tids arbitrary: c left)
  case Nil
  then have "content (fst c) = {#}" by (auto simp: work_def dest: multi_member_split)
  with Nil show ?case by (auto simp: running_inv_def)
next
  case (Cons tid tids)
  then obtain c1 left1 where "queue_round put take_next target tid c = Some (Inr c1)" "running_inv H R left1 c1"
    "work left1 c1 = work left c - 1" "workers (fst c1) = workers (fst c)"
    using round_works [of H R left c tid target] by auto
  with Cons.IH [of left1 c1] Cons.prems show ?case by simp
qed

end

lemma schedule_adds:
  assumes "sched_ok s"
  shows "sched_ok (schedule s h i) \<and> waiting (schedule s h i) = add_mset h (waiting s) \<and> sc_thread_count (schedule s h i) = sc_thread_count s"
  using push_local_waiting [OF assms] schedule_shortest(1) [OF assms]
  by (auto simp: schedule_def push_local_def set_queue_def)

lemma worker_take_removes:
  assumes "sched_ok s" "tid < sc_thread_count s" "worker_take s tid = Some (h, s')"
  shows "sched_ok s' \<and> waiting s = add_mset h (waiting s') \<and> sc_thread_count s' = sc_thread_count s"
proof -
  let ?sys = "\<lparr>ss_sched = s\<lparr>sc_running := True\<rparr>, ss_scheduled = [], ss_executed = []\<rparr>"
  have "\<exists>i q. i < sc_thread_count s \<and> s' = set_queue s i q \<and> mset (sc_local_queues s ! i) = add_mset h (mset q)"
  proof (cases "WSQ_pop (sc_local_queues s ! tid)")
    case None
    with assms(3) obtain qs where "steal_loop tid (sc_local_queues s) [0..<sc_thread_count s] = Some (h, qs)" "s' = s\<lparr>sc_local_queues := qs\<rparr>"
      by (auto simp: worker_take_def split: option.splits)
    with steal_loop_Some show ?thesis by (fastforce simp: set_queue_def dest: WSQ_steal_Some)
  next
    case (Some x)
    with assms(2,3) show ?thesis by (cases x) (auto simp: worker_take_def dest: WSQ_pop_Some)
  qed
  then show ?thesis using set_queue_waiting [OF assms(1)] by (auto simp: set_queue_def)
qed

interpretation scheduler: ready_queue ScheduleOn_await_suspend worker_take waiting sched_ok sc_thread_count
proof
  show "sched_ok (ScheduleOn_await_suspend s h i) \<and> waiting (ScheduleOn_await_suspend s h i) = add_mset h (waiting s) \<and>
      sc_thread_count (ScheduleOn_await_suspend s h i) = sc_thread_count s" if "sched_ok s" for s h i
    unfolding ScheduleOn_await_suspend_def using that by (rule schedule_adds)
qed (rule worker_take_progress worker_take_removes; assumption)+


lemma schedule_batch_adds:
  "sched_ok s \<Longrightarrow> sched_ok (schedule_batch s hs) \<and> waiting (schedule_batch s hs) = waiting s + mset hs \<and>
     sc_thread_count (schedule_batch s hs) = sc_thread_count s"
  unfolding schedule_batch_def by (induction hs arbitrary: s) (simp_all add: schedule_adds)

lemma task_done_get: "st h = Some p \<Longrightarrow> task_done r p \<Longrightarrow> Task_get st (Some h) others = Some (Inr (st, Got r))"
  by (simp add: Task_get_def Task_start_def get_loop.simps task_done_def)

text \<open>
  C13. Coroutines that are scheduled together and put themselves back into the queues, any number of times and for any thread, are
  all run to their end, whichever workers take them and however they steal from each other: as many rounds
  as there are resumptions to do are enough, and then every task has the outcome of its body.
\<close>

theorem scheduler_completes_tasks:
  assumes "distinct hs" "\<forall>h \<in> set hs. st h = Some (task_init P h) \<and> straight (fst (P h)) (snd (P h))"
    and "\<forall>tid \<in> set tids. tid < sc_thread_count (Scheduler_ctor n :: handle Scheduler)"
    and "(\<Sum>h \<leftarrow> hs. Suc (suspensions (snd (P h)))) \<le> length tids"
  shows "\<exists>s' st'. rounds (worker_round target) tids (schedule_batch (Scheduler_ctor n) hs, st) = Some (Inr (s', st')) \<and> waiting s' = {#} \<and>
    (\<forall>h \<in> set hs. Task_get st' (Some h) others = Some (Inr (st', Got (body_outcome (snd (P h))))))"
proof -
  let ?s = "schedule_batch (Scheduler_ctor n) hs"
  let ?left = "\<lambda>h. suspensions (snd (P h))"
  have s: "sched_ok ?s" "waiting ?s = mset hs" "sc_thread_count ?s = sc_thread_count (Scheduler_ctor n :: handle Scheduler)"
    using schedule_batch_adds [OF sched_ok_ctor(1), of n hs] by (simp_all add: sched_ok_ctor)
  have "scheduler.running_inv (set hs) (\<lambda>h. body_outcome (snd (P h))) ?left (?s, st)"
    using s assms(1,2) by (auto simp: scheduler.running_inv_def distinct_count_atmost_1 frame_ready_def task_init_def TaskPromise_init_def)
  moreover have "scheduler.work ?left (?s, st) \<le> length tids"
    using assms(4) s(2) by (simp add: scheduler.work_def flip: sum_mset_sum_list)
  ultimately obtain c' where c': "rounds (worker_round target) tids (?s, st) = Some (Inr c')" "waiting (fst c') = {#}"
      "\<forall>h \<in> set hs. \<exists>p. snd c' h = Some p \<and> task_done (body_outcome (snd (P h))) p"
    using scheduler.rounds_work [of "set hs" "\<lambda>h. body_outcome (snd (P h))" ?left "(?s, st)" tids target] assms(3) s(3) unfolding worker_round_def by auto
  then show ?thesis using task_done_get by (cases c') fastforce
qed

definition yield_ex :: "(int, string) program" where
  "yield_ex h = (False, if h = 0 then Co_suspend (Co_suspend (Co_return 5)) else Co_suspend (Co_throw ''no''))"

theorem scheduler_completes_tasks_witness:
  "\<exists>s' st'. rounds (worker_round (\<lambda>_. 1)) [0, 1, 1, 0, 0] (schedule_batch (Scheduler_ctor 2) [0, 1], (\<lambda>h. Some (task_init yield_ex h))) =
     Some (Inr (s', st')) \<and> Task_get st' (Some 0) [] = Some (Inr (st', Got (Inr (Some 5)))) \<and>
     Task_get st' (Some 1) [] = Some (Inr (st', Got (Inl ''no'')))"
  using scheduler_completes_tasks [of "[0, 1]" "\<lambda>h. Some (task_init yield_ex h)" yield_ex "[0, 1, 1, 0, 0]" 2 "\<lambda>_. 1" "[]"]
  by (auto simp: yield_ex_def body_outcome_def Scheduler_ctor_def Let_def)

end
