(* ===== verification/Net_Connection.thy ===== *)
theory Net_Connection
  imports Net_Buffer Io_Async
begin

text \<open>
  The TCP connection of \<open>net/connection.hpp\<close>. The kernel is a parameter: a record of the socket calls, over an
  abstract world; \<open>os_recv\<close> and \<open>os_send\<close> stand for \<open>co_await io::async_recv\<close> and \<open>co_await io::async_send\<close>, which
  return the result of the completion (see \<open>Io_Async\<close>). A non-positive count is the error or end of
  stream the code tests for; the bytes received are returned with the count. The close callback is its effect on
  the world.
\<close>

section \<open>The kernel\<close>

datatype sockopt = NoDelay | KeepAlive | Linger bool int

record 'w net_os =
  os_socket :: "'w \<Rightarrow> int \<times> 'w"
  os_connect :: "int \<Rightarrow> bytes \<Rightarrow> u16 \<Rightarrow> 'w \<Rightarrow> int \<times> 'w"
  os_recv :: "int \<Rightarrow> nat \<Rightarrow> 'w \<Rightarrow> (int \<times> bytes) \<times> 'w"
  os_send :: "int \<Rightarrow> bytes \<Rightarrow> 'w \<Rightarrow> int \<times> 'w"
  os_close :: "int \<Rightarrow> 'w \<Rightarrow> 'w"
  os_shutdown_wr :: "int \<Rightarrow> 'w \<Rightarrow> 'w"
  os_setsockopt :: "int \<Rightarrow> sockopt \<Rightarrow> 'w \<Rightarrow> 'w"

section \<open>Connection\<close>

datatype ConnectionState = Disconnected | Connecting | Connected | Closing | Closed

record ConnectionConfig =
  cc_read_timeout_ms :: int
  cc_write_timeout_ms :: int
  cc_connect_timeout_ms :: int
  cc_read_buffer_size :: size_t
  cc_write_buffer_size :: size_t
  cc_keep_alive :: bool
  cc_no_delay :: bool
  cc_linger_timeout :: int

definition default_connection_config :: ConnectionConfig where
  "default_connection_config = \<lparr>cc_read_timeout_ms = 30000, cc_write_timeout_ms = 30000, cc_connect_timeout_ms = 5000,
     cc_read_buffer_size = 65536, cc_write_buffer_size = 65536, cc_keep_alive = True, cc_no_delay = True, cc_linger_timeout = 0\<rparr>"

record 'w Connection =
  cn_fd :: int
  cn_config :: ConnectionConfig
  cn_state :: ConnectionState
  cn_close_callback :: "('w \<Rightarrow> 'w) option"
  cn_bytes_read :: u64
  cn_bytes_written :: u64

definition Connection_connected :: "'w Connection \<Rightarrow> bool" where
  "Connection_connected c \<longleftrightarrow> cn_state c = Connected"

definition apply_socket_options :: "'w net_os \<Rightarrow> 'w Connection \<Rightarrow> 'w \<Rightarrow> 'w" where
  "apply_socket_options os c w =
     (if cn_fd c < 0 then w
      else
        let w1 = (if cc_no_delay (cn_config c) then os_setsockopt os (cn_fd c) NoDelay w else w);
            w2 = (if cc_keep_alive (cn_config c) then os_setsockopt os (cn_fd c) KeepAlive w1 else w1);
            t = cc_linger_timeout (cn_config c)
        in if 0 \<le> t then os_setsockopt os (cn_fd c) (Linger (0 < t) t) w2 else w2)"

definition Connection_create :: "'w net_os \<Rightarrow> int \<Rightarrow> ConnectionConfig \<Rightarrow> 'w \<Rightarrow> 'w Connection \<times> 'w" where
  "Connection_create os fd config w =
     (let c = \<lparr>cn_fd = fd, cn_config = config, cn_state = (if 0 \<le> fd then Connected else Disconnected),
               cn_close_callback = None, cn_bytes_read = 0, cn_bytes_written = 0\<rparr>
      in (c, if 0 \<le> fd then apply_socket_options os c w else w))"

definition Connection_bytes_read :: "'w Connection \<Rightarrow> u64" where
  "Connection_bytes_read c = cn_bytes_read c"

definition Connection_bytes_written :: "'w Connection \<Rightarrow> u64" where
  "Connection_bytes_written c = cn_bytes_written c"

definition create_socket :: "'w net_os \<Rightarrow> 'w \<Rightarrow> int \<times> 'w" where
  "create_socket os w = os_socket os w"

definition set_close_callback :: "('w \<Rightarrow> 'w) option \<Rightarrow> 'w Connection \<Rightarrow> 'w Connection" where
  "set_close_callback cb c = c\<lparr>cn_close_callback := cb\<rparr>"

definition Connection_close :: "'w net_os \<Rightarrow> 'w Connection \<times> 'w \<Rightarrow> 'w Connection \<times> 'w" where
  "Connection_close os s =
     (let (c, w) = s in
      if cn_state c = Connected then
        let w' = os_close os (cn_fd c) w
        in (c\<lparr>cn_fd := -1, cn_state := Closed\<rparr>, case cn_close_callback c of None \<Rightarrow> w' | Some cb \<Rightarrow> cb w')
      else (c, w))"

text \<open>
  In the destructor \<open>shared_from_this\<close> finds no owner and throws; the exception leaves a destructor.
\<close>

definition Connection_dtor :: "'w net_os \<Rightarrow> 'w Connection \<times> 'w \<Rightarrow> abort + 'w" where
  "Connection_dtor os s =
     (if cn_state (fst s) = Connected \<and> cn_close_callback (fst s) \<noteq> None then Inl Terminate
      else Inr (snd (Connection_close os s)))"

definition handle_error :: "'w net_os \<Rightarrow> 'w Connection \<times> 'w \<Rightarrow> 'w Connection \<times> 'w" where
  "handle_error os s = Connection_close os s"

definition shutdown_write :: "'w net_os \<Rightarrow> 'w Connection \<times> 'w \<Rightarrow> 'w Connection \<times> 'w" where
  "shutdown_write os s = (if 0 \<le> cn_fd (fst s) then (fst s, os_shutdown_wr os (cn_fd (fst s)) (snd s)) else s)"

definition Connection_async_connect :: "'w net_os \<Rightarrow> bytes \<Rightarrow> u16 \<Rightarrow> 'w Connection \<times> 'w \<Rightarrow> bool \<times> 'w Connection \<times> 'w" where
  "Connection_async_connect os host port s =
     (let (c, w) = s;
          (c1, w1) = (if cn_fd c < 0 then (let (fd, w') = create_socket os w in (c\<lparr>cn_fd := fd\<rparr>, w')) else (c, w))
      in if cn_fd c1 < 0 then (False, c1, w1)
         else
           let c2 = c1\<lparr>cn_state := Connecting\<rparr>; (ret, w2) = os_connect os (cn_fd c2) host port w1
           in if ret = 0 then
                let c3 = c2\<lparr>cn_state := Connected\<rparr> in (True, c3, apply_socket_options os c3 w2)
              else (False, c2\<lparr>cn_state := Disconnected\<rparr>, w2))"

definition Connection_async_read :: "'w net_os \<Rightarrow> nat \<Rightarrow> 'w Connection \<times> 'w \<Rightarrow> (int \<times> bytes) \<times> 'w Connection \<times> 'w" where
  "Connection_async_read os sz s =
     (let (c, w) = s in
      if \<not> Connection_connected c then ((-1, []), c, w)
      else let ((n, data), w') = os_recv os (cn_fd c) sz w
           in if n \<le> 0 then ((n, []), handle_error os (c, w')) else ((n, data), c, w'))"

definition Connection_async_write :: "'w net_os \<Rightarrow> bytes \<Rightarrow> 'w Connection \<times> 'w \<Rightarrow> int \<times> 'w Connection \<times> 'w" where
  "Connection_async_write os data s =
     (let (c, w) = s in
      if \<not> Connection_connected c then (-1, c, w)
      else let (n, w') = os_send os (cn_fd c) data w
           in if n \<le> 0 then (n, handle_error os (c, w')) else (n, c, w'))"

text \<open>Reading into a \<open>Buffer\<close>: the bytes land behind \<open>write_pos_\<close>, which is not advanced.\<close>

definition Connection_async_read_buffer :: "'w net_os \<Rightarrow> buf_state \<Rightarrow> 'w Connection \<times> 'w \<Rightarrow>
    buf_error + (int \<times> buf_state \<times> 'w Connection \<times> 'w)" where
  "Connection_async_read_buffer os b s =
     (if Buffer_writable b = 0 then Inr (0, b, s)
      else
        let ((n, data), s') = Connection_async_read os (Buffer_writable b) s
        in rbind (deref (fst b) (snd b)) (\<lambda>(a, blk).
           rbind (block_store (fst b) a blk (buf_write_pos (snd b)) (map Some data)) (\<lambda>st'.
           Inr (n, (st', snd b), s'))))"

function Connection_async_write_all :: "'w net_os \<Rightarrow> bytes \<Rightarrow> nat \<Rightarrow> 'w Connection \<times> 'w \<Rightarrow> nat \<times> 'w Connection \<times> 'w" where
  "Connection_async_write_all os data written s =
     (if written < length data \<and> Connection_connected (fst s) then
        let (n, s') = Connection_async_write os (drop written data) s
        in if n \<le> 0 then (written, s') else Connection_async_write_all os data (written + nat n) s'
      else (written, s))"
  by pat_completeness auto
termination
  by (relation "measure (\<lambda>(_, data, written, _). length data - written)") (auto intro!: diff_less_mono2)

declare Connection_async_write_all.simps [simp del]

text \<open>The loop of \<open>async_read_line\<close> ends at a newline, an error or the end of the stream; \<open>None\<close> is a loop that never ends.\<close>

partial_function (option) read_line_loop :: "'w net_os \<Rightarrow> bytes \<Rightarrow> 'w Connection \<times> 'w \<Rightarrow> (bytes \<times> 'w Connection \<times> 'w) option" where
  "read_line_loop os line s =
     (if Connection_connected (fst s) then
        (case Connection_async_read os 1 s of ((n, data), s') \<Rightarrow>
           if n \<le> 0 then Some (line, s')
           else if hd data = 10 then Some (line, s')
           else read_line_loop os (line @ [hd data]) s')
      else Some (line, s))"

definition Connection_async_read_line :: "'w net_os \<Rightarrow> 'w Connection \<times> 'w \<Rightarrow> (bytes \<times> 'w Connection \<times> 'w) option" where
  "Connection_async_read_line os s = read_line_loop os [] s"

section \<open>The contract of a stream\<close>

text \<open>
  What the users of a connection rely on: \<open>strm\<close> is the bytes that will arrive and \<open>sent\<close> the bytes that left;
  \<open>frame\<close> is what moving bytes leaves alone. A receive gives some of the next bytes, at least one while there are any, and a non-positive count at
  the end; a send takes some of the bytes, at least one.
\<close>

locale byte_stream =
  fixes os :: "'w net_os" and strm :: "'w \<Rightarrow> bytes" and sent :: "'w \<Rightarrow> bytes" and frame :: "'w \<Rightarrow> 'f"
  assumes recv_some: "0 < sz \<Longrightarrow> strm w \<noteq> [] \<Longrightarrow>
      \<exists>k w'. 0 < k \<and> k \<le> sz \<and> k \<le> length (strm w) \<and> os_recv os fd sz w = ((int k, take k (strm w)), w') \<and>
        strm w' = drop k (strm w) \<and> sent w' = sent w \<and> frame w' = frame w"
    and recv_end: "strm w = [] \<Longrightarrow>
      \<exists>n w'. n \<le> 0 \<and> os_recv os fd sz w = ((n, []), w') \<and> sent w' = sent w \<and> frame w' = frame w"
    and send_some: "data \<noteq> [] \<Longrightarrow>
      \<exists>k w'. 0 < k \<and> k \<le> length data \<and> os_send os fd data w = (int k, w') \<and>
        sent w' = sent w @ take k data \<and> strm w' = strm w \<and> frame w' = frame w"
begin

lemma async_read_some:
  assumes "Connection_connected c" "0 < sz" "strm w \<noteq> []"
  shows "\<exists>k w'. 0 < k \<and> k \<le> sz \<and> k \<le> length (strm w) \<and>
    Connection_async_read os sz (c, w) = ((int k, take k (strm w)), c, w') \<and> strm w' = drop k (strm w) \<and> sent w' = sent w \<and> frame w' = frame w"
  using recv_some [OF assms(2,3), of "cn_fd c"] assms(1) by (auto simp: Connection_async_read_def)

lemma write_all_sends:
  assumes "Connection_connected c" "written \<le> length data"
  shows "\<exists>w'. Connection_async_write_all os data written (c, w) = (length data, c, w') \<and>
    sent w' = sent w @ drop written data \<and> strm w' = strm w \<and> frame w' = frame w"
  using assms(2)
proof (induction "length data - written" arbitrary: written w rule: less_induct)
  case less
  show ?case
  proof (cases "written < length data")
    case False
    with less.prems show ?thesis by (subst Connection_async_write_all.simps) auto
  next
    case True
    then have "drop written data \<noteq> []" by simp
    from send_some [OF this, of "cn_fd c" w] obtain k w1 where k: "0 < k" "k \<le> length data - written"
        "os_send os (cn_fd c) (drop written data) w = (int k, w1)" "sent w1 = sent w @ take k (drop written data)"
        "strm w1 = strm w" "frame w1 = frame w" by auto
    then have "Connection_async_write os (drop written data) (c, w) = (int k, c, w1)"
      using assms(1) by (simp add: Connection_async_write_def)
    moreover have "length data - (written + k) < length data - written" "written + k \<le> length data"
      using k True by linarith+
    from less.hyps [OF this, of w1] obtain w' where
        "Connection_async_write_all os data (written + k) (c, w1) = (length data, c, w')"
        "sent w' = sent w1 @ drop (written + k) data" "strm w' = strm w1" "frame w' = frame w1" by blast
    moreover have "take k (drop written data) @ drop (written + k) data = drop written data"
      using append_take_drop_id [of k "drop written data"] by (simp add: add.commute)
    ultimately show ?thesis
      using k True assms(1) by (subst Connection_async_write_all.simps) auto
  qed
qed

lemma read_line_reads:
  assumes "Connection_connected c" "strm w = line @ 10 # rest" "10 \<notin> set line"
  shows "\<exists>w'. read_line_loop os acc (c, w) = Some (acc @ line, c, w') \<and> strm w' = rest \<and> sent w' = sent w \<and> frame w' = frame w"
  using assms(2,3)
proof (induction line arbitrary: acc w)
  case Nil
  then have ne: "strm w \<noteq> []" by simp
  from async_read_some [OF assms(1) _ this, of 1] obtain w' where
      "Connection_async_read os 1 (c, w) = ((1, [10]), c, w')" "strm w' = rest" "sent w' = sent w" "frame w' = frame w"
    using Nil.prems by (auto simp: le_Suc_eq)
  with assms(1) show ?case by (subst read_line_loop.simps) simp
next
  case (Cons ch line)
  then have ne: "strm w \<noteq> []" by simp
  from async_read_some [OF assms(1) _ this, of 1] obtain w1 where
      r: "Connection_async_read os 1 (c, w) = ((1, [ch]), c, w1)" "strm w1 = line @ 10 # rest" "sent w1 = sent w" "frame w1 = frame w"
    using Cons.prems by (auto simp: le_Suc_eq)
  from Cons.IH [of w1 "acc @ [ch]"] r Cons.prems assms(1)
  show ?case by (subst read_line_loop.simps) auto
qed

end

text \<open>A kernel with one stream in each direction that moves at most \<open>Suc k\<close> bytes per call.\<close>

record stream_world =
  sw_in :: bytes
  sw_out :: bytes
  sw_closed :: "int list"

definition stream_os :: "nat \<Rightarrow> stream_world net_os" where
  "stream_os k = \<lparr>
     os_socket = (\<lambda>w. (3, w)),
     os_connect = (\<lambda>_ _ _ w. (0, w)),
     os_recv = (\<lambda>_ sz w. let n = min (min sz (Suc k)) (length (sw_in w))
       in ((int n, take n (sw_in w)), w\<lparr>sw_in := drop n (sw_in w)\<rparr>)),
     os_send = (\<lambda>_ data w. let n = min (Suc k) (length data) in (int n, w\<lparr>sw_out := sw_out w @ take n data\<rparr>)),
     os_close = (\<lambda>fd w. w\<lparr>sw_closed := fd # sw_closed w\<rparr>),
     os_shutdown_wr = (\<lambda>_ w. w),
     os_setsockopt = (\<lambda>_ _ w. w)\<rparr>"

interpretation stream: byte_stream "stream_os k" sw_in sw_out sw_closed
proof
  fix sz :: nat and w :: stream_world and fd assume "0 < sz" "sw_in w \<noteq> []"
  then show "\<exists>n w'. 0 < n \<and> n \<le> sz \<and> n \<le> length (sw_in w) \<and>
      os_recv (stream_os k) fd sz w = ((int n, take n (sw_in w)), w') \<and> sw_in w' = drop n (sw_in w) \<and> sw_out w' = sw_out w \<and> sw_closed w' = sw_closed w"
    by (intro exI [of _ "min (min sz (Suc k)) (length (sw_in w))"]) (simp add: stream_os_def Let_def min.coboundedI1)
next
  fix data :: bytes and fd and w :: stream_world assume "data \<noteq> []"
  then show "\<exists>n w'. 0 < n \<and> n \<le> length data \<and> os_send (stream_os k) fd data w = (int n, w') \<and>
      sw_out w' = sw_out w @ take n data \<and> sw_in w' = sw_in w \<and> sw_closed w' = sw_closed w"
    by (intro exI [of _ "min (Suc k) (length data)"]) (simp add: stream_os_def Let_def)
qed (simp add: stream_os_def)

section \<open>Properties\<close>

text \<open>
  Over a stream that fragments its data in any way, \<open>async_write_all\<close> ends with every byte sent, in order, and
  \<open>async_read_line\<close> ends with the bytes up to the first newline, which is consumed and not returned.
\<close>

theorem connection_stream_io:
  assumes "Connection_connected c" "sw_in w = line @ 10 # rest" "10 \<notin> set line"
  shows "(\<exists>w'. Connection_async_write_all (stream_os k) data 0 (c, w) = (length data, c, w') \<and> sw_out w' = sw_out w @ data) \<and>
    (\<exists>w'. Connection_async_read_line (stream_os k) (c, w) = Some (line, c, w') \<and> sw_in w' = rest)"
  using stream.write_all_sends [OF assms(1), of 0 data k w] stream.read_line_reads [OF assms, of k "[]"]
  by (auto simp: Connection_async_read_line_def)

definition conn_ex :: "stream_world Connection" where
  "conn_ex = \<lparr>cn_fd = 5, cn_config = default_connection_config, cn_state = Connected, cn_close_callback = None, cn_bytes_read = 0,
     cn_bytes_written = 0\<rparr>"

theorem connection_stream_io_witness:
  "(\<exists>w'. Connection_async_write_all (stream_os 2) [1, 2, 3, 4, 5] 0 (conn_ex, \<lparr>sw_in = [72, 105] @ 10 # [9], sw_out = [], sw_closed = []\<rparr>) =
      (length [1, 2, 3, 4, 5 :: byte], conn_ex, w') \<and> sw_out w' = [] @ [1, 2, 3, 4, 5]) \<and>
   (\<exists>w'. Connection_async_read_line (stream_os 2) (conn_ex, \<lparr>sw_in = [72, 105] @ 10 # [9], sw_out = [], sw_closed = []\<rparr>) =
      Some ([72, 105], conn_ex, w') \<and> sw_in w' = [9])"
  using connection_stream_io [of conn_ex "\<lparr>sw_in = [72, 105] @ 10 # [9], sw_out = [], sw_closed = []\<rparr>" "[72, 105]" "[9]" 2 "[1, 2, 3, 4, 5]"]
  by (simp add: conn_ex_def Connection_connected_def)

text \<open>
  Closing. A connected socket is closed and its callback run exactly once, however often \<open>close\<close> is called.
  But after a failed connection attempt the socket stays open: \<open>close\<close> and the destructor only act in the
  state \<open>Connected\<close>. And a connection that is destroyed while connected with a callback set terminates the program.
\<close>

theorem connection_close_behaviour:
  assumes "cn_state c = Connected" "cn_close_callback c = Some cb"
  shows "Connection_close os (c, w) = (c\<lparr>cn_fd := -1, cn_state := Closed\<rparr>, cb (os_close os (cn_fd c) w)) \<and>
    Connection_close os (Connection_close os (c, w)) = Connection_close os (c, w) \<and>
    Connection_dtor os (c, w) = Inl Terminate \<and>
    (0 \<le> cn_fd d \<and> fst (os_connect os (cn_fd d) host port w) \<noteq> 0 \<longrightarrow>
      (case Connection_async_connect os host port (d, w) of (ok, d', w') \<Rightarrow>
         \<not> ok \<and> cn_fd d' = cn_fd d \<and> Connection_close os (d', w') = (d', w') \<and> Connection_dtor os (d', w') = Inr w'))"
  using assms
  by (auto simp: Connection_close_def Connection_dtor_def Connection_async_connect_def Let_def split: prod.split)

theorem connection_close_behaviour_witness:
  "Connection_close (stream_os 0) (conn_ex\<lparr>cn_close_callback := Some (\<lambda>w. w)\<rparr>, \<lparr>sw_in = [], sw_out = [], sw_closed = []\<rparr>) =
     (conn_ex\<lparr>cn_close_callback := Some (\<lambda>w. w), cn_fd := -1, cn_state := Closed\<rparr>, \<lparr>sw_in = [], sw_out = [], sw_closed = [5]\<rparr>) \<and>
   (case Connection_async_connect ((stream_os 0)\<lparr>os_connect := (\<lambda>_ _ _ w. (-111, w))\<rparr>) [] 80 (conn_ex, \<lparr>sw_in = [], sw_out = [], sw_closed = []\<rparr>) of
      (ok, d', w') \<Rightarrow> \<not> ok \<and> cn_fd d' = 5 \<and> sw_closed w' = [])"
proof -
  let ?c = "conn_ex\<lparr>cn_close_callback := Some (\<lambda>w. w)\<rparr>" and ?w = "\<lparr>sw_in = [], sw_out = [], sw_closed = []\<rparr>"
  let ?os = "(stream_os 0)\<lparr>os_connect := (\<lambda>_ _ _ w. (-111, w))\<rparr>"
  have c: "cn_state ?c = Connected" "cn_close_callback ?c = Some (\<lambda>w. w)" by (simp_all add: conn_ex_def)
  from connection_close_behaviour [OF c, of "stream_os 0" ?w] connection_close_behaviour [OF c, of ?os ?w conn_ex "[]" 80]
  show ?thesis by (simp add: conn_ex_def stream_os_def Connection_async_connect_def)
qed

text \<open>
  The counters of a connection are never advanced: reading and writing leave \<open>bytes_read\<close> and \<open>bytes_written\<close> as they were
  created, at zero.
\<close>

lemma connection_counters_stay:
  "Connection_bytes_read (fst (snd (Connection_async_read os sz (c, w)))) = Connection_bytes_read c"
  "Connection_bytes_written (fst (snd (Connection_async_write os data (c, w)))) = Connection_bytes_written c"
  by (simp_all add: Connection_async_read_def Connection_async_write_def handle_error_def Connection_close_def
      Connection_bytes_read_def Connection_bytes_written_def Let_def split: prod.split)

text \<open>
  Reading into a \<open>Buffer\<close> loses what it receives: the count is returned, but \<open>write_pos_\<close> does not move, so the
  readable bytes of the buffer are the same as before.
\<close>

theorem read_into_buffer_lost:
  assumes "buf_ready b" "Connection_connected (fst s)" "Buffer_writable b \<noteq> 0"
    and "Connection_async_read os (Buffer_writable b) s = ((n, data), s')" "length data \<le> Buffer_writable b"
  shows "\<exists>b'. Connection_async_read_buffer os b s = Inr (n, b', s') \<and> snd b' = snd b \<and> buf_view b' = buf_view b"
proof -
  obtain st bf where b: "b = (st, bf)" by fastforce
  with assms(1) obtain a blk where k: "buf_block bf = Some a" "st_blocks st a = Some blk"
      "length (blk_data blk) = blk_capacity blk" "buf_read_pos bf \<le> buf_write_pos bf" "buf_write_pos bf \<le> blk_capacity blk"
    using buf_readyE by metis
  have "buf_write_pos bf + length data \<le> length (blk_data blk)"
    using assms(5) k b by (simp add: Buffer_writable_def deref_def)
  then have m: "mem_write (blk_data blk) (buf_write_pos bf) (map Some data) =
      Some (take (buf_write_pos bf) (blk_data blk) @ map Some data @ drop (buf_write_pos bf + length data) (blk_data blk))"
    by (simp add: mem_write_def)
  have "take (buf_write_pos bf - buf_read_pos bf) (drop (buf_read_pos bf)
      (take (buf_write_pos bf) (blk_data blk) @ map Some data @ drop (buf_write_pos bf + length data) (blk_data blk))) =
      take (buf_write_pos bf - buf_read_pos bf) (drop (buf_read_pos bf) (blk_data blk))"
    using k by (simp add: drop_take min_def)
  with m k b assms(3,4) show ?thesis
    by (simp add: Connection_async_read_buffer_def deref_def block_store_def buf_view_def Buffer_readable_def)
qed

theorem read_into_buffer_lost_witness:
  "\<exists>b'. Connection_async_read_buffer (stream_os 9) (Buffer_capacity_ctor empty_store 4) (conn_ex, \<lparr>sw_in = [7, 8], sw_out = [], sw_closed = []\<rparr>) =
      Inr (2, b', conn_ex, \<lparr>sw_in = [], sw_out = [], sw_closed = []\<rparr>) \<and>
    snd b' = snd (Buffer_capacity_ctor empty_store 4) \<and> buf_view b' = buf_view (Buffer_capacity_ctor empty_store 4)"
proof (rule read_into_buffer_lost [where data = "[7, 8]"])
  show "buf_ready (Buffer_capacity_ctor empty_store 4)" by code_simp
  show "Connection_connected (fst (conn_ex, \<lparr>sw_in = [7, 8], sw_out = [], sw_closed = []\<rparr>))" by code_simp
  show "Buffer_writable (Buffer_capacity_ctor empty_store 4) \<noteq> 0" by code_simp
  show "Connection_async_read (stream_os 9) (Buffer_writable (Buffer_capacity_ctor empty_store 4))
      (conn_ex, \<lparr>sw_in = [7, 8], sw_out = [], sw_closed = []\<rparr>) = ((2, [7, 8]), conn_ex, \<lparr>sw_in = [], sw_out = [], sw_closed = []\<rparr>)"
    by (simp add: Connection_async_read_def Connection_connected_def conn_ex_def stream_os_def Buffer_writable_def
        Buffer_capacity_ctor_def make_block_def deref_def empty_store_def BufferBlock_def)
  show "length [7 :: byte, 8] \<le> Buffer_writable (Buffer_capacity_ctor empty_store 4)" by code_simp
qed

end
