(* ===== verification/Net_ConnectionPool.thy ===== *)
theory Net_ConnectionPool
  imports Net_Connection
begin

text \<open>
  The connection pool and the pool manager of \<open>net/connection_pool.hpp\<close>. Connections are named by numbers;
  \<open>alive c\<close> says whether connection \<open>c\<close> is connected. The counters are 64-bit words. \<open>acquire\<close> unlocks the mutex
  before it creates a connection, so its two halves are separate steps of the system.
\<close>

section \<open>The pool\<close>

record ConnectionPoolConfig =
  cpc_max_connections :: size_t
  cpc_min_idle :: size_t
  cpc_max_idle :: size_t
  cpc_idle_timeout_ms :: int
  cpc_connect_timeout_ms :: int
  cpc_enable_health_check :: bool
  cpc_health_check_interval_ms :: int

definition ConnectionPoolConfig_default :: ConnectionPoolConfig where
  "ConnectionPoolConfig_default = \<lparr>cpc_max_connections = 1000, cpc_min_idle = 10, cpc_max_idle = 100, cpc_idle_timeout_ms = 60000,
     cpc_connect_timeout_ms = 5000, cpc_enable_health_check = True, cpc_health_check_interval_ms = 30000\<rparr>"

record ConnectionPool =
  cp_host :: bytes
  cp_port :: u16
  cp_config :: ConnectionPoolConfig
  cp_idle :: "nat list"
  cp_total :: size_t
  cp_active :: size_t

abbreviation cp_max_connections :: "ConnectionPool \<Rightarrow> size_t" where
  "cp_max_connections p \<equiv> cpc_max_connections (cp_config p)"

abbreviation cp_max_idle :: "ConnectionPool \<Rightarrow> nat" where
  "cp_max_idle p \<equiv> unat (cpc_max_idle (cp_config p))"

definition ConnectionPool_ctor :: "bytes \<Rightarrow> u16 \<Rightarrow> ConnectionPoolConfig \<Rightarrow> ConnectionPool" where
  "ConnectionPool_ctor host port config =
     \<lparr>cp_host = host, cp_port = port, cp_config = config, cp_idle = [], cp_total = 0, cp_active = 0\<rparr>"

text \<open>The loop over the idle connections, from the back; dead ones are dropped.\<close>

function acquire_idle :: "(nat \<Rightarrow> bool) \<Rightarrow> ConnectionPool \<Rightarrow> nat option \<times> ConnectionPool" where
  "acquire_idle alive p =
     (if cp_idle p = [] then (None, p)
      else
        let conn = last (cp_idle p); p1 = p\<lparr>cp_idle := butlast (cp_idle p)\<rparr>
        in if alive conn then (Some conn, p1\<lparr>cp_active := cp_active p1 + 1\<rparr>)
           else acquire_idle alive (p1\<lparr>cp_total := cp_total p1 - 1\<rparr>))"
  by pat_completeness auto
termination by (relation "measure (\<lambda>(_, p). length (cp_idle p))") auto

declare acquire_idle.simps [simp del]

text \<open>
  The first half of \<open>acquire\<close>, up to the unlock: a pooled connection, permission to create one, or waiting on the
  condition variable.
\<close>

datatype acquire_result = Got nat | MayCreate | MustWait

definition pool_acquire :: "(nat \<Rightarrow> bool) \<Rightarrow> ConnectionPool \<Rightarrow> acquire_result \<times> ConnectionPool" where
  "pool_acquire alive p =
     (case acquire_idle alive p of
        (Some conn, p') \<Rightarrow> (Got conn, p')
      | (None, p') \<Rightarrow> (if cp_total p' < cp_max_connections p' then MayCreate else MustWait, p'))"

text \<open>The second half, when \<open>create_connection\<close> returned a connection.\<close>

definition pool_created :: "ConnectionPool \<Rightarrow> ConnectionPool" where
  "pool_created p = p\<lparr>cp_active := cp_active p + 1, cp_total := cp_total p + 1\<rparr>"

text \<open>The predicate the waiting threads test.\<close>

definition wait_done :: "ConnectionPool \<Rightarrow> bool" where
  "wait_done p \<longleftrightarrow> cp_idle p \<noteq> [] \<or> cp_total p < cp_max_connections p"

text \<open>
  \<open>release\<close> of a connection: whether it is kept, in which case a waiter is notified; otherwise the caller's
  connection is closed.
\<close>

definition pool_release :: "(nat \<Rightarrow> bool) \<Rightarrow> nat \<Rightarrow> ConnectionPool \<Rightarrow> bool \<times> ConnectionPool" where
  "pool_release alive conn p =
     (let p1 = p\<lparr>cp_active := cp_active p - 1\<rparr>
      in if alive conn \<and> length (cp_idle p1) < cp_max_idle p1
         then (True, p1\<lparr>cp_idle := cp_idle p1 @ [conn]\<rparr>)
         else (False, p1\<lparr>cp_total := cp_total p1 - 1\<rparr>))"

text \<open>\<open>shutdown\<close>; the idle connections it closes are returned.\<close>

definition pool_shutdown :: "ConnectionPool \<Rightarrow> nat list \<times> ConnectionPool" where
  "pool_shutdown p = (cp_idle p, p\<lparr>cp_idle := [], cp_total := 0, cp_active := 0\<rparr>)"

definition ConnectionPool_dtor :: "ConnectionPool \<Rightarrow> nat list" where
  "ConnectionPool_dtor p = fst (pool_shutdown p)"

definition pool_total :: "ConnectionPool \<Rightarrow> size_t" where
  "pool_total p = cp_total p"

definition pool_active :: "ConnectionPool \<Rightarrow> size_t" where
  "pool_active p = cp_active p"

definition pool_idle :: "ConnectionPool \<Rightarrow> size_t" where
  "pool_idle p = of_nat (length (cp_idle p))"

section \<open>The manager\<close>

text \<open>
  Pools are shared objects: the manager maps a target to the number of its pool in a store. A pool that is removed
  from the map stays in the store for those who still hold it.
\<close>

record ConnectionPoolManager =
  pm_store :: "ConnectionPool list"
  pm_pools :: "(bytes, nat) umap"

definition pool_key :: "bytes \<Rightarrow> u16 \<Rightarrow> bytes" where
  "pool_key host port = host @ str_bytes '':'' @ dec_digits (unat port)"

definition get_pool :: "bytes \<Rightarrow> u16 \<Rightarrow> ConnectionPoolConfig \<Rightarrow> ConnectionPoolManager \<Rightarrow> nat \<times> ConnectionPoolManager" where
  "get_pool host port config m =
     (case um_find (pm_pools m) (pool_key host port) of
        Some pool \<Rightarrow> (pool, m)
      | None \<Rightarrow>
          let pool = length (pm_store m)
          in (pool, m\<lparr>pm_store := pm_store m @ [ConnectionPool_ctor host port config],
                      pm_pools := um_put (pm_pools m) (pool_key host port) pool\<rparr>))"

text \<open>\<open>remove_pool\<close> and \<open>shutdown_all\<close> return the connections they close.\<close>

definition remove_pool :: "bytes \<Rightarrow> u16 \<Rightarrow> ConnectionPoolManager \<Rightarrow> nat list \<times> ConnectionPoolManager" where
  "remove_pool host port m =
     (case um_find (pm_pools m) (pool_key host port) of
        None \<Rightarrow> ([], m)
      | Some pool \<Rightarrow>
          let (closed, p) = pool_shutdown (pm_store m ! pool)
          in (closed, m\<lparr>pm_store := (pm_store m)[pool := p], pm_pools := um_erase (pm_pools m) (pool_key host port)\<rparr>))"

fun shutdown_each :: "nat list \<Rightarrow> ConnectionPool list \<Rightarrow> nat list \<times> ConnectionPool list" where
  "shutdown_each [] store = ([], store)"
| "shutdown_each (pool # pools) store =
     (let (closed, p) = pool_shutdown (store ! pool); (closed', store') = shutdown_each pools (store[pool := p])
      in (closed @ closed', store'))"

definition shutdown_all :: "ConnectionPoolManager \<Rightarrow> nat list \<times> ConnectionPoolManager" where
  "shutdown_all m =
     (let (closed, store) = shutdown_each (map snd (pm_pools m)) (pm_store m)
      in (closed, m\<lparr>pm_store := store, pm_pools := []\<rparr>))"

section \<open>Threads using a pool\<close>

text \<open>
  The system: the pool, the state of the connections, the connections threads have acquired and not yet released,
  the number of threads between the two halves of \<open>acquire\<close>, and the next fresh connection.
\<close>

record pool_sys =
  ps_pool :: ConnectionPool
  ps_alive :: "nat \<Rightarrow> bool"
  ps_held :: "nat list"
  ps_creating :: nat
  ps_next :: nat

inductive pool_step :: "pool_sys \<Rightarrow> pool_sys \<Rightarrow> bool" where
  got: "pool_acquire (ps_alive s) (ps_pool s) = (Got c, p) \<Longrightarrow>
    pool_step s (s\<lparr>ps_pool := p, ps_held := c # ps_held s\<rparr>)"
| check: "pool_acquire (ps_alive s) (ps_pool s) = (MayCreate, p) \<Longrightarrow>
    pool_step s (s\<lparr>ps_pool := p, ps_creating := Suc (ps_creating s)\<rparr>)"
| wait: "pool_acquire (ps_alive s) (ps_pool s) = (MustWait, p) \<Longrightarrow> pool_step s (s\<lparr>ps_pool := p\<rparr>)"
| created: "0 < ps_creating s \<Longrightarrow>
    pool_step s (s\<lparr>ps_pool := pool_created (ps_pool s), ps_alive := (ps_alive s)(ps_next s := True),
      ps_held := ps_next s # ps_held s, ps_creating := ps_creating s - 1, ps_next := Suc (ps_next s)\<rparr>)"
| failed: "0 < ps_creating s \<Longrightarrow> pool_step s (s\<lparr>ps_creating := ps_creating s - 1\<rparr>)"
| die: "pool_step s (s\<lparr>ps_alive := (ps_alive s)(c := False)\<rparr>)"
| release: "c \<in> set (ps_held s) \<Longrightarrow> pool_release (ps_alive s) c (ps_pool s) = (kept, p) \<Longrightarrow>
    pool_step s (s\<lparr>ps_pool := p, ps_held := remove1 c (ps_held s),
      ps_alive := (if kept then ps_alive s else (ps_alive s)(c := False))\<rparr>)"

inductive pool_reach :: "bytes \<Rightarrow> u16 \<Rightarrow> ConnectionPoolConfig \<Rightarrow> pool_sys \<Rightarrow> bool" for host port config where
  init: "pool_reach host port config \<lparr>ps_pool = ConnectionPool_ctor host port config, ps_alive = (\<lambda>_. False), ps_held = [], ps_creating = 0, ps_next = 0\<rparr>"
| step: "pool_reach host port config s \<Longrightarrow> pool_step s s' \<Longrightarrow> pool_reach host port config s'"

section \<open>Accounting\<close>

text \<open>The books of a pool with \<open>h\<close> connections handed out.\<close>

definition pool_ok :: "nat \<Rightarrow> ConnectionPool \<Rightarrow> bool" where
  "pool_ok h p \<longleftrightarrow> cp_total p = of_nat (length (cp_idle p) + h) \<and> cp_active p = of_nat h \<and>
     length (cp_idle p) \<le> cp_max_idle p"

lemma acquire_idle_books:
  assumes "pool_ok h p" "acquire_idle alive p = (r, p')"
  shows "(case r of None \<Rightarrow> pool_ok h p' \<and> cp_idle p' = [] | Some c \<Rightarrow> pool_ok (Suc h) p' \<and> alive c) \<and>
    (\<exists>dead. mset (cp_idle p) = mset (cp_idle p') + mset dead + (case r of None \<Rightarrow> {#} | Some c \<Rightarrow> {#c#}))"
  using assms
proof (induction alive p rule: acquire_idle.induct)
  case (1 alive p)
  show ?case
  proof (cases "cp_idle p" rule: rev_cases)
    case Nil
    with "1.prems" show ?thesis by (subst (asm) acquire_idle.simps) auto
  next
    case (snoc xs c)
    show ?thesis
    proof (cases "alive c")
      case True
      with snoc "1.prems" show ?thesis
        by (subst (asm) acquire_idle.simps) (auto simp: pool_ok_def intro: exI [of _ "[]"])
    next
      case False
      let ?p = "p\<lparr>cp_idle := xs, cp_total := cp_total p - 1\<rparr>"
      have "acquire_idle alive ?p = (r, p')"
        using "1.prems"(2) snoc False by (subst (asm) acquire_idle.simps) simp
      moreover have "pool_ok h ?p" using "1.prems"(1) snoc by (simp add: pool_ok_def)
      ultimately have "(case r of None \<Rightarrow> pool_ok h p' \<and> cp_idle p' = [] | Some c \<Rightarrow> pool_ok (Suc h) p' \<and> alive c) \<and>
          (\<exists>dead. mset (cp_idle ?p) = mset (cp_idle p') + mset dead + (case r of None \<Rightarrow> {#} | Some c \<Rightarrow> {#c#}))"
        using "1.IH" [OF _ refl refl] snoc False by simp
      then obtain dead where "mset xs = mset (cp_idle p') + mset dead + (case r of None \<Rightarrow> {#} | Some c \<Rightarrow> {#c#})"
          and k: "case r of None \<Rightarrow> pool_ok h p' \<and> cp_idle p' = [] | Some c \<Rightarrow> pool_ok (Suc h) p' \<and> alive c" by auto
      then have "mset (cp_idle p) = mset (cp_idle p') + mset (c # dead) + (case r of None \<Rightarrow> {#} | Some c \<Rightarrow> {#c#})"
        using snoc by simp
      with k show ?thesis by blast
    qed
  qed
qed

lemma acquire_idle_config:
  "acquire_idle alive p = (r, p') \<Longrightarrow> cp_max_connections p' = cp_max_connections p \<and> cp_max_idle p' = cp_max_idle p"
proof (induction alive p rule: acquire_idle.induct)
  case (1 alive p)
  show ?case
  proof (cases "cp_idle p = [] \<or> alive (last (cp_idle p))")
    case True
    with "1.prems" show ?thesis by (subst (asm) acquire_idle.simps) (auto simp: Let_def split: if_splits)
  next
    case False
    with "1.prems" have "acquire_idle alive (p\<lparr>cp_idle := butlast (cp_idle p), cp_total := cp_total p - 1\<rparr>) = (r, p')"
      by (subst (asm) acquire_idle.simps) (simp add: Let_def)
    with "1.IH" [OF _ refl refl] False show ?thesis by simp
  qed
qed

text \<open>No connection is handed out twice, and none is both idle and handed out.\<close>

definition pool_sys_ok :: "pool_sys \<Rightarrow> bool" where
  "pool_sys_ok s \<longleftrightarrow> pool_ok (length (ps_held s)) (ps_pool s) \<and>
     distinct (cp_idle (ps_pool s) @ ps_held s) \<and> set (cp_idle (ps_pool s) @ ps_held s) \<subseteq> {..<ps_next s}"

lemma pool_acquire_sys:
  assumes "pool_sys_ok s" "pool_acquire (ps_alive s) (ps_pool s) = (res, p)"
  shows "pool_sys_ok (s\<lparr>ps_pool := p, ps_held := (case res of Got c \<Rightarrow> c # ps_held s | _ \<Rightarrow> ps_held s)\<rparr>)"
proof -
  obtain r where a: "acquire_idle (ps_alive s) (ps_pool s) = (r, p)"
      and res: "res = (case r of Some c \<Rightarrow> Got c | None \<Rightarrow> if cp_total p < cp_max_connections p then MayCreate else MustWait)"
    using assms(2) by (auto simp: pool_acquire_def split: prod.splits option.splits)
  have "pool_ok (length (ps_held s)) (ps_pool s)" using assms(1) by (simp add: pool_sys_ok_def)
  from acquire_idle_books [OF this a] obtain dead where
      k: "case r of None \<Rightarrow> pool_ok (length (ps_held s)) p \<and> cp_idle p = [] | Some c \<Rightarrow> pool_ok (Suc (length (ps_held s))) p \<and> ps_alive s c"
      and m: "mset (cp_idle (ps_pool s)) = mset (cp_idle p) + mset dead + (case r of None \<Rightarrow> {#} | Some c \<Rightarrow> {#c#})" by blast
  show ?thesis
  proof (cases r)
    case None
    then show ?thesis using k assms(1) res by (auto simp: pool_sys_ok_def)
  next
    case (Some c)
    let ?l = "cp_idle p @ dead @ [c]"
    have "mset (cp_idle (ps_pool s) @ ps_held s) = mset (?l @ ps_held s)" using m Some by simp
    then have "distinct (cp_idle (ps_pool s) @ ps_held s) = distinct (?l @ ps_held s)"
      "set (cp_idle (ps_pool s) @ ps_held s) = set (?l @ ps_held s)"
      by (rule mset_eq_imp_distinct_iff, rule mset_eq_setD)
    then show ?thesis using k Some assms(1) res by (auto simp: pool_sys_ok_def)
  qed
qed

lemma pool_sys_ok_step: "pool_step s s' \<Longrightarrow> pool_sys_ok s \<Longrightarrow> pool_sys_ok s'"
proof (induction rule: pool_step.induct)
  case (got s c p)
  then show ?case using pool_acquire_sys [of s "Got c" p] by simp
next
  case (check s p)
  then show ?case using pool_acquire_sys [of s MayCreate p] by (simp add: pool_sys_ok_def)
next
  case (wait s p)
  then show ?case using pool_acquire_sys [of s MustWait p] by simp
next
  case (created s)
  then show ?case by (auto simp: pool_sys_ok_def pool_ok_def pool_created_def)
next
  case (failed s)
  then show ?case by (simp add: pool_sys_ok_def)
next
  case (die s c)
  then show ?case by (simp add: pool_sys_ok_def)
next
  case (release c s kept p)
  have l: "length (ps_held s) = Suc (length (remove1 c (ps_held s)))"
    using release.hyps(1) by (simp add: length_remove1) (metis Suc_pred length_pos_if_in_set)
  show ?case
    using release l by (auto simp: pool_sys_ok_def pool_ok_def pool_release_def Let_def split: if_splits dest: set_remove1_subset [THEN subsetD])
qed

lemma pool_sys_ok_reach: "pool_reach host port config s \<Longrightarrow> pool_sys_ok s"
proof (induction rule: pool_reach.induct)
  case init
  show ?case by (simp add: pool_sys_ok_def pool_ok_def ConnectionPool_ctor_def)
qed (rule pool_sys_ok_step)

section \<open>Overshooting the limit\<close>

lemma reach_checks:
  assumes "0 < cpc_max_connections config"
  shows "pool_reach host port config \<lparr>ps_pool = ConnectionPool_ctor host port config, ps_alive = (\<lambda>_. False), ps_held = [], ps_creating = n, ps_next = 0\<rparr>"
proof (induction n)
  case 0
  show ?case by (rule pool_reach.init)
next
  case (Suc n)
  have "pool_acquire (\<lambda>_. False) (ConnectionPool_ctor host port config) = (MayCreate, ConnectionPool_ctor host port config)"
    using assms by (simp add: pool_acquire_def acquire_idle.simps ConnectionPool_ctor_def)
  from pool_reach.step [OF Suc pool_step.check] this show ?case by simp
qed

lemma reach_created:
  assumes "0 < cpc_max_connections config" "k \<le> n"
  shows "\<exists>s. pool_reach host port config s \<and> length (ps_held s) = k \<and> ps_creating s = n - k"
  using assms(2)
proof (induction k)
  case 0
  show ?case using reach_checks [OF assms(1), of host port n] by (intro exI, intro conjI) (assumption, simp_all)
next
  case (Suc k)
  then obtain s where "pool_reach host port config s" "length (ps_held s) = k" "ps_creating s = n - k" by auto
  with Suc.prems pool_reach.step [OF _ pool_step.created [of s]] show ?case by fastforce
qed

section \<open>Properties\<close>



text \<open>
  The limit is not a limit: the test against \<open>max_connections\<close> and the increment of \<open>total\<close> are in different
  critical sections, so with any positive limit any number of connections can be handed out at once.
\<close>

theorem pool_limit_exceeded:
  assumes "0 < cpc_max_connections config"
  shows "\<exists>s. pool_reach host port config s \<and> length (ps_held s) = n \<and> cp_total (ps_pool s) = of_nat (length (cp_idle (ps_pool s)) + n)"
proof -
  obtain s where "pool_reach host port config s" "length (ps_held s) = n" using reach_created [OF assms, of n n host port] by auto
  with pool_sys_ok_reach show ?thesis by (fastforce simp: pool_sys_ok_def pool_ok_def)
qed

theorem pool_limit_exceeded_witness:
  "\<exists>s. pool_reach [49] 80 (ConnectionPoolConfig_default\<lparr>cpc_max_connections := 1\<rparr>) s \<and> length (ps_held s) = 5 \<and> cp_total (ps_pool s) = of_nat (length (cp_idle (ps_pool s)) + 5)"
  by (rule pool_limit_exceeded) simp

text \<open>
  After \<open>shutdown\<close> a connection that is still out breaks the books: its release wraps \<open>active\<close>, and if it is dead
  also \<open>total\<close>, below zero, and from then on every \<open>acquire\<close> waits for ever. In a running pool too, releasing a
  dead connection makes room without waking anybody who waits for it.
\<close>

theorem pool_release_flaws:
  assumes "\<not> alive c"
  shows "(let p' = snd (pool_release alive c (snd (pool_shutdown p))) in
      cp_active p' = - 1 \<and> cp_total p' = - 1 \<and> fst (pool_acquire alive p') = MustWait) \<and>
    (0 < cp_total q \<and> cp_total q \<le> cp_max_connections q \<longrightarrow>
      (\<exists>q'. pool_release alive c q = (False, q') \<and> wait_done q'))"
proof (intro conjI impI)
  show "let p' = snd (pool_release alive c (snd (pool_shutdown p))) in
      cp_active p' = - 1 \<and> cp_total p' = - 1 \<and> fst (pool_acquire alive p') = MustWait"
    using assms by (simp add: pool_release_def pool_shutdown_def pool_acquire_def acquire_idle.simps Let_def word_order.extremum_strict)
  assume q: "0 < cp_total q \<and> cp_total q \<le> cp_max_connections q"
  then have "unat (cp_total q - 1) < unat (cp_total q)" by (metis measure_unat word_gt_0)
  then have "cp_total q - 1 < cp_max_connections q" using q by (simp add: word_less_nat_alt word_le_nat_alt)
  with assms show "\<exists>q'. pool_release alive c q = (False, q') \<and> wait_done q'"
    by (simp add: pool_release_def wait_done_def)
qed

theorem pool_release_flaws_witness:
  "(let p' = snd (pool_release (\<lambda>_. False) 0 (snd (pool_shutdown (ConnectionPool_ctor [49] 80 ConnectionPoolConfig_default)))) in
      cp_active p' = - 1 \<and> cp_total p' = - 1 \<and> fst (pool_acquire (\<lambda>_. False) p') = MustWait)"
  using pool_release_flaws [of "\<lambda>_. False" 0 "ConnectionPool_ctor [49] 80 ConnectionPoolConfig_default"] by blast

section \<open>One pool per target\<close>

lemma pool_key_inject: "pool_key host port = pool_key host' port' \<longleftrightarrow> host = host' \<and> port = port'"
proof -
  have "(58 :: byte) \<notin> set (dec_digits n)" for n
    using dec_digits_digit [of 58 n] by auto
  then show ?thesis
    using append_sep_inject [of 58 "dec_digits (unat port)" "dec_digits (unat port')" host host']
    by (auto simp: pool_key_def str_bytes_def word_unat_eq_iff)
qed

definition manager_ok :: "ConnectionPoolManager \<Rightarrow> bool" where
  "manager_ok m \<longleftrightarrow> um_ok (pm_pools m) \<and> distinct (map snd (pm_pools m)) \<and> list_all (\<lambda>i. i < length (pm_store m)) (map snd (pm_pools m))"

lemma um_put_new: "um_find m k = None \<Longrightarrow> um_put m k v = m @ [(k, v)]"
  by (induction m) (auto split: if_splits)

lemma get_pool_ok:
  assumes "manager_ok m" "get_pool host port config m = (i, m')"
  shows "manager_ok m'" "um_find (pm_pools m') (pool_key host port) = Some i"
    "k \<noteq> pool_key host port \<Longrightarrow> um_find (pm_pools m') k = um_find (pm_pools m) k" "i < length (pm_store m')"
proof -
  have lt: "x \<in> set (pm_pools m) \<Longrightarrow> snd x < length (pm_store m)" for x
    using assms(1) by (simp add: manager_ok_def list_all_iff)
  have "manager_ok m' \<and> um_find (pm_pools m') (pool_key host port) = Some i \<and>
      (k \<noteq> pool_key host port \<longrightarrow> um_find (pm_pools m') k = um_find (pm_pools m) k) \<and> i < length (pm_store m')"
  proof (cases "um_find (pm_pools m) (pool_key host port)")
    case None
    let ?n = "length (pm_store m)"
    have m': "i = ?n" "m' = m\<lparr>pm_store := pm_store m @ [ConnectionPool_ctor host port config], pm_pools := pm_pools m @ [(pool_key host port, ?n)]\<rparr>"
      using assms(2) None by (auto simp: get_pool_def Let_def um_put_new)
    have "?n \<notin> set (map snd (pm_pools m))" using lt by fastforce
    moreover have "pool_key host port \<notin> set (map fst (pm_pools m))" using None by (simp add: map_of_eq_None_iff)
    ultimately have "manager_ok m'" using assms(1) m' by (auto simp: manager_ok_def list_all_iff less_SucI)
    moreover have "um_find (pm_pools m') (pool_key host port) = Some i \<and>
        (k \<noteq> pool_key host port \<longrightarrow> um_find (pm_pools m') k = um_find (pm_pools m) k)"
      using assms(2) None by (auto simp: get_pool_def Let_def)
    ultimately show ?thesis using m' by simp
  next
    case (Some j)
    with assms lt show ?thesis by (auto simp: get_pool_def dest!: map_of_SomeD)
  qed
  then show "manager_ok m'" "um_find (pm_pools m') (pool_key host port) = Some i"
    "k \<noteq> pool_key host port \<Longrightarrow> um_find (pm_pools m') k = um_find (pm_pools m) k" "i < length (pm_store m')" by auto
qed

lemma same_pool_same_target:
  assumes "manager_ok m" "um_find (pm_pools m) k = Some i" "um_find (pm_pools m) k' = Some i"
  shows "k = k'"
proof -
  have "inj_on snd (set (pm_pools m))" using assms(1) by (simp add: manager_ok_def distinct_map)
  from inj_onD [OF this, of "(k, i)" "(k', i)"] assms(2,3) show ?thesis by (auto dest!: map_of_SomeD)
qed

inductive manager_reach :: "ConnectionPoolManager \<Rightarrow> bool" where
  init: "manager_reach \<lparr>pm_store = [], pm_pools = []\<rparr>"
| get: "manager_reach m \<Longrightarrow> manager_reach (snd (get_pool host port config m))"
| remove: "manager_reach m \<Longrightarrow> manager_reach (snd (remove_pool host port m))"
| all: "manager_reach m \<Longrightarrow> manager_reach (snd (shutdown_all m))"
| inner: "manager_reach m \<Longrightarrow> length store = length (pm_store m) \<Longrightarrow> manager_reach (m\<lparr>pm_store := store\<rparr>)"

lemma manager_ok_reach: "manager_reach m \<Longrightarrow> manager_ok m"
proof (induction rule: manager_reach.induct)
  case (get m host port config)
  then show ?case using get_pool_ok(1) by (metis prod.collapse)
next
  case (remove m host port)
  then have "manager_ok m" by simp
  moreover have "distinct (map snd (um_erase xs k))" if "distinct (map snd xs)" for xs :: "(bytes, nat) umap" and k
    using that by (induction xs) (auto dest!: in_set_dropD simp: AList.delete_eq)
  ultimately show ?case
    by (auto simp: remove_pool_def Let_def manager_ok_def list_all_iff AList.delete_eq distinct_map_filter split: option.splits prod.splits)
qed (auto simp: manager_ok_def shutdown_all_def Let_def list_all_iff split: prod.splits)

text \<open>
  C37. The manager keeps one pool per target: asking again for the same host and port gives the same pool, and a different
  host or port gives a different pool, whatever was created, removed or shut down before.
\<close>

theorem one_pool_per_target:
  assumes "manager_reach m" "get_pool host port config m = (i, m1)" "get_pool host' port' config' m1 = (j, m2)"
  shows "i = j \<longleftrightarrow> host = host' \<and> port = port'"
proof -
  have ok: "manager_ok m1" "um_find (pm_pools m1) (pool_key host port) = Some i"
    using get_pool_ok [OF manager_ok_reach [OF assms(1)] assms(2)] by auto
  note ok2 = get_pool_ok [OF ok(1) assms(3)]
  show ?thesis
  proof (cases "pool_key host port = pool_key host' port'")
    case True
    with ok(2) assms(3) show ?thesis by (auto simp: get_pool_def pool_key_inject)
  next
    case False
    with ok2(3) [of "pool_key host port"] ok(2) have "um_find (pm_pools m2) (pool_key host port) = Some i" by auto
    with same_pool_same_target [OF ok2(1), of "pool_key host port" i "pool_key host' port'"] ok2(2) False
    show ?thesis by (auto simp: pool_key_inject)
  qed
qed

theorem one_pool_per_target_witness:
  "(0 :: nat) = fst (get_pool [49] 80 (ConnectionPoolConfig_default\<lparr>cpc_max_connections := 5\<rparr>) (snd (get_pool [49] 80 ConnectionPoolConfig_default \<lparr>pm_store = [], pm_pools = []\<rparr>))) \<longleftrightarrow> [49 :: byte] = [49] \<and> (80 :: u16) = 80"
proof -
  let ?m = "\<lparr>pm_store = [], pm_pools = []\<rparr>"
  have g: "get_pool [49] 80 ConnectionPoolConfig_default ?m = (0, snd (get_pool [49] 80 ConnectionPoolConfig_default ?m))" by (simp add: get_pool_def)
  from one_pool_per_target [OF manager_reach.init g prod.collapse [symmetric]] show ?thesis .
qed

end
