(* ===== verification/Net_TcpServer.thy ===== *)
theory Net_TcpServer
  imports Net_Connection
begin

text \<open>
  The TCP server of \<open>net/tcp_server.hpp\<close>: starting and stopping, the accept loop and the life of a connection. The
  close callback of a connection changes the server's counter, so the world of a connection is the server
  together with the rest; the socket calls act on the rest. All coroutines run on the thread of the
  event loop and give up control only where they await.
\<close>

section \<open>State and kernel\<close>

record TcpServerConfig =
  tsc_host :: bytes
  tsc_port :: u16
  tsc_backlog :: int
  tsc_reuse_addr :: bool
  tsc_reuse_port :: bool
  tsc_max_connections :: size_t
  tsc_read_timeout_ms :: int
  tsc_write_timeout_ms :: int
  tsc_enable_metrics :: bool

definition TcpServerConfig_default :: TcpServerConfig where
  "TcpServerConfig_default = \<lparr>tsc_host = str_bytes ''0.0.0.0'', tsc_port = 8080, tsc_backlog = 128, tsc_reuse_addr = True,
     tsc_reuse_port = True, tsc_max_connections = 100000, tsc_read_timeout_ms = 30000, tsc_write_timeout_ms = 30000,
     tsc_enable_metrics = True\<rparr>"

record TcpServer =
  ts_config :: TcpServerConfig
  ts_listen_fd :: int
  ts_running :: bool
  ts_handler_set :: bool
  ts_connections :: size_t
  ts_total_accepted :: u64

datatype listen_opt = ReuseAddr | ReusePort

record 'v listen_os =
  lo_setsockopt :: "int \<Rightarrow> listen_opt \<Rightarrow> 'v \<Rightarrow> 'v"
  lo_bind :: "int \<Rightarrow> bytes \<Rightarrow> u16 \<Rightarrow> 'v \<Rightarrow> int \<times> 'v"
  lo_listen :: "int \<Rightarrow> int \<Rightarrow> 'v \<Rightarrow> int \<times> 'v"
  lo_accept :: "int \<Rightarrow> 'v \<Rightarrow> int \<times> 'v"

type_synonym 'v tcp_world = "TcpServer \<times> 'v"

text \<open>The socket calls on the world with the server.\<close>

definition lift_os :: "'v net_os \<Rightarrow> 'v tcp_world net_os" where
  "lift_os os = \<lparr>
     os_socket = (\<lambda>(t, v). case os_socket os v of (r, v') \<Rightarrow> (r, t, v')),
     os_connect = (\<lambda>fd h p (t, v). case os_connect os fd h p v of (r, v') \<Rightarrow> (r, t, v')),
     os_recv = (\<lambda>fd n (t, v). case os_recv os fd n v of (r, v') \<Rightarrow> (r, t, v')),
     os_send = (\<lambda>fd d (t, v). case os_send os fd d v of (r, v') \<Rightarrow> (r, t, v')),
     os_close = (\<lambda>fd (t, v). (t, os_close os fd v)),
     os_shutdown_wr = (\<lambda>fd (t, v). (t, os_shutdown_wr os fd v)),
     os_setsockopt = (\<lambda>fd opt (t, v). (t, os_setsockopt os fd opt v))\<rparr>"

section \<open>Operations\<close>

definition TcpServer_ctor :: "TcpServerConfig \<Rightarrow> TcpServer" where
  "TcpServer_ctor config = \<lparr>ts_config = config, ts_listen_fd = -1, ts_running = False, ts_handler_set = False,
     ts_connections = 0, ts_total_accepted = 0\<rparr>"

definition set_connection_handler :: "TcpServer \<Rightarrow> TcpServer" where
  "set_connection_handler t = t\<lparr>ts_handler_set := True\<rparr>"

definition server_socket_options :: "'v listen_os \<Rightarrow> TcpServer \<Rightarrow> 'v \<Rightarrow> 'v" where
  "server_socket_options lo t v =
     (let v1 = (if tsc_reuse_addr (ts_config t) then lo_setsockopt lo (ts_listen_fd t) ReuseAddr v else v)
      in if tsc_reuse_port (ts_config t) then lo_setsockopt lo (ts_listen_fd t) ReusePort v1 else v1)"

text \<open>\<open>start\<close>; the last component says that the accept loop was spawned.\<close>

definition TcpServer_start :: "'v net_os \<Rightarrow> 'v listen_os \<Rightarrow> 'v tcp_world \<Rightarrow> bool \<times> 'v tcp_world \<times> bool" where
  "TcpServer_start os lo w =
     (let (t, v) = w
      in if ts_running t then (True, w, False)
         else
           let (fd, v1) = os_socket os v; t1 = t\<lparr>ts_listen_fd := fd\<rparr>
           in if fd < 0 then (False, (t1, v1), False)
              else
                let v2 = server_socket_options lo t1 v1;
                    (b, v3) = lo_bind lo fd (tsc_host (ts_config t1)) (tsc_port (ts_config t1)) v2
                in if b < 0 then (False, (t1\<lparr>ts_listen_fd := -1\<rparr>, os_close os fd v3), False)
                   else
                     let (l, v4) = lo_listen lo fd (tsc_backlog (ts_config t1)) v3
                     in if l < 0 then (False, (t1\<lparr>ts_listen_fd := -1\<rparr>, os_close os fd v4), False)
                        else (True, (t1\<lparr>ts_running := True\<rparr>, v4), True))"

definition TcpServer_stop :: "'v net_os \<Rightarrow> 'v tcp_world \<Rightarrow> 'v tcp_world" where
  "TcpServer_stop os w =
     (let (t, v) = w
      in if \<not> ts_running t then w
         else if 0 \<le> ts_listen_fd t then (t\<lparr>ts_running := False, ts_listen_fd := -1\<rparr>, os_close os (ts_listen_fd t) v)
         else (t\<lparr>ts_running := False\<rparr>, v))"

definition TcpServer_dtor :: "'v net_os \<Rightarrow> 'v tcp_world \<Rightarrow> 'v" where
  "TcpServer_dtor os w = snd (TcpServer_stop os w)"

definition TcpServer_active_connections :: "TcpServer \<Rightarrow> size_t" where
  "TcpServer_active_connections t = ts_connections t"

definition TcpServer_total_accepted :: "TcpServer \<Rightarrow> u64" where
  "TcpServer_total_accepted t = ts_total_accepted t"

text \<open>The close callback of a handled connection.\<close>

definition count_closed :: "'v tcp_world \<Rightarrow> 'v tcp_world" where
  "count_closed w = ((fst w)\<lparr>ts_connections := ts_connections (fst w) - 1\<rparr>, snd w)"

text \<open>
  One turn of the accept loop after \<open>async_accept\<close> completed: \<open>None\<close> when no connection is handed to a handler. A
  connection without a handler is destroyed at once. \<open>handle_connection\<close> installs the callback and spawns the
  handler.
\<close>

definition accept_turn :: "'v net_os \<Rightarrow> 'v listen_os \<Rightarrow> 'v tcp_world \<Rightarrow> abort + ('v tcp_world Connection option \<times> 'v tcp_world)" where
  "accept_turn os lo w =
     (let (t, v) = w; (client_fd, v1) = lo_accept lo (ts_listen_fd t) v
      in if client_fd < 0 then Inr (None, t, v1)
         else if tsc_max_connections (ts_config t) \<le> ts_connections t then Inr (None, t, os_close os client_fd v1)
         else
           let t1 = t\<lparr>ts_connections := ts_connections t + 1, ts_total_accepted := ts_total_accepted t + 1\<rparr>;
               (conn, w1) = Connection_create (lift_os os) client_fd
                  default_connection_config (t1, v1)
           in if ts_handler_set t1 then Inr (Some (set_close_callback (Some count_closed) conn), w1)
              else rbind (Connection_dtor (lift_os os) (conn, w1)) (\<lambda>w2. Inr (None, w2)))"

text \<open>A handler that runs without interruption: its effect, then \<open>close\<close>; exceptions are swallowed.\<close>

definition handler_task :: "'v net_os \<Rightarrow> ('v tcp_world Connection \<times> 'v tcp_world \<Rightarrow> 'v tcp_world Connection \<times> 'v tcp_world) \<Rightarrow>
    'v tcp_world Connection \<times> 'v tcp_world \<Rightarrow> 'v tcp_world Connection \<times> 'v tcp_world" where
  "handler_task os handler cw = Connection_close (lift_os os) (handler cw)"

section \<open>The server in operation\<close>

text \<open>
  The server, its open connections and the rest of the world. Handlers interleave: each of their operations on a
  connection is a step of its own.
\<close>

record 'v server_sys =
  ss_world :: "'v tcp_world"
  ss_conns :: "'v tcp_world Connection list"

definition conn_step :: "nat \<Rightarrow> ('v tcp_world Connection \<times> 'v tcp_world \<Rightarrow> 'a \<times> 'v tcp_world Connection \<times> 'v tcp_world) \<Rightarrow>
    'v server_sys \<Rightarrow> 'v server_sys" where
  "conn_step i f s = (case f (ss_conns s ! i, ss_world s) of (_, c, w) \<Rightarrow> s\<lparr>ss_world := w, ss_conns := (ss_conns s)[i := c]\<rparr>)"

inductive server_step :: "'v net_os \<Rightarrow> 'v listen_os \<Rightarrow> 'v server_sys \<Rightarrow> 'v server_sys \<Rightarrow> bool" for os lo where
  accepted: "ts_running (fst (ss_world s)) \<Longrightarrow> accept_turn os lo (ss_world s) = Inr (conn, w) \<Longrightarrow>
    server_step os lo s (s\<lparr>ss_world := w, ss_conns := ss_conns s @ (case conn of None \<Rightarrow> [] | Some c \<Rightarrow> [c])\<rparr>)"
| reads: "i < length (ss_conns s) \<Longrightarrow> server_step os lo s (conn_step i (Connection_async_read (lift_os os) n) s)"
| writes: "i < length (ss_conns s) \<Longrightarrow> server_step os lo s (conn_step i (Connection_async_write (lift_os os) data) s)"
| closes: "i < length (ss_conns s) \<Longrightarrow> server_step os lo s (conn_step i (\<lambda>cw. ((), Connection_close (lift_os os) cw)) s)"
| shuts: "i < length (ss_conns s) \<Longrightarrow> server_step os lo s (conn_step i (\<lambda>cw. ((), shutdown_write (lift_os os) cw)) s)"
| starts: "TcpServer_start os lo (ss_world s) = (ok, w, spawned) \<Longrightarrow> server_step os lo s (s\<lparr>ss_world := w\<rparr>)"
| stops: "server_step os lo s (s\<lparr>ss_world := TcpServer_stop os (ss_world s)\<rparr>)"

inductive server_reach :: "'v net_os \<Rightarrow> 'v listen_os \<Rightarrow> TcpServerConfig \<Rightarrow> 'v server_sys \<Rightarrow> bool" for os lo config where
  init: "server_reach os lo config \<lparr>ss_world = (set_connection_handler (TcpServer_ctor config), v), ss_conns = []\<rparr>"
| step: "server_reach os lo config s \<Longrightarrow> server_step os lo s s' \<Longrightarrow> server_reach os lo config s'"

section \<open>Counting connections\<close>

definition open_count :: "'v tcp_world Connection list \<Rightarrow> nat" where
  "open_count cs = length (filter Connection_connected cs)"

definition server_ok :: "TcpServerConfig \<Rightarrow> 'v server_sys \<Rightarrow> bool" where
  "server_ok config s \<longleftrightarrow> (let t = fst (ss_world s) in
     ts_config t = config \<and> ts_handler_set t \<and> unat (ts_connections t) = open_count (ss_conns s) \<and>
     ts_connections t \<le> tsc_max_connections config \<and> list_all (\<lambda>c. cn_close_callback c = Some count_closed) (ss_conns s))"

text \<open>An operation either leaves a connection as it is, or closes it and takes it off the count.\<close>

definition counted :: "('v tcp_world Connection \<times> 'v tcp_world \<Rightarrow> 'a \<times> 'v tcp_world Connection \<times> 'v tcp_world) \<Rightarrow> bool" where
  "counted f \<longleftrightarrow> (\<forall>c w. cn_close_callback c = Some count_closed \<longrightarrow>
     (case f (c, w) of (_, c', w') \<Rightarrow> cn_close_callback c' = Some count_closed \<and>
        (if Connection_connected c' = Connection_connected c then fst w' = fst w
         else Connection_connected c \<and> fst w' = (fst w)\<lparr>ts_connections := ts_connections (fst w) - 1\<rparr>)))"

lemma close_counted: "counted (\<lambda>cw. ((), Connection_close (lift_os os) cw))"
  by (auto simp: counted_def Connection_close_def Connection_connected_def count_closed_def lift_os_def split: prod.splits)

lemma shutdown_counted: "counted (\<lambda>cw. ((), shutdown_write (lift_os os) cw))"
  by (auto simp: counted_def shutdown_write_def lift_os_def split: prod.splits)

lemma read_counted: "counted (Connection_async_read (lift_os os) n)"
  by (auto simp: counted_def Connection_async_read_def handle_error_def Connection_close_def Connection_connected_def
      count_closed_def lift_os_def Let_def split: prod.splits)

lemma write_counted: "counted (Connection_async_write (lift_os os) data)"
  by (auto simp: counted_def Connection_async_write_def handle_error_def Connection_close_def Connection_connected_def
      count_closed_def lift_os_def Let_def split: prod.splits)

lemma open_count_update:
  assumes "i < length cs" "Connection_connected (cs ! i)"
  shows "open_count (cs[i := c]) = (if Connection_connected c then open_count cs else open_count cs - 1)" "0 < open_count cs"
proof -
  have l: "take i cs @ cs ! i # drop (Suc i) cs = cs" using id_take_nth_drop [OF assms(1)] by simp
  have u: "cs[i := c] = take i cs @ c # drop (Suc i) cs" using assms(1) by (rule upd_conv_take_nth_drop)
  have "open_count cs = open_count (take i cs) + Suc (open_count (drop (Suc i) cs))"
    using arg_cong [OF l, of open_count] assms(2) by (simp add: open_count_def)
  then show "open_count (cs[i := c]) = (if Connection_connected c then open_count cs else open_count cs - 1)" "0 < open_count cs"
    by (simp_all add: u open_count_def)
qed

lemma open_count_same:
  assumes "i < length cs" "Connection_connected c = Connection_connected (cs ! i)"
  shows "open_count (cs[i := c]) = open_count cs"
proof -
  have "filter Connection_connected (take i cs) @ filter Connection_connected (cs ! i # drop (Suc i) cs) = filter Connection_connected cs"
    using id_take_nth_drop [OF assms(1)] by (metis filter_append)
  then show ?thesis using assms by (auto simp: open_count_def upd_conv_take_nth_drop dest: arg_cong [of _ _ length])
qed

lemma conn_step_ok:
  assumes "server_ok config s" "i < length (ss_conns s)" "counted f"
  shows "server_ok config (conn_step i f s)"
proof -
  let ?c = "ss_conns s ! i" and ?t = "fst (ss_world s)"
  obtain r c' w' where f: "f (?c, ss_world s) = (r, c', w')" by (metis surj_pair)
  have ok: "ts_config ?t = config" "ts_handler_set ?t" "unat (ts_connections ?t) = open_count (ss_conns s)"
      "ts_connections ?t \<le> tsc_max_connections config" "\<forall>c \<in> set (ss_conns s). cn_close_callback c = Some count_closed"
    using assms(1) by (simp_all add: server_ok_def Let_def list_all_iff)
  have cb: "cn_close_callback ?c = Some count_closed" using ok(5) assms(2) by simp
  have c': "cn_close_callback c' = Some count_closed"
      "if Connection_connected c' = Connection_connected ?c then fst w' = ?t
       else Connection_connected ?c \<and> fst w' = ?t\<lparr>ts_connections := ts_connections ?t - 1\<rparr>"
    using assms(3) [unfolded counted_def, rule_format, OF cb, of "ss_world s"] unfolding f prod.case by (rule conjunct1, rule conjunct2)
  have cbs: "\<forall>c \<in> set ((ss_conns s)[i := c']). cn_close_callback c = Some count_closed"
    using ok(5) c'(1) set_update_subset_insert [of "ss_conns s" i c'] by auto
  show ?thesis
  proof (cases "Connection_connected c' = Connection_connected ?c")
    case True
    then show ?thesis
      using ok c' cbs open_count_same [OF assms(2) True] by (simp add: conn_step_def f server_ok_def Let_def list_all_iff)
  next
    case False
    then have o: "Connection_connected ?c" "\<not> Connection_connected c'" "fst w' = ?t\<lparr>ts_connections := ts_connections ?t - 1\<rparr>"
      using c'(2) by auto
    note n = open_count_update(1) [OF assms(2) o(1), of c'] open_count_update(2) [OF assms(2) o(1)]
    have "ts_connections ?t \<noteq> 0" using n(2) ok(3) by auto
    then have "unat (ts_connections ?t - 1) = unat (ts_connections ?t) - 1" by (simp add: unat_minus_one)
    moreover from this have "ts_connections ?t - 1 \<le> tsc_max_connections config"
      using ok(4) by (simp add: word_le_nat_alt)
    ultimately show ?thesis
      using ok o n cbs by (simp add: conn_step_def f server_ok_def Let_def list_all_iff)
  qed
qed

lemma accept_turn_ok:
  assumes "server_ok config s" "accept_turn os lo (ss_world s) = Inr (conn, w)"
  shows "server_ok config (s\<lparr>ss_world := w, ss_conns := ss_conns s @ (case conn of None \<Rightarrow> [] | Some c \<Rightarrow> [c])\<rparr>)"
proof -
  obtain t v where w0: "ss_world s = (t, v)" by fastforce
  obtain fd v1 where a: "lo_accept lo (ts_listen_fd t) v = (fd, v1)" by fastforce
  have ok: "ts_config t = config" "ts_handler_set t" "unat (ts_connections t) = open_count (ss_conns s)"
      "ts_connections t \<le> tsc_max_connections config" "list_all (\<lambda>c. cn_close_callback c = Some count_closed) (ss_conns s)"
    using assms(1) by (simp_all add: server_ok_def Let_def w0)
  show ?thesis
  proof (cases "fd < 0 \<or> tsc_max_connections (ts_config t) \<le> ts_connections t")
    case True
    with assms(2) ok show ?thesis by (auto simp: accept_turn_def w0 a server_ok_def Let_def split: if_splits)
  next
    case False
    let ?t = "t\<lparr>ts_connections := ts_connections t + 1, ts_total_accepted := ts_total_accepted t + 1\<rparr>"
    have lt: "ts_connections t < tsc_max_connections config" using False ok(1) by auto
    then have "ts_connections t \<noteq> -1" by (metis word_not_simps(3))
    then have "unat (ts_connections t + 1) = Suc (unat (ts_connections t))" by (rule unat_inc)
    moreover from this lt have "ts_connections t + 1 \<le> tsc_max_connections config"
      by (simp add: word_le_nat_alt word_less_nat_alt)
    moreover obtain c v' where "conn = Some c" "w = (?t, v')" "Connection_connected c" "cn_close_callback c = Some count_closed"
      using assms(2) False ok(2)
      by (auto simp: accept_turn_def w0 a Connection_create_def set_close_callback_def Connection_connected_def apply_socket_options_def
          lift_os_def Let_def split: if_splits prod.splits)
    ultimately show ?thesis using ok by (simp add: server_ok_def Let_def open_count_def)
  qed
qed

lemma start_keeps:
  "TcpServer_start os lo w = (ok, w', spawned) \<Longrightarrow> ts_config (fst w') = ts_config (fst w) \<and>
    ts_handler_set (fst w') = ts_handler_set (fst w) \<and> ts_connections (fst w') = ts_connections (fst w)"
  by (cases w) (auto simp: TcpServer_start_def Let_def split: prod.splits if_splits)

lemma stop_keeps:
  "ts_config (fst (TcpServer_stop os w)) = ts_config (fst w)" "ts_handler_set (fst (TcpServer_stop os w)) = ts_handler_set (fst w)"
  "ts_connections (fst (TcpServer_stop os w)) = ts_connections (fst w)"
  by (cases w, simp add: TcpServer_stop_def Let_def)+

lemma server_ok_reach: "server_reach os lo config s \<Longrightarrow> server_ok config s"
proof (induction rule: server_reach.induct)
  case (init v)
  show ?case by (simp add: server_ok_def set_connection_handler_def TcpServer_ctor_def open_count_def)
next
  case (step s s')
  from step(2,3) show ?case
  proof (induction rule: server_step.induct)
    case (accepted s conn w)
    then show ?case by (intro accept_turn_ok)
  next
    case (starts s ok w spawned)
    then show ?case
      by (auto simp: server_ok_def Let_def dest!: start_keeps)
  next
    case (stops s)
    then show ?case by (simp add: server_ok_def Let_def stop_keeps)
  qed (auto intro: conn_step_ok read_counted write_counted close_counted shutdown_counted)
qed

section \<open>Properties\<close>


definition listen_ex :: "stream_world listen_os" where
  "listen_ex = \<lparr>lo_setsockopt = (\<lambda>_ _ w. w), lo_bind = (\<lambda>_ _ _ w. (0, w)), lo_listen = (\<lambda>_ _ w. (0, w)), lo_accept = (\<lambda>_ w. (7, w))\<rparr>"

definition server_config_ex :: TcpServerConfig where
  "server_config_ex = TcpServerConfig_default\<lparr>tsc_max_connections := 1\<rparr>"


text \<open>
  Without a handler the server fills up: an accepted connection is destroyed before the close callback is installed,
  so it is closed and stays in the count; after \<open>max_connections\<close> of them every client is turned away.
\<close>

theorem no_handler_leaks_count:
  assumes "\<not> ts_handler_set t" "lo_accept lo (ts_listen_fd t) v = (fd, v1)" "0 \<le> fd"
    and "ts_connections t < tsc_max_connections (ts_config t)"
  shows "\<exists>v'. accept_turn os lo (t, v) =
    Inr (None, t\<lparr>ts_connections := ts_connections t + 1, ts_total_accepted := ts_total_accepted t + 1\<rparr>, os_close os fd v')"
  using assms
  by (auto simp: accept_turn_def Let_def Connection_create_def apply_socket_options_def Connection_dtor_def Connection_close_def lift_os_def)

theorem no_handler_leaks_count_witness:
  "\<exists>v'. accept_turn (stream_os 0) listen_ex (TcpServer_ctor server_config_ex, \<lparr>sw_in = [], sw_out = [], sw_closed = []\<rparr>) =
    Inr (None, (TcpServer_ctor server_config_ex)\<lparr>ts_connections := 1, ts_total_accepted := 1\<rparr>, os_close (stream_os 0) 7 v')"
  using no_handler_leaks_count [of "TcpServer_ctor server_config_ex" listen_ex "\<lparr>sw_in = [], sw_out = [], sw_closed = []\<rparr>" 7
      "\<lparr>sw_in = [], sw_out = [], sw_closed = []\<rparr>" "stream_os 0"]
  by (simp add: TcpServer_ctor_def listen_ex_def server_config_ex_def)

end
