(* ===== verification/Rpc_Server.thy ===== *)
theory Rpc_Server
  imports Rpc_Protocol Rpc_Registry Rpc_Serializer Net_TcpServer
begin

text \<open>
  The server of \<open>rpc/rpc_server.hpp\<close>: the handling of one message and the loop over a connection. A registered
  handler is a value of type \<open>'h\<close>; calling it is the parameter \<open>invoke\<close>, which returns the response bytes, or
  \<open>None\<close> for an exception, and the new state of the services. An access outside a buffer is the fault
  \<open>BadRead\<close> or \<open>BadWrite\<close>.
\<close>

section \<open>Handling a message\<close>

datatype server_fault = BadRead | BadWrite

record server_stats =
  sv_total_requests :: u64
  sv_total_errors :: u64

definition count_request :: "server_stats \<Rightarrow> server_stats" where
  "count_request st = st\<lparr>sv_total_requests := sv_total_requests st + 1\<rparr>"

definition count_error :: "server_stats \<Rightarrow> server_stats" where
  "count_error st = st\<lparr>sv_total_errors := sv_total_errors st + 1\<rparr>"

type_synonym ('h, 'v) invoker = "'h \<Rightarrow> bytes \<Rightarrow> 'v \<Rightarrow> bytes option \<times> 'v"

definition handle_message :: "bytes \<Rightarrow> 'h registry \<Rightarrow> ('h, 'v) invoker \<Rightarrow> bytes \<Rightarrow> nat \<Rightarrow> server_stats \<times> 'v \<Rightarrow>
    server_fault + (bytes \<times> server_stats \<times> 'v)" where
  "handle_message pad reg invoke data sz s =
     (let (st, v) = s;
          reply = (\<lambda>m s'. rbind (or_fail BadWrite (RpcMessage_serialize pad m)) (\<lambda>bs. Inr (bs, s')))
      in case RpcMessage_deserialize data sz RpcMessage_default of
           Inl _ \<Rightarrow> Inl BadRead
         | Inr (ok, msg) \<Rightarrow>
             if \<not> ok then Inr ([], count_error st, v)
             else
               let st1 = count_request st in
               if msg_has_type msg MT_Request then
                 (case find_method reg (msg_service msg) (msg_method msg) of
                    None \<Rightarrow> reply (create_error (msg_request_id msg) EC_ServiceNotFound
                              (str_bytes ''Service or method not found'')) (st1, v)
                  | Some h \<Rightarrow>
                      (case invoke h (msg_payload msg) v of
                         (Some r, v') \<Rightarrow> reply (create_response (msg_request_id msg) r EC_OK) (st1, v')
                       | (None, v') \<Rightarrow> reply (create_error (msg_request_id msg) EC_Unknown
                              (str_bytes ''Internal server error'')) (count_error st1, v')))
               else if msg_has_type msg MT_Heartbeat then
                 reply (create_response (msg_request_id msg) [] EC_OK) (st1, v)
               else Inr ([], st1, v))"

section \<open>Serving a connection\<close>

text \<open>
  The receive buffer is a vector that keeps the bytes of earlier messages and only grows. \<open>conn_header\<close> and
  \<open>conn_body\<close> are the two reads of a round: they give the buffer with what was received, or \<open>Inl\<close> when the
  loop is left.
\<close>

type_synonym ('w, 'v) server_state = "('w Connection \<times> 'w) \<times> (server_stats \<times> 'v)"

definition overlay :: "nat \<Rightarrow> bytes \<Rightarrow> bytes \<Rightarrow> bytes" where
  "overlay off data buffer = take off buffer @ data @ drop (off + length data) buffer"

definition conn_header :: "'w net_os \<Rightarrow> nat \<Rightarrow> bytes \<Rightarrow> ('w, 'v) server_state \<Rightarrow>
    ('w, 'v) server_state + (nat \<times> bytes \<times> ('w, 'v) server_state)" where
  "conn_header os max_request_size buffer s =
     (case Connection_async_read os 16 (fst s) of ((n, data), c) \<Rightarrow>
        if n \<le> 0 then Inl (c, snd s)
        else
          let buffer1 = overlay 0 data buffer;
              header = header_of_bytes (take 16 buffer1);
              total_size = 16 + unat (hdr_meta_len header) + unat (hdr_payload_len header);
              failed = (c, count_error (fst (snd s)), snd (snd s))
          in if \<not> header_valid header then Inl failed
             else if max_request_size < total_size then Inl failed
             else Inr (total_size,
               if length buffer1 < total_size then buffer1 @ replicate (total_size - length buffer1) 0 else buffer1,
               c, snd s))"

definition conn_body :: "'w net_os \<Rightarrow> nat \<Rightarrow> bytes \<Rightarrow> ('w, 'v) server_state \<Rightarrow>
    ('w, 'v) server_state + (bytes \<times> ('w, 'v) server_state)" where
  "conn_body os total_size buffer s =
     (if 0 < total_size - 16 then
        (case Connection_async_read os (total_size - 16) (fst s) of ((n, data), c) \<Rightarrow>
           if n \<le> 0 then Inl (c, snd s) else Inr (overlay 16 data buffer, c, snd s))
      else Inr (buffer, s))"

text \<open>
  One round of the loop: \<open>Inl\<close> when it is left, otherwise the buffer and the state for the next round.
\<close>

definition connection_round :: "'w net_os \<Rightarrow> bytes \<Rightarrow> 'h registry \<Rightarrow> ('h, 'v) invoker \<Rightarrow> nat \<Rightarrow> bytes \<Rightarrow>
    ('w, 'v) server_state \<Rightarrow> server_fault + (('w, 'v) server_state + (bytes \<times> ('w, 'v) server_state))" where
  "connection_round os pad reg invoke max_request_size buffer s =
     (case rbind (conn_header os max_request_size buffer s)
             (\<lambda>(total_size, buffer2, s1). rbind (conn_body os total_size buffer2 s1)
               (\<lambda>(buffer3, s2). Inr (total_size, buffer3, s2))) of
        Inl s' \<Rightarrow> Inr (Inl s')
      | Inr (total_size, buffer3, s2) \<Rightarrow>
          rbind (handle_message pad reg invoke buffer3 total_size (snd s2)) (\<lambda>(response, t).
            if response = [] then Inr (Inr (buffer3, (fst s2, t)))
            else
              (case Connection_async_write os response (fst s2) of (n, c) \<Rightarrow>
                 if n \<le> 0 then Inr (Inl (c, t)) else Inr (Inr (buffer3, (c, t))))))"

partial_function (option) handle_connection :: "'w net_os \<Rightarrow> bytes \<Rightarrow> 'h registry \<Rightarrow> ('h, 'v) invoker \<Rightarrow> nat \<Rightarrow> bytes \<Rightarrow>
    ('w, 'v) server_state \<Rightarrow> (server_fault + ('w, 'v) server_state) option" where
  "handle_connection os pad reg invoke max_request_size buffer s =
     (if Connection_connected (fst (fst s)) then
        (case connection_round os pad reg invoke max_request_size buffer s of
           Inl f \<Rightarrow> Some (Inl f)
         | Inr (Inl s') \<Rightarrow> Some (Inr s')
         | Inr (Inr (buffer3, s')) \<Rightarrow> handle_connection os pad reg invoke max_request_size buffer3 s')
      else Some (Inr s))"

definition serve_connection :: "'w net_os \<Rightarrow> bytes \<Rightarrow> 'h registry \<Rightarrow> ('h, 'v) invoker \<Rightarrow> nat \<Rightarrow>
    ('w, 'v) server_state \<Rightarrow> (server_fault + ('w, 'v) server_state) option" where
  "serve_connection os pad reg invoke max_request_size s =
     handle_connection os pad reg invoke max_request_size (replicate 4096 0) s"

section \<open>Starting and stopping\<close>

text \<open>The server object owns its TCP server; the connection handler it installs is \<open>handle_connection\<close>.\<close>

record RpcServerConfig =
  rsc_host :: bytes
  rsc_port :: u16
  rsc_max_connections :: size_t
  rsc_timeout_ms :: int
  rsc_max_request_size :: size_t
  rsc_enable_metrics :: bool

definition RpcServerConfig_default :: RpcServerConfig where
  "RpcServerConfig_default = \<lparr>rsc_host = str_bytes ''0.0.0.0'', rsc_port = 9000, rsc_max_connections = 10000, rsc_timeout_ms = 30000,
     rsc_max_request_size = 10 * 1024 * 1024, rsc_enable_metrics = True\<rparr>"

record RpcServer =
  rs_config :: RpcServerConfig
  rs_running :: bool
  rs_tcp_server :: "TcpServer option"

definition RpcServer_ctor :: "RpcServerConfig \<Rightarrow> RpcServer" where
  "RpcServer_ctor config = \<lparr>rs_config = config, rs_running = False, rs_tcp_server = None\<rparr>"

definition RpcServer_start :: "'v net_os \<Rightarrow> 'v listen_os \<Rightarrow> RpcServer \<times> 'v \<Rightarrow> bool \<times> RpcServer \<times> 'v" where
  "RpcServer_start os lo s =
     (let (rs, v) = s
      in if rs_running rs then (True, s)
         else
           let config = TcpServerConfig_default\<lparr>tsc_host := rsc_host (rs_config rs), tsc_port := rsc_port (rs_config rs),
                 tsc_max_connections := rsc_max_connections (rs_config rs), tsc_read_timeout_ms := rsc_timeout_ms (rs_config rs)\<rparr>;
               (ok, (t, v'), _) = TcpServer_start os lo (set_connection_handler (TcpServer_ctor config), v)
           in (ok, rs\<lparr>rs_tcp_server := Some t, rs_running := ok\<rparr>, v'))"

definition RpcServer_stop :: "'v net_os \<Rightarrow> RpcServer \<times> 'v \<Rightarrow> RpcServer \<times> 'v" where
  "RpcServer_stop os s =
     (let (rs, v) = s
      in if \<not> rs_running rs then s
         else case rs_tcp_server rs of
             None \<Rightarrow> (rs\<lparr>rs_running := False\<rparr>, v)
           | Some t \<Rightarrow> (case TcpServer_stop os (t, v) of (t', v') \<Rightarrow> (rs\<lparr>rs_running := False, rs_tcp_server := Some t'\<rparr>, v')))"

definition RpcServer_dtor :: "'v net_os \<Rightarrow> RpcServer \<times> 'v \<Rightarrow> 'v" where
  "RpcServer_dtor os s = snd (RpcServer_stop os s)"

definition RpcServer_register_service :: "bytes \<Rightarrow> 'h registry \<Rightarrow> 'h registry" where
  "RpcServer_register_service name reg = register_service reg name"

definition RpcServer_active_connections :: "RpcServer \<Rightarrow> size_t" where
  "RpcServer_active_connections rs = (case rs_tcp_server rs of None \<Rightarrow> 0 | Some t \<Rightarrow> TcpServer_active_connections t)"

lemma RpcServer_start_stop:
  assumes "\<not> rs_running rs" "RpcServer_start os lo (rs, v) = (True, rs', v')"
  shows "\<exists>fd. 0 \<le> fd \<and> (case RpcServer_stop os (rs', v') of (rs2, v2) \<Rightarrow> \<not> rs_running rs2 \<and> v2 = os_close os fd v')"
  using assms
  by (auto simp: RpcServer_start_def RpcServer_stop_def TcpServer_start_def TcpServer_stop_def Let_def set_connection_handler_def
      TcpServer_ctor_def not_less split: prod.splits if_splits)

section \<open>What the server answers\<close>

text \<open>The specification of one request: the reply, the new statistics and the new state of the services.\<close>

definition answer :: "'h registry \<Rightarrow> ('h, 'v) invoker \<Rightarrow> RpcMessage \<Rightarrow> server_stats \<times> 'v \<Rightarrow> RpcMessage \<times> server_stats \<times> 'v" where
  "answer reg invoke req s =
     (case find_method reg (msg_service req) (msg_method req) of
        None \<Rightarrow> (create_error (msg_request_id req) EC_ServiceNotFound (str_bytes ''Service or method not found''),
                 count_request (fst s), snd s)
      | Some h \<Rightarrow>
          (case invoke h (msg_payload req) (snd s) of
             (Some r, v') \<Rightarrow> (create_response (msg_request_id req) r EC_OK, count_request (fst s), v')
           | (None, v') \<Rightarrow> (create_error (msg_request_id req) EC_Unknown (str_bytes ''Internal server error''),
                            count_error (count_request (fst s)), v')))"

fun answers :: "'h registry \<Rightarrow> ('h, 'v) invoker \<Rightarrow> RpcMessage list \<Rightarrow> server_stats \<times> 'v \<Rightarrow> RpcMessage list \<times> server_stats \<times> 'v" where
  "answers reg invoke [] s = ([], s)"
| "answers reg invoke (req # reqs) s =
     (let (m, s1) = answer reg invoke req s; (ms, s2) = answers reg invoke reqs s1 in (m # ms, s2))"

text \<open>A message a client can create.\<close>

definition is_request :: "RpcMessage \<Rightarrow> bool" where
  "is_request req \<longleftrightarrow> (\<exists>now i s m p t. req = create_request now i s m p t) \<and> wire_fits req"

lemma is_request_deserialize:
  assumes "is_request req" "length pad = 4"
  shows "RpcMessage_deserialize (wire_image pad req @ junk) (length (wire_image pad req)) RpcMessage_default =
    Inr (True, req\<lparr>msg_header := wire_header req\<rparr>)"
proof -
  obtain now i s m p t where r: "req = create_request now i s m p t" and f: "wire_fits req"
    using assms(1) by (auto simp: is_request_def)
  have k: "msg_has_type req MT_Request" "header_valid (msg_header req)" using created_simps r by auto
  show ?thesis
    using deserialize_image [OF k(2) f assms(2)] k(1) deserialize_request_image [OF k(1) f assms(2)]
    by (simp add: r create_request_def RpcMessage_default_def)
qed

lemma handle_message_answer:
  assumes "is_request req" "length pad = 4"
  shows "handle_message pad reg invoke (wire_image pad req @ junk) (length (wire_image pad req)) s =
    (case answer reg invoke req s of (m, s') \<Rightarrow> Inr (wire_image pad m, s'))"
proof -
  have "msg_has_type (req\<lparr>msg_header := wire_header req\<rparr>) MT_Request"
    using assms(1) created_simps by (auto simp: is_request_def msg_has_type_def wire_header_def)
  then show ?thesis
    using is_request_deserialize [OF assms, of junk] serialize_image [OF assms(2)]
    by (auto simp: handle_message_def answer_def split: prod.split option.split)
qed

lemma request_header:
  assumes "is_request req" "length pad = 4"
  shows "header_valid (wire_header req)" "wire_image pad req = header_bytes (wire_header req) @ wire_meta pad req @ msg_payload req"
    "16 < length (wire_image pad req)"
    "16 + unat (hdr_meta_len (wire_header req)) + unat (hdr_payload_len (wire_header req)) = length (wire_image pad req)"
proof -
  have req: "msg_has_type req MT_Request" "header_valid (wire_header req)" "wire_fits req"
    using assms(1) created_simps by (auto simp: is_request_def header_valid_def wire_header_def)
  then show "header_valid (wire_header req)" "16 < length (wire_image pad req)"
    using assms(2) by (simp_all add: wire_image_def length_wire_meta msg_meta_size_def)
  show "wire_image pad req = header_bytes (wire_header req) @ wire_meta pad req @ msg_payload req" by (simp add: wire_image_def)
  show "16 + unat (hdr_meta_len (wire_header req)) + unat (hdr_payload_len (wire_header req)) = length (wire_image pad req)"
    using image_total [OF req(3) assms(2), of RpcMessage_default] by (simp add: RpcMessage_total_size_def)
qed

section \<open>Whole reads\<close>

text \<open>
  The loop reads each part of a message with a single receive, so it relies on more than a byte stream: a receive
  returns all the bytes it asks for once they are there, and a send takes everything, up to a limit.
\<close>

locale whole_stream = byte_stream os strm sent frame for os :: "'w net_os" and strm sent and frame :: "'w \<Rightarrow> 'f" +
  fixes limit :: nat
  assumes recv_whole: "0 < sz \<Longrightarrow> sz \<le> length (strm w) \<Longrightarrow> sz \<le> limit \<Longrightarrow>
      \<exists>w'. os_recv os fd sz w = ((int sz, take sz (strm w)), w') \<and> strm w' = drop sz (strm w) \<and> sent w' = sent w \<and> frame w' = frame w"
    and send_whole: "data \<noteq> [] \<Longrightarrow> length data \<le> limit \<Longrightarrow>
      \<exists>w'. os_send os fd data w = (int (length data), w') \<and> sent w' = sent w @ data \<and> strm w' = strm w \<and> frame w' = frame w"
begin

lemma read_whole:
  assumes "Connection_connected c" "0 < sz" "sz \<le> limit" "strm w = xs @ ys" "length xs = sz"
  obtains w' where "Connection_async_read os sz (c, w) = ((int sz, xs), c, w')" "strm w' = ys" "sent w' = sent w" "frame w' = frame w"
proof -
  have "sz \<le> length (strm w)" using assms by simp
  from recv_whole [OF assms(2) this assms(3), of "cn_fd c"] obtain w' where
      "os_recv os (cn_fd c) sz w = ((int sz, xs), w')" "strm w' = ys" "sent w' = sent w" "frame w' = frame w"
    using assms(4,5) by auto
  with assms(1,2) show ?thesis by (intro that [of w']) (simp_all add: Connection_async_read_def)
qed

text \<open>The two reads of a round on a request that has arrived: its header, and its rest behind the header.\<close>

lemma header_reads:
  assumes c: "Connection_connected c" and r: "is_request req" and p: "length pad = 4"
    and max: "length (wire_image pad req) \<le> max_request_size" and lim: "length (wire_image pad req) \<le> limit"
    and str: "strm w = wire_image pad req @ rest"
  obtains w' buffer' where
      "conn_header os max_request_size buffer ((c, w), t) = Inr (length (wire_image pad req), buffer', (c, w'), t)"
    and "take 16 buffer' = take 16 (wire_image pad req)"
    and "strm w' = drop 16 (wire_image pad req) @ rest" "sent w' = sent w" "frame w' = frame w"
proof -
  let ?img = "wire_image pad req" and ?h = "header_bytes (wire_header req)"
  note req = request_header [OF r p]
  have parts: "take 16 ?img = ?h" "length ?h = 16" using req(2) by simp_all
  obtain w1 where w1: "Connection_async_read os 16 (c, w) = ((int 16, ?h), c, w1)" "strm w1 = drop 16 ?img @ rest" "sent w1 = sent w"
      "frame w1 = frame w"
    using lim str req(3) parts
    by (elim read_whole [OF c, of 16 w ?h "drop 16 ?img @ rest", rotated 4]) (simp_all, metis append_assoc append_take_drop_id)
  let ?b1 = "overlay 0 ?h buffer"
  let ?b2 = "if length ?b1 < length ?img then ?b1 @ replicate (length ?img - length ?b1) 0 else ?b1"
  have "take 16 ?b2 = take 16 ?img" unfolding parts by (auto simp: overlay_def)
  moreover have "conn_header os max_request_size buffer ((c, w), t) = Inr (length ?img, ?b2, (c, w1), t)"
    using w1(1) req(1,4) max by (simp add: conn_header_def overlay_def Let_def)
  ultimately show ?thesis using w1(2-4) by (intro that [of ?b2 w1]) simp_all
qed

lemma body_reads:
  assumes c: "Connection_connected c" and r: "is_request req" and p: "length pad = 4" and lim: "length (wire_image pad req) \<le> limit"
    and str: "strm w = drop 16 (wire_image pad req) @ rest" and buf: "take 16 buffer = take 16 (wire_image pad req)"
  obtains w' junk where "conn_body os (length (wire_image pad req)) buffer ((c, w), t) = Inr (wire_image pad req @ junk, (c, w'), t)"
    and "strm w' = rest" "sent w' = sent w" "frame w' = frame w"
proof -
  let ?img = "wire_image pad req" and ?t = "drop 16 (wire_image pad req)"
  note req = request_header [OF r p]
  obtain w2 where w2: "Connection_async_read os (length ?img - 16) (c, w) = ((int (length ?img - 16), ?t), c, w2)"
      "strm w2 = rest" "sent w2 = sent w" "frame w2 = frame w"
    using lim str req(3) by (elim read_whole [OF c, of "length ?img - 16" w ?t rest, rotated 4]) simp_all
  have "overlay 16 ?t buffer = ?img @ drop (16 + length ?t) buffer" unfolding overlay_def buf by simp
  then have "conn_body os (length ?img) buffer ((c, w), t) = Inr (?img @ drop (16 + length ?t) buffer, (c, w2), t)"
    using w2(1) req(3) by (simp add: conn_body_def)
  then show ?thesis using w2(2-4) by (intro that)
qed

text \<open>A whole round on a request: the reply is sent and the loop goes on.\<close>

lemma round_answers:
  assumes c: "Connection_connected c" and r: "is_request req" and p: "length pad = 4"
    and max: "length (wire_image pad req) \<le> max_request_size" and lim: "length (wire_image pad req) \<le> limit"
    and str: "strm w = wire_image pad req @ rest"
    and a: "answer reg invoke req t = (m, t1)" and lm: "length (wire_image pad m) \<le> limit"
  obtains w' buffer' where "connection_round os pad reg invoke max_request_size buffer ((c, w), t) = Inr (Inr (buffer', (c, w'), t1))"
    and "strm w' = rest" "sent w' = sent w @ wire_image pad m" "frame w' = frame w"
proof -
  obtain w0 b where hd: "conn_header os max_request_size buffer ((c, w), t) = Inr (length (wire_image pad req), b, (c, w0), t)"
      "take 16 b = take 16 (wire_image pad req)"
      "strm w0 = drop 16 (wire_image pad req) @ rest" "sent w0 = sent w" "frame w0 = frame w"
    by (rule header_reads [OF c r p max lim str])
  obtain w1 junk where bd: "conn_body os (length (wire_image pad req)) b ((c, w0), t) = Inr (wire_image pad req @ junk, (c, w1), t)"
      "strm w1 = rest" "sent w1 = sent w0" "frame w1 = frame w0"
    by (rule body_reads [OF c r p lim hd(3,2)])
  have hm: "handle_message pad reg invoke (wire_image pad req @ junk) (length (wire_image pad req)) t = Inr (wire_image pad m, t1)"
    using handle_message_answer [OF r p, of reg invoke junk t] a by simp
  have ne: "wire_image pad m \<noteq> []" by (simp add: wire_image_def header_bytes_def)
  obtain w2 where w2: "os_send os (cn_fd c) (wire_image pad m) w1 = (int (length (wire_image pad m)), w2)"
      "sent w2 = sent w1 @ wire_image pad m" "strm w2 = strm w1" "frame w2 = frame w1" using send_whole [OF ne lm] by metis
  have wr: "Connection_async_write os (wire_image pad m) (c, w1) = (int (length (wire_image pad m)), c, w2)"
    using c w2(1) ne by (simp add: Connection_async_write_def)
  have "connection_round os pad reg invoke max_request_size buffer ((c, w), t) =
      Inr (Inr (wire_image pad req @ junk, (c, w2), t1))"
    using hd(1) bd(1) hm wr ne by (simp add: connection_round_def)
  then show ?thesis using hd(4,5) bd(2-4) w2 by (intro that [of "wire_image pad req @ junk" w2]) simp_all
qed

text \<open>
  All requests of a stream are answered in order; at its end the connection is closed: its descriptor is closed and its
  callback runs.
\<close>

lemma serves_requests:
  assumes "Connection_connected c" "length pad = 4"
    and "\<And>req. req \<in> set reqs \<Longrightarrow> is_request req \<and> length (wire_image pad req) \<le> max_request_size \<and> length (wire_image pad req) \<le> limit"
    and "\<And>m. m \<in> set (fst (answers reg invoke reqs t)) \<Longrightarrow> length (wire_image pad m) \<le> limit"
    and "strm w = concat (map (wire_image pad) reqs)"
  shows "\<exists>w'. handle_connection os pad reg invoke max_request_size buffer ((c, w), t) =
      Some (Inr (Connection_close os (c, w'), snd (answers reg invoke reqs t))) \<and>
    sent w' = sent w @ concat (map (wire_image pad) (fst (answers reg invoke reqs t))) \<and> frame w' = frame w"
  using assms(3-5)
proof (induction reqs arbitrary: w t buffer)
  case Nil
  from recv_end [of w "cn_fd c" 16] Nil.prems(3) obtain n w1 where "n \<le> 0" "os_recv os (cn_fd c) 16 w = ((n, []), w1)"
      "sent w1 = sent w" "frame w1 = frame w" by auto
  moreover from this have "Connection_async_read os 16 (c, w) = ((n, []), Connection_close os (c, w1))"
    using assms(1) by (simp add: Connection_async_read_def handle_error_def)
  ultimately show ?case
    using assms(1)
    by (subst handle_connection.simps) (auto simp: connection_round_def conn_header_def split: prod.split)
next
  case (Cons req reqs)
  obtain m t1 where a: "answer reg invoke req t = (m, t1)" by (cases "answer reg invoke req t")
  let ?ms = "fst (answers reg invoke reqs t1)" and ?t = "snd (answers reg invoke reqs t1)"
  have as: "answers reg invoke (req # reqs) t = (m # ?ms, ?t)" using a by (simp add: split_beta)
  note req = Cons.prems(1) [of req, simplified]
  obtain w2 buffer' where rd: "connection_round os pad reg invoke max_request_size buffer ((c, w), t) = Inr (Inr (buffer', (c, w2), t1))"
      "strm w2 = concat (map (wire_image pad) reqs)" "sent w2 = sent w @ wire_image pad m" "frame w2 = frame w"
    by (rule round_answers [OF assms(1) _ assms(2), of req max_request_size w "concat (map (wire_image pad) reqs)" reg invoke t m t1])
      (use req Cons.prems(2,3) a as in simp_all)
  have "\<exists>w'. handle_connection os pad reg invoke max_request_size buffer' ((c, w2), t1) = Some (Inr (Connection_close os (c, w'), ?t)) \<and>
      sent w' = sent w2 @ concat (map (wire_image pad) ?ms) \<and> frame w' = frame w2"
    by (rule Cons.IH) (use Cons.prems(1,2) as rd in auto)
  moreover have "handle_connection os pad reg invoke max_request_size buffer ((c, w), t) =
      handle_connection os pad reg invoke max_request_size buffer' ((c, w2), t1)"
    using assms(1) rd(1) by (subst handle_connection.simps) simp
  ultimately show ?case using rd(3,4) as by auto
qed

end

interpretation whole: whole_stream "stream_os k" sw_in sw_out sw_closed "Suc k"
  by unfold_locales (auto simp: stream_os_def Let_def min_def)

interpretation lifted: whole_stream "lift_os (stream_os k)" "\<lambda>w. sw_in (snd w)" "\<lambda>w. sw_out (snd w)" fst "Suc k"
proof
  fix sz :: nat and w :: "stream_world tcp_world" and fd assume a: "0 < sz" "sw_in (snd w) \<noteq> []"
  let ?n = "min (min sz (Suc k)) (length (sw_in (snd w)))"
  show "\<exists>n w'. 0 < n \<and> n \<le> sz \<and> n \<le> length (sw_in (snd w)) \<and>
      os_recv (lift_os (stream_os k)) fd sz w = ((int n, take n (sw_in (snd w))), w') \<and>
      sw_in (snd w') = drop n (sw_in (snd w)) \<and> sw_out (snd w') = sw_out (snd w) \<and> fst w' = fst w"
    using a by (intro exI [of _ ?n]) (simp add: lift_os_def stream_os_def Let_def split_beta min.coboundedI1)
next
  fix data :: bytes and fd and w :: "stream_world tcp_world" assume "data \<noteq> []"
  then show "\<exists>n w'. 0 < n \<and> n \<le> length data \<and> os_send (lift_os (stream_os k)) fd data w = (int n, w') \<and>
      sw_out (snd w') = sw_out (snd w) @ take n data \<and> sw_in (snd w') = sw_in (snd w) \<and> fst w' = fst w"
    by (intro exI [of _ "min (Suc k) (length data)"]) (simp add: lift_os_def stream_os_def Let_def split_beta)
qed (auto simp: lift_os_def stream_os_def Let_def split_beta min_def)

section \<open>Properties\<close>


text \<open>An echo service with one method, which counts its calls, and a request to it.\<close>

definition echo_registry :: "unit registry" where
  "echo_registry = register_method [] (str_bytes ''Echo'') (str_bytes ''echo'') (Some ()) []"

definition echo_invoke :: "(unit, nat) invoker" where
  "echo_invoke h p v = (Some p, Suc v)"

definition echo_request :: RpcMessage where
  "echo_request = create_request 5 1 (str_bytes ''Echo'') (str_bytes ''echo'') [42] 30000"

lemma echo_request_ok: "is_request echo_request" "length (wire_image [0, 0, 0, 0] echo_request) = 57"
proof -
  have f: "wire_fits echo_request" "length (wire_image [0, 0, 0, 0] echo_request) = 57"
    by (simp_all add: echo_request_def wire_fits_def length_wire_image msg_meta_size_def msg_has_type_def header_init_def
        create_request_def RpcMessage_default_def str_bytes_def)
  then show "is_request echo_request" "length (wire_image [0, 0, 0, 0] echo_request) = 57"
    by (simp_all only: is_request_def simp_thms) (unfold echo_request_def, blast)
qed

lemma echo_answers: "answers echo_registry echo_invoke [echo_request] (\<lparr>sv_total_requests = 0, sv_total_errors = 0\<rparr>, 0) =
  ([create_response 1 [42] EC_OK], \<lparr>sv_total_requests = 1, sv_total_errors = 0\<rparr>, 1)"
  by code_simp

definition quiet_listener :: "int \<Rightarrow> stream_world listen_os" where
  "quiet_listener fd = \<lparr>lo_setsockopt = (\<lambda>_ _ v. v), lo_bind = (\<lambda>_ _ _ v. (0, v)), lo_listen = (\<lambda>_ _ v. (0, v)), lo_accept = (\<lambda>_ v. (fd, v))\<rparr>"


text \<open>
  It fails as soon as the transport splits the header: the loop takes one byte for the whole header and reads
  the other fifteen from the stale buffer, finds no magic number, counts an error and stops serving the
  connection without a reply and without closing it.
\<close>

theorem server_short_read_fails:
  assumes "Connection_connected c" "is_request req" "length pad = 4" "sw_in w = wire_image pad req @ rest"
  shows "\<exists>w'. serve_connection (stream_os 0) pad reg invoke max_request_size ((c, w), (st, v)) =
      Some (Inr ((c, w'), (count_error st, v))) \<and> sw_out w' = sw_out w"
proof -
  have h: "wire_image pad req = 0x50 # tl (wire_image pad req)"
    using assms(2) by (auto simp: is_request_def wire_image_def header_bytes_def le_bytes_def wire_header_def
        create_request_def header_init_def kMagic_def upt_rec)
  then obtain bs where i: "sw_in w = 0x50 # bs" using assms(4) by (metis append_Cons)
  then have r: "Connection_async_read (stream_os 0) 16 (c, w) = ((1, [0x50]), c, w\<lparr>sw_in := bs\<rparr>)"
    using assms(1) by (simp add: Connection_async_read_def stream_os_def)
  have "hdr_magic (header_of_bytes (0x50 # replicate 15 0)) = 0x50"
    by code_simp
  then have "\<not> header_valid (header_of_bytes (take 16 (overlay 0 [0x50] (replicate 4096 0))))"
    by (simp add: header_valid_def kMagic_def overlay_def take_Cons' )
  then show ?thesis
    unfolding serve_connection_def using assms(1) r
    by (subst handle_connection.simps) (simp add: connection_round_def conn_header_def)
qed

theorem server_short_read_fails_witness:
  "\<exists>w'. serve_connection (stream_os 0) [0, 0, 0, 0] echo_registry echo_invoke 1000
      ((conn_ex, \<lparr>sw_in = wire_image [0, 0, 0, 0] echo_request @ [], sw_out = [], sw_closed = []\<rparr>), (\<lparr>sv_total_requests = 0, sv_total_errors = 0\<rparr>, 0)) =
      Some (Inr ((conn_ex, w'), (count_error \<lparr>sv_total_requests = 0, sv_total_errors = 0\<rparr>, 0))) \<and> sw_out w' = []"
  using server_short_read_fails [of conn_ex echo_request "[0, 0, 0, 0]"
      "\<lparr>sw_in = wire_image [0, 0, 0, 0] echo_request @ [], sw_out = [], sw_closed = []\<rparr>" "[]"] echo_request_ok(1)
  by (simp add: conn_ex_def Connection_connected_def)

text \<open>
  What the server does with the other messages. A message it cannot deserialize gets no reply and counts as an
  error. A heartbeat is answered with an empty response that carries request id 0, not the id of the
  heartbeat: the id is lost on the wire. Other types get no reply.
\<close>

theorem handle_message_other:
  assumes "length pad = 4"
  shows "(sz < 16 \<longrightarrow> handle_message pad reg invoke data sz (st, v) = Inr ([], count_error st, v)) \<and>
    (msg_has_type msg MT_Heartbeat \<and> header_valid (msg_header msg) \<and> wire_fits msg \<and> msg_payload msg = [] \<longrightarrow>
      handle_message pad reg invoke (wire_image pad msg @ junk) (length (wire_image pad msg)) (st, v) =
        Inr (wire_image pad (create_response 0 [] EC_OK), count_request st, v))"
proof (intro conjI impI)
  show "sz < 16 \<Longrightarrow> handle_message pad reg invoke data sz (st, v) = Inr ([], count_error st, v)"
    by (simp add: handle_message_def RpcMessage_deserialize_def)
  assume m: "msg_has_type msg MT_Heartbeat \<and> header_valid (msg_header msg) \<and> wire_fits msg \<and> msg_payload msg = []"
  then have "\<not> msg_has_type msg MT_Request" "\<not> msg_has_type msg MT_Response" by (simp_all add: msg_has_type_def)
  then have "RpcMessage_deserialize (wire_image pad msg @ junk) (length (wire_image pad msg)) RpcMessage_default =
      Inr (True, RpcMessage_default\<lparr>msg_header := wire_header msg\<rparr>)"
    using deserialize_image [of msg pad junk RpcMessage_default] m assms
    by (simp add: deserialize_payload_def wire_header_def)
  then show "handle_message pad reg invoke (wire_image pad msg @ junk) (length (wire_image pad msg)) (st, v) =
      Inr (wire_image pad (create_response 0 [] EC_OK), count_request st, v)"
    using m serialize_image [OF assms, of "create_response 0 [] EC_OK"]
    by (simp add: handle_message_def msg_has_type_def wire_header_def RpcMessage_default_def)
qed

theorem handle_message_other_witness:
  "handle_message [0, 0, 0, 0] echo_registry echo_invoke [1, 2] 2 (\<lparr>sv_total_requests = 0, sv_total_errors = 0\<rparr>, 0) =
     Inr ([], count_error \<lparr>sv_total_requests = 0, sv_total_errors = 0\<rparr>, 0)"
  using handle_message_other [of "[0, 0, 0, 0]" 2 echo_registry echo_invoke "[1, 2]" "\<lparr>sv_total_requests = 0, sv_total_errors = 0\<rparr>" 0]
  by simp

end
