(* ===== verification/Rpc_Client.thy ===== *)
theory Rpc_Client
  imports Rpc_Server
begin

text \<open>
  The client of \<open>rpc/rpc_client.hpp\<close>. The TCP client it sends through is a parameter: its \<open>send\<close> and \<open>recv\<close>, over
  an abstract world. The template \<open>call\<close> names a function \<open>RpcResult::error\<close> that does not exist; it is
  modelled with \<open>make_error\<close>, which has the same parameters.
\<close>

section \<open>Results and configuration\<close>

record 'a RpcResult =
  res_success :: bool
  res_value :: "'a option"
  res_error_code :: u32
  res_error_message :: bytes

definition RpcResult_ok :: "'a \<Rightarrow> 'a RpcResult" where
  "RpcResult_ok value = \<lparr>res_success = True, res_value = Some value, res_error_code = error_code_val EC_OK, res_error_message = []\<rparr>"

definition RpcResult_make_error :: "u32 \<Rightarrow> bytes \<Rightarrow> 'a RpcResult" where
  "RpcResult_make_error code msg = \<lparr>res_success = False, res_value = None, res_error_code = code, res_error_message = msg\<rparr>"

record RpcClient =
  rc_timeout_ms :: u32
  rc_request_id :: u64

definition next_request_id :: "RpcClient \<Rightarrow> u64 \<times> RpcClient" where
  "next_request_id cl = (rc_request_id cl, cl\<lparr>rc_request_id := rc_request_id cl + 1\<rparr>)"

record 'w transport =
  tp_send :: "bytes \<Rightarrow> 'w \<Rightarrow> int \<times> 'w"
  tp_recv :: "nat \<Rightarrow> 'w \<Rightarrow> (int \<times> bytes) \<times> 'w"

section \<open>Calls\<close>

text \<open>The response: header, rest of the message, both into one buffer; \<open>Inl\<close> is an early return.\<close>

definition recv_response :: "'w transport \<Rightarrow> 'w \<Rightarrow> ('a RpcResult \<times> 'w) + (nat \<times> bytes \<times> 'w)" where
  "recv_response tp w =
     (let lost = (\<lambda>w. Inl (RpcResult_make_error (error_code_val EC_ConnectionError) (str_bytes ''Failed to receive response''), w))
      in case tp_recv tp 16 w of ((n, data), w1) \<Rightarrow>
           if n \<le> 0 then lost w1
           else
             let buffer = overlay 0 data (replicate 4096 0);
                 header = header_of_bytes (take 16 buffer);
                 total_size = 16 + unat (hdr_meta_len header) + unat (hdr_payload_len header);
                 buffer1 = (if length buffer < total_size then buffer @ replicate (total_size - length buffer) 0 else buffer)
             in if \<not> header_valid header
                then Inl (RpcResult_make_error (error_code_val EC_InvalidRequest) (str_bytes ''Invalid response header''), w1)
                else if 0 < total_size - 16 then
                  (case tp_recv tp (total_size - 16) w1 of ((n2, data2), w2) \<Rightarrow>
                     if n2 \<le> 0 then lost w2 else Inr (total_size, overlay 16 data2 buffer1, w2))
                else Inr (total_size, buffer1, w1))"

text \<open>The result a response message gives.\<close>

definition result_of :: "'a decoder \<Rightarrow> RpcMessage \<Rightarrow> 'a RpcResult" where
  "result_of dec response =
     (if msg_error_code response \<noteq> error_code_val EC_OK
      then RpcResult_make_error (msg_error_code response) (msg_error_message response)
      else case deserialize dec (msg_payload response) of (ok, result) \<Rightarrow>
        if \<not> ok then RpcResult_make_error (error_code_val EC_SerializationError) (str_bytes ''Failed to deserialize result'')
        else RpcResult_ok (the result))"

definition rpc_call :: "'w transport \<Rightarrow> bytes \<Rightarrow> u64 \<Rightarrow> (bytes \<Rightarrow> 'q \<Rightarrow> bytes) \<Rightarrow> 'a decoder \<Rightarrow> bytes \<Rightarrow> bytes \<Rightarrow> 'q \<Rightarrow>
    RpcClient \<times> 'w \<Rightarrow> server_fault + ('a RpcResult \<times> RpcClient \<times> 'w)" where
  "rpc_call tp pad now enc dec service method request s =
     (let request_data = serialize enc request;
          (rid, cl) = next_request_id (fst s);
          msg = create_request now rid service method request_data (rc_timeout_ms cl)
      in rbind (or_fail BadWrite (RpcMessage_serialize pad msg)) (\<lambda>buffer.
         case tp_send tp buffer (snd s) of (n, w1) \<Rightarrow>
           if n \<le> 0 then Inr (RpcResult_make_error (error_code_val EC_ConnectionError) (str_bytes ''Failed to send request''), cl, w1)
           else case recv_response tp w1 of
               Inl (res, w2) \<Rightarrow> Inr (res, cl, w2)
             | Inr (total_size, response_buffer, w2) \<Rightarrow>
                 (case RpcMessage_deserialize response_buffer total_size RpcMessage_default of
                    Inl _ \<Rightarrow> Inl BadRead
                  | Inr (ok, response) \<Rightarrow>
                      if \<not> ok then Inr (RpcResult_make_error (error_code_val EC_SerializationError)
                             (str_bytes ''Failed to deserialize response''), cl, w2)
                      else Inr (result_of dec response, cl, w2))))"

definition async_call :: "'w transport \<Rightarrow> bytes \<Rightarrow> u64 \<Rightarrow> (bytes \<Rightarrow> 'q \<Rightarrow> bytes) \<Rightarrow> bytes \<Rightarrow> bytes \<Rightarrow> 'q \<Rightarrow>
    RpcClient \<times> 'w \<Rightarrow> server_fault + (bool \<times> RpcClient \<times> 'w)" where
  "async_call tp pad now enc service method request s =
     (let request_data = serialize enc request;
          (rid, cl) = next_request_id (fst s);
          msg = create_request now rid service method request_data (rc_timeout_ms cl)
      in rbind (or_fail BadWrite (RpcMessage_serialize pad msg)) (\<lambda>buffer.
         case tp_send tp buffer (snd s) of (n, w1) \<Rightarrow> Inr (0 < n, cl, w1)))"

section \<open>Client and server together\<close>

text \<open>
  A transport whose other end is a server: what is sent is handled as one message, and the reply waits to be
  received. The world is the server and the bytes on their way back.
\<close>

definition loopback :: "bytes \<Rightarrow> 'h registry \<Rightarrow> ('h, 'v) invoker \<Rightarrow> ((server_stats \<times> 'v) \<times> bytes) transport" where
  "loopback pad reg invoke = \<lparr>
     tp_send = (\<lambda>bs w. case handle_message pad reg invoke bs (length bs) (fst w) of
        Inl _ \<Rightarrow> (-1, w) | Inr (resp, s') \<Rightarrow> (int (length bs), (s', snd w @ resp))),
     tp_recv = (\<lambda>sz w. let n = min sz (length (snd w)) in ((int n, take n (snd w)), (fst w, drop n (snd w))))\<rparr>"

definition is_reply :: "RpcMessage \<Rightarrow> bool" where
  "is_reply m \<longleftrightarrow> ((\<exists>i p e. m = create_response i p e) \<or> (\<exists>i e t. m = create_error i e t)) \<and> wire_fits m"

lemma is_reply_deserialize:
  assumes "is_reply m" "length pad = 4"
  shows "RpcMessage_deserialize (wire_image pad m @ junk) (length (wire_image pad m)) RpcMessage_default =
    Inr (True, m\<lparr>msg_header := wire_header m\<rparr>)"
proof -
  have k: "\<not> msg_has_type m MT_Request" "msg_has_type m MT_Response" "header_valid (msg_header m)" "wire_fits m"
    using assms(1) created_simps by (auto simp: is_reply_def)
  show ?thesis
    using deserialize_image [OF k(3,4) assms(2)] k(1,2) deserialize_response_image [OF k(1,4)] assms(1)
    by (auto simp: is_reply_def create_response_def create_error_def RpcMessage_default_def)
qed

lemma recv_response_whole:
  assumes "is_reply m" "length pad = 4"
    and r1: "tp_recv tp 16 w = ((16, take 16 (wire_image pad m)), w1)"
    and r2: "tp_recv tp (length (wire_image pad m) - 16) w1 =
      ((int (length (wire_image pad m) - 16), drop 16 (wire_image pad m)), w2)"
  shows "\<exists>junk. recv_response tp w = Inr (length (wire_image pad m), wire_image pad m @ junk, w2)"
proof -
  let ?img = "wire_image pad m" and ?h = "header_bytes (wire_header m)" and ?t = "wire_meta pad m @ msg_payload m"
  have k: "header_valid (wire_header m)" "wire_fits m" "\<not> msg_has_type m MT_Request"
    using assms(1) created_simps by (auto simp: is_reply_def header_valid_def wire_header_def)
  have img: "?img = ?h @ ?t" by (simp add: wire_image_def)
  have tl: "length ?t = length ?img - 16" "0 < length ?t"
    using k(3) assms(2) by (simp_all add: img length_wire_meta msg_meta_size_def)
  have tot: "16 + unat (hdr_meta_len (wire_header m)) + unat (hdr_payload_len (wire_header m)) = length ?img"
    using image_total [OF k(2) assms(2), of RpcMessage_default] by (simp add: RpcMessage_total_size_def)
  have parts: "take 16 ?img = ?h" "drop 16 ?img = ?t" by (simp_all add: img)
  let ?b = "overlay 0 ?h (replicate 4096 0)"
  let ?b1 = "if length ?b < length ?img then ?b @ replicate (length ?img - length ?b) 0 else ?b"
  have b1: "take 16 ?b1 = ?h" by (simp add: overlay_def)
  have "overlay 16 ?t ?b1 = ?img @ drop (16 + length ?t) ?b1" unfolding overlay_def b1 img by simp
  moreover have "header_of_bytes (take 16 ?b) = wire_header m" by (simp add: overlay_def)
  ultimately show ?thesis
    using r1 r2 k(1) tot tl by (auto simp: recv_response_def Let_def parts)
qed

lemma created_is_reply:
  "wire_fits (create_response i p e) \<Longrightarrow> is_reply (create_response i p e)"
  "wire_fits (create_error i e t) \<Longrightarrow> is_reply (create_error i e t)"
  unfolding is_reply_def by blast+

lemma answer_is_reply:
  assumes "wire_fits (fst (answer reg invoke req s))"
  shows "is_reply (fst (answer reg invoke req s))"
  using assms by (auto simp: answer_def intro: created_is_reply split: option.splits prod.splits)

section \<open>Transports that end at a server\<close>

text \<open>
  The contract between the client and whatever carries its messages: \<open>at_rest s w\<close> says that nothing is on its way in the
  world \<open>w\<close> and the server's state is \<open>s\<close>. A request that was sent is answered: two receives, one of the header and one of
  the rest, give the reply of the server, and the world is at rest again. \<open>fits\<close> is what the transport carries in one piece.
\<close>

locale answering_transport =
  fixes tp :: "'w transport" and pad :: bytes and reg :: "'h registry" and invoke :: "('h, 'v) invoker"
    and at_rest :: "server_stats \<times> 'v \<Rightarrow> 'w \<Rightarrow> bool" and fits :: "RpcMessage \<Rightarrow> bool"
  assumes exchange: "length pad = 4 \<Longrightarrow> at_rest s w \<Longrightarrow> is_request req \<Longrightarrow> fits req \<Longrightarrow> answer reg invoke req s = (m, s') \<Longrightarrow> fits m \<Longrightarrow>
      \<exists>n w1 w2 w3. 0 < n \<and> tp_send tp (wire_image pad req) w = (n, w1) \<and>
        tp_recv tp 16 w1 = ((16, take 16 (wire_image pad m)), w2) \<and>
        tp_recv tp (length (wire_image pad m) - 16) w2 =
          ((int (length (wire_image pad m) - 16), drop 16 (wire_image pad m)), w3) \<and> at_rest s' w3"
begin

lemma call_answered:
  fixes dec :: "'a decoder"
  assumes "length pad = 4" "at_rest s w" "is_request req"
    and "req = create_request now (rc_request_id cl) service method (serialize enc q) (rc_timeout_ms cl)"
    and "answer reg invoke req s = (m, s')" "wire_fits m" "fits req" "fits m"
  shows "\<exists>w'. rpc_call tp pad now enc dec service method q (cl, w) =
      Inr (result_of dec m, cl\<lparr>rc_request_id := rc_request_id cl + 1\<rparr>, w') \<and> at_rest s' w'"
proof -
  have m: "is_reply m" using answer_is_reply [of reg invoke req s] assms(5,6) by simp
  obtain n w1 w2 w3 where x: "0 < n" "tp_send tp (wire_image pad req) w = (n, w1)"
      "tp_recv tp 16 w1 = ((16, take 16 (wire_image pad m)), w2)"
      "tp_recv tp (length (wire_image pad m) - 16) w2 = ((int (length (wire_image pad m) - 16), drop 16 (wire_image pad m)), w3)"
      "at_rest s' w3"
    using exchange [OF assms(1-3,7,5,8)] by blast
  obtain junk where j: "(recv_response tp w1 :: ('a RpcResult \<times> _) + _) =
      Inr (length (wire_image pad m), wire_image pad m @ junk, w3)"
    using recv_response_whole [OF m assms(1) x(3,4)] by blast
  have "result_of dec (m\<lparr>msg_header := wire_header m\<rparr>) = result_of dec m" by (simp add: result_of_def)
  then show ?thesis
    using x(1,2,5) j is_reply_deserialize [OF m assms(1)] serialize_image [OF assms(1), of req] assms(4)
    by (simp add: rpc_call_def next_request_id_def Let_def)
qed

end

interpretation loopback: answering_transport "loopback pad reg invoke" pad reg invoke "\<lambda>s w. w = (s, [])" "\<lambda>_. True"
proof
  fix s :: "server_stats \<times> 'b" and w :: "(server_stats \<times> 'b) \<times> bytes" and req m s'
  assume a: "length pad = 4" "w = (s, [])" "is_request req" "answer reg invoke req s = (m, s')"
  let ?img = "wire_image pad m" and ?tp = "loopback pad reg invoke"
  have "tp_send ?tp (wire_image pad req) w = (int (length (wire_image pad req)), (s', ?img))"
    using handle_message_answer [OF a(3,1), of reg invoke "[]" s] a(2,4) by (simp add: loopback_def)
  moreover have "0 < int (length (wire_image pad req))" "16 \<le> length ?img" by (simp_all add: wire_image_def)
  moreover from this have "tp_recv ?tp 16 (s', ?img) = ((16, take 16 ?img), (s', drop 16 ?img))"
    by (simp add: loopback_def)
  moreover have "tp_recv ?tp (length ?img - 16) (s', drop 16 ?img) = ((int (length ?img - 16), drop 16 ?img), (s', []))"
    by (simp add: loopback_def)
  ultimately show "\<exists>n w1 w2 w3. 0 < n \<and> tp_send ?tp (wire_image pad req) w = (n, w1) \<and>
      tp_recv ?tp 16 w1 = ((16, take 16 ?img), w2) \<and>
      tp_recv ?tp (length ?img - 16) w2 = ((int (length ?img - 16), drop 16 ?img), w3) \<and> w3 = (s', [])"
    by blast
qed

lemma call_loopback:
  assumes "length pad = 4" "is_request req" "req = create_request now (rc_request_id cl) service method (serialize enc q) (rc_timeout_ms cl)"
    and "answer reg invoke req s = (m, s')" "wire_fits m"
  shows "rpc_call (loopback pad reg invoke) pad now enc dec service method q (cl, (s, [])) =
    Inr (result_of dec m, cl\<lparr>rc_request_id := rc_request_id cl + 1\<rparr>, (s', []))"
  using loopback.call_answered [OF assms(1) refl assms(2-5), of dec] by auto

section \<open>Properties\<close>

text \<open>
  End to end: a call through a connection to the server returns the value the handler returned, decoded with the
  codec of the response type; when the handler throws or the method does not exist it returns the error
  code and text the server put into its reply. The server has counted the request, the client used up one
  request id and nothing is left on the connection.
\<close>

theorem call_end_to_end:
  assumes "length pad = 4"
    and "req = create_request now (rc_request_id cl) service method (serialize enc q) (rc_timeout_ms cl)" "wire_fits req"
    and "codec encr dec fits" "fits r"
    and "wire_fits (create_response (rc_request_id cl) (serialize encr r) EC_OK)"
  shows "(find_method reg service method = Some h \<and> invoke h (serialize enc q) v = (Some (serialize encr r), v') \<longrightarrow>
      rpc_call (loopback pad reg invoke) pad now enc dec service method q (cl, ((st, v), [])) =
        Inr (RpcResult_ok r, cl\<lparr>rc_request_id := rc_request_id cl + 1\<rparr>, ((count_request st, v'), []))) \<and>
    (find_method reg service method = Some h \<and> invoke h (serialize enc q) v = (None, v') \<longrightarrow>
      rpc_call (loopback pad reg invoke) pad now enc dec service method q (cl, ((st, v), [])) =
        Inr (RpcResult_make_error (error_code_val EC_Unknown) (str_bytes ''Internal server error''),
          cl\<lparr>rc_request_id := rc_request_id cl + 1\<rparr>, ((count_error (count_request st), v'), []))) \<and>
    (find_method reg service method = None \<longrightarrow>
      rpc_call (loopback pad reg invoke) pad now enc dec service method q (cl, ((st, v), [])) =
        Inr (RpcResult_make_error (error_code_val EC_ServiceNotFound) (str_bytes ''Service or method not found''),
          cl\<lparr>rc_request_id := rc_request_id cl + 1\<rparr>, ((count_request st, v), [])))"
proof -
  have req: "is_request req" unfolding is_request_def using assms(2,3) by blast
  note call = call_loopback [OF assms(1) req assms(2), of reg invoke "(st, v)"]
  have fields: "msg_service req = service" "msg_method req = method" "msg_request_id req = rc_request_id cl"
      "msg_payload req = serialize enc q"
    by (simp_all add: assms(2) create_request_def)
  have fits: "wire_fits (create_error i e (str_bytes ''Internal server error''))"
      "wire_fits (create_error i e (str_bytes ''Service or method not found''))" for i e
    by (simp_all add: wire_fits_def msg_meta_size_def msg_has_type_def create_error_def header_init_def RpcMessage_default_def str_bytes_def)
  have dec: "deserialize dec (serialize encr r) = (True, Some r)"
    using codec.dec_enc [OF assms(4,5), of "[]"] by (simp add: deserialize_def serialize_def)
  have res: "result_of dec (create_response (rc_request_id cl) (serialize encr r) EC_OK) = RpcResult_ok r"
    using dec by (simp add: result_of_def create_response_def)
  have err: "e \<noteq> EC_OK \<Longrightarrow> result_of dec (create_error i e t) = RpcResult_make_error (error_code_val e) t" for i e t
    by (cases e) (simp_all add: result_of_def create_error_def)
  have "answer reg invoke req (st, v) = (create_response (rc_request_id cl) (serialize encr r) EC_OK, count_request st, v')"
    if "find_method reg service method = Some h \<and> invoke h (serialize enc q) v = (Some (serialize encr r), v')"
    using that by (simp add: answer_def fields)
  moreover have "answer reg invoke req (st, v) =
      (create_error (rc_request_id cl) EC_Unknown (str_bytes ''Internal server error''), count_error (count_request st), v')"
    if "find_method reg service method = Some h \<and> invoke h (serialize enc q) v = (None, v')"
    using that by (simp add: answer_def fields)
  moreover have "answer reg invoke req (st, v) =
      (create_error (rc_request_id cl) EC_ServiceNotFound (str_bytes ''Service or method not found''), count_request st, v)"
    if "find_method reg service method = None"
    using that by (simp add: answer_def fields)
  ultimately show ?thesis
    using call [of _ _ dec, OF _ assms(6)] call [of _ _ dec, OF _ fits(1)] call [of _ _ dec, OF _ fits(2)]
      res err [of EC_Unknown] err [of EC_ServiceNotFound] by (metis ErrorCode.distinct(1,5))
qed

theorem call_end_to_end_witness:
  "rpc_call (loopback [0, 0, 0, 0] echo_registry echo_invoke) [0, 0, 0, 0] 5 encode_string decode_string
      (str_bytes ''Echo'') (str_bytes ''echo'') [104, 105]
      (\<lparr>rc_timeout_ms = 30000, rc_request_id = 1\<rparr>, ((\<lparr>sv_total_requests = 0, sv_total_errors = 0\<rparr>, 0), [])) =
    Inr (RpcResult_ok [104, 105], \<lparr>rc_timeout_ms = 30000, rc_request_id = 2\<rparr>,
      ((count_request \<lparr>sv_total_requests = 0, sv_total_errors = 0\<rparr>, 1), []))"
proof -
  have f: "find_method echo_registry (str_bytes ''Echo'') (str_bytes ''echo'') = Some ()" by code_simp
  let ?cl = "\<lparr>rc_timeout_ms = 30000, rc_request_id = 1\<rparr>"
  have w: "wire_fits (create_request 5 (rc_request_id ?cl) (str_bytes ''Echo'') (str_bytes ''echo'') (serialize encode_string [104, 105]) (rc_timeout_ms ?cl))"
    "wire_fits (create_response (rc_request_id ?cl) (serialize encode_string [104, 105]) EC_OK)"
    by (simp_all add: wire_fits_def msg_meta_size_def msg_has_type_def header_init_def create_request_def create_response_def
        RpcMessage_default_def str_bytes_def serialize_def encode_string_def)
  have "length [0, 0, 0, 0 :: byte] = 4" by simp
  from call_end_to_end [OF this refl w(1) string.codec_axioms _ w(2), of echo_registry "()" echo_invoke 0 1]
  show ?thesis by (simp add: f echo_invoke_def)
qed

text \<open>
  The client does not check whom a reply belongs to: it returns the value of the first response on the
  connection, whatever request id that response carries.
\<close>

theorem reply_id_ignored:
  "result_of dec (create_response i p e) = result_of dec (create_response j p e)"
  by (simp add: result_of_def create_response_def)

end
