(* ===== verification/Net_TcpClient.thy ===== *)
theory Net_TcpClient
  imports Net_ConnectionPool
begin

text \<open>
  The TCP client of \<open>net/tcp_client.hpp\<close> with the pools it draws connections from. Connections of pools are kept in
  a list and named by their position in it; the connection of a client without a pool belongs to the client.
  Waiting on the condition variable of an exhausted pool blocks the only thread that could release a
  connection, here the fault \<open>WouldBlock\<close>; using the null pointer that \<open>acquire\<close> returns when no
  socket can be made is \<open>NullConnection\<close>. \<open>nap\<close> is the effect of \<open>co_await coroutine::sleep\<close>.
\<close>

section \<open>Connections and pools together\<close>

record 'w net_state =
  ns_world :: 'w
  ns_conns :: "'w Connection list"
  ns_manager :: ConnectionPoolManager

datatype client_fault = NullConnection | WouldBlock | Abort abort

definition ns_alive :: "'w net_state \<Rightarrow> nat \<Rightarrow> bool" where
  "ns_alive s i \<longleftrightarrow> Connection_connected (ns_conns s ! i)"

definition ns_pool :: "'w net_state \<Rightarrow> nat \<Rightarrow> ConnectionPool" where
  "ns_pool s pool = pm_store (ns_manager s) ! pool"

definition put_pool :: "nat \<Rightarrow> ConnectionPool \<Rightarrow> 'w net_state \<Rightarrow> 'w net_state" where
  "put_pool pool p s = s\<lparr>ns_manager := (ns_manager s)\<lparr>pm_store := (pm_store (ns_manager s))[pool := p]\<rparr>\<rparr>"

definition on_conn :: "nat \<Rightarrow> ('w Connection \<times> 'w \<Rightarrow> 'a \<times> 'w Connection \<times> 'w) \<Rightarrow> 'w net_state \<Rightarrow> 'a \<times> 'w net_state" where
  "on_conn i f s = (case f (ns_conns s ! i, ns_world s) of (r, c, w) \<Rightarrow> (r, s\<lparr>ns_world := w, ns_conns := (ns_conns s)[i := c]\<rparr>))"

definition create_connection :: "'w net_os \<Rightarrow> 'w net_state \<Rightarrow> nat option \<times> 'w net_state" where
  "create_connection os s =
     (case os_socket os (ns_world s) of (fd, w) \<Rightarrow>
        if fd < 0 then (None, s\<lparr>ns_world := w\<rparr>)
        else case Connection_create os fd default_connection_config w of (c, w') \<Rightarrow>
          (Some (length (ns_conns s)), s\<lparr>ns_world := w', ns_conns := ns_conns s @ [c]\<rparr>))"

definition acquire :: "'w net_os \<Rightarrow> nat \<Rightarrow> 'w net_state \<Rightarrow> client_fault + (nat option \<times> 'w net_state)" where
  "acquire os pool s =
     (case pool_acquire (ns_alive s) (ns_pool s pool) of
        (Got c, p) \<Rightarrow> Inr (Some c, put_pool pool p s)
      | (MayCreate, p) \<Rightarrow>
          (case create_connection os (put_pool pool p s) of
             (None, s1) \<Rightarrow> Inr (None, s1)
           | (Some c, s1) \<Rightarrow> Inr (Some c, put_pool pool (pool_created (ns_pool s1 pool)) s1))
      | (MustWait, p) \<Rightarrow> Inl WouldBlock)"

definition release :: "'w net_os \<Rightarrow> nat \<Rightarrow> nat \<Rightarrow> 'w net_state \<Rightarrow> 'w net_state" where
  "release os pool c s =
     (case pool_release (ns_alive s) c (ns_pool s pool) of (kept, p) \<Rightarrow>
        if kept then put_pool pool p s
        else put_pool pool p (snd (on_conn c (\<lambda>cw. ((), Connection_close os cw)) s)))"

text \<open>\<open>ConnectionGuard\<close>: a connection for the time of a scope.\<close>

definition with_guard :: "'w net_os \<Rightarrow> nat option \<Rightarrow> (nat option \<Rightarrow> 'w net_state \<Rightarrow> 'a \<times> 'w net_state) \<Rightarrow> 'w net_state \<Rightarrow>
    client_fault + ('a \<times> 'w net_state)" where
  "with_guard os pool body s =
     (case pool of
        None \<Rightarrow> Inr (body None s)
      | Some p \<Rightarrow> rbind (acquire os p s) (\<lambda>(conn, s1).
          case body conn s1 of (r, s2) \<Rightarrow> Inr (r, case conn of None \<Rightarrow> s2 | Some c \<Rightarrow> release os p c s2)))"

section \<open>The client\<close>

record TcpClientConfig =
  tcc_connect_timeout_ms :: int
  tcc_read_timeout_ms :: int
  tcc_write_timeout_ms :: int
  tcc_auto_reconnect :: bool
  tcc_reconnect_delay_ms :: int
  tcc_max_reconnect_attempts :: int
  tcc_enable_connection_pool :: bool
  tcc_pool_size :: size_t

definition default_client_config :: TcpClientConfig where
  "default_client_config = \<lparr>tcc_connect_timeout_ms = 5000, tcc_read_timeout_ms = 30000, tcc_write_timeout_ms = 30000, tcc_auto_reconnect = True, tcc_reconnect_delay_ms = 1000, tcc_max_reconnect_attempts = 3,
     tcc_enable_connection_pool = True, tcc_pool_size = 10\<rparr>"

record 'w TcpClient =
  tc_config :: TcpClientConfig
  tc_host :: bytes
  tc_port :: u16
  tc_connection :: "'w Connection option"
  tc_pool :: "nat option"
  tc_connected :: bool

definition TcpClient_ctor :: "TcpClientConfig \<Rightarrow> 'w TcpClient" where
  "TcpClient_ctor config = \<lparr>tc_config = config, tc_host = [], tc_port = 0, tc_connection = None, tc_pool = None, tc_connected = False\<rparr>"

type_synonym 'w client_state = "'w TcpClient \<times> 'w net_state"

definition drop_connection :: "'w net_os \<Rightarrow> 'w Connection option \<Rightarrow> 'w \<Rightarrow> client_fault + 'w" where
  "drop_connection os conn w =
     (case conn of
        None \<Rightarrow> Inr w
      | Some c \<Rightarrow> (case Connection_dtor os (c, w) of Inl a \<Rightarrow> Inl (Abort a) | Inr w' \<Rightarrow> Inr w'))"

definition TcpClient_connect :: "'w net_os \<Rightarrow> bytes \<Rightarrow> u16 \<Rightarrow> 'w client_state \<Rightarrow> client_fault + (bool \<times> 'w client_state)" where
  "TcpClient_connect os host port cs =
     (let (cl, s) = cs; cl1 = cl\<lparr>tc_host := host, tc_port := port\<rparr>
      in if tcc_enable_connection_pool (tc_config cl1) then
           (case get_pool host port (ConnectionPoolConfig_default\<lparr>cpc_max_connections := tcc_pool_size (tc_config cl1),
                   cpc_connect_timeout_ms := tcc_connect_timeout_ms (tc_config cl1)\<rparr>) (ns_manager s) of (pool, m) \<Rightarrow>
              Inr (True, cl1\<lparr>tc_pool := Some pool\<rparr>, s\<lparr>ns_manager := m\<rparr>))
         else
           (case os_socket os (ns_world s) of (fd, w) \<Rightarrow>
              if fd < 0 then Inr (False, cl1, s\<lparr>ns_world := w\<rparr>)
              else
                (case Connection_create os fd default_connection_config w of (c, w1) \<Rightarrow>
                   rbind (drop_connection os (tc_connection cl1) w1) (\<lambda>w2.
                     case Connection_async_connect os host port (c, w2) of (ok, c', w3) \<Rightarrow>
                       Inr (ok, cl1\<lparr>tc_connection := Some c', tc_connected := ok\<rparr>, s\<lparr>ns_world := w3\<rparr>)))))"

definition TcpClient_disconnect :: "'w net_os \<Rightarrow> 'w client_state \<Rightarrow> 'w client_state" where
  "TcpClient_disconnect os cs =
     (let (cl, s) = cs
      in case tc_connection cl of
           None \<Rightarrow> (cl\<lparr>tc_connected := False, tc_pool := None\<rparr>, s)
         | Some c \<Rightarrow> (cl\<lparr>tc_connected := False, tc_connection := None, tc_pool := None\<rparr>,
             s\<lparr>ns_world := snd (Connection_close os (c, ns_world s))\<rparr>))"

definition TcpClient_dtor :: "'w net_os \<Rightarrow> 'w client_state \<Rightarrow> 'w net_state" where
  "TcpClient_dtor os cs = snd (TcpClient_disconnect os cs)"

text \<open>\<open>try_reconnect\<close> with the attempts that are left.\<close>

fun try_reconnect :: "'w net_os \<Rightarrow> (int \<Rightarrow> 'w \<Rightarrow> 'w) \<Rightarrow> nat \<Rightarrow> 'w client_state \<Rightarrow> client_fault + (bool \<times> 'w client_state)" where
  "try_reconnect os nap 0 cs = Inr (False, cs)"
| "try_reconnect os nap (Suc n) (cl, s) =
     rbind (TcpClient_connect os (tc_host cl) (tc_port cl)
              (cl, s\<lparr>ns_world := nap (tcc_reconnect_delay_ms (tc_config cl)) (ns_world s)\<rparr>))
       (\<lambda>(ok, cs'). if ok then Inr (True, cs') else try_reconnect os nap n cs')"

text \<open>
  The shape of \<open>send\<close>, \<open>recv\<close> and \<open>send_all\<close>: an operation \<open>f\<close> on a pooled connection, or on the client's own;
  \<open>none\<close> is the result without a connection and \<open>bad\<close> tests whether the result calls for reconnecting.
\<close>

definition on_client :: "'w net_os \<Rightarrow> (int \<Rightarrow> 'w \<Rightarrow> 'w) \<Rightarrow> 'a \<Rightarrow> ('a \<Rightarrow> bool) \<Rightarrow> ('w Connection \<times> 'w \<Rightarrow> 'a \<times> 'w Connection \<times> 'w) \<Rightarrow>
    'w client_state \<Rightarrow> client_fault + ('a \<times> 'w client_state)" where
  "on_client os nap none bad f cs =
     (let (cl, s) = cs
      in case tc_pool cl of
           Some pool \<Rightarrow>
             rbind (acquire os pool s) (\<lambda>(conn, s1).
               case conn of
                 None \<Rightarrow> Inl NullConnection
               | Some c \<Rightarrow> (case on_conn c f s1 of (r, s2) \<Rightarrow> Inr (r, cl, release os pool c s2)))
         | None \<Rightarrow>
             (case tc_connection cl of
                None \<Rightarrow> Inr (none, cs)
              | Some c \<Rightarrow>
                  if \<not> tc_connected cl then Inr (none, cs)
                  else (case f (c, ns_world s) of (r, c', w) \<Rightarrow>
                    let cs1 = (cl\<lparr>tc_connection := Some c'\<rparr>, s\<lparr>ns_world := w\<rparr>)
                    in if bad r \<and> tcc_auto_reconnect (tc_config cl) then
                         rbind (try_reconnect os nap (nat (tcc_max_reconnect_attempts (tc_config cl))) cs1) (\<lambda>(_, cs2). Inr (r, cs2))
                       else Inr (r, cs1))))"

definition TcpClient_send :: "'w net_os \<Rightarrow> (int \<Rightarrow> 'w \<Rightarrow> 'w) \<Rightarrow> bytes \<Rightarrow> 'w client_state \<Rightarrow> client_fault + (int \<times> 'w client_state)" where
  "TcpClient_send os nap data cs = on_client os nap (-1) (\<lambda>n. n \<le> 0) (Connection_async_write os data) cs"

definition TcpClient_recv :: "'w net_os \<Rightarrow> (int \<Rightarrow> 'w \<Rightarrow> 'w) \<Rightarrow> nat \<Rightarrow> 'w client_state \<Rightarrow> client_fault + ((int \<times> bytes) \<times> 'w client_state)" where
  "TcpClient_recv os nap sz cs = on_client os nap (-1, []) (\<lambda>r. fst r \<le> 0) (Connection_async_read os sz) cs"

definition TcpClient_send_all :: "'w net_os \<Rightarrow> (int \<Rightarrow> 'w \<Rightarrow> 'w) \<Rightarrow> bytes \<Rightarrow> 'w client_state \<Rightarrow> client_fault + (nat \<times> 'w client_state)" where
  "TcpClient_send_all os nap data cs = on_client os nap 0 (\<lambda>n. n < length data) (Connection_async_write_all os data 0) cs"

definition TcpClient_request :: "'w net_os \<Rightarrow> (int \<Rightarrow> 'w \<Rightarrow> 'w) \<Rightarrow> bytes \<Rightarrow> 'w client_state \<Rightarrow> client_fault + (bytes \<times> 'w client_state)" where
  "TcpClient_request os nap data cs =
     rbind (TcpClient_send os nap data cs) (\<lambda>(sent, cs1).
       if sent \<le> 0 then Inr ([], cs1)
       else rbind (TcpClient_recv os nap 4096 cs1) (\<lambda>((n, bs), cs2). Inr (if n \<le> 0 then [] else bs, cs2)))"

section \<open>What depends on connecting and closing\<close>

lemma close_no_connect [simp]: "Connection_close (os\<lparr>os_connect := any\<rparr>) = Connection_close os"
  by (rule ext) (simp add: Connection_close_def Let_def split: prod.split)

lemma write_no_connect [simp]: "Connection_async_write (os\<lparr>os_connect := any\<rparr>) data = Connection_async_write os data"
  by (rule ext) (simp add: Connection_async_write_def handle_error_def Let_def split: prod.split)

lemma read_no_connect [simp]: "Connection_async_read (os\<lparr>os_connect := any\<rparr>) sz = Connection_async_read os sz"
  by (rule ext) (simp add: Connection_async_read_def handle_error_def Let_def split: prod.split)

lemma write_all_no_connect_at:
  "Connection_async_write_all (os\<lparr>os_connect := any\<rparr>) data written s = Connection_async_write_all os data written s"
proof (induction os data written s rule: Connection_async_write_all.induct)
  case (1 os data written s)
  obtain n s' where w: "Connection_async_write os (drop written data) s = (n, s')" by (metis surj_pair)
  show ?case
  proof (cases "written < length data \<and> Connection_connected (fst s)")
    case True
    with 1 [OF True refl w [symmetric]] w show ?thesis
      by (simp add: Connection_async_write_all.simps [of _ data written s])
  next
    case False
    then show ?thesis by (auto simp: Connection_async_write_all.simps [of _ data written s])
  qed
qed

lemma write_all_no_connect [simp]: "Connection_async_write_all (os\<lparr>os_connect := any\<rparr>) = Connection_async_write_all os"
  by (intro ext) (rule write_all_no_connect_at)

lemma acquire_no_connect [simp]: "acquire (os\<lparr>os_connect := any\<rparr>) pool s = acquire os pool s"
  by (simp add: acquire_def create_connection_def Connection_create_def apply_socket_options_def Let_def
      split: prod.split acquire_result.split)

lemma release_no_connect [simp]: "release (os\<lparr>os_connect := any\<rparr>) pool c s = release os pool c s"
  by (simp add: release_def split: prod.split)

lemma on_client_no_connect:
  assumes "tc_pool cl = Some pool"
  shows "on_client (os\<lparr>os_connect := any\<rparr>) nap none bad f (cl, s) = on_client os nap none bad f (cl, s)"
  using assms by (cases "acquire os pool s") (simp_all add: on_client_def Let_def split: prod.split option.split)

text \<open>A refused connection leaves a connection object that owns an open socket and is not connected.\<close>

definition refused :: "'w TcpClient \<Rightarrow> bool" where
  "refused cl \<longleftrightarrow> \<not> tcc_enable_connection_pool (tc_config cl) \<and>
     (case tc_connection cl of None \<Rightarrow> True | Some c \<Rightarrow> \<not> Connection_connected c)"

lemma connect_refused:
  assumes "refused cl" "\<And>w. 0 \<le> fst (os_socket os w)" "\<And>fd w. fst (os_connect os fd host port w) \<noteq> 0"
  shows "\<exists>c w'. TcpClient_connect (os\<lparr>os_close := shut\<rparr>) host port (cl, s) =
    Inr (False, cl\<lparr>tc_host := host, tc_port := port, tc_connection := Some c, tc_connected := False\<rparr>, s\<lparr>ns_world := w'\<rparr>) \<and>
    \<not> Connection_connected c \<and> 0 \<le> cn_fd c \<and>
    TcpClient_connect os host port (cl, s) =
      Inr (False, cl\<lparr>tc_host := host, tc_port := port, tc_connection := Some c, tc_connected := False\<rparr>, s\<lparr>ns_world := w'\<rparr>)"
proof -
  obtain fd w1 where fd: "os_socket os (ns_world s) = (fd, w1)" "0 \<le> fd" using assms(2) [of "ns_world s"] by (metis fst_conv surj_pair)
  obtain c w2 where c: "Connection_create (os\<lparr>os_close := shut\<rparr>) fd default_connection_config w1 = (c, w2)"
      "Connection_create os fd default_connection_config w1 = (c, w2)" "cn_fd c = fd"
    using fd(2) by (simp add: Connection_create_def Let_def apply_socket_options_def)
  have d: "drop_connection (os\<lparr>os_close := shut\<rparr>) (tc_connection cl) w2 = Inr w2" "drop_connection os (tc_connection cl) w2 = Inr w2"
    using assms(1) by (auto simp: refused_def drop_connection_def Connection_dtor_def Connection_close_def Connection_connected_def split: option.splits)
  obtain ret w3 where r: "os_connect os fd host port w2 = (ret, w3)" "ret \<noteq> 0" using assms(3) [of fd w2] by (metis fst_conv surj_pair)
  show ?thesis
    using assms(1) fd c d r
    by (intro exI [of _ "c\<lparr>cn_state := Disconnected\<rparr>"] exI [of _ w3])
      (auto simp: TcpClient_connect_def refused_def Let_def Connection_async_connect_def Connection_connected_def)
qed

section \<open>Properties\<close>

text \<open>
  With a pool, which is the default, the client never connects. \<open>connect\<close> reports success without a single system call;
  \<open>send\<close>, \<open>recv\<close> and \<open>send_all\<close> take sockets from the pool, which makes them without connecting
  them: nothing the client does depends on what \<open>connect(2)\<close> would do. \<open>connected()\<close> stays as it was.
\<close>

theorem pooled_client_never_connects:
  assumes "tcc_enable_connection_pool (tc_config cl)"
  shows "\<exists>cl' s'. TcpClient_connect os host port (cl, s) = Inr (True, cl', s') \<and> ns_world s' = ns_world s \<and>
      ns_conns s' = ns_conns s \<and> tc_connected cl' = tc_connected cl \<and>
      TcpClient_send (os\<lparr>os_connect := any\<rparr>) nap data (cl', s') = TcpClient_send os nap data (cl', s') \<and>
      TcpClient_recv (os\<lparr>os_connect := any\<rparr>) nap sz (cl', s') = TcpClient_recv os nap sz (cl', s') \<and>
      TcpClient_send_all (os\<lparr>os_connect := any\<rparr>) nap data (cl', s') = TcpClient_send_all os nap data (cl', s')"
proof -
  obtain pool m where "get_pool host port (ConnectionPoolConfig_default\<lparr>cpc_max_connections := tcc_pool_size (tc_config cl),
      cpc_connect_timeout_ms := tcc_connect_timeout_ms (tc_config cl)\<rparr>) (ns_manager s) = (pool, m)" by fastforce
  with assms have "TcpClient_connect os host port (cl, s) =
      Inr (True, cl\<lparr>tc_host := host, tc_port := port, tc_pool := Some pool\<rparr>, s\<lparr>ns_manager := m\<rparr>)"
    by (simp add: TcpClient_connect_def Let_def)
  then show ?thesis
    by (intro exI [of _ "cl\<lparr>tc_host := host, tc_port := port, tc_pool := Some pool\<rparr>"] exI [of _ "s\<lparr>ns_manager := m\<rparr>"])
      (simp add: TcpClient_send_def TcpClient_recv_def TcpClient_send_all_def on_client_no_connect)
qed

definition net_ex :: "bytes \<Rightarrow> stream_world net_state" where
  "net_ex input = \<lparr>ns_world = \<lparr>sw_in = input, sw_out = [], sw_closed = []\<rparr>, ns_conns = [], ns_manager = \<lparr>pm_store = [], pm_pools = []\<rparr>\<rparr>"

theorem pooled_client_never_connects_witness:
  "\<exists>cl' s'. TcpClient_connect (stream_os 3) [49] 80 (TcpClient_ctor default_client_config, net_ex []) = Inr (True, cl', s') \<and>
    ns_world s' = ns_world (net_ex []) \<and> \<not> tc_connected cl'"
proof -
  have "tcc_enable_connection_pool (tc_config (TcpClient_ctor default_client_config))"
    by (simp add: TcpClient_ctor_def default_client_config_def)
  from pooled_client_never_connects [OF this, of "stream_os 3" "[49]" 80 "net_ex []" "\<lambda>_ _ _ w. (0, w)" "\<lambda>_ w. w" "[]" 1]
  show ?thesis by (auto simp: TcpClient_ctor_def)
qed

text \<open>
  Without a pool, over a stream that fragments its data in any way: \<open>connect\<close> succeeds and then \<open>send_all\<close> delivers every
  byte in order. \<open>request\<close> does not: it issues one \<open>send\<close>, so only the first part the kernel takes is sent,
  and returns the first part of the answer.
\<close>

theorem direct_client_io:
  assumes "\<not> tcc_enable_connection_pool (tc_config cl)" "tc_connection cl = None" "tc_pool cl = None"
    and "data \<noteq> []" "sw_in (ns_world s) \<noteq> []"
  shows "\<exists>cl1 s1. TcpClient_connect (stream_os k) host port (cl, s) = Inr (True, cl1, s1) \<and> tc_connected cl1 \<and>
    (\<exists>cs2. TcpClient_send_all (stream_os k) nap data (cl1, s1) = Inr (length data, cs2) \<and>
      sw_out (ns_world (snd cs2)) = sw_out (ns_world s) @ data) \<and>
    (\<exists>cs2. TcpClient_request (stream_os k) nap data (cl1, s1) = Inr (take (min 4096 (Suc k)) (sw_in (ns_world s)), cs2) \<and>
      sw_out (ns_world (snd cs2)) = sw_out (ns_world s) @ take (Suc k) data)"
proof -
  define c where "c = \<lparr>cn_fd = 3, cn_config = default_connection_config, cn_state = Connected,
    cn_close_callback = None :: (stream_world \<Rightarrow> stream_world) option, cn_bytes_read = 0, cn_bytes_written = 0\<rparr>"
  let ?cl = "cl\<lparr>tc_host := host, tc_port := port, tc_connection := Some c, tc_connected := True\<rparr>"
  have sys: "os_socket (stream_os k) w = (3, w)" "os_connect (stream_os k) fd host port w = (0, w)"
    "os_setsockopt (stream_os k) fd opt w = w" for fd opt w by (simp_all add: stream_os_def)
  have con: "TcpClient_connect (stream_os k) host port (cl, s) = Inr (True, ?cl, s)"
    using assms(1,2)
    by (simp add: TcpClient_connect_def Let_def Connection_create_def drop_connection_def Connection_async_connect_def
        apply_socket_options_def sys c_def)
  have cn: "Connection_connected c" by (simp add: c_def Connection_connected_def)
  from stream.write_all_sends [OF cn, of 0 data k "ns_world s"] obtain w' where
    "Connection_async_write_all (stream_os k) data 0 (c, ns_world s) = (length data, c, w')" "sw_out w' = sw_out (ns_world s) @ data"
    by auto
  then have all: "\<exists>cs2. TcpClient_send_all (stream_os k) nap data (?cl, s) = Inr (length data, cs2) \<and>
      sw_out (ns_world (snd cs2)) = sw_out (ns_world s) @ data"
    using assms(3) by (auto simp: TcpClient_send_all_def on_client_def Let_def)
  let ?w1 = "(ns_world s)\<lparr>sw_out := sw_out (ns_world s) @ take (Suc k) data\<rparr>"
  have n: "0 < min (Suc k) (length data)" using assms(4) by simp
  have "Connection_async_write (stream_os k) data (c, ns_world s) = (int (min (Suc k) (length data)), c, ?w1)"
    using cn n by (simp add: Connection_async_write_def stream_os_def Let_def min_def)
  then have snd: "TcpClient_send (stream_os k) nap data (?cl, s) = Inr (int (min (Suc k) (length data)), ?cl, s\<lparr>ns_world := ?w1\<rparr>)"
    using assms(3) n by (auto simp: TcpClient_send_def on_client_def Let_def min_def)
  let ?m = "min (min 4096 (Suc k)) (length (sw_in (ns_world s)))"
  have m: "0 < ?m" using assms(5) by simp
  have "Connection_async_read (stream_os k) 4096 (c, ?w1) =
      ((int ?m, take (min 4096 (Suc k)) (sw_in (ns_world s))), c, ?w1\<lparr>sw_in := drop ?m (sw_in (ns_world s))\<rparr>)"
    using cn assms(5) by (simp add: Connection_async_read_def stream_os_def Let_def min_def)
  then have "TcpClient_recv (stream_os k) nap 4096 (?cl, s\<lparr>ns_world := ?w1\<rparr>) =
      Inr ((int ?m, take (min 4096 (Suc k)) (sw_in (ns_world s))), ?cl, s\<lparr>ns_world := ?w1\<lparr>sw_in := drop ?m (sw_in (ns_world s))\<rparr>\<rparr>)"
    using assms(3) m by (auto simp: TcpClient_recv_def on_client_def Let_def min_def)
  with snd n m have req: "\<exists>cs2. TcpClient_request (stream_os k) nap data (?cl, s) = Inr (take (min 4096 (Suc k)) (sw_in (ns_world s)), cs2) \<and>
      sw_out (ns_world (snd cs2)) = sw_out (ns_world s) @ take (Suc k) data"
    by (auto simp: TcpClient_request_def)
  from con all req show ?thesis by (intro exI [of _ ?cl] exI [of _ s]) simp
qed

theorem direct_client_io_witness:
  "\<exists>cl1 s1. TcpClient_connect (stream_os 1) [49] 80
      (TcpClient_ctor (default_client_config\<lparr>tcc_enable_connection_pool := False\<rparr>), net_ex [7, 8, 9]) = Inr (True, cl1, s1) \<and>
    (\<exists>cs2. TcpClient_send_all (stream_os 1) (\<lambda>_ w. w) [1, 2, 3] (cl1, s1) = Inr (3, cs2) \<and> sw_out (ns_world (snd cs2)) = [1, 2, 3]) \<and>
    (\<exists>cs2. TcpClient_request (stream_os 1) (\<lambda>_ w. w) [1, 2, 3] (cl1, s1) = Inr ([7, 8], cs2) \<and> sw_out (ns_world (snd cs2)) = [1, 2])"
  using direct_client_io [of "TcpClient_ctor (default_client_config\<lparr>tcc_enable_connection_pool := False\<rparr>)" "[1, 2, 3]" "net_ex [7, 8, 9]"
      1 "[49]" 80 "\<lambda>_ w. w"]
  by (fastforce simp: TcpClient_ctor_def net_ex_def eval_nat_numeral)

text \<open>
  Reconnecting to a server that refuses: every attempt fails, \<open>try_reconnect\<close> ends with false, the client is
  not connected, and no socket is ever closed on the way, neither that of the lost connection nor those
  the attempts opened: the outcome does not depend on \<open>close(2)\<close>.
\<close>

theorem reconnect_refused:
  assumes "refused cl" "\<And>w. 0 \<le> fst (os_socket os w)" "\<And>fd w. fst (os_connect os fd (tc_host cl) (tc_port cl) w) \<noteq> 0" "0 < n"
  shows "\<exists>cl' s'. try_reconnect os nap n (cl, s) = Inr (False, cl', s') \<and> \<not> tc_connected cl' \<and> refused cl' \<and>
    try_reconnect (os\<lparr>os_close := shut\<rparr>) nap n (cl, s) = Inr (False, cl', s')"
  using assms(1,3,4)
proof (induction n arbitrary: cl s)
  case 0
  then show ?case by simp
next
  case (Suc n)
  let ?s = "s\<lparr>ns_world := nap (tcc_reconnect_delay_ms (tc_config cl)) (ns_world s)\<rparr>"
  from connect_refused [OF Suc.prems(1) assms(2) Suc.prems(2), of shut ?s] obtain c w' where
    c: "TcpClient_connect (os\<lparr>os_close := shut\<rparr>) (tc_host cl) (tc_port cl) (cl, ?s) =
        Inr (False, cl\<lparr>tc_connection := Some c, tc_connected := False\<rparr>, s\<lparr>ns_world := w'\<rparr>)" "\<not> Connection_connected c"
      "TcpClient_connect os (tc_host cl) (tc_port cl) (cl, ?s) =
        Inr (False, cl\<lparr>tc_connection := Some c, tc_connected := False\<rparr>, s\<lparr>ns_world := w'\<rparr>)"
    by (cases cl) auto
  let ?cl = "cl\<lparr>tc_connection := Some c, tc_connected := False\<rparr>"
  have r: "refused ?cl" using Suc.prems(1) c(2) by (simp add: refused_def)
  show ?case
  proof (cases n)
    case 0
    with c r show ?thesis by simp
  next
    case (Suc m)
    then have "0 < n" by simp
    from Suc.IH [OF r _ this, of "s\<lparr>ns_world := w'\<rparr>"] Suc.prems(2) c show ?thesis by simp
  qed
qed

theorem reconnect_refused_witness:
  "\<exists>cl' s'. try_reconnect ((stream_os 0)\<lparr>os_connect := (\<lambda>_ _ _ w. (-111, w))\<rparr>) (\<lambda>_ w. w) 3
      (TcpClient_ctor (default_client_config\<lparr>tcc_enable_connection_pool := False\<rparr>), net_ex []) = Inr (False, cl', s') \<and> \<not> tc_connected cl'"
proof -
  let ?cl = "TcpClient_ctor (default_client_config\<lparr>tcc_enable_connection_pool := False\<rparr>)"
  let ?os = "(stream_os 0)\<lparr>os_connect := (\<lambda>_ _ _ w. (-111, w))\<rparr>"
  have "refused ?cl" by (simp add: refused_def TcpClient_ctor_def)
  moreover have "\<And>w. 0 \<le> fst (os_socket ?os w)" "\<And>fd w. fst (os_connect ?os fd (tc_host ?cl) (tc_port ?cl) w) \<noteq> 0"
    by (simp_all add: stream_os_def)
  ultimately show ?thesis
    using reconnect_refused [of ?cl ?os 3 "\<lambda>_ w. w" "net_ex []" "\<lambda>_ w. w"] by auto
qed

end
