(* ===== verification/Rpc_ClientNet.thy ===== *)
theory Rpc_ClientNet
  imports Rpc_Client Net_TcpClient
begin

text \<open>
  The client of \<open>rpc/rpc_client.hpp\<close> on top of the TCP client it creates: connecting, calling and disconnecting, and the
  proxy that fixes the name of a service. A fault of the TCP client ends the program; it is a value of the transport's world and
  is reported at the end of the call.
\<close>

section \<open>The client and its connection\<close>

record RpcClientConfig =
  rcc_host :: bytes
  rcc_port :: u16
  rcc_timeout_ms :: u32
  rcc_auto_reconnect :: bool
  rcc_max_retries :: nat

definition RpcClientConfig_default :: RpcClientConfig where
  "RpcClientConfig_default = \<lparr>rcc_host = str_bytes ''127.0.0.1'', rcc_port = 9000, rcc_timeout_ms = 30000,
     rcc_auto_reconnect = True, rcc_max_retries = 3\<rparr>"

record 'w RpcClientObj =
  ro_config :: RpcClientConfig
  ro_request_id :: u64
  ro_tcp_client :: "'w TcpClient option"

type_synonym 'w rpc_state = "'w RpcClientObj \<times> 'w net_state"

datatype rpc_fault = Rpc_null_client | Rpc_tcp client_fault | Rpc_memory server_fault

definition RpcClient_ctor :: "RpcClientConfig \<Rightarrow> 'w RpcClientObj" where
  "RpcClient_ctor config = \<lparr>ro_config = config, ro_request_id = 0, ro_tcp_client = None\<rparr>"

definition RpcClient_disconnect :: "'w net_os \<Rightarrow> 'w rpc_state \<Rightarrow> 'w rpc_state" where
  "RpcClient_disconnect os st =
     (case ro_tcp_client (fst st) of
        None \<Rightarrow> st
      | Some tcp \<Rightarrow> (case TcpClient_disconnect os (tcp, snd st) of (tcp', s) \<Rightarrow> ((fst st)\<lparr>ro_tcp_client := Some tcp'\<rparr>, s)))"

text \<open>\<open>connect\<close> replaces the TCP client by a new one with the default configuration; the old one is destroyed, which disconnects it.\<close>

definition RpcClient_connect :: "'w net_os \<Rightarrow> bytes \<Rightarrow> u16 \<Rightarrow> 'w rpc_state \<Rightarrow> rpc_fault + (bool \<times> 'w rpc_state)" where
  "RpcClient_connect os host port st =
     (let cl = (fst st)\<lparr>ro_config := (ro_config (fst st))\<lparr>rcc_host := host, rcc_port := port\<rparr>\<rparr>;
          s1 = snd (RpcClient_disconnect os st)
      in case TcpClient_connect os host port (TcpClient_ctor default_client_config, s1) of
           Inl f \<Rightarrow> Inl (Rpc_tcp f)
         | Inr (ok, tcp, s2) \<Rightarrow> Inr (ok, cl\<lparr>ro_tcp_client := Some tcp\<rparr>, s2))"

definition RpcClient_connect_default :: "'w net_os \<Rightarrow> 'w rpc_state \<Rightarrow> rpc_fault + (bool \<times> 'w rpc_state)" where
  "RpcClient_connect_default os st = RpcClient_connect os (rcc_host (ro_config (fst st))) (rcc_port (ro_config (fst st))) st"

definition RpcClient_dtor :: "'w net_os \<Rightarrow> 'w rpc_state \<Rightarrow> 'w net_state" where
  "RpcClient_dtor os st = snd (RpcClient_disconnect os st)"

definition RpcClient_connected :: "'w RpcClientObj \<Rightarrow> bool" where
  "RpcClient_connected cl \<longleftrightarrow> (case ro_tcp_client cl of None \<Rightarrow> False | Some tcp \<Rightarrow> tc_connected tcp)"

text \<open>The TCP client as the transport of a call.\<close>

definition tcp_transport :: "'w net_os \<Rightarrow> (int \<Rightarrow> 'w \<Rightarrow> 'w) \<Rightarrow> (client_fault + 'w client_state) transport" where
  "tcp_transport os nap = \<lparr>
     tp_send = (\<lambda>bs w. case w of
        Inl f \<Rightarrow> (-1, Inl f)
      | Inr cs \<Rightarrow> (case TcpClient_send os nap bs cs of Inl f \<Rightarrow> (-1, Inl f) | Inr (n, cs') \<Rightarrow> (n, Inr cs'))),
     tp_recv = (\<lambda>sz w. case w of
        Inl f \<Rightarrow> ((-1, []), Inl f)
      | Inr cs \<Rightarrow> (case TcpClient_recv os nap sz cs of Inl f \<Rightarrow> ((-1, []), Inl f) | Inr (r, cs') \<Rightarrow> (r, Inr cs')))\<rparr>"

definition core_client :: "'w RpcClientObj \<Rightarrow> RpcClient" where
  "core_client cl = \<lparr>rc_timeout_ms = rcc_timeout_ms (ro_config cl), rc_request_id = ro_request_id cl\<rparr>"

definition after_call ::
  "'w RpcClientObj \<Rightarrow> server_fault + ('r \<times> RpcClient \<times> (client_fault + 'w client_state)) \<Rightarrow> rpc_fault + ('r \<times> 'w rpc_state)" where
  "after_call cl r =
     (case r of
        Inl f \<Rightarrow> Inl (Rpc_memory f)
      | Inr (res, c, Inl f) \<Rightarrow> Inl (Rpc_tcp f)
      | Inr (res, c, Inr (tcp, s)) \<Rightarrow> Inr (res, cl\<lparr>ro_request_id := rc_request_id c, ro_tcp_client := Some tcp\<rparr>, s))"

definition RpcClient_call :: "'w net_os \<Rightarrow> (int \<Rightarrow> 'w \<Rightarrow> 'w) \<Rightarrow> bytes \<Rightarrow> u64 \<Rightarrow> (bytes \<Rightarrow> 'q \<Rightarrow> bytes) \<Rightarrow> 'a decoder \<Rightarrow> bytes \<Rightarrow> bytes \<Rightarrow> 'q \<Rightarrow>
    'w rpc_state \<Rightarrow> rpc_fault + ('a RpcResult \<times> 'w rpc_state)" where
  "RpcClient_call os nap pad now enc dec service method request st =
     (case ro_tcp_client (fst st) of
        None \<Rightarrow> Inl Rpc_null_client
      | Some tcp \<Rightarrow>
          after_call (fst st)
            (rpc_call (tcp_transport os nap) pad now enc dec service method request (core_client (fst st), Inr (tcp, snd st))))"

definition RpcClient_async_call :: "'w net_os \<Rightarrow> (int \<Rightarrow> 'w \<Rightarrow> 'w) \<Rightarrow> bytes \<Rightarrow> u64 \<Rightarrow> (bytes \<Rightarrow> 'q \<Rightarrow> bytes) \<Rightarrow> bytes \<Rightarrow> bytes \<Rightarrow> 'q \<Rightarrow>
    'w rpc_state \<Rightarrow> rpc_fault + (bool \<times> 'w rpc_state)" where
  "RpcClient_async_call os nap pad now enc service method request st =
     (case ro_tcp_client (fst st) of
        None \<Rightarrow> Inl Rpc_null_client
      | Some tcp \<Rightarrow>
          after_call (fst st)
            (async_call (tcp_transport os nap) pad now enc service method request (core_client (fst st), Inr (tcp, snd st))))"

record RpcClientProxy =
  px_service_name :: bytes

definition RpcClientProxy_call :: "RpcClientProxy \<Rightarrow> 'w net_os \<Rightarrow> (int \<Rightarrow> 'w \<Rightarrow> 'w) \<Rightarrow> bytes \<Rightarrow> u64 \<Rightarrow> (bytes \<Rightarrow> 'q \<Rightarrow> bytes) \<Rightarrow> 'a decoder \<Rightarrow> bytes \<Rightarrow> 'q \<Rightarrow>
    'w rpc_state \<Rightarrow> rpc_fault + ('a RpcResult \<times> 'w rpc_state)" where
  "RpcClientProxy_call px os nap pad now enc dec method request st =
     RpcClient_call os nap pad now enc dec (px_service_name px) method request st"

text \<open>A series of calls on one client, each a function of the state; a fault ends it.\<close>

fun calls :: "('w rpc_state \<Rightarrow> rpc_fault + ('a RpcResult \<times> 'w rpc_state)) list \<Rightarrow> 'w rpc_state \<Rightarrow>
    rpc_fault + ('a RpcResult list \<times> 'w rpc_state)" where
  "calls [] st = Inr ([], st)"
| "calls (c # cs) st = rbind (c st) (\<lambda>(r, st1). rbind (calls cs st1) (\<lambda>(rs, st2). Inr (r # rs, st2)))"

section \<open>A client that was connected\<close>

text \<open>
  The state between the calls of a client whose pool was made for it: the pool is empty, and nothing is counted in it.
\<close>

definition pool_untouched :: "'w rpc_state \<Rightarrow> bool" where
  "pool_untouched st \<longleftrightarrow>
     (\<exists>tcp pool. ro_tcp_client (fst st) = Some tcp \<and> tc_pool tcp = Some pool \<and> pool < length (pm_store (ns_manager (snd st))) \<and>
        cp_idle (ns_pool (snd st) pool) = [] \<and> cp_total (ns_pool (snd st) pool) = 0 \<and> cp_max_connections (ns_pool (snd st) pool) = 10)"

definition send_failed :: "'a RpcResult" where
  "send_failed = RpcResult_make_error (error_code_val EC_ConnectionError) (str_bytes ''Failed to send request'')"

lemma ns_pool_put [simp]:
  "pool < length (pm_store (ns_manager s)) \<Longrightarrow> ns_pool (put_pool pool p s) pool = p"
  "length (pm_store (ns_manager (put_pool pool p s))) = length (pm_store (ns_manager s))"
  "ns_world (put_pool pool p s) = ns_world s" "ns_conns (put_pool pool p s) = ns_conns s"
  by (simp_all add: ns_pool_def put_pool_def)

lemma ns_pool_other [simp]:
  "ns_pool (s\<lparr>ns_world := w\<rparr>) pool = ns_pool s pool" "ns_pool (s\<lparr>ns_conns := cs\<rparr>) pool = ns_pool s pool"
  "ns_pool (s\<lparr>ns_world := w, ns_conns := cs\<rparr>) pool = ns_pool s pool"
  by (simp_all add: ns_pool_def)


text \<open>
  What the kernel promises of a socket that was never connected (\<open>fresh fd w\<close>): \<open>socket\<close> makes one, options do not change it,
  and sending on it fails.
\<close>

definition unconnected_sockets_fail :: "'w net_os \<Rightarrow> (int \<Rightarrow> 'w \<Rightarrow> bool) \<Rightarrow> bool" where
  "unconnected_sockets_fail os fresh \<longleftrightarrow>
     (\<forall>w. 0 \<le> fst (os_socket os w) \<and> fresh (fst (os_socket os w)) (snd (os_socket os w))) \<and>
     (\<forall>fd opt w. fresh fd w \<longrightarrow> fresh fd (os_setsockopt os fd opt w)) \<and>
     (\<forall>fd data w. fresh fd w \<longrightarrow> fst (os_send os fd data w) \<le> 0)"

lemma fresh_options:
  assumes "unconnected_sockets_fail os fresh" "fresh (cn_fd c) w"
  shows "fresh (cn_fd c) (apply_socket_options os c w)"
  using assms by (simp add: unconnected_sockets_fail_def apply_socket_options_def Let_def)

lemma acquire_creates:
  assumes "unconnected_sockets_fail os fresh" "cp_idle (ns_pool s pool) = []" "cp_total (ns_pool s pool) = 0"
    "cp_max_connections (ns_pool s pool) = 10" "pool < length (pm_store (ns_manager s))"
  shows "\<exists>c s1. acquire os pool s = Inr (Some (length (ns_conns s)), s1) \<and> ns_conns s1 = ns_conns s @ [c] \<and>
    cn_state c = Connected \<and> fresh (cn_fd c) (ns_world s1) \<and>
    ns_pool s1 pool = pool_created (ns_pool s pool) \<and> length (pm_store (ns_manager s1)) = length (pm_store (ns_manager s))"
proof -
  have acq: "pool_acquire (ns_alive s) (ns_pool s pool) = (MayCreate, ns_pool s pool)"
    using assms(2-4) by (simp add: pool_acquire_def acquire_idle.simps)
  obtain fd w where fd: "os_socket os (ns_world s) = (fd, w)" by fastforce
  with assms(1) have fd0: "0 \<le> fd" "fresh fd w" unfolding unconnected_sockets_fail_def by (metis fst_conv snd_conv)+
  define c :: "'a Connection" where "c = \<lparr>cn_fd = fd, cn_config = default_connection_config, cn_state = Connected, cn_close_callback = None,
    cn_bytes_read = 0, cn_bytes_written = 0\<rparr>"
  have cr: "Connection_create os fd default_connection_config w = (c, apply_socket_options os c w)"
    using fd0(1) by (simp add: Connection_create_def c_def Let_def)
  let ?s = "(put_pool pool (ns_pool s pool) s)\<lparr>ns_world := apply_socket_options os c w, ns_conns := ns_conns s @ [c]\<rparr>"
  have "acquire os pool s = Inr (Some (length (ns_conns s)), put_pool pool (pool_created (ns_pool ?s pool)) ?s)"
    using acq fd fd0(1) cr by (simp add: acquire_def create_connection_def)
  moreover have "fresh (cn_fd c) (apply_socket_options os c w)" using fresh_options [OF assms(1), of c w] fd0(2) by (simp add: c_def)
  ultimately show ?thesis using assms(5)
    by (intro exI [of _ c] exI [of _ "put_pool pool (pool_created (ns_pool ?s pool)) ?s"]) (simp add: c_def put_pool_def ns_pool_def)
qed

lemma write_fresh_fails:
  assumes "unconnected_sockets_fail os fresh" "cn_state c = Connected" "fresh (cn_fd c) w"
  shows "\<exists>n c' w'. Connection_async_write os data (c, w) = (n, c', w') \<and> n \<le> 0 \<and> cn_state c' = Closed"
proof -
  obtain n w1 where n: "os_send os (cn_fd c) data w = (n, w1)" by fastforce
  with assms(1,3) have "n \<le> 0" unfolding unconnected_sockets_fail_def by (metis fst_conv)
  with n assms(2) show ?thesis
    by (simp add: Connection_async_write_def Connection_connected_def handle_error_def Connection_close_def Let_def)
qed

lemma pooled_send_fails:
  assumes "unconnected_sockets_fail os fresh" "tc_pool cl = Some pool" "cp_idle (ns_pool s pool) = []" "cp_total (ns_pool s pool) = 0"
    "cp_max_connections (ns_pool s pool) = 10" "pool < length (pm_store (ns_manager s))"
  shows "\<exists>n s'. TcpClient_send os nap data (cl, s) = Inr (n, cl, s') \<and> n \<le> 0 \<and> cp_idle (ns_pool s' pool) = [] \<and>
    cp_total (ns_pool s' pool) = 0 \<and> cp_max_connections (ns_pool s' pool) = 10 \<and> pool < length (pm_store (ns_manager s'))"
proof -
  let ?i = "length (ns_conns s)"
  obtain c s1 where s1: "acquire os pool s = Inr (Some ?i, s1)" "ns_conns s1 = ns_conns s @ [c]" "cn_state c = Connected"
    "fresh (cn_fd c) (ns_world s1)" "ns_pool s1 pool = pool_created (ns_pool s pool)"
    "length (pm_store (ns_manager s1)) = length (pm_store (ns_manager s))"
    using acquire_creates [OF assms(1,3-6)] by blast
  obtain n c' w' where w: "Connection_async_write os data (c, ns_world s1) = (n, c', w')" "n \<le> 0" "cn_state c' = Closed"
    using write_fresh_fails [OF assms(1) s1(3,4)] by blast
  let ?s2 = "s1\<lparr>ns_world := w', ns_conns := (ns_conns s1)[?i := c']\<rparr>"
  let ?p = "(pool_created (ns_pool s pool))\<lparr>cp_active := cp_active (pool_created (ns_pool s pool)) - 1, cp_total := 0\<rparr>"
  have r: "on_conn ?i (Connection_async_write os data) s1 = (n, ?s2)" using w(1) s1(2) by (simp add: on_conn_def)
  have "pool_release (ns_alive ?s2) ?i (ns_pool ?s2 pool) = (False, ?p)"
    using w(3) s1(2,5) assms(4) by (simp add: pool_release_def ns_alive_def Connection_connected_def pool_created_def)
  moreover have "snd (on_conn ?i (\<lambda>cw. ((), Connection_close os cw)) ?s2) = ?s2"
    using w(3) s1(2) by (simp add: on_conn_def Connection_close_def)
  ultimately have rel: "release os pool ?i ?s2 = put_pool pool ?p ?s2" by (simp add: release_def)
  have "TcpClient_send os nap data (cl, s) = Inr (n, cl, put_pool pool ?p ?s2)"
    using s1(1) r rel assms(2) by (simp add: TcpClient_send_def on_client_def)
  with w(2) s1(6) assms show ?thesis
    by (intro exI [of _ n] exI [of _ "put_pool pool ?p ?s2"]) (simp add: put_pool_def ns_pool_def pool_created_def)
qed

lemma call_untouched:
  assumes "unconnected_sockets_fail os fresh" "pool_untouched st" "length pad = 4"
  shows "\<exists>st'. RpcClient_call os nap pad now enc dec service method request st = Inr (send_failed, st') \<and> pool_untouched st'"
proof -
  obtain tcp pool where p: "ro_tcp_client (fst st) = Some tcp" "tc_pool tcp = Some pool" "pool < length (pm_store (ns_manager (snd st)))"
    "cp_idle (ns_pool (snd st) pool) = []" "cp_total (ns_pool (snd st) pool) = 0" "cp_max_connections (ns_pool (snd st) pool) = 10"
    using assms(2) unfolding pool_untouched_def by blast
  define msg where "msg = create_request now (ro_request_id (fst st)) service method (serialize enc request) (rcc_timeout_ms (ro_config (fst st)))"
  obtain bs where bs: "RpcMessage_serialize pad msg = Some bs" using serialize_image [OF assms(3)] by blast
  obtain n s' where s': "TcpClient_send os nap bs (tcp, snd st) = Inr (n, tcp, s')" "n \<le> 0" "cp_idle (ns_pool s' pool) = []"
    "cp_total (ns_pool s' pool) = 0" "cp_max_connections (ns_pool s' pool) = 10" "pool < length (pm_store (ns_manager s'))"
    using pooled_send_fails [OF assms(1) p(2,4,5,6,3)] by blast
  let ?cl = "(fst st)\<lparr>ro_request_id := ro_request_id (fst st) + 1, ro_tcp_client := Some tcp\<rparr>"
  have "RpcClient_call os nap pad now enc dec service method request st = Inr (send_failed, ?cl, s')"
    using p(1) bs [unfolded msg_def] s'(1,2)
    by (simp add: RpcClient_call_def rpc_call_def tcp_transport_def core_client_def next_request_id_def after_call_def send_failed_def Let_def)
  moreover have "pool_untouched (?cl, s')" using s' p(2) by (auto simp: pool_untouched_def)
  ultimately show ?thesis by blast
qed

lemma connect_untouched:
  assumes "um_find (pm_pools (ns_manager (snd st))) (pool_key host port) = None" "ro_tcp_client (fst st) = None"
  shows "\<exists>st'. RpcClient_connect os host port st = Inr (True, st') \<and> pool_untouched st' \<and> \<not> RpcClient_connected (fst st')"
  using assms
  by (simp add: RpcClient_connect_def RpcClient_disconnect_def TcpClient_connect_def TcpClient_ctor_def default_client_config_def get_pool_def
      Let_def pool_untouched_def ns_pool_def ConnectionPool_ctor_def RpcClient_connected_def nth_append)

text \<open>
  C23. A new RPC client whose \<open>connect\<close> returned true is not connected, and every call on it fails with a connection error, however
  many are made: the TCP client it creates takes sockets from a pool that never connects them. The kernel's part is that
  sending on a socket that was never connected fails.
\<close>

theorem rpc_client_cannot_call:
  assumes "unconnected_sockets_fail os fresh" "length pad = 4"
    and "um_find (pm_pools (ns_manager s)) (pool_key host port) = None"
  shows "\<exists>st. RpcClient_connect os host port (RpcClient_ctor config, s) = Inr (True, st) \<and> \<not> RpcClient_connected (fst st) \<and>
    (\<exists>st'. calls (map (\<lambda>(service, method, request). RpcClient_call os nap pad now enc dec service method request) reqs) st =
       Inr (replicate (length reqs) send_failed, st'))"
proof -
  have all: "\<exists>st'. calls (map (\<lambda>(service, method, request). RpcClient_call os nap pad now enc dec service method request) reqs) st =
      Inr (replicate (length reqs) send_failed, st')" if "pool_untouched st" for st
    using that
  proof (induction reqs arbitrary: st)
    case Nil
    then show ?case by simp
  next
    case (Cons r reqs)
    obtain sv mt rq where r: "r = (sv, mt, rq)" by (cases r)
    obtain st1 where st1: "RpcClient_call os nap pad now enc dec sv mt rq st = Inr (send_failed, st1)" "pool_untouched st1"
      using call_untouched [OF assms(1) Cons.prems assms(2), of nap now enc dec sv mt rq] by blast
    from Cons.IH [OF st1(2)] st1(1) r show ?case by auto
  qed
  have "\<exists>st. RpcClient_connect os host port (RpcClient_ctor config, s) = Inr (True, st) \<and> pool_untouched st \<and> \<not> RpcClient_connected (fst st)"
    by (rule connect_untouched) (simp_all add: assms(3) RpcClient_ctor_def)
  with all show ?thesis by blast
qed


text \<open>A kernel whose world is the list of the connected sockets.\<close>

definition sockets_os :: "int list net_os" where
  "sockets_os = \<lparr>os_socket = (\<lambda>w. (1 + foldr max w 0, w)), os_connect = (\<lambda>fd _ _ w. (0, fd # w)),
     os_recv = (\<lambda>fd sz w. (if fd \<in> set w then (1, [0]) else (-1, []), w)),
     os_send = (\<lambda>fd data w. (if fd \<in> set w then int (length data) else -1, w)),
     os_close = (\<lambda>fd w. removeAll fd w), os_shutdown_wr = (\<lambda>_ w. w), os_setsockopt = (\<lambda>_ _ w. w)\<rparr>"

lemma foldr_max_ge: "0 \<le> foldr max w (0 :: int)" "x \<in> set w \<Longrightarrow> x \<le> foldr max w (0 :: int)"
  by (induction w) auto

theorem rpc_client_cannot_call_witness:
  "\<exists>st. RpcClient_connect sockets_os [49] 80 (RpcClient_ctor RpcClientConfig_default,
       \<lparr>ns_world = [], ns_conns = [], ns_manager = \<lparr>pm_store = [], pm_pools = []\<rparr>\<rparr>) = Inr (True, st) \<and> \<not> RpcClient_connected (fst st) \<and>
     (\<exists>st'. calls [RpcClient_call sockets_os (\<lambda>_ w. w) [0, 0, 0, 0] 0 encode_u32 decode_u32 [65] [66] 7,
         RpcClient_call sockets_os (\<lambda>_ w. w) [0, 0, 0, 0] 0 encode_u32 decode_u32 [65] [66] 8] st = Inr ([send_failed, send_failed], st'))"
proof -
  have k: "unconnected_sockets_fail sockets_os (\<lambda>fd w. fd \<notin> set w)"
    using foldr_max_ge by (fastforce simp: unconnected_sockets_fail_def sockets_os_def)
  show ?thesis
    using rpc_client_cannot_call [OF k, of "[0, 0, 0, 0]" "\<lparr>ns_world = [], ns_conns = [], ns_manager = \<lparr>pm_store = [], pm_pools = []\<rparr>\<rparr>" "[49]" 80
        RpcClientConfig_default "\<lambda>_ w. w" 0 encode_u32 decode_u32 "[([65], [66], 7), ([65], [66], 8)]"]
    by (simp add: numeral_2_eq_2)
qed

end
