(* ===== verification/Io_EventLoop.thy ===== *)
theory Io_EventLoop
  imports Io_Uring "HOL-Library.Multiset"
begin

text \<open>
  The event loop of \<open>io/event_loop.hpp\<close>: the task queue, the timer heap and one round of the loop on top of the
  global ring. A callable (a posted task or a timer callback) is a value of type \<open>'c\<close>; what calling it does is
  a parameter: it changes the world and makes a list of calls back into the loop. The clock is read from the
  world, in nanoseconds. The system is the ring together with the loop and the world, the form in
  which the completion callbacks of the ring see it.

  The heap of \<open>std::priority_queue\<close> is a list of its elements with a parameter \<open>le_pick\<close> for the position of its top.
  All callables run on the thread of the loop, so locking \<open>timers_mutex_\<close> while it is held is a deadlock. A
  time that leaves the range of the clock's 64-bit count is an overflow.
\<close>

section \<open>State\<close>

record 'c TimerHandle =
  th_id :: u64
  th_expire_time :: int
  th_callback :: 'c
  th_cancelled :: bool

record 'c EventLoop =
  el_running :: bool
  el_pending_tasks :: "'c list"
  el_timers :: "'c TimerHandle list"
  el_timer_map :: "(u64, nat) umap"
  el_next_timer_id :: u64

definition EventLoop_ctor :: "'c EventLoop" where
  "EventLoop_ctor = \<lparr>el_running = False, el_pending_tasks = [], el_timers = [], el_timer_map = [], el_next_timer_id = 0\<rparr>"

datatype loop_error = RingFault IoUringError | Deadlock | TimeOverflow

datatype 'c loop_act = Act_post 'c | Act_set_timer u64 'c | Act_cancel_timer u64 | Act_stop

text \<open>What the loop runs on: callables, clock, the library, the empty completion callback, the heap order.\<close>

record ('r, 'cb, 'c, 'w) loop_env =
  le_call :: "'c \<Rightarrow> 'w \<Rightarrow> 'c loop_act list \<times> 'w"
  le_clock :: "'w \<Rightarrow> int"
  le_lib :: "'r liburing"
  le_noop :: 'cb
  le_pick :: "'c TimerHandle list \<Rightarrow> nat"

type_synonym ('r, 'cb, 'c, 'w) loop_state = "('r, 'cb) IoUring \<times> ('c EventLoop \<times> 'w)"

abbreviation ls_ring :: "('r, 'cb, 'c, 'w) loop_state \<Rightarrow> ('r, 'cb) IoUring" where
  "ls_ring s \<equiv> fst s"

abbreviation ls_loop :: "('r, 'cb, 'c, 'w) loop_state \<Rightarrow> 'c EventLoop" where
  "ls_loop s \<equiv> fst (snd s)"

abbreviation ls_world :: "('r, 'cb, 'c, 'w) loop_state \<Rightarrow> 'w" where
  "ls_world s \<equiv> snd (snd s)"

definition with_loop :: "('c EventLoop \<Rightarrow> 'c EventLoop) \<Rightarrow> ('r, 'cb, 'c, 'w) loop_state \<Rightarrow> ('r, 'cb, 'c, 'w) loop_state" where
  "with_loop f s = (ls_ring s, f (ls_loop s), ls_world s)"

section \<open>Operations\<close>

definition EventLoop_stop :: "('r, 'cb, 'c, 'w) loop_state \<Rightarrow> ('r, 'cb, 'c, 'w) loop_state" where
  "EventLoop_stop s = with_loop (\<lambda>l. l\<lparr>el_running := False\<rparr>) s"

definition EventLoop_dtor :: "('r, 'cb, 'c, 'w) loop_state \<Rightarrow> ('r, 'cb, 'c, 'w) loop_state" where
  "EventLoop_dtor s = EventLoop_stop s"

definition wakeup :: "('r, 'cb, 'c, 'w) loop_env \<Rightarrow> ('r, 'cb, 'c, 'w) loop_state \<Rightarrow> loop_error + ('r, 'cb, 'c, 'w) loop_state" where
  "wakeup env s =
     (case rbind (prepare_nop (le_lib env) (le_noop env) (ls_ring s)) (\<lambda>(_, u). submit (le_lib env) u) of
        Inl e \<Rightarrow> Inl (RingFault e)
      | Inr (_, u) \<Rightarrow> Inr (u, snd s))"

definition EventLoop_post :: "('r, 'cb, 'c, 'w) loop_env \<Rightarrow> 'c \<Rightarrow> ('r, 'cb, 'c, 'w) loop_state \<Rightarrow> loop_error + ('r, 'cb, 'c, 'w) loop_state" where
  "EventLoop_post env task s = wakeup env (with_loop (\<lambda>l. l\<lparr>el_pending_tasks := el_pending_tasks l @ [task]\<rparr>) s)"

text \<open>\<open>spawn\<close> posts a callable that starts the coroutine.\<close>

definition EventLoop_spawn :: "('r, 'cb, 'c, 'w) loop_env \<Rightarrow> ('t \<Rightarrow> 'c) \<Rightarrow> 't \<Rightarrow> ('r, 'cb, 'c, 'w) loop_state \<Rightarrow> loop_error + ('r, 'cb, 'c, 'w) loop_state" where
  "EventLoop_spawn env start_task task s = EventLoop_post env (start_task task) s"

definition in_int64 :: "int \<Rightarrow> bool" where
  "in_int64 n \<longleftrightarrow> - (2 ^ 63) \<le> n \<and> n < 2 ^ 63"

definition expire_after :: "int \<Rightarrow> u64 \<Rightarrow> loop_error + int" where
  "expire_after now delay_ms =
     (let d = sint delay_ms * 1000000
      in if in_int64 d \<and> in_int64 (now + d) then Inr (now + d) else Inl TimeOverflow)"

definition EventLoop_set_timer :: "('r, 'cb, 'c, 'w) loop_env \<Rightarrow> u64 \<Rightarrow> 'c \<Rightarrow> ('r, 'cb, 'c, 'w) loop_state \<Rightarrow>
    loop_error + (u64 \<times> ('r, 'cb, 'c, 'w) loop_state)" where
  "EventLoop_set_timer env delay_ms cb s =
     (let tid = el_next_timer_id (ls_loop s);
          s1 = with_loop (\<lambda>l. l\<lparr>el_next_timer_id := el_next_timer_id l + 1\<rparr>) s
      in rbind (expire_after (le_clock env (ls_world s)) delay_ms) (\<lambda>expire.
           Inr (tid, with_loop (\<lambda>l. l\<lparr>el_timers := el_timers l @
             [\<lparr>th_id = tid, th_expire_time = expire, th_callback = cb, th_cancelled = False\<rparr>]\<rparr>) s1)))"

text \<open>\<open>timer_map_\<close> holds pointers to timers, here positions in the heap.\<close>

definition EventLoop_cancel_timer :: "u64 \<Rightarrow> ('r, 'cb, 'c, 'w) loop_state \<Rightarrow> bool \<times> ('r, 'cb, 'c, 'w) loop_state" where
  "EventLoop_cancel_timer tid s =
     (case um_find (el_timer_map (ls_loop s)) tid of
        Some i \<Rightarrow> (True, with_loop (\<lambda>l. l\<lparr>el_timers := (el_timers l)[i := (el_timers l ! i)\<lparr>th_cancelled := True\<rparr>],
                     el_timer_map := um_erase (el_timer_map l) tid\<rparr>) s)
      | None \<Rightarrow> (False, s))"

text \<open>A call from a callable back into the loop; \<open>held\<close> says that the caller runs under \<open>timers_mutex_\<close>.\<close>

fun perform :: "('r, 'cb, 'c, 'w) loop_env \<Rightarrow> bool \<Rightarrow> 'c loop_act \<Rightarrow> ('r, 'cb, 'c, 'w) loop_state \<Rightarrow> loop_error + ('r, 'cb, 'c, 'w) loop_state" where
  "perform env held (Act_post c) s = EventLoop_post env c s"
| "perform env held (Act_set_timer d c) s = (if held then Inl Deadlock else rbind (EventLoop_set_timer env d c s) (\<lambda>(_, s'). Inr s'))"
| "perform env held (Act_cancel_timer i) s = (if held then Inl Deadlock else Inr (snd (EventLoop_cancel_timer i s)))"
| "perform env held Act_stop s = Inr (EventLoop_stop s)"

fun performs :: "('r, 'cb, 'c, 'w) loop_env \<Rightarrow> bool \<Rightarrow> 'c loop_act list \<Rightarrow> ('r, 'cb, 'c, 'w) loop_state \<Rightarrow> loop_error + ('r, 'cb, 'c, 'w) loop_state" where
  "performs env held [] s = Inr s"
| "performs env held (a # as) s = rbind (perform env held a s) (performs env held as)"

definition call_back :: "('r, 'cb, 'c, 'w) loop_env \<Rightarrow> bool \<Rightarrow> 'c \<Rightarrow> ('r, 'cb, 'c, 'w) loop_state \<Rightarrow> loop_error + ('r, 'cb, 'c, 'w) loop_state" where
  "call_back env held c s =
     (case le_call env c (ls_world s) of (as, w) \<Rightarrow> performs env held as (ls_ring s, ls_loop s, w))"

section \<open>A round\<close>

lemma wakeup_loop: "wakeup env s = Inr s' \<Longrightarrow> snd s' = snd s"
  by (auto simp: wakeup_def split: sum.splits)

lemma perform_held_timers: "perform env True a s = Inr s' \<Longrightarrow> el_timers (ls_loop s') = el_timers (ls_loop s)"
  by (cases a) (auto simp: EventLoop_post_def with_loop_def EventLoop_stop_def dest!: wakeup_loop)

lemma performs_held_timers: "performs env True as s = Inr s' \<Longrightarrow> el_timers (ls_loop s') = el_timers (ls_loop s)"
  by (induction as arbitrary: s) (auto simp: rbind_Inr_iff dest!: perform_held_timers)

lemma call_back_held_timers: "call_back env True c s = Inr s' \<Longrightarrow> el_timers (ls_loop s') = el_timers (ls_loop s)"
  by (auto simp: call_back_def dest!: performs_held_timers split: prod.splits)

definition heap_index :: "('r, 'cb, 'c, 'w) loop_env \<Rightarrow> 'c TimerHandle list \<Rightarrow> nat" where
  "heap_index env ts = min (le_pick env ts) (length ts - 1)"

definition heap_top :: "('r, 'cb, 'c, 'w) loop_env \<Rightarrow> 'c TimerHandle list \<Rightarrow> 'c TimerHandle" where
  "heap_top env ts = ts ! heap_index env ts"

definition heap_pop :: "('r, 'cb, 'c, 'w) loop_env \<Rightarrow> 'c TimerHandle list \<Rightarrow> 'c TimerHandle list" where
  "heap_pop env ts = take (heap_index env ts) ts @ drop (Suc (heap_index env ts)) ts"

lemma heap_index_less: "ts \<noteq> [] \<Longrightarrow> heap_index env ts < length ts"
  by (cases ts) (simp_all add: heap_index_def)

lemma length_heap_pop: "ts \<noteq> [] \<Longrightarrow> length (heap_pop env ts) < length ts"
  using heap_index_less [of ts env] by (simp add: heap_pop_def)

text \<open>The loop of \<open>process_timers\<close>, which holds \<open>timers_mutex_\<close> throughout.\<close>

function process_timers_loop :: "('r, 'cb, 'c, 'w) loop_env \<Rightarrow> int \<Rightarrow> ('r, 'cb, 'c, 'w) loop_state \<Rightarrow> loop_error + ('r, 'cb, 'c, 'w) loop_state" where
  "process_timers_loop env now s =
     (let ts = el_timers (ls_loop s) in
      if ts \<noteq> [] \<and> th_expire_time (heap_top env ts) \<le> now then
        let timer = heap_top env ts;
            s1 = with_loop (\<lambda>l. l\<lparr>el_timers := heap_pop env ts\<rparr>) s
        in case (if th_cancelled timer then Inr s1 else call_back env True (th_callback timer) s1) of
             Inl e \<Rightarrow> Inl e
           | Inr s2 \<Rightarrow> process_timers_loop env now (with_loop (\<lambda>l. l\<lparr>el_timer_map := um_erase (el_timer_map l) (th_id timer)\<rparr>) s2)
      else Inr s)"
  by pat_completeness auto
termination
proof (relation "measure (\<lambda>(env, now, s). length (el_timers (ls_loop s)))", goal_cases)
  case 1
  show ?case by simp
next
  case (2 env now s ts timer s1 s2)
  from 2(5) have "el_timers (ls_loop s2) = el_timers (ls_loop s1)"
    by (auto split: if_splits dest!: call_back_held_timers)
  with 2 length_heap_pop [of ts env] show ?case by (simp add: with_loop_def)
qed

declare process_timers_loop.simps [simp del]

definition process_timers :: "('r, 'cb, 'c, 'w) loop_env \<Rightarrow> ('r, 'cb, 'c, 'w) loop_state \<Rightarrow> loop_error + ('r, 'cb, 'c, 'w) loop_state" where
  "process_timers env s = process_timers_loop env (le_clock env (ls_world s)) s"

text \<open>\<open>process_tasks\<close> takes the whole queue and runs it.\<close>

fun run_tasks :: "('r, 'cb, 'c, 'w) loop_env \<Rightarrow> 'c list \<Rightarrow> ('r, 'cb, 'c, 'w) loop_state \<Rightarrow> loop_error + ('r, 'cb, 'c, 'w) loop_state" where
  "run_tasks env [] s = Inr s"
| "run_tasks env (c # cs) s = rbind (call_back env False c s) (run_tasks env cs)"

definition process_tasks :: "('r, 'cb, 'c, 'w) loop_env \<Rightarrow> ('r, 'cb, 'c, 'w) loop_state \<Rightarrow> loop_error + ('r, 'cb, 'c, 'w) loop_state" where
  "process_tasks env s =
     run_tasks env (el_pending_tasks (ls_loop s)) (with_loop (\<lambda>l. l\<lparr>el_pending_tasks := []\<rparr>) s)"

definition EventLoop_run_once :: "('r, 'cb, 'c, 'w) loop_env \<Rightarrow> ('r, 'cb, 'c EventLoop \<times> 'w) runner \<Rightarrow> int \<Rightarrow>
    ('r, 'cb, 'c, 'w) loop_state \<Rightarrow> (loop_error + ('r, 'cb, 'c, 'w) loop_state) option" where
  "EventLoop_run_once env complete timeout_ms s =
     (case rbind (process_timers env s) (process_tasks env) of
        Inl e \<Rightarrow> Some (Inl e)
      | Inr s1 \<Rightarrow> Option.bind (run_once (le_lib env) complete timeout_ms s1)
          (\<lambda>res. Some (case res of Inl e \<Rightarrow> Inl (RingFault e) | Inr (_, s2) \<Rightarrow> Inr s2)))"

text \<open>\<open>run_loop\<close> need not end: \<open>None\<close> is a loop that is never stopped.\<close>

partial_function (option) run_loop :: "('r, 'cb, 'c, 'w) loop_env \<Rightarrow> ('r, 'cb, 'c EventLoop \<times> 'w) runner \<Rightarrow>
    ('r, 'cb, 'c, 'w) loop_state \<Rightarrow> (loop_error + ('r, 'cb, 'c, 'w) loop_state) option" where
  "run_loop env complete s =
     (if el_running (ls_loop s) then
        Option.bind (EventLoop_run_once env complete 10 s)
          (\<lambda>res. case res of Inl e \<Rightarrow> Some (Inl e) | Inr s' \<Rightarrow> run_loop env complete s')
      else Some (Inr s))"

definition EventLoop_run :: "('r, 'cb, 'c, 'w) loop_env \<Rightarrow> ('r, 'cb, 'c EventLoop \<times> 'w) runner \<Rightarrow>
    ('r, 'cb, 'c, 'w) loop_state \<Rightarrow> (loop_error + ('r, 'cb, 'c, 'w) loop_state) option" where
  "EventLoop_run env complete s = run_loop env complete (with_loop (\<lambda>l. l\<lparr>el_running := True\<rparr>) s)"

section \<open>Callables that only post\<close>

text \<open>
  What the loop needs of the ring to wake itself: from a state with room a no-op can be prepared and submitted,
  and there is room again.
\<close>

locale wake_ring =
  fixes lib :: "'r liburing" and room :: "'r \<Rightarrow> bool"
  assumes wake: "room r \<Longrightarrow> \<exists>r1. lu_get_sqe lib r = Some r1 \<and>
      0 \<le> fst (lu_submit lib (lu_fill_sqe lib e r1)) \<and> room (snd (lu_submit lib (lu_fill_sqe lib e r1)))"

text \<open>A callable that changes the world and posts the tasks \<open>fst (f c w)\<close>; the effect of a sequence of them.\<close>

definition posting :: "('c \<Rightarrow> 'w \<Rightarrow> 'c list \<times> 'w) \<Rightarrow> 'c \<Rightarrow> 'w \<Rightarrow> 'c loop_act list \<times> 'w" where
  "posting f c w = (map Act_post (fst (f c w)), snd (f c w))"

fun effects :: "('c \<Rightarrow> 'w \<Rightarrow> 'c list \<times> 'w) \<Rightarrow> 'c list \<Rightarrow> 'w \<Rightarrow> 'c list \<times> 'w" where
  "effects f [] w = ([], w)"
| "effects f (c # cs) w = (let (ps, w1) = f c w; (qs, w2) = effects f cs w1 in (ps @ qs, w2))"

definition pick_ok :: "('c TimerHandle list \<Rightarrow> nat) \<Rightarrow> bool" where
  "pick_ok pick \<longleftrightarrow> (\<forall>ts. ts \<noteq> [] \<longrightarrow>
     pick ts < length ts \<and> (\<forall>t \<in> set ts. th_expire_time (ts ! pick ts) \<le> th_expire_time t))"

lemma mset_heap_pop: "ts \<noteq> [] \<Longrightarrow> mset ts = add_mset (heap_top env ts) (mset (heap_pop env ts))"
  using heap_index_less [of ts env] id_take_nth_drop [of "heap_index env ts" ts]
  by (metis heap_top_def heap_pop_def mset_append mset.simps(2) union_mset_add_mset_right)

lemma heap_top_least: "pick_ok (le_pick env) \<Longrightarrow> t \<in> set ts \<Longrightarrow> th_expire_time (heap_top env ts) \<le> th_expire_time t"
  by (cases "ts = []") (auto simp: pick_ok_def heap_top_def heap_index_def min_def)

context wake_ring
begin

lemma wakeup_ok:
  assumes "le_lib env = lib" "room (iu_ring u)"
  shows "\<exists>u'. wakeup env (u, x) = Inr (u', x) \<and> room (iu_ring u')"
proof -
  let ?e = "\<lparr>sqe_op = Op_nop, sqe_flags = 0, sqe_user_data = fst (set_callback u (le_noop env))\<rparr>"
  from wake [OF assms(2), of ?e] show ?thesis
    by (auto simp: wakeup_def prepare_nop_def prepare_def submit_def assms(1) set_callback_eq split: prod.splits)
qed

lemma post_ok:
  assumes "le_lib env = lib" "room (iu_ring u)"
  shows "\<exists>u'. EventLoop_post env p (u, l, w) = Inr (u', l\<lparr>el_pending_tasks := el_pending_tasks l @ [p]\<rparr>, w) \<and> room (iu_ring u')"
  using wakeup_ok [OF assms] by (simp add: EventLoop_post_def with_loop_def)

lemma posts_ok:
  assumes "le_lib env = lib" "room (iu_ring u)"
  shows "\<exists>u'. performs env held (map Act_post ps) (u, l, w) =
    Inr (u', l\<lparr>el_pending_tasks := el_pending_tasks l @ ps\<rparr>, w) \<and> room (iu_ring u')"
  using assms(2)
proof (induction ps arbitrary: u l)
  case Nil
  then show ?case by simp
next
  case (Cons p ps)
  from post_ok [OF assms(1) Cons.prems] obtain u1 where
    "EventLoop_post env p (u, l, w) = Inr (u1, l\<lparr>el_pending_tasks := el_pending_tasks l @ [p]\<rparr>, w)" "room (iu_ring u1)"
    by blast
  with Cons.IH [of u1 "l\<lparr>el_pending_tasks := el_pending_tasks l @ [p]\<rparr>"] show ?case by simp
qed

lemma call_back_posting:
  assumes "le_lib env = lib" "le_call env = posting f" "room (iu_ring u)"
  shows "\<exists>u'. call_back env held c (u, l, w) =
    Inr (u', l\<lparr>el_pending_tasks := el_pending_tasks l @ fst (f c w)\<rparr>, snd (f c w)) \<and> room (iu_ring u')"
  using posts_ok [OF assms(1,3)] by (simp add: call_back_def assms(2) posting_def)

lemma run_tasks_posting:
  assumes "le_lib env = lib" "le_call env = posting f" "room (iu_ring u)"
  shows "\<exists>u'. run_tasks env cs (u, l, w) =
    Inr (u', l\<lparr>el_pending_tasks := el_pending_tasks l @ fst (effects f cs w)\<rparr>, snd (effects f cs w)) \<and> room (iu_ring u')"
  using assms(3)
proof (induction cs arbitrary: u l w)
  case Nil
  then show ?case by simp
next
  case (Cons c cs)
  from call_back_posting [OF assms(1,2) Cons.prems] obtain u1 where
    "call_back env False c (u, l, w) = Inr (u1, l\<lparr>el_pending_tasks := el_pending_tasks l @ fst (f c w)\<rparr>, snd (f c w))"
    "room (iu_ring u1)" by blast
  with Cons.IH [of u1 "l\<lparr>el_pending_tasks := el_pending_tasks l @ fst (f c w)\<rparr>" "snd (f c w)"] show ?case
    by (auto simp: Let_def split: prod.splits)
qed

lemma process_timers_posting:
  assumes "le_lib env = lib" "le_call env = posting f" "pick_ok (le_pick env)"
    and "room (iu_ring u)" "el_timer_map l = []" "\<forall>t \<in> set (el_timers l). \<not> th_cancelled t"
  shows "\<exists>fired rest u'. process_timers_loop env now (u, l, w) =
      Inr (u', l\<lparr>el_timers := rest, el_pending_tasks := el_pending_tasks l @ fst (effects f (map th_callback fired) w)\<rparr>,
        snd (effects f (map th_callback fired) w)) \<and> room (iu_ring u') \<and>
    mset (el_timers l) = mset (fired @ rest) \<and> sorted (map th_expire_time fired) \<and>
    (\<forall>t \<in> set fired. th_expire_time t \<le> now) \<and> (\<forall>t \<in> set rest. now < th_expire_time t)"
  using assms(4-6)
proof (induction "length (el_timers l)" arbitrary: u l w rule: less_induct)
  case less
  let ?ts = "el_timers l"
  show ?case
  proof (cases "?ts \<noteq> [] \<and> th_expire_time (heap_top env ?ts) \<le> now")
    case False
    then have "process_timers_loop env now (u, l, w) = Inr (u, l, w)"
      by (subst process_timers_loop.simps) (auto simp: Let_def)
    moreover have "\<forall>t \<in> set ?ts. now < th_expire_time t"
      using False heap_top_least [OF assms(3), of _ ?ts] by fastforce
    ultimately show ?thesis using less.prems by (intro exI [of _ "[]"] exI [of _ ?ts] exI [of _ u]) simp
  next
    case True
    define t where "t = heap_top env ?ts"
    have ms: "mset ?ts = add_mset t (mset (heap_pop env ?ts))" using True mset_heap_pop t_def by blast
    then have "set ?ts = insert t (set (heap_pop env ?ts))" by (metis set_mset_mset set_mset_add_mset_insert)
    with less.prems have nc: "\<not> th_cancelled t" "\<forall>t \<in> set (heap_pop env ?ts). \<not> th_cancelled t" by auto
    let ?lp = "l\<lparr>el_timers := heap_pop env ?ts\<rparr>"
    let ?l = "l\<lparr>el_timers := heap_pop env ?ts, el_pending_tasks := el_pending_tasks l @ fst (f (th_callback t) w)\<rparr>"
    from call_back_posting [OF assms(1,2) less.prems(1), of True "th_callback t" ?lp w] obtain u1 where
      u1: "call_back env True (th_callback t) (u, ?lp, w) = Inr (u1, ?l, snd (f (th_callback t) w))" "room (iu_ring u1)"
      by auto
    have same: "?l\<lparr>el_timer_map := []\<rparr> = ?l" using less.prems(2) by (cases l) simp
    from u1 have step: "process_timers_loop env now (u, l, w) = process_timers_loop env now (u1, ?l, snd (f (th_callback t) w))"
      using True nc less.prems(2)
      by (subst process_timers_loop.simps) (simp add: Let_def with_loop_def t_def [symmetric] same)
    have "length (el_timers ?l) < length ?ts" using True length_heap_pop [of ?ts env] by simp
    from less.hyps [OF this u1(2), of "snd (f (th_callback t) w)"] less.prems(2) nc(2)
    obtain fired rest u' where IH: "process_timers_loop env now (u1, ?l, snd (f (th_callback t) w)) =
        Inr (u', ?l\<lparr>el_timers := rest, el_pending_tasks := el_pending_tasks ?l @
          fst (effects f (map th_callback fired) (snd (f (th_callback t) w)))\<rparr>,
          snd (effects f (map th_callback fired) (snd (f (th_callback t) w))))" "room (iu_ring u')"
      "mset (heap_pop env ?ts) = mset (fired @ rest)" "sorted (map th_expire_time fired)"
      "\<forall>t \<in> set fired. th_expire_time t \<le> now" "\<forall>t \<in> set rest. now < th_expire_time t" by auto
    have "set fired \<subseteq> set ?ts" using IH(3) ms by (metis Un_upper1 set_append set_mset_mset set_mset_add_mset_insert subset_insertI2)
    then have "\<forall>t' \<in> set fired. th_expire_time t \<le> th_expire_time t'"
      using heap_top_least [OF assms(3)] t_def by blast
    with IH ms True step show ?thesis
      by (intro exI [of _ "t # fired"] exI [of _ rest] exI [of _ u'])
        (simp add: Let_def t_def [symmetric] split: prod.splits)
  qed
qed

end

interpretation list_wake: wake_ring list_lib "\<lambda>r. lr_sq r = [] \<and> 0 < lr_capacity r"
  by unfold_locales (auto simp: list_lib_def)

section \<open>Reachable loops\<close>

text \<open>
  A loop in use: calls into it, the parts of a round, and whatever the ring and the rest of the world do
  in between.
\<close>

inductive loop_step :: "('r, 'cb, 'c, 'w) loop_env \<Rightarrow> ('r, 'cb, 'c, 'w) loop_state \<Rightarrow> ('r, 'cb, 'c, 'w) loop_state \<Rightarrow> bool" for env where
  call: "perform env False a s = Inr s' \<Longrightarrow> loop_step env s s'"
| timers: "process_timers env s = Inr s' \<Longrightarrow> loop_step env s s'"
| tasks: "process_tasks env s = Inr s' \<Longrightarrow> loop_step env s s'"
| start: "loop_step env s (with_loop (\<lambda>l. l\<lparr>el_running := True\<rparr>) s)"
| outside: "loop_step env (u, l, w) (u', l, w')"

inductive loop_reach :: "('r, 'cb, 'c, 'w) loop_env \<Rightarrow> ('r, 'cb, 'c, 'w) loop_state \<Rightarrow> bool" for env where
  init: "loop_reach env (u, EventLoop_ctor, w)"
| step: "loop_reach env s \<Longrightarrow> loop_step env s s' \<Longrightarrow> loop_reach env s'"

definition loop_ok :: "'c EventLoop \<Rightarrow> bool" where
  "loop_ok l \<longleftrightarrow> el_timer_map l = [] \<and> list_all (\<lambda>t. \<not> th_cancelled t) (el_timers l)"

lemma perform_ok: "perform env held a s = Inr s' \<Longrightarrow> loop_ok (ls_loop s) \<Longrightarrow> loop_ok (ls_loop s')"
  by (cases a) (auto simp: loop_ok_def EventLoop_post_def with_loop_def EventLoop_stop_def EventLoop_set_timer_def
      EventLoop_cancel_timer_def rbind_Inr_iff Let_def split: if_splits dest!: wakeup_loop)

lemma performs_ok: "performs env held as s = Inr s' \<Longrightarrow> loop_ok (ls_loop s) \<Longrightarrow> loop_ok (ls_loop s')"
  by (induction as arbitrary: s) (auto simp: rbind_Inr_iff dest: perform_ok)

lemma call_back_ok: "call_back env held c s = Inr s' \<Longrightarrow> loop_ok (ls_loop s) \<Longrightarrow> loop_ok (ls_loop s')"
  by (auto simp: call_back_def split: prod.splits dest: performs_ok)

lemma run_tasks_ok: "run_tasks env cs s = Inr s' \<Longrightarrow> loop_ok (ls_loop s) \<Longrightarrow> loop_ok (ls_loop s')"
  by (induction cs arbitrary: s) (auto simp: rbind_Inr_iff dest: call_back_ok)

lemma process_timers_ok:
  "process_timers_loop env now s = Inr s' \<Longrightarrow> loop_ok (ls_loop s) \<Longrightarrow> loop_ok (ls_loop s')"
proof (induction env now s rule: process_timers_loop.induct)
  case (1 env now s)
  let ?ts = "el_timers (ls_loop s)" and ?t = "heap_top env (el_timers (ls_loop s))"
  let ?s1 = "with_loop (\<lambda>l. l\<lparr>el_timers := heap_pop env ?ts\<rparr>) s"
  show ?case
  proof (cases "?ts \<noteq> [] \<and> th_expire_time ?t \<le> now")
    case False
    with "1.prems" show ?thesis by (subst (asm) process_timers_loop.simps) (auto simp: Let_def)
  next
    case True
    with "1.prems"(1) obtain s2 where
        s2: "(if th_cancelled ?t then Inr ?s1 else call_back env True (th_callback ?t) ?s1) = Inr s2"
          "process_timers_loop env now (with_loop (\<lambda>l. l\<lparr>el_timer_map := um_erase (el_timer_map l) (th_id ?t)\<rparr>) s2) = Inr s'"
      by (subst (asm) process_timers_loop.simps) (auto simp: Let_def split: sum.splits if_splits)
    have "loop_ok (ls_loop ?s1)"
      using "1.prems"(2) by (auto simp: loop_ok_def with_loop_def heap_pop_def list_all_iff dest: in_set_takeD in_set_dropD)
    with s2(1) have "loop_ok (ls_loop s2)" by (auto split: if_splits dest: call_back_ok)
    then have "loop_ok (ls_loop (with_loop (\<lambda>l. l\<lparr>el_timer_map := um_erase (el_timer_map l) (th_id ?t)\<rparr>) s2))"
      by (simp add: loop_ok_def with_loop_def)
    from "1.IH" [OF refl True refl refl s2(1) s2(2) this] show ?thesis .
  qed
qed

lemma loop_ok_reach: "loop_reach env s \<Longrightarrow> loop_ok (ls_loop s)"
proof (induction rule: loop_reach.induct)
  case (init u w)
  show ?case by (simp add: loop_ok_def EventLoop_ctor_def)
next
  case (step s s')
  from step(2,3) show ?case
    by (induction rule: loop_step.induct)
      (auto simp: process_timers_def process_tasks_def with_loop_def loop_ok_def dest: perform_ok [unfolded loop_ok_def]
        process_timers_ok [unfolded loop_ok_def] run_tasks_ok [unfolded loop_ok_def])
qed

section \<open>Properties\<close>


text \<open>A loop whose callables log themselves; 1 and 2 are tasks, 2 posts 3, and the clock stands at 50.\<close>

definition log_call :: "nat \<Rightarrow> nat list \<Rightarrow> nat list \<times> nat list" where
  "log_call c w = (if c = 2 then [3] else [], w @ [c])"

definition pick_min :: "'c TimerHandle list \<Rightarrow> nat" where
  "pick_min ts = (let es = map (\<lambda>t. nat (th_expire_time t - Min (set (map th_expire_time ts)))) ts
     in scan_min 0 (hd es) 1 (tl es))"

definition log_env :: "(list_ring, nat, nat, nat list) loop_env" where
  "log_env = \<lparr>le_call = posting log_call, le_clock = (\<lambda>_. 50), le_lib = list_lib, le_noop = 0, le_pick = pick_min\<rparr>"

lemma pick_min_ok: "pick_ok pick_min"
  unfolding pick_ok_def
proof (intro allI impI)
  fix ts :: "'c TimerHandle list" assume ne: "ts \<noteq> []"
  let ?m = "Min (set (map th_expire_time ts))"
  let ?es = "map (\<lambda>t. nat (th_expire_time t - ?m)) ts"
  have k: "pick_min ts < length ts" "\<And>j. j < length ts \<Longrightarrow> ?es ! pick_min ts \<le> ?es ! j"
    using scan_min_first [of ?es] ne by (simp_all add: pick_min_def Let_def)
  have "?m \<le> th_expire_time t" if "t \<in> set ts" for t using that by simp
  moreover have "?m \<in> set (map th_expire_time ts)" by (rule Min_in) (use ne in auto)
  then obtain j where "j < length ts" "th_expire_time (ts ! j) = ?m" unfolding in_set_conv_nth by auto
  ultimately have "th_expire_time (ts ! pick_min ts) \<le> ?m" using k(1) k(2) [of j] nth_mem [OF k(1)] by auto
  with k(1) show "pick_min ts < length ts \<and> (\<forall>t \<in> set ts. th_expire_time (ts ! pick_min ts) \<le> th_expire_time t)"
    by (auto intro: order_trans)
qed

definition loop_ex :: "nat EventLoop" where
  "loop_ex = EventLoop_ctor\<lparr>el_pending_tasks := [1, 2]\<rparr>"


text \<open>
  A timer cannot be cancelled: \<open>timer_map_\<close> is never filled, so on every reachable loop \<open>cancel_timer\<close> reports failure
  and changes nothing, also for a timer that was just set and is still waiting to fire.
\<close>

theorem cancel_timer_fails:
  assumes "loop_reach env s" "EventLoop_set_timer env delay_ms c s = Inr (tid, s1)"
  shows "EventLoop_cancel_timer tid s1 = (False, s1) \<and>
    (\<exists>t \<in> set (el_timers (ls_loop s1)). th_id t = tid \<and> th_callback t = c \<and> \<not> th_cancelled t)"
  using loop_ok_reach [OF assms(1)] assms(2)
  by (auto simp: loop_ok_def EventLoop_set_timer_def EventLoop_cancel_timer_def with_loop_def rbind_Inr_iff Let_def)

theorem cancel_timer_fails_witness:
  "\<exists>s1. EventLoop_set_timer log_env 100 7 (uring_ex 1, EventLoop_ctor, []) = Inr (0, s1) \<and>
    EventLoop_cancel_timer 0 s1 = (False, s1) \<and>
    (\<exists>t \<in> set (el_timers (ls_loop s1)). th_id t = 0 \<and> th_callback t = 7 \<and> \<not> th_cancelled t)"
proof -
  have "\<exists>s1. EventLoop_set_timer log_env 100 7 (uring_ex 1, EventLoop_ctor, []) = Inr (0, s1)"
    by (simp add: EventLoop_set_timer_def expire_after_def in_int64_def log_env_def EventLoop_ctor_def with_loop_def)
  then obtain s1 where "EventLoop_set_timer log_env 100 7 (uring_ex 1, EventLoop_ctor, []) = Inr (0, s1)" by blast
  with cancel_timer_fails [OF loop_reach.init this] show ?thesis by blast
qed

text \<open>
  Timer callbacks run under \<open>timers_mutex_\<close>: one that sets another timer, as a periodic timer does, blocks the
  thread of the loop for ever.
\<close>

theorem timer_rearm_deadlocks:
  assumes "el_timers (ls_loop s) = [t]" "th_expire_time t \<le> le_clock env (ls_world s)" "\<not> th_cancelled t"
    and "fst (le_call env (th_callback t) (ls_world s)) = Act_set_timer d c # as"
  shows "process_timers env s = Inl Deadlock"
proof -
  have "heap_top env [t] = t" by (simp add: heap_top_def heap_index_def)
  with assms show ?thesis
    by (subst process_timers_def, subst process_timers_loop.simps)
      (auto simp: Let_def call_back_def with_loop_def split: prod.splits)
qed

theorem timer_rearm_deadlocks_witness:
  "process_timers (log_env\<lparr>le_call := (\<lambda>c w. ([Act_set_timer 5 c], w))\<rparr>)
     (uring_ex 1, EventLoop_ctor\<lparr>el_timers := [\<lparr>th_id = 0, th_expire_time = 20, th_callback = 4, th_cancelled = False\<rparr>]\<rparr>, []) =
   Inl Deadlock"
  by (rule timer_rearm_deadlocks) (auto simp: log_env_def)

end
