(* ===== verification/Io_EventLoopPool.thy ===== *)
theory Io_EventLoopPool
  imports Io_Async Io_EventLoop
begin

text \<open>
  The reactor threads of \<open>io/event_loop_pool.hpp\<close>: one ring, one task queue and one map of ring-message tasks per
  thread, and the pool that distributes descriptors to its workers. As in the event loop, a callable is a
  value of type \<open>'c\<close> whose effect is a parameter: it changes the world and makes calls back into its
  thread. \<open>tasks_mutex_\<close> makes the operations on queue and map atomic; taking it while it is held is a
  deadlock. The iteration order of the map is the order of the list that represents it.
\<close>

section \<open>A reactor thread\<close>

record 'c CrossThreadTask =
  ct_type :: u64
  ct_data :: u64
  ct_fn :: "'c option"

record ('r, 'cb, 'c) EventLoopThread =
  et_thread_id :: u32
  et_io_uring :: "('r, 'cb) IoUring"
  et_running :: bool
  et_connection_count :: size_t
  et_pending_tasks :: "(u64, 'c CrossThreadTask) umap"
  et_task_queue :: "'c CrossThreadTask list"
  et_next_task_id :: u64
  et_next_timer_id :: u64
  et_joinable :: bool

datatype thread_error = ThreadRing IoUringError | ThreadDeadlock | IndexFault | DivisionByZero | Terminated

definition EventLoopThread_ctor :: "'r liburing \<Rightarrow> u32 \<Rightarrow> u32 \<Rightarrow> thread_error + ('r, 'cb, 'c) EventLoopThread" where
  "EventLoopThread_ctor lib thread_id depth =
     (case IoUring_ctor lib (IoUringConfig_default\<lparr>queue_depth := depth\<rparr>) of
        Inl e \<Rightarrow> Inl (ThreadRing e)
      | Inr u \<Rightarrow> Inr \<lparr>et_thread_id = thread_id, et_io_uring = u, et_running = False, et_connection_count = 0,
          et_pending_tasks = [], et_task_queue = [], et_next_task_id = 1, et_next_timer_id = 1, et_joinable = False\<rparr>)"

text \<open>
  \<open>et_joinable\<close> says that \<open>thread_\<close> is a thread that was not joined yet; assigning a new thread to it then ends the
  program. The system thread itself is not modelled: it executes \<open>thread_run_loop\<close> below.
\<close>

definition thread_start :: "('r, 'cb, 'c) EventLoopThread \<Rightarrow> thread_error + ('r, 'cb, 'c) EventLoopThread" where
  "thread_start t = (if et_joinable t then Inl Terminated else Inr (t\<lparr>et_running := True, et_joinable := True\<rparr>))"

definition thread_is_running :: "('r, 'cb, 'c) EventLoopThread \<Rightarrow> bool" where
  "thread_is_running t = et_running t"

definition connection_count :: "('r, 'cb, 'c) EventLoopThread \<Rightarrow> size_t" where
  "connection_count t = et_connection_count t"

definition inc_connections :: "('r, 'cb, 'c) EventLoopThread \<Rightarrow> ('r, 'cb, 'c) EventLoopThread" where
  "inc_connections t = t\<lparr>et_connection_count := et_connection_count t + 1\<rparr>"

definition dec_connections :: "('r, 'cb, 'c) EventLoopThread \<Rightarrow> ('r, 'cb, 'c) EventLoopThread" where
  "dec_connections t = t\<lparr>et_connection_count := et_connection_count t - 1\<rparr>"

text \<open>\<open>stop\<close> wakes the loop and joins the thread; the destructor stops.\<close>

definition thread_stop :: "'r liburing \<Rightarrow> 'cb \<Rightarrow> ('r, 'cb, 'c) EventLoopThread \<Rightarrow> ('r, 'cb, 'c) EventLoopThread" where
  "thread_stop lib noop t =
     (if et_running t
      then t\<lparr>et_running := False, et_io_uring := snd (try_submit lib Op_nop noop (et_io_uring t)), et_joinable := False\<rparr> else t)"

definition EventLoopThread_dtor :: "'r liburing \<Rightarrow> 'cb \<Rightarrow> ('r, 'cb, 'c) EventLoopThread \<Rightarrow> ('r, 'cb, 'c) EventLoopThread" where
  "EventLoopThread_dtor lib noop t = thread_stop lib noop t"

definition post_via_msg_ring :: "'r liburing \<Rightarrow> 'cb \<Rightarrow> int \<Rightarrow> 'c CrossThreadTask \<Rightarrow> ('r, 'cb) IoUring \<Rightarrow>
    ('r, 'cb, 'c) EventLoopThread \<Rightarrow> bool \<times> ('r, 'cb) IoUring \<times> ('r, 'cb, 'c) EventLoopThread" where
  "post_via_msg_ring lib noop ring_fd task caller_ring t =
     (let task_id = et_next_task_id t;
          t1 = t\<lparr>et_next_task_id := et_next_task_id t + 1, et_pending_tasks := um_put (et_pending_tasks t) task_id task\<rparr>
      in case try_submit lib (Op_msg_ring ring_fd task_id) noop caller_ring of
           (True, caller) \<Rightarrow> (True, caller, t1)
         | (False, caller) \<Rightarrow> (False, caller, t1\<lparr>et_pending_tasks := um_erase (et_pending_tasks t1) task_id\<rparr>))"

definition thread_post :: "'r liburing \<Rightarrow> 'cb \<Rightarrow> 'c CrossThreadTask \<Rightarrow> ('r, 'cb, 'c) EventLoopThread \<Rightarrow> ('r, 'cb, 'c) EventLoopThread" where
  "thread_post lib noop task t =
     t\<lparr>et_task_queue := et_task_queue t @ [task], et_io_uring := snd (try_submit lib Op_nop noop (et_io_uring t))\<rparr>"

definition thread_post_fn :: "'r liburing \<Rightarrow> 'cb \<Rightarrow> 'c \<Rightarrow> ('r, 'cb, 'c) EventLoopThread \<Rightarrow> ('r, 'cb, 'c) EventLoopThread" where
  "thread_post_fn lib noop fn t = thread_post lib noop \<lparr>ct_type = 0, ct_data = 0, ct_fn = Some fn\<rparr> t"

text \<open>\<open>spawn\<close> moves the task into a shared object and posts the closure \<open>start_task task\<close>, which starts it.\<close>

definition thread_spawn :: "'r liburing \<Rightarrow> 'cb \<Rightarrow> ('t \<Rightarrow> 'c) \<Rightarrow> 't \<Rightarrow> ('r, 'cb, 'c) EventLoopThread \<Rightarrow> ('r, 'cb, 'c) EventLoopThread" where
  "thread_spawn lib noop start_task task t = thread_post_fn lib noop (start_task task) t"

text \<open>\<open>on_timer c\<close> is the completion callback that calls \<open>c\<close> when the timeout expired.\<close>

definition thread_set_timer :: "'r liburing \<Rightarrow> ('c \<Rightarrow> 'cb) \<Rightarrow> int \<Rightarrow> 'c \<Rightarrow> ('r, 'cb, 'c) EventLoopThread \<Rightarrow>
    thread_error + (u64 \<times> ('r, 'cb, 'c) EventLoopThread)" where
  "thread_set_timer lib on_timer delay_ms cb t =
     (case rbind (prepare_timeout lib (to_kernel_timespec_ms delay_ms) 0 (on_timer cb) 0 (et_io_uring t)) (\<lambda>(_, u). submit lib u) of
        Inl e \<Rightarrow> Inl (ThreadRing e)
      | Inr (_, u) \<Rightarrow> Inr (et_next_timer_id t, t\<lparr>et_next_timer_id := et_next_timer_id t + 1, et_io_uring := u\<rparr>))"

section \<open>The loop of a thread\<close>

datatype 'c thread_act = TA_post 'c | TA_set_timer int 'c | TA_dec

record ('r, 'cb, 'c, 'w) thread_env =
  te_call :: "'c \<Rightarrow> 'w \<Rightarrow> 'c thread_act list \<times> 'w"
  te_lib :: "'r liburing"
  te_noop :: 'cb
  te_on_timer :: "'c \<Rightarrow> 'cb"

type_synonym ('r, 'cb, 'c, 'w) thread_state = "('r, 'cb, 'c) EventLoopThread \<times> 'w"

fun thread_perform :: "('r, 'cb, 'c, 'w) thread_env \<Rightarrow> bool \<Rightarrow> 'c thread_act \<Rightarrow> ('r, 'cb, 'c) EventLoopThread \<Rightarrow>
    thread_error + ('r, 'cb, 'c) EventLoopThread" where
  "thread_perform env held (TA_post c) t = (if held then Inl ThreadDeadlock else Inr (thread_post_fn (te_lib env) (te_noop env) c t))"
| "thread_perform env held (TA_set_timer d c) t = rbind (thread_set_timer (te_lib env) (te_on_timer env) d c t) (\<lambda>(_, t'). Inr t')"
| "thread_perform env held TA_dec t = Inr (dec_connections t)"

fun thread_performs :: "('r, 'cb, 'c, 'w) thread_env \<Rightarrow> bool \<Rightarrow> 'c thread_act list \<Rightarrow> ('r, 'cb, 'c) EventLoopThread \<Rightarrow>
    thread_error + ('r, 'cb, 'c) EventLoopThread" where
  "thread_performs env held [] t = Inr t"
| "thread_performs env held (a # as) t = rbind (thread_perform env held a t) (thread_performs env held as)"

definition run_task :: "('r, 'cb, 'c, 'w) thread_env \<Rightarrow> bool \<Rightarrow> 'c CrossThreadTask \<Rightarrow> ('r, 'cb, 'c, 'w) thread_state \<Rightarrow>
    thread_error + ('r, 'cb, 'c, 'w) thread_state" where
  "run_task env held task s =
     (case ct_fn task of
        None \<Rightarrow> Inr s
      | Some fn \<Rightarrow> (case te_call env fn (snd s) of (as, w) \<Rightarrow>
          rbind (thread_performs env held as (fst s)) (\<lambda>t. Inr (t, w))))"

text \<open>
  The first part of \<open>process_tasks\<close> runs and erases the tasks of the map, one after the other, under \<open>tasks_mutex_\<close>.
  A ring message cannot add to the map meanwhile, since \<open>post_via_msg_ring\<close> needs the mutex.
\<close>

fun run_pending :: "('r, 'cb, 'c, 'w) thread_env \<Rightarrow> (u64, 'c CrossThreadTask) umap \<Rightarrow> ('r, 'cb, 'c, 'w) thread_state \<Rightarrow>
    thread_error + ('r, 'cb, 'c, 'w) thread_state" where
  "run_pending env [] s = Inr s"
| "run_pending env ((i, task) # m) s =
     rbind (run_task env True task s)
       (\<lambda>s'. run_pending env m ((fst s')\<lparr>et_pending_tasks := um_erase (et_pending_tasks (fst s')) i\<rparr>, snd s'))"

fun run_queue :: "('r, 'cb, 'c, 'w) thread_env \<Rightarrow> 'c CrossThreadTask list \<Rightarrow> ('r, 'cb, 'c, 'w) thread_state \<Rightarrow>
    thread_error + ('r, 'cb, 'c, 'w) thread_state" where
  "run_queue env [] s = Inr s"
| "run_queue env (task # q) s = rbind (run_task env False task s) (run_queue env q)"

definition thread_process_tasks :: "('r, 'cb, 'c, 'w) thread_env \<Rightarrow> ('r, 'cb, 'c, 'w) thread_state \<Rightarrow>
    thread_error + ('r, 'cb, 'c, 'w) thread_state" where
  "thread_process_tasks env s =
     rbind (run_pending env (et_pending_tasks (fst s)) s)
       (\<lambda>s'. run_queue env (et_task_queue (fst s')) ((fst s')\<lparr>et_task_queue := []\<rparr>, snd s'))"

text \<open>
  A round: the tasks, then the completions of the thread's own ring. The completion callbacks see the ring and the
  rest of the thread; \<open>complete\<close> is their effect.
\<close>

definition thread_round :: "('r, 'cb, 'c, 'w) thread_env \<Rightarrow> ('r, 'cb, ('r, 'cb, 'c) EventLoopThread \<times> 'w) runner \<Rightarrow>
    ('r, 'cb, 'c, 'w) thread_state \<Rightarrow> (thread_error + ('r, 'cb, 'c, 'w) thread_state) option" where
  "thread_round env complete s =
     (case thread_process_tasks env s of
        Inl e \<Rightarrow> Some (Inl e)
      | Inr s1 \<Rightarrow> Option.bind (run_once (te_lib env) complete 10 (et_io_uring (fst s1), s1))
          (\<lambda>res. Some (case res of Inl e \<Rightarrow> Inl (ThreadRing e)
             | Inr (_, u, t, w) \<Rightarrow> Inr (t\<lparr>et_io_uring := u\<rparr>, w))))"

partial_function (option) thread_run_loop :: "('r, 'cb, 'c, 'w) thread_env \<Rightarrow> ('r, 'cb, ('r, 'cb, 'c) EventLoopThread \<times> 'w) runner \<Rightarrow>
    ('r, 'cb, 'c, 'w) thread_state \<Rightarrow> (thread_error + ('r, 'cb, 'c, 'w) thread_state) option" where
  "thread_run_loop env complete s =
     (if et_running (fst s) then
        Option.bind (thread_round env complete s)
          (\<lambda>res. case res of Inl e \<Rightarrow> Some (Inl e) | Inr s' \<Rightarrow> thread_run_loop env complete s')
      else Some (Inr s))"

definition thread_run :: "('r, 'cb, 'c, 'w) thread_env \<Rightarrow> ('r, 'cb, ('r, 'cb, 'c) EventLoopThread \<times> 'w) runner \<Rightarrow>
    ('r, 'cb, 'c, 'w) thread_state \<Rightarrow> (thread_error + ('r, 'cb, 'c, 'w) thread_state) option" where
  "thread_run env complete s = thread_run_loop env complete ((fst s)\<lparr>et_running := True\<rparr>, snd s)"

section \<open>The pool\<close>

record ('r, 'cb, 'c) EventLoopPool =
  ep_worker_count :: u32
  ep_next_worker :: u32
  ep_running :: bool
  ep_threads :: "('r, 'cb, 'c) EventLoopThread list"

fun make_threads :: "'r liburing \<Rightarrow> u32 \<Rightarrow> nat list \<Rightarrow> thread_error + ('r, 'cb, 'c) EventLoopThread list" where
  "make_threads lib depth [] = Inr []"
| "make_threads lib depth (i # is) =
     rbind (EventLoopThread_ctor lib (of_nat i) depth) (\<lambda>t. rbind (make_threads lib depth is) (\<lambda>ts. Inr (t # ts)))"

definition EventLoopPool_ctor :: "'r liburing \<Rightarrow> u32 \<Rightarrow> u32 \<Rightarrow> thread_error + ('r, 'cb, 'c) EventLoopPool" where
  "EventLoopPool_ctor lib worker_count depth =
     rbind (make_threads lib depth [0..<Suc (unat worker_count)])
       (\<lambda>ts. Inr \<lparr>ep_worker_count = worker_count, ep_next_worker = 0, ep_running = False, ep_threads = ts\<rparr>)"

fun start_threads :: "('r, 'cb, 'c) EventLoopThread list \<Rightarrow> thread_error + ('r, 'cb, 'c) EventLoopThread list" where
  "start_threads [] = Inr []"
| "start_threads (t # ts) = rbind (thread_start t) (\<lambda>t'. rbind (start_threads ts) (\<lambda>ts'. Inr (t' # ts')))"

definition pool_start :: "('r, 'cb, 'c) EventLoopPool \<Rightarrow> thread_error + ('r, 'cb, 'c) EventLoopPool" where
  "pool_start p =
     rbind (start_threads (drop 1 (ep_threads p))) (\<lambda>ts. Inr (p\<lparr>ep_running := True, ep_threads := take 1 (ep_threads p) @ ts\<rparr>))"

definition pool_stop :: "'r liburing \<Rightarrow> 'cb \<Rightarrow> ('r, 'cb, 'c) EventLoopPool \<Rightarrow> ('r, 'cb, 'c) EventLoopPool" where
  "pool_stop lib noop p =
     (if ep_running p then
        let workers = map (thread_stop lib noop) (drop 1 (ep_threads p))
        in p\<lparr>ep_running := False, ep_threads := map (thread_stop lib noop) (take 1 (ep_threads p)) @ workers\<rparr>
      else p)"

definition EventLoopPool_dtor :: "'r liburing \<Rightarrow> 'cb \<Rightarrow> ('r, 'cb, 'c) EventLoopPool \<Rightarrow> ('r, 'cb, 'c) EventLoopPool" where
  "EventLoopPool_dtor lib noop p = pool_stop lib noop p"

text \<open>
  The accessors. The number of a worker is a 32-bit word, and \<open>worker_loop\<close> adds one to it; \<open>threads_[i]\<close> beyond the end is
  undefined.
\<close>

definition loop_at :: "u32 \<Rightarrow> ('r, 'cb, 'c) EventLoopPool \<Rightarrow> thread_error + ('r, 'cb, 'c) EventLoopThread" where
  "loop_at thread_id p = (if unat thread_id < length (ep_threads p) then Inr (ep_threads p ! unat thread_id) else Inl IndexFault)"

definition main_loop :: "('r, 'cb, 'c) EventLoopPool \<Rightarrow> thread_error + ('r, 'cb, 'c) EventLoopThread" where
  "main_loop p = (case ep_threads p of [] \<Rightarrow> Inl IndexFault | t # ts \<Rightarrow> Inr t)"

definition worker_loop :: "u32 \<Rightarrow> ('r, 'cb, 'c) EventLoopPool \<Rightarrow> thread_error + ('r, 'cb, 'c) EventLoopThread" where
  "worker_loop worker_id p =
     (let i = unat (worker_id + 1) in if i < length (ep_threads p) then Inr (ep_threads p ! i) else Inl IndexFault)"

definition thread_count :: "('r, 'cb, 'c) EventLoopPool \<Rightarrow> u32" where
  "thread_count p = of_nat (length (ep_threads p))"

definition pool_is_running :: "('r, 'cb, 'c) EventLoopPool \<Rightarrow> bool" where
  "pool_is_running p = ep_running p"

definition connection_counts :: "('r, 'cb, 'c) EventLoopPool \<Rightarrow> size_t list" where
  "connection_counts p = map connection_count (ep_threads p)"

definition select_worker_least_connections :: "('r, 'cb, 'c) EventLoopPool \<Rightarrow> thread_error + nat" where
  "select_worker_least_connections p =
     (case map unat (drop 1 (connection_counts p)) of
        [] \<Rightarrow> Inl IndexFault
      | c # cs \<Rightarrow> Inr (scan_min 0 c 0 (c # cs)))"

definition select_worker_round_robin :: "('r, 'cb, 'c) EventLoopPool \<Rightarrow> thread_error + (nat \<times> ('r, 'cb, 'c) EventLoopPool)" where
  "select_worker_round_robin p =
     (if ep_worker_count p = 0 then Inl DivisionByZero
      else Inr (unat (ep_next_worker p mod ep_worker_count p), p\<lparr>ep_next_worker := ep_next_worker p + 1\<rparr>))"

text \<open>\<open>fd_task fd on_ready\<close> is the closure that calls \<open>on_ready(fd)\<close> when \<open>on_ready\<close> is set.\<close>

definition dispatch_to_worker :: "'r liburing \<Rightarrow> 'cb \<Rightarrow> ('r \<Rightarrow> int) \<Rightarrow> (int \<Rightarrow> 'f \<Rightarrow> 'c) \<Rightarrow> int \<Rightarrow> 'f \<Rightarrow> bytes \<Rightarrow>
    ('r, 'cb, 'c) EventLoopPool \<Rightarrow> thread_error + ('r, 'cb, 'c) EventLoopPool" where
  "dispatch_to_worker lib noop ring_fd fd_task fd on_ready strategy p =
     rbind (if strategy = str_bytes ''lc'' then rbind (select_worker_least_connections p) (\<lambda>i. Inr (i, p))
            else select_worker_round_robin p)
       (\<lambda>(worker_id, p1).
          if Suc worker_id < length (ep_threads p1) then
            let worker = inc_connections (ep_threads p1 ! Suc worker_id);
                main = hd (ep_threads p1);
                task = \<lparr>ct_type = 1, ct_data = of_int fd, ct_fn = Some (fd_task fd on_ready)\<rparr>;
                (ok, main_ring, worker1) = post_via_msg_ring lib noop (ring_fd (iu_ring (et_io_uring worker))) task (et_io_uring main) worker;
                worker2 = (if ok then worker1 else thread_post_fn lib noop (fd_task fd on_ready) worker1)
            in Inr (p1\<lparr>ep_threads := (ep_threads p1)[0 := main\<lparr>et_io_uring := main_ring\<rparr>, Suc worker_id := worker2]\<rparr>)
          else Inl IndexFault)"

definition post_to_worker :: "'r liburing \<Rightarrow> 'cb \<Rightarrow> u32 \<Rightarrow> 'c \<Rightarrow> ('r, 'cb, 'c) EventLoopPool \<Rightarrow> thread_error + ('r, 'cb, 'c) EventLoopPool" where
  "post_to_worker lib noop worker_id fn p =
     rbind (worker_loop worker_id p)
       (\<lambda>t. Inr (p\<lparr>ep_threads := (ep_threads p)[unat (worker_id + 1) := thread_post_fn lib noop fn t]\<rparr>))"

definition post_to_main :: "'r liburing \<Rightarrow> 'cb \<Rightarrow> 'c \<Rightarrow> ('r, 'cb, 'c) EventLoopPool \<Rightarrow> thread_error + ('r, 'cb, 'c) EventLoopPool" where
  "post_to_main lib noop fn p =
     rbind (main_loop p) (\<lambda>t. Inr (p\<lparr>ep_threads := (ep_threads p)[0 := thread_post_fn lib noop fn t]\<rparr>))"

section \<open>Running the tasks of a thread\<close>

definition thread_posting :: "('c \<Rightarrow> 'w \<Rightarrow> 'c list \<times> 'w) \<Rightarrow> 'c \<Rightarrow> 'w \<Rightarrow> 'c thread_act list \<times> 'w" where
  "thread_posting f c w = (map TA_post (fst (f c w)), snd (f c w))"

definition task_fns :: "'c CrossThreadTask list \<Rightarrow> 'c list" where
  "task_fns q = concat (map (\<lambda>task. case ct_fn task of None \<Rightarrow> [] | Some fn \<Rightarrow> [fn]) q)"

definition fn_task :: "'c \<Rightarrow> 'c CrossThreadTask" where
  "fn_task c = \<lparr>ct_type = 0, ct_data = 0, ct_fn = Some c\<rparr>"

lemma effects_append:
  "effects f (xs @ ys) w = (case effects f xs w of (ps, w1) \<Rightarrow> case effects f ys w1 of (qs, w2) \<Rightarrow> (ps @ qs, w2))"
  by (induction xs arbitrary: w) (auto simp: Let_def split: prod.splits)

lemma thread_performs_posts:
  "\<exists>u. thread_performs env False (map TA_post ps) t = Inr (t\<lparr>et_task_queue := et_task_queue t @ map fn_task ps, et_io_uring := u\<rparr>)"
proof (induction ps arbitrary: t)
  case Nil
  show ?case by (rule exI [of _ "et_io_uring t"]) simp
next
  case (Cons p ps)
  from Cons.IH [of "thread_post_fn (te_lib env) (te_noop env) p t"] show ?case
    by (auto simp: thread_post_fn_def thread_post_def fn_task_def)
qed

lemma run_queue_posting:
  assumes "te_call env = thread_posting f"
  shows "\<exists>u. run_queue env q (t, w) =
    Inr (t\<lparr>et_task_queue := et_task_queue t @ map fn_task (fst (effects f (task_fns q) w)), et_io_uring := u\<rparr>,
      snd (effects f (task_fns q) w))"
proof (induction q arbitrary: t w)
  case Nil
  show ?case by (rule exI [of _ "et_io_uring t"]) (simp add: task_fns_def)
next
  case (Cons task q)
  show ?case
  proof (cases "ct_fn task")
    case None
    with Cons.IH [of t w] show ?thesis by (simp add: task_fns_def run_task_def)
  next
    case (Some fn)
    from thread_performs_posts [of env "fst (f fn w)" t] obtain u where
      "run_task env False task (t, w) =
        Inr (t\<lparr>et_task_queue := et_task_queue t @ map fn_task (fst (f fn w)), et_io_uring := u\<rparr>, snd (f fn w))"
      using Some by (auto simp: run_task_def assms thread_posting_def)
    moreover have "task_fns (task # q) = fn # task_fns q" using Some by (simp add: task_fns_def)
    ultimately show ?thesis
      using Cons.IH [of "t\<lparr>et_task_queue := et_task_queue t @ map fn_task (fst (f fn w)), et_io_uring := u\<rparr>" "snd (f fn w)"]
      by (auto simp: Let_def split: prod.splits)
  qed
qed

lemma run_pending_silent:
  assumes "te_call env = thread_posting f" "\<And>fn w. fn \<in> set (task_fns (map snd m)) \<Longrightarrow> fst (f fn w) = []"
    and "um_ok m" "et_pending_tasks t = m"
  shows "run_pending env m (t, w) = Inr (t\<lparr>et_pending_tasks := []\<rparr>, snd (effects f (task_fns (map snd m)) w)) \<and>
    fst (effects f (task_fns (map snd m)) w) = []"
  using assms(2-4)
proof (induction m arbitrary: t w)
  case Nil
  then show ?case by (cases t) (simp add: task_fns_def)
next
  case (Cons x m)
  obtain i task where x: "x = (i, task)" by fastforce
  let ?t = "t\<lparr>et_pending_tasks := m\<rparr>"
  have er: "um_erase ((i, task) # m) i = m" using Cons.prems(2) x by (force simp: AList.delete_eq intro!: filter_True)
  have IH: "run_pending env m (?t, w') = Inr (t\<lparr>et_pending_tasks := []\<rparr>, snd (effects f (task_fns (map snd m)) w')) \<and>
      fst (effects f (task_fns (map snd m)) w') = []" for w'
    using Cons.IH [of ?t w'] Cons.prems by (auto simp: task_fns_def)
  show ?case
  proof (cases "ct_fn task")
    case None
    with IH [of w] Cons.prems(3) er show ?thesis by (simp add: x task_fns_def run_task_def)
  next
    case (Some fn)
    then have fns: "task_fns (map snd (x # m)) = fn # task_fns (map snd m)" by (simp add: x task_fns_def)
    with Cons.prems(1) have "fst (f fn w) = []" by simp
    with Some have "run_task env True task (t, w) = Inr (t, snd (f fn w))"
      by (simp add: run_task_def assms(1) thread_posting_def)
    with IH [of "snd (f fn w)"] Cons.prems(3) er \<open>fst (f fn w) = []\<close> show ?thesis
      unfolding fns by (auto simp: x Let_def split: prod.splits)
  qed
qed

section \<open>Properties\<close>

text \<open>
  One call of \<open>process_tasks\<close> runs every task the thread was given, each once: first those sent by ring message,
  then the queue in the order of posting, and both containers are empty afterwards except for what the
  queued tasks posted themselves. The tasks sent by ring message must not post: they run under
  \<open>tasks_mutex_\<close>.
\<close>

theorem thread_runs_tasks:
  assumes "te_call env = thread_posting f" "um_ok (et_pending_tasks t)"
    and "\<And>fn w. fn \<in> set (task_fns (map snd (et_pending_tasks t))) \<Longrightarrow> fst (f fn w) = []"
  shows "\<exists>u. case effects f (task_fns (map snd (et_pending_tasks t) @ et_task_queue t)) w of (ps, w') \<Rightarrow>
    thread_process_tasks env (t, w) =
      Inr (t\<lparr>et_pending_tasks := [], et_task_queue := map fn_task ps, et_io_uring := u\<rparr>, w')"
proof -
  let ?m = "et_pending_tasks t"
  have pend: "run_pending env ?m (t, w) = Inr (t\<lparr>et_pending_tasks := []\<rparr>, snd (effects f (task_fns (map snd ?m)) w))"
      "fst (effects f (task_fns (map snd ?m)) w) = []"
    using run_pending_silent [OF assms(1) assms(3) assms(2) refl, of w] by auto
  from run_queue_posting [OF assms(1), of "et_task_queue t" "t\<lparr>et_pending_tasks := [], et_task_queue := []\<rparr>"
      "snd (effects f (task_fns (map snd ?m)) w)"]
  obtain u where "run_queue env (et_task_queue t) (t\<lparr>et_pending_tasks := [], et_task_queue := []\<rparr>, snd (effects f (task_fns (map snd ?m)) w)) =
    Inr (t\<lparr>et_pending_tasks := [], et_task_queue := map fn_task (fst (effects f (task_fns (et_task_queue t)) (snd (effects f (task_fns (map snd ?m)) w)))),
      et_io_uring := u\<rparr>, snd (effects f (task_fns (et_task_queue t)) (snd (effects f (task_fns (map snd ?m)) w))))" by auto
  moreover have "task_fns (map snd ?m @ et_task_queue t) = task_fns (map snd ?m) @ task_fns (et_task_queue t)"
    by (simp add: task_fns_def)
  ultimately show ?thesis
    using pend by (intro exI [of _ u]) (auto simp: thread_process_tasks_def effects_append split: prod.splits)
qed

definition thread_ex :: "(list_ring, nat, nat) EventLoopThread" where
  "thread_ex = \<lparr>et_thread_id = 1, et_io_uring = uring_ex 1, et_running = True, et_connection_count = 0,
     et_pending_tasks = [], et_task_queue = [], et_next_task_id = 1, et_next_timer_id = 1, et_joinable = False\<rparr>"

definition thread_log_env :: "(list_ring, nat, nat, nat list) thread_env" where
  "thread_log_env = \<lparr>te_call = thread_posting log_call, te_lib = list_lib, te_noop = 0, te_on_timer = (\<lambda>c. c)\<rparr>"

theorem thread_runs_tasks_witness:
  "\<exists>u. thread_process_tasks thread_log_env
      (thread_ex\<lparr>et_pending_tasks := [(1, fn_task 9)], et_task_queue := [fn_task 1, fn_task 2]\<rparr>, []) =
    Inr (thread_ex\<lparr>et_task_queue := [fn_task 3], et_io_uring := u\<rparr>, [9, 1, 2])"
proof -
  let ?t = "thread_ex\<lparr>et_pending_tasks := [(1, fn_task 9)], et_task_queue := [fn_task 1, fn_task 2]\<rparr>"
  have "te_call thread_log_env = thread_posting log_call" by (simp add: thread_log_env_def)
  moreover have "um_ok (et_pending_tasks ?t)" by simp
  moreover have "fst (log_call fn w) = []" if "fn \<in> set (task_fns (map snd (et_pending_tasks ?t)))" for fn w
    using that by (simp add: task_fns_def fn_task_def log_call_def)
  ultimately show ?thesis
    using thread_runs_tasks [of thread_log_env log_call ?t "[]"]
    by (simp add: task_fns_def fn_task_def log_call_def thread_ex_def)
qed

definition pool_wf :: "('r, 'cb, 'c) EventLoopPool \<Rightarrow> bool" where
  "pool_wf p \<longleftrightarrow> 0 < ep_worker_count p \<and> length (ep_threads p) = Suc (unat (ep_worker_count p))"

lemma round_robin_in_range:
  assumes "pool_wf p"
  shows "select_worker_round_robin p =
      Inr (unat (ep_next_worker p) mod unat (ep_worker_count p), p\<lparr>ep_next_worker := ep_next_worker p + 1\<rparr>)"
    and "unat (ep_next_worker p) mod unat (ep_worker_count p) < unat (ep_worker_count p)"
  using assms by (auto simp: select_worker_round_robin_def pool_wf_def unat_mod word_less_nat_alt)

lemma least_connections_first:
  assumes "pool_wf p"
  shows "\<exists>k. select_worker_least_connections p = Inr k \<and> k < unat (ep_worker_count p) \<and>
    (\<forall>j < unat (ep_worker_count p). connection_counts p ! Suc k \<le> connection_counts p ! Suc j) \<and>
    (\<forall>j < k. connection_counts p ! Suc k < connection_counts p ! Suc j)"
proof -
  let ?ns = "map unat (drop 1 (connection_counts p))"
  have len: "length ?ns = unat (ep_worker_count p)" "?ns \<noteq> []"
    using assms by (auto simp: pool_wf_def connection_counts_def word_less_nat_alt)
  have nth: "?ns ! j = unat (connection_counts p ! Suc j)" if "j < unat (ep_worker_count p)" for j
    using that assms by (simp add: pool_wf_def connection_counts_def)
  have "select_worker_least_connections p = Inr (scan_min 0 (hd ?ns) 1 (tl ?ns))"
    using len(2) by (cases ?ns) (simp_all add: select_worker_least_connections_def)
  then show ?thesis
    using scan_min_first [OF len(2)] len(1) nth by (intro exI conjI) (auto simp: word_le_nat_alt word_less_nat_alt)
qed

lemma post_via_msg_ring_cases:
  obtains caller' where "post_via_msg_ring lib noop fd task caller t = (True, caller',
      t\<lparr>et_next_task_id := et_next_task_id t + 1, et_pending_tasks := um_put (et_pending_tasks t) (et_next_task_id t) task\<rparr>)"
  | caller' where "post_via_msg_ring lib noop fd task caller t = (False, caller',
      t\<lparr>et_next_task_id := et_next_task_id t + 1,
        et_pending_tasks := um_erase (um_put (et_pending_tasks t) (et_next_task_id t) task) (et_next_task_id t)\<rparr>)"
proof (cases "try_submit lib (Op_msg_ring fd (et_next_task_id t)) noop caller")
  case (Pair ok caller')
  with that show ?thesis by (cases ok) (simp_all add: post_via_msg_ring_def Let_def)
qed


definition pool_ex :: "(list_ring, nat, nat) EventLoopPool" where
  "pool_ex = \<lparr>ep_worker_count = 2, ep_next_worker = 5, ep_running = True,
     ep_threads = [thread_ex, thread_ex\<lparr>et_connection_count := 7\<rparr>, thread_ex\<lparr>et_connection_count := 3\<rparr>]\<rparr>"


lemma start_threads_ok:
  "\<forall>t \<in> set ts. \<not> et_joinable t \<Longrightarrow> start_threads ts = Inr (map (\<lambda>t. t\<lparr>et_running := True, et_joinable := True\<rparr>) ts)"
  by (induction ts) (simp_all add: thread_start_def)

lemma start_threads_joinable: "\<exists>t \<in> set ts. et_joinable t \<Longrightarrow> start_threads ts = Inl Terminated"
proof (induction ts)
  case (Cons t ts)
  then show ?case by (cases "et_joinable t") (simp_all add: thread_start_def)
qed simp

lemma pool_start_ok:
  assumes "\<forall>t \<in> set (ep_threads p). \<not> et_joinable t"
  shows "\<exists>p'. pool_start p = Inr p'"
proof -
  have "\<forall>t \<in> set (drop 1 (ep_threads p)). \<not> et_joinable t" using assms by (meson in_set_dropD)
  from start_threads_ok [OF this] show ?thesis by (simp add: pool_start_def)
qed

lemma make_threads_new:
  "make_threads lib depth is = Inr ts \<Longrightarrow> length ts = length is \<and> (\<forall>t \<in> set ts. \<not> et_running t \<and> \<not> et_joinable t)"
  by (induction "is" arbitrary: ts) (auto simp: rbind_Inr_iff EventLoopThread_ctor_def split: sum.splits)

text \<open>
  The life of a pool: starting a new pool starts its workers and not its main thread; starting it again while it runs assigns to
  a joinable thread, which ends the program; stopping it stops and joins every thread, after which it can be started again.
\<close>

theorem pool_lifecycle:
  assumes "EventLoopPool_ctor lib n depth = Inr p" "0 < n"
  shows "\<exists>p1. pool_start p = Inr p1 \<and> ep_running p1 \<and> map thread_is_running (ep_threads p1) = False # replicate (unat n) True \<and>
    pool_start p1 = Inl Terminated \<and>
    map thread_is_running (ep_threads (pool_stop lib noop p1)) = replicate (Suc (unat n)) False \<and>
    (\<exists>p2. pool_start (pool_stop lib noop p1) = Inr p2)"
proof -
  from assms(1) obtain ts where ts: "make_threads lib depth [0..<Suc (unat n)] = Inr ts" "ep_threads p = ts"
    by (auto simp: EventLoopPool_ctor_def rbind_Inr_iff)
  have new: "length ts = Suc (unat n)" "\<forall>t \<in> set ts. \<not> et_running t \<and> \<not> et_joinable t" using make_threads_new [OF ts(1)] by simp_all
  then obtain m ws where m: "ts = m # ws" "length ws = unat n" by (cases ts) auto
  let ?ws = "map (\<lambda>t. t\<lparr>et_running := True, et_joinable := True\<rparr>) ws"
  let ?p1 = "p\<lparr>ep_running := True, ep_threads := m # ?ws\<rparr>"
  have p1: "pool_start p = Inr ?p1" using new(2) m ts(2) by (simp add: pool_start_def start_threads_ok)
  have "ws \<noteq> []" using m(2) assms(2) by (auto simp: word_less_nat_alt)
  then have again: "pool_start ?p1 = Inl Terminated" by (cases ws) (simp_all add: pool_start_def thread_start_def)
  have stopped: "\<forall>t \<in> set (ep_threads (pool_stop lib noop ?p1)). \<not> et_running t \<and> \<not> et_joinable t"
    using new(2) m by (auto simp: pool_stop_def thread_stop_def)
  moreover have len: "length (ep_threads (pool_stop lib noop ?p1)) = Suc (unat n)" using m by (simp add: pool_stop_def)
  ultimately have "map thread_is_running (ep_threads (pool_stop lib noop ?p1)) = replicate (Suc (unat n)) False"
    by (intro replicate_eqI) (auto simp: thread_is_running_def)
  moreover have "\<exists>p2. pool_start (pool_stop lib noop ?p1) = Inr p2"
    using stopped by (intro pool_start_ok) blast
  moreover have "map thread_is_running (ep_threads ?p1) = False # replicate (unat n) True"
    using new(2) m by (auto simp: thread_is_running_def map_replicate_const comp_def)
  ultimately show ?thesis using p1 again by (intro exI [of _ ?p1]) simp
qed

theorem pool_lifecycle_witness:
  "\<exists>p p1. EventLoopPool_ctor list_lib 2 8 = (Inr p :: thread_error + (list_ring, nat, nat) EventLoopPool) \<and> pool_start p = Inr p1 \<and>
    map thread_is_running (ep_threads p1) = [False, True, True]"
proof -
  obtain p where p: "EventLoopPool_ctor list_lib 2 8 = (Inr p :: thread_error + (list_ring, nat, nat) EventLoopPool)"
    by (simp add: EventLoopPool_ctor_def EventLoopThread_ctor_def IoUring_ctor_def IoUring_setup_def list_lib_def upt_conv_Cons)
  moreover have "unat (2 :: u32) = Suc (Suc 0)" by simp
  ultimately show ?thesis using pool_lifecycle [OF p, of 0] by (auto simp: numeral_2_eq_2)
qed

text \<open>\<open>worker_loop\<close> adds one to a 32-bit number: the worker with the largest number is the main thread.\<close>

lemma worker_loop_wraps: "worker_loop (- 1) p = main_loop p"
  by (cases "ep_threads p") (simp_all add: worker_loop_def main_loop_def)

lemma worker_loop_at: "worker_id + 1 \<noteq> 0 \<Longrightarrow> worker_loop worker_id p = loop_at (worker_id + 1) p"
  by (simp add: worker_loop_def loop_at_def)

text \<open>
  The message itself is not understood by its receiver: its completion carries the task number, and the worker's ring
  takes that for the number of one of its own operations. On a ring that has not used this number the
  dispatcher calls an empty callback, which throws out of the thread; otherwise the callback of an
  unrelated operation is run.
\<close>

theorem msg_ring_misread:
  assumes "post_via_msg_ring lib noop fd task caller t = (True, caller', t')"
    and "cqe_user_data c = et_next_task_id t" "0 < et_next_task_id t" "et_next_task_id t < 65536"
  shows "process_cqe lib run c (et_io_uring t', w) =
    (case iu_callbacks (et_io_uring t) (unat (et_next_task_id t)) of
       None \<Rightarrow> Inl BadFunctionCall
     | Some cb \<Rightarrow> Inr (ring_seen lib (run cb (cqe_res c) (cqe_flags c) (et_io_uring t', w))))"
proof -
  have "et_io_uring t' = et_io_uring t"
    using assms(1) by (cases rule: post_via_msg_ring_cases [of lib noop fd task caller t]) auto
  with assms(2-4) show ?thesis
    by (auto simp: process_cqe_def get_callback_def kMaxCallbacks_def not_le split: option.splits)
qed

theorem msg_ring_misread_witness:
  "process_cqe list_lib (ringless (\<lambda>_ _ _ w. w)) \<lparr>cqe_res = 0, cqe_flags = 0, cqe_user_data = 1\<rparr>
     (et_io_uring (snd (snd (post_via_msg_ring list_lib 0 4 (fn_task 7) (uring_ex 1) thread_ex))), ()) = Inl BadFunctionCall"
proof -
  obtain caller' t' where "post_via_msg_ring list_lib 0 4 (fn_task 7) (uring_ex 1) thread_ex = (True, caller', t')"
    by (simp add: post_via_msg_ring_def Let_def try_submit_def prepare_def list_lib_def uring_ex_def set_callback_def)
  with msg_ring_misread [OF this, of "\<lparr>cqe_res = 0, cqe_flags = 0, cqe_user_data = 1\<rparr>" "ringless (\<lambda>_ _ _ w. w)" "()"]
  show ?thesis by (simp add: thread_ex_def uring_ex_def)
qed

end
