(* ===== verification/Idl_Parser.thy ===== *)
theory Idl_Parser
  imports Rpc_Prelude "HOL-Library.Sublist"
begin

text \<open>
  The IDL parser of \<open>idl/idl_parser.hpp\<close>. Strings are lists of characters; an input stream is the list of the
  characters still to be read, and reading consumes it. Differences of string positions are computed on 64-bit words, as
  in the code. Besides the parser the theory has a printer of IDL documents, against which the parser is
  proved correct.
\<close>

named_theorems idl_simps \<open>rules for scanning printed text\<close>

section \<open>The operations on strings\<close>

definition is_ws :: "char \<Rightarrow> bool" where
  "is_ws c \<longleftrightarrow> c = CHR '' '' \<or> c = CHR 0x09 \<or> c = CHR 0x0D \<or> c = CHR 0x0A"

definition find_first :: "(char \<Rightarrow> bool) \<Rightarrow> string \<Rightarrow> nat option" where
  "find_first P s = (let n = length (takeWhile (\<lambda>c. \<not> P c) s) in if n < length s then Some n else None)"

definition find_last :: "(char \<Rightarrow> bool) \<Rightarrow> string \<Rightarrow> nat option" where
  "find_last P s = (let n = length (takeWhile (\<lambda>c. \<not> P c) (rev s)) in if n < length s then Some (length s - n - 1) else None)"

fun find_str :: "string \<Rightarrow> string \<Rightarrow> nat option" where
  "find_str pat s =
     (if prefix pat s then Some 0
      else case s of [] \<Rightarrow> None | _ # s' \<Rightarrow> map_option Suc (find_str pat s'))"

declare find_str.simps [simp del]

definition substr :: "string \<Rightarrow> nat \<Rightarrow> nat \<Rightarrow> string" where
  "substr s pos n = take n (drop pos s)"

definition pos_diff :: "nat \<Rightarrow> nat \<Rightarrow> nat" where
  "pos_diff a b = unat (of_nat a - of_nat b :: size_t)"

text \<open>\<open>std::getline\<close> with a delimiter: \<open>None\<close> when nothing is left.\<close>

definition getline :: "char \<Rightarrow> string \<Rightarrow> (string \<times> string) option" where
  "getline delim s =
     (if s = [] then None else Some (takeWhile (\<lambda>c. c \<noteq> delim) s, drop 1 (dropWhile (\<lambda>c. c \<noteq> delim) s)))"

lemma getline_shrinks: "getline delim s = Some (line, rest) \<Longrightarrow> length rest < length s"
  using length_dropWhile_le [of "\<lambda>c. c \<noteq> delim" s] by (cases s) (auto simp: getline_def)

section \<open>Documents\<close>

datatype FieldType =
  FT_INT8 | FT_INT16 | FT_INT32 | FT_INT64 | FT_UINT8 | FT_UINT16 | FT_UINT32 | FT_UINT64 | FT_FLOAT | FT_DOUBLE
| FT_STRING | FT_BOOL | FT_VECTOR | FT_MAP | FT_CUSTOM

record Field =
  fd_name :: string
  fd_type :: FieldType
  fd_type_name :: string
  fd_element_type :: FieldType
  fd_field_id :: int

record StructDef =
  sd_name :: string
  sd_fields :: "Field list"

record MethodParam =
  mp_name :: string
  mp_type :: FieldType
  mp_type_name :: string

record MethodDef =
  md_name :: string
  md_params :: "MethodParam list"
  md_return_type :: MethodParam

record ServiceDef =
  sv_name :: string
  sv_methods :: "MethodDef list"

record IDLDocument =
  idl_namespace_name :: string
  idl_structs :: "StructDef list"
  idl_services :: "ServiceDef list"

section \<open>The parser\<close>

definition trim :: "string \<Rightarrow> string" where
  "trim s =
     (case find_first (\<lambda>c. \<not> is_ws c) s of
        None \<Rightarrow> []
      | Some start \<Rightarrow>
          (case find_last (\<lambda>c. \<not> is_ws c) s of
             None \<Rightarrow> []
           | Some stop \<Rightarrow> substr s start (stop - start + 1)))"

definition parse_namespace :: "string \<Rightarrow> string" where
  "parse_namespace line = (case find_str ''namespace'' line of None \<Rightarrow> [] | Some pos \<Rightarrow> trim (drop (pos + 9) line))"

definition parse_type :: "string \<Rightarrow> FieldType" where
  "parse_type type_str =
     (if type_str = ''int8'' then FT_INT8
      else if type_str = ''int16'' then FT_INT16
      else if type_str = ''int32'' then FT_INT32
      else if type_str = ''int64'' then FT_INT64
      else if type_str = ''uint8'' then FT_UINT8
      else if type_str = ''uint16'' then FT_UINT16
      else if type_str = ''uint32'' then FT_UINT32
      else if type_str = ''uint64'' then FT_UINT64
      else if type_str = ''float'' then FT_FLOAT
      else if type_str = ''double'' then FT_DOUBLE
      else if type_str = ''string'' then FT_STRING
      else if type_str = ''bool'' then FT_BOOL
      else if prefix ''vector'' type_str then FT_VECTOR
      else if prefix ''map'' type_str then FT_MAP
      else FT_CUSTOM)"

text \<open>The line that ends a body: a closing brace between double quotes.\<close>

definition body_end :: string where
  "body_end = [CHR 0x22, CHR ''}'', CHR 0x22]"

text \<open>The name between a keyword and the opening brace of the first line.\<close>

definition header_name :: "string \<Rightarrow> string \<Rightarrow> string option" where
  "header_name keyword first_line =
     (case (find_str keyword first_line, find_first (\<lambda>c. c = CHR ''{'') first_line) of
        (Some pos, Some brace_pos) \<Rightarrow>
          Some (trim (substr first_line (pos + length keyword) (pos_diff (pos_diff brace_pos pos) (length keyword))))
      | _ \<Rightarrow> None)"

text \<open>A field line; \<open>None\<close> is a line that is skipped.\<close>

definition parse_field :: "string \<Rightarrow> Field option" where
  "parse_field line =
     (case find_first (\<lambda>c. c = CHR '' '') line of
        None \<Rightarrow> None
      | Some space_pos \<Rightarrow>
          let type_str = trim (take space_pos line);
              name_str = trim (drop space_pos line);
              name_str' = (if name_str \<noteq> [] \<and> last name_str = CHR '';'' then butlast name_str else name_str)
          in Some \<lparr>fd_name = name_str', fd_type = parse_type type_str, fd_type_name = type_str,
                   fd_element_type = FT_INT32, fd_field_id = 0\<rparr>)"

function parse_struct_body :: "string \<Rightarrow> Field list \<Rightarrow> Field list \<times> string" where
  "parse_struct_body stream fs =
     (case getline (CHR 0x0A) stream of
        None \<Rightarrow> (fs, stream)
      | Some (raw, rest) \<Rightarrow>
          let line = trim raw
          in if line = body_end then (fs, rest)
             else if line = [] \<or> hd line = CHR ''#'' then parse_struct_body rest fs
             else (case parse_field line of
                 None \<Rightarrow> parse_struct_body rest fs
               | Some f \<Rightarrow> parse_struct_body rest (fs @ [f])))"
  by pat_completeness auto
termination by (relation "measure (\<lambda>(stream, _). length stream)") (auto dest: getline_shrinks)

declare parse_struct_body.simps [simp del]

definition parse_struct :: "string \<Rightarrow> string \<Rightarrow> StructDef option \<times> string" where
  "parse_struct stream first_line =
     (case header_name ''struct'' first_line of
        None \<Rightarrow> (None, stream)
      | Some name \<Rightarrow>
          (case parse_struct_body stream [] of (fs, rest) \<Rightarrow> (Some \<lparr>sd_name = name, sd_fields = fs\<rparr>, rest)))"

definition parse_param :: "string \<Rightarrow> MethodParam option" where
  "parse_param raw =
     (let param = trim raw
      in case find_first (\<lambda>c. c = CHR '' '') param of
           None \<Rightarrow> None
         | Some space \<Rightarrow> Some \<lparr>mp_name = trim (drop space param), mp_type = parse_type (trim (take space param)),
             mp_type_name = trim (take space param)\<rparr>)"

function parse_params :: "string \<Rightarrow> MethodParam list" where
  "parse_params s =
     (case getline (CHR '','') s of
        None \<Rightarrow> []
      | Some (param, rest) \<Rightarrow> (case parse_param param of None \<Rightarrow> parse_params rest | Some p \<Rightarrow> p # parse_params rest))"
  by pat_completeness auto
termination by (relation "measure length") (auto dest: getline_shrinks)

declare parse_params.simps [simp del]

definition parse_method :: "string \<Rightarrow> MethodDef option" where
  "parse_method line =
     (case (find_first (\<lambda>c. c = CHR ''('') line, find_first (\<lambda>c. c = CHR '')'') line) of
        (Some paren_open, Some paren_close) \<Rightarrow>
          let before_paren = trim (take paren_open line)
          in (case find_last (\<lambda>c. c = CHR '' '') before_paren of
                None \<Rightarrow> None
              | Some last_space \<Rightarrow>
                  let type_str = trim (take last_space before_paren);
                      params_str = substr line (paren_open + 1) (pos_diff (pos_diff paren_close paren_open) 1)
                  in Some \<lparr>md_name = trim (drop last_space before_paren), md_params = parse_params params_str,
                           md_return_type = \<lparr>mp_name = [], mp_type = parse_type type_str, mp_type_name = type_str\<rparr>\<rparr>)
      | _ \<Rightarrow> None)"

function parse_service_body :: "string \<Rightarrow> MethodDef list \<Rightarrow> MethodDef list \<times> string" where
  "parse_service_body stream methods =
     (case getline (CHR 0x0A) stream of
        None \<Rightarrow> (methods, stream)
      | Some (raw, rest) \<Rightarrow>
          let line = trim raw
          in if line = body_end then (methods, rest)
             else if line = [] \<or> hd line = CHR ''#'' then parse_service_body rest methods
             else (case parse_method line of
                 None \<Rightarrow> parse_service_body rest methods
               | Some m \<Rightarrow> parse_service_body rest (methods @ [m])))"
  by pat_completeness auto
termination by (relation "measure (\<lambda>(stream, _). length stream)") (auto dest: getline_shrinks)

declare parse_service_body.simps [simp del]

definition parse_service :: "string \<Rightarrow> string \<Rightarrow> ServiceDef option \<times> string" where
  "parse_service stream first_line =
     (case header_name ''service'' first_line of
        None \<Rightarrow> (None, stream)
      | Some name \<Rightarrow>
          (case parse_service_body stream [] of (methods, rest) \<Rightarrow> (Some \<lparr>sv_name = name, sv_methods = methods\<rparr>, rest)))"

lemma parse_struct_body_shrinks: "length (snd (parse_struct_body stream fs)) \<le> length stream"
proof (induction stream fs rule: parse_struct_body.induct)
  case (1 stream fs)
  show ?case
  proof (cases "getline (CHR 0x0A) stream")
    case None
    then show ?thesis by (subst parse_struct_body.simps) simp
  next
    case (Some lr)
    obtain raw rest where lr: "lr = (raw, rest)" by fastforce
    have "length rest \<le> length stream" using getline_shrinks Some lr less_imp_le by blast
    with 1 [OF Some lr [symmetric] refl] Some lr show ?thesis
      by (subst parse_struct_body.simps) (auto simp: Let_def split: option.splits intro: order_trans)
  qed
qed

lemma parse_service_body_shrinks: "length (snd (parse_service_body stream methods)) \<le> length stream"
proof (induction stream methods rule: parse_service_body.induct)
  case (1 stream methods)
  show ?case
  proof (cases "getline (CHR 0x0A) stream")
    case None
    then show ?thesis by (subst parse_service_body.simps) simp
  next
    case (Some lr)
    obtain raw rest where lr: "lr = (raw, rest)" by fastforce
    have "length rest \<le> length stream" using getline_shrinks Some lr less_imp_le by blast
    with 1 [OF Some lr [symmetric] refl] Some lr show ?thesis
      by (subst parse_service_body.simps) (auto simp: Let_def split: option.splits intro: order_trans)
  qed
qed

lemma parse_struct_shrinks: "(s, rest) = parse_struct stream line \<Longrightarrow> length rest \<le> length stream"
  using parse_struct_body_shrinks [of stream "[]"] by (auto simp: parse_struct_def split: option.splits prod.splits)

lemma parse_service_shrinks: "(s, rest) = parse_service stream line \<Longrightarrow> length rest \<le> length stream"
  using parse_service_body_shrinks [of stream "[]"] by (auto simp: parse_service_def split: option.splits prod.splits)

text \<open>The loop of \<open>parse\<close> over the lines of the document.\<close>

definition add_opt :: "'a option \<Rightarrow> 'a list \<Rightarrow> 'a list" where
  "add_opt x xs = (case x of None \<Rightarrow> xs | Some y \<Rightarrow> xs @ [y])"

function parse_loop :: "string \<Rightarrow> IDLDocument \<Rightarrow> IDLDocument" where
  "parse_loop stream doc =
     (case getline (CHR 0x0A) stream of
        None \<Rightarrow> doc
      | Some (raw, rest) \<Rightarrow>
          let line = trim raw
          in if line = [] \<or> hd line = CHR ''#'' then parse_loop rest doc
             else if prefix ''namespace'' line then parse_loop rest (doc\<lparr>idl_namespace_name := parse_namespace line\<rparr>)
             else if prefix ''struct'' line then
               (case parse_struct rest line of (s, rest') \<Rightarrow> parse_loop rest' (doc\<lparr>idl_structs := add_opt s (idl_structs doc)\<rparr>))
             else if prefix ''service'' line then
               (case parse_service rest line of (s, rest') \<Rightarrow> parse_loop rest' (doc\<lparr>idl_services := add_opt s (idl_services doc)\<rparr>))
             else parse_loop rest doc)"
  by pat_completeness auto
termination
proof (relation "measure (\<lambda>(stream, _). length stream)", goal_cases)
  case (4 stream doc lr raw rest line s rest')
  then show ?case by (auto dest!: getline_shrinks parse_struct_shrinks)
next
  case (5 stream doc lr raw rest line s rest')
  then show ?case by (auto dest!: getline_shrinks parse_service_shrinks)
qed (auto dest: getline_shrinks)

declare parse_loop.simps [simp del]

definition parse :: "string \<Rightarrow> IDLDocument option" where
  "parse content = Some (parse_loop content \<lparr>idl_namespace_name = [], idl_structs = [], idl_services = []\<rparr>)"

section \<open>Scanning\<close>

lemma takeWhile_stop: "\<forall>c \<in> set a. P c \<Longrightarrow> \<not> P x \<Longrightarrow> takeWhile P (a @ x # b) = a"
  by (induction a) auto

lemma dropWhile_stop: "\<forall>c \<in> set a. P c \<Longrightarrow> \<not> P x \<Longrightarrow> dropWhile P (a @ x # b) = x # b"
  by (induction a) auto

lemma find_first_at [idl_simps]: "\<forall>c \<in> set a. \<not> P c \<Longrightarrow> P x \<Longrightarrow> find_first P (a @ x # b) = Some (length a)"
  using takeWhile_stop [of a "\<lambda>c. \<not> P c" x b] by (simp add: find_first_def)

lemma find_first_none: "\<forall>c \<in> set s. \<not> P c \<Longrightarrow> find_first P s = None"
  by (simp add: find_first_def takeWhile_eq_all_conv [THEN iffD2])

lemma find_last_at [idl_simps]:
  assumes "\<forall>c \<in> set b. \<not> P c" "P x"
  shows "find_last P (a @ x # b) = Some (length a)"
proof -
  have "takeWhile (\<lambda>c. \<not> P c) (rev b @ x # rev a) = rev b" using assms by (intro takeWhile_stop) auto
  then show ?thesis by (simp add: find_last_def)
qed

lemma getline_at [idl_simps]:
  assumes "delim \<notin> set line"
  shows "getline delim (line @ delim # rest) = Some (line, rest)"
proof -
  have "\<forall>c \<in> set line. c \<noteq> delim" using assms by auto
  from takeWhile_stop [OF this, of delim rest] dropWhile_stop [OF this, of delim rest] show ?thesis by (simp add: getline_def)
qed

lemma getline_rest:
  assumes "delim \<notin> set line" "line \<noteq> []"
  shows "getline delim line = Some (line, [])"
proof -
  have "\<forall>c \<in> set line. c \<noteq> delim" using assms by auto
  then have t: "takeWhile (\<lambda>c. c \<noteq> delim) line = line" and d: "dropWhile (\<lambda>c. c \<noteq> delim) line = []"
    unfolding takeWhile_eq_all_conv dropWhile_eq_Nil_conv by auto
  show ?thesis unfolding getline_def t d using assms(2) by simp
qed

lemma find_str_0 [idl_simps]: "prefix pat s \<Longrightarrow> find_str pat s = Some 0"
  by (subst find_str.simps) simp

lemma pos_diff_nat [idl_simps]: "b \<le> a \<Longrightarrow> a < 2 ^ 64 \<Longrightarrow> pos_diff a b = a - b"
  by (simp add: pos_diff_def unat_sub word_le_nat_alt unat_of_nat_small)

lemma trim_mid:
  assumes "\<forall>c \<in> set a. is_ws c" "\<forall>c \<in> set b. is_ws c" "m \<noteq> []" "\<not> is_ws (hd m)" "\<not> is_ws (last m)"
  shows "trim (a @ m @ b) = m"
proof -
  obtain x m' where m: "m = x # m'" using assms(3) by (cases m) auto
  have f: "find_first (\<lambda>c. \<not> is_ws c) (a @ m @ b) = Some (length a)"
    using assms(1,4) m by (auto intro!: find_first_at)
  have "a @ m @ b = (a @ butlast m) @ last m # b" using assms(3) by simp
  moreover have "find_last (\<lambda>c. \<not> is_ws c) ((a @ butlast m) @ last m # b) = Some (length (a @ butlast m))"
    using assms(2,5) by (intro find_last_at) auto
  ultimately have l: "find_last (\<lambda>c. \<not> is_ws c) (a @ m @ b) = Some (length (a @ butlast m))" by (simp only:)
  have "length (a @ butlast m) - length a + 1 = length m" using assms(3) by (cases m rule: rev_cases) auto
  with f l show ?thesis by (simp add: trim_def substr_def)
qed

lemma trim_all_ws: "\<forall>c \<in> set s. is_ws c \<Longrightarrow> trim s = []"
  by (simp add: trim_def find_first_none)

section \<open>A printer\<close>

text \<open>Names without white space and without the characters that structure a document.\<close>

definition word_ok :: "string \<Rightarrow> bool" where
  "word_ok w \<longleftrightarrow> w \<noteq> [] \<and> list_all (\<lambda>c. \<not> is_ws c \<and> c \<notin> set ''{}(),;#'' \<and> c \<noteq> CHR 0x22) w"

definition print_field :: "Field \<Rightarrow> string" where
  "print_field f = ''    '' @ fd_type_name f @ '' '' @ fd_name f @ '';'' @ [CHR 0x0A]"

definition print_struct :: "StructDef \<Rightarrow> string" where
  "print_struct s = ''struct '' @ sd_name s @ '' {'' @ [CHR 0x0A] @ concat (map print_field (sd_fields s)) @ body_end @ [CHR 0x0A]"

definition print_param :: "MethodParam \<Rightarrow> string" where
  "print_param p = mp_type_name p @ '' '' @ mp_name p"

fun print_params :: "MethodParam list \<Rightarrow> string" where
  "print_params [] = []"
| "print_params [p] = print_param p"
| "print_params (p # q # ps) = print_param p @ '','' @ '' '' @ print_params (q # ps)"

definition method_line :: "MethodDef \<Rightarrow> string" where
  "method_line m = mp_type_name (md_return_type m) @ '' '' @ md_name m @ ''('' @ print_params (md_params m) @ '')'' @ '';''"

definition print_service :: "ServiceDef \<Rightarrow> string" where
  "print_service s = ''service '' @ sv_name s @ '' {'' @ [CHR 0x0A] @
     concat (map (\<lambda>m. ''    '' @ method_line m @ [CHR 0x0A]) (sv_methods s)) @ body_end @ [CHR 0x0A]"

definition print_doc :: "IDLDocument \<Rightarrow> string" where
  "print_doc doc =
     (if idl_namespace_name doc = [] then [] else ''namespace '' @ idl_namespace_name doc @ [CHR 0x0A]) @
     concat (map print_struct (idl_structs doc)) @ concat (map print_service (idl_services doc))"

definition field_ok :: "Field \<Rightarrow> bool" where
  "field_ok f \<longleftrightarrow> word_ok (fd_name f) \<and> word_ok (fd_type_name f) \<and> fd_type f = parse_type (fd_type_name f) \<and>
     fd_element_type f = FT_INT32 \<and> fd_field_id f = 0"

definition struct_ok :: "StructDef \<Rightarrow> bool" where
  "struct_ok s \<longleftrightarrow> word_ok (sd_name s) \<and> length (sd_name s) < 2 ^ 63 \<and> list_all field_ok (sd_fields s)"

definition param_ok :: "MethodParam \<Rightarrow> bool" where
  "param_ok p \<longleftrightarrow> word_ok (mp_name p) \<and> word_ok (mp_type_name p) \<and> mp_type p = parse_type (mp_type_name p)"

definition method_ok :: "MethodDef \<Rightarrow> bool" where
  "method_ok m \<longleftrightarrow> word_ok (md_name m) \<and> list_all param_ok (md_params m) \<and> mp_name (md_return_type m) = [] \<and>
     word_ok (mp_type_name (md_return_type m)) \<and> mp_type (md_return_type m) = parse_type (mp_type_name (md_return_type m)) \<and>
     length (method_line m) < 2 ^ 63"

definition service_ok :: "ServiceDef \<Rightarrow> bool" where
  "service_ok s \<longleftrightarrow> word_ok (sv_name s) \<and> length (sv_name s) < 2 ^ 63 \<and> list_all method_ok (sv_methods s)"

definition doc_ok :: "IDLDocument \<Rightarrow> bool" where
  "doc_ok doc \<longleftrightarrow> (idl_namespace_name doc = [] \<or> word_ok (idl_namespace_name doc)) \<and>
     list_all struct_ok (idl_structs doc) \<and> list_all service_ok (idl_services doc)"

lemma word_ok_chars:
  assumes "word_ok w"
  shows "w \<noteq> []" "c \<in> set w \<Longrightarrow> \<not> is_ws c" "c \<in> set w \<Longrightarrow> c \<noteq> CHR 0x0A" "c \<in> set w \<Longrightarrow> c \<noteq> CHR '' ''"
    "c \<in> set w \<Longrightarrow> c \<noteq> CHR ''{''" "c \<in> set w \<Longrightarrow> c \<noteq> CHR ''(''" "c \<in> set w \<Longrightarrow> c \<noteq> CHR '')''"
    "c \<in> set w \<Longrightarrow> c \<noteq> CHR '',''" "c \<in> set w \<Longrightarrow> c \<noteq> CHR '';''" "c \<in> set w \<Longrightarrow> c \<noteq> CHR ''#''" "c \<in> set w \<Longrightarrow> c \<noteq> CHR 0x22"
  using assms by (auto simp: word_ok_def list_all_iff is_ws_def)

lemma word_ok_ends: "word_ok w \<Longrightarrow> \<not> is_ws (hd w) \<and> \<not> is_ws (last w) \<and> hd w \<noteq> CHR ''#'' \<and> hd w \<noteq> CHR 0x22"
  using word_ok_chars by (metis hd_in_set last_in_set)

lemma trim_word: "word_ok w \<Longrightarrow> \<forall>c \<in> set a. is_ws c \<Longrightarrow> \<forall>c \<in> set b. is_ws c \<Longrightarrow> trim (a @ w @ b) = w"
  using word_ok_ends word_ok_chars(1) by (intro trim_mid) auto

lemma trim_words: "word_ok v \<Longrightarrow> word_ok w \<Longrightarrow> \<forall>c \<in> set a. is_ws c \<Longrightarrow> trim (a @ v @ m @ w) = v @ m @ w"
  using trim_mid [of a "[]" "v @ m @ w"] word_ok_ends word_ok_chars(1) by simp

section \<open>Parsing what was printed\<close>

lemma ws_space [simp]: "is_ws (CHR '' '')" "\<not> is_ws (CHR '';'')" "\<not> is_ws (CHR ''{'')" "\<not> is_ws (CHR 0x22)" "\<not> is_ws (CHR ''s'')" "\<not> is_ws (CHR ''n'')"
  by (simp_all add: is_ws_def)

lemma parse_field_printed:
  assumes "field_ok f"
  shows "parse_field (fd_type_name f @ '' '' @ fd_name f @ '';'') = Some f"
proof -
  have w: "word_ok (fd_name f)" "word_ok (fd_type_name f)" using assms by (simp_all add: field_ok_def)
  have "find_first (\<lambda>c. c = CHR '' '') (fd_type_name f @ CHR '' '' # fd_name f @ '';'') = Some (length (fd_type_name f))"
    using word_ok_chars(4) [OF w(2)] by (intro find_first_at) auto
  moreover have "trim (fd_type_name f) = fd_type_name f" using trim_word [OF w(2), of "[]" "[]"] by simp
  moreover have "trim (CHR '' '' # fd_name f @ '';'') = fd_name f @ '';''"
    using trim_mid [of "'' ''" "[]" "fd_name f @ '';''"] word_ok_ends [OF w(1)] word_ok_chars(1) [OF w(1)] by simp
  ultimately show ?thesis using assms by (simp add: parse_field_def Let_def field_ok_def)
qed

lemma field_line:
  assumes "field_ok f"
  shows "trim (''    '' @ fd_type_name f @ '' '' @ fd_name f @ '';'') = fd_type_name f @ '' '' @ fd_name f @ '';''"
    "CHR 0x0A \<notin> set (''    '' @ fd_type_name f @ '' '' @ fd_name f @ '';'')"
proof -
  have w: "word_ok (fd_name f)" "word_ok (fd_type_name f)" using assms by (simp_all add: field_ok_def)
  show "trim (''    '' @ fd_type_name f @ '' '' @ fd_name f @ '';'') = fd_type_name f @ '' '' @ fd_name f @ '';''"
    using trim_mid [of "''    ''" "[]" "fd_type_name f @ '' '' @ fd_name f @ '';''"] word_ok_ends [OF w(2)] word_ok_chars(1) [OF w(2)] by simp
  show "CHR 0x0A \<notin> set (''    '' @ fd_type_name f @ '' '' @ fd_name f @ '';'')"
    using word_ok_chars(3) [OF w(1)] word_ok_chars(3) [OF w(2)] by auto
qed

lemma body_end_line: "trim body_end = body_end" "CHR 0x0A \<notin> set body_end"
  using trim_mid [of "[]" "[]" body_end] by (simp_all add: body_end_def)

lemma word_not_special:
  assumes "word_ok w"
  shows "w @ r \<noteq> body_end" "w @ r \<noteq> []" "hd (w @ r) \<noteq> CHR ''#''"
  using word_ok_ends [OF assms] word_ok_chars(1) [OF assms] by (cases w; auto simp: body_end_def)+

lemma parse_struct_body_step:
  assumes "getline (CHR 0x0A) stream = Some (raw, rest)" "trim raw = line" "line \<noteq> body_end" "line \<noteq> []" "hd line \<noteq> CHR ''#''"
    and "parse_field line = Some f"
  shows "parse_struct_body stream acc = parse_struct_body rest (acc @ [f])"
  using assms by (simp add: parse_struct_body.simps [of stream] Let_def)

lemma parse_struct_body_printed:
  assumes "list_all field_ok fs"
  shows "parse_struct_body (concat (map print_field fs) @ body_end @ CHR 0x0A # rest) acc = (acc @ fs, rest)"
  using assms
proof (induction fs arbitrary: acc)
  case Nil
  show ?case
    using getline_at [OF body_end_line(2), of rest] body_end_line(1) by (subst parse_struct_body.simps) simp
next
  case (Cons f fs)
  then have f: "field_ok f" by simp
  let ?line = "''    '' @ fd_type_name f @ '' '' @ fd_name f @ '';''"
  let ?rest = "concat (map print_field fs) @ body_end @ CHR 0x0A # rest"
  have "getline (CHR 0x0A) (concat (map print_field (f # fs)) @ body_end @ CHR 0x0A # rest) = Some (?line, ?rest)"
    using getline_at [OF field_line(2) [OF f], of ?rest] by (simp add: print_field_def)
  moreover have "word_ok (fd_type_name f)" using f by (simp add: field_ok_def)
  ultimately show ?case
    using Cons.IH [of "acc @ [f]"] Cons.prems
      parse_struct_body_step [OF _ field_line(1) [OF f] word_not_special parse_field_printed [OF f]] by simp
qed

lemma header_name_printed:
  assumes "word_ok name" "length name < 2 ^ 63" "CHR ''{'' \<notin> set keyword" "length keyword < 100"
  shows "header_name keyword (keyword @ '' '' @ name @ '' {'') = Some name"
proof -
  let ?l = "keyword @ '' '' @ name @ '' {''"
  have "find_first (\<lambda>c. c = CHR ''{'') ((keyword @ '' '' @ name @ '' '') @ CHR ''{'' # []) = Some (length (keyword @ '' '' @ name @ '' ''))"
    using word_ok_chars(5) [OF assms(1)] assms(3) by (intro find_first_at) auto
  then have b: "find_first (\<lambda>c. c = CHR ''{'') ?l = Some (length keyword + length name + 2)" by simp
  have d: "pos_diff (pos_diff (length keyword + length name + 2) 0) (length keyword) = length name + 2"
    using assms(2,4) by (simp add: pos_diff_nat)
  have "substr ?l (length keyword) (length name + 2) = '' '' @ name @ '' ''" by (simp add: substr_def)
  moreover have "trim ('' '' @ name @ '' '') = name" using assms(1) by (intro trim_word) auto
  ultimately show ?thesis using b d by (simp add: header_name_def find_str_0)
qed

lemma header_line:
  assumes "word_ok name" "\<not> is_ws (hd keyword)" "keyword \<noteq> []" "CHR 0x0A \<notin> set keyword"
  shows "trim (keyword @ '' '' @ name @ '' {'') = keyword @ '' '' @ name @ '' {''" "CHR 0x0A \<notin> set (keyword @ '' '' @ name @ '' {'')"
  using trim_mid [of "[]" "[]" "keyword @ '' '' @ name @ '' {''"] assms word_ok_chars(3) [OF assms(1)] by auto

lemma parse_loop_struct:
  assumes "struct_ok s"
  shows "parse_loop (print_struct s @ rest) doc = parse_loop rest (doc\<lparr>idl_structs := idl_structs doc @ [s]\<rparr>)"
proof -
  let ?l = "''struct'' @ '' '' @ sd_name s @ '' {''"
  let ?rest = "concat (map print_field (sd_fields s)) @ body_end @ CHR 0x0A # rest"
  have w: "word_ok (sd_name s)" "length (sd_name s) < 2 ^ 63" "list_all field_ok (sd_fields s)" using assms by (simp_all add: struct_ok_def)
  have l: "trim ?l = ?l" "CHR 0x0A \<notin> set ?l" using header_line [OF w(1), of "''struct''"] by simp_all
  have "print_struct s @ rest = ?l @ CHR 0x0A # ?rest" by (simp add: print_struct_def)
  then have "getline (CHR 0x0A) (print_struct s @ rest) = Some (?l, ?rest)" using getline_at [OF l(2), of ?rest] by (simp only:)
  moreover have "parse_struct ?rest ?l = (Some s, rest)"
    using header_name_printed [OF w(1,2), of "''struct''"] parse_struct_body_printed [OF w(3), of rest "[]"]
    by (simp add: parse_struct_def)
  ultimately show ?thesis using l(1) by (subst parse_loop.simps) (simp add: Let_def add_opt_def)
qed

lemma parse_param_printed:
  assumes "param_ok p" "\<forall>c \<in> set pre. is_ws c"
  shows "parse_param (pre @ print_param p) = Some p"
proof -
  have w: "word_ok (mp_name p)" "word_ok (mp_type_name p)" using assms(1) by (simp_all add: param_ok_def)
  have t: "trim (pre @ print_param p) = mp_type_name p @ CHR '' '' # mp_name p"
    using trim_words [OF w(2) w(1) assms(2), of "'' ''"] by (simp add: print_param_def)
  have "find_first (\<lambda>c. c = CHR '' '') (mp_type_name p @ CHR '' '' # mp_name p) = Some (length (mp_type_name p))"
    using word_ok_chars(4) [OF w(2)] by (intro find_first_at) auto
  moreover have "trim (mp_type_name p) = mp_type_name p" using trim_word [OF w(2), of "[]" "[]"] by simp
  moreover have "trim (CHR '' '' # mp_name p) = mp_name p" using trim_word [OF w(1), of "'' ''" "[]"] by simp
  ultimately show ?thesis using assms(1) by (simp add: parse_param_def Let_def t param_ok_def)
qed

lemma print_param_chars:
  assumes "param_ok p"
  shows "c \<in> set (print_param p) \<Longrightarrow> c \<noteq> CHR '','' \<and> c \<noteq> CHR '')'' \<and> c \<noteq> CHR 0x0A" "print_param p \<noteq> []"
  using assms by (auto simp: print_param_def param_ok_def dest: word_ok_chars(3,7,8))

lemma print_params_chars:
  "list_all param_ok ps \<Longrightarrow> c \<in> set (print_params ps) \<Longrightarrow> c \<noteq> CHR '')'' \<and> c \<noteq> CHR 0x0A"
  by (induction ps rule: print_params.induct) (auto dest: print_param_chars(1))

lemma comma_not_ws: "\<forall>c \<in> set pre. is_ws c \<Longrightarrow> CHR '','' \<notin> set pre"
proof
  assume "\<forall>c \<in> set pre. is_ws c" "CHR '','' \<in> set pre"
  then have "is_ws (CHR '','')" by blast
  then show False by (simp add: is_ws_def)
qed

lemma parse_params_printed:
  assumes "list_all param_ok ps" "\<forall>c \<in> set pre. is_ws c"
  shows "parse_params (pre @ print_params ps) = ps"
  using assms
proof (induction ps arbitrary: pre rule: print_params.induct)
  case 1
  then have "parse_param pre = None" by (simp add: parse_param_def trim_all_ws find_first_none)
  moreover have "CHR '','' \<notin> set pre" using "1.prems"(2) by (rule comma_not_ws)
  ultimately show ?case
    using getline_rest [of "CHR '',''" pre]
    by (cases "pre = []") (simp_all add: parse_params.simps [of pre] parse_params.simps [of "[]"] getline_def [of _ "[]"])
next
  case (2 p)
  then have p: "param_ok p" by simp
  have "CHR '','' \<notin> set (pre @ print_param p)" using print_param_chars(1) [OF p] comma_not_ws [OF "2.prems"(2)] by auto
  from getline_rest [OF this] print_param_chars(2) [OF p] parse_param_printed [OF p "2.prems"(2)] show ?case
    by (simp add: parse_params.simps [of "pre @ print_param p"] parse_params.simps [of "[]"] getline_def [of _ "[]"])
next
  case (3 p q ps)
  then have p: "param_ok p" by simp
  have "CHR '','' \<notin> set (pre @ print_param p)" using print_param_chars(1) [OF p] comma_not_ws [OF "3.prems"(2)] by auto
  from getline_at [OF this, of "'' '' @ print_params (q # ps)"] parse_param_printed [OF p "3.prems"(2)]
    "3.IH" [of "'' ''"] "3.prems"(1)
  show ?case by (simp add: parse_params.simps [of "pre @ print_param p @ _"])
qed

lemma parse_method_printed:
  assumes "method_ok m"
  shows "parse_method (method_line m) = Some m"
proof -
  let ?r = "mp_type_name (md_return_type m)" and ?n = "md_name m" and ?ps = "print_params (md_params m)"
  have w: "word_ok ?n" "word_ok ?r" "list_all param_ok (md_params m)" and len: "length (method_line m) < 2 ^ 63"
    using assms by (simp_all add: method_ok_def)
  have "find_first (\<lambda>c. c = CHR ''('') ((?r @ '' '' @ ?n) @ CHR ''('' # ?ps @ '')'' @ '';'') = Some (length (?r @ '' '' @ ?n))"
    using word_ok_chars(6) [OF w(1)] word_ok_chars(6) [OF w(2)] by (intro find_first_at) auto
  then have o: "find_first (\<lambda>c. c = CHR ''('') (method_line m) = Some (length (?r @ '' '' @ ?n))" by (simp add: method_line_def)
  have "find_first (\<lambda>c. c = CHR '')'') ((?r @ '' '' @ ?n @ ''('' @ ?ps) @ CHR '')'' # '';'') = Some (length (?r @ '' '' @ ?n @ ''('' @ ?ps))"
    using word_ok_chars(7) [OF w(1)] word_ok_chars(7) [OF w(2)] print_params_chars [OF w(3)] by (intro find_first_at) auto
  then have c: "find_first (\<lambda>c. c = CHR '')'') (method_line m) = Some (length (?r @ '' '' @ ?n @ ''('' @ ?ps))" by (simp add: method_line_def)
  have "take (length (?r @ '' '' @ ?n)) (method_line m) = ?r @ '' '' @ ?n" by (simp add: method_line_def)
  then have t: "trim (take (length (?r @ '' '' @ ?n)) (method_line m)) = ?r @ CHR '' '' # ?n"
    using trim_words [OF w(2) w(1), of "[]" "'' ''"] by simp
  have l: "find_last (\<lambda>c. c = CHR '' '') (?r @ CHR '' '' # ?n) = Some (length ?r)"
    using word_ok_chars(4) [OF w(1)] by (intro find_last_at) auto
  have n: "trim ?r = ?r" "trim (CHR '' '' # ?n) = ?n"
    using trim_word [OF w(2), of "[]" "[]"] trim_word [OF w(1), of "'' ''" "[]"] by simp_all
  have "length (?r @ '' '' @ ?n @ ''('' @ ?ps) < 2 ^ 64" using len by (simp add: method_line_def)
  then have "pos_diff (pos_diff (length (?r @ '' '' @ ?n @ ''('' @ ?ps)) (length (?r @ '' '' @ ?n))) 1 = length ?ps"
    by (simp add: pos_diff_nat)
  then have p: "substr (method_line m) (length (?r @ '' '' @ ?n) + 1)
      (pos_diff (pos_diff (length (?r @ '' '' @ ?n @ ''('' @ ?ps)) (length (?r @ '' '' @ ?n))) 1) = ?ps"
    by (simp add: substr_def method_line_def)
  have "mp_type_name (md_return_type m) = ?r \<and> mp_name (md_return_type m) = [] \<and> mp_type (md_return_type m) = parse_type ?r"
    using assms by (simp add: method_ok_def)
  then show ?thesis
    using parse_params_printed [OF w(3), of "[]"]
    by (simp only: parse_method_def o c t l n p option.case prod.case Let_def append_take_drop_id) (simp add: n)
qed

lemma method_line_ok:
  assumes "method_ok m"
  shows "trim (''    '' @ method_line m) = method_line m" "CHR 0x0A \<notin> set (''    '' @ method_line m)"
    "method_line m \<noteq> body_end" "method_line m \<noteq> []" "hd (method_line m) \<noteq> CHR ''#''"
proof -
  have w: "word_ok (md_name m)" "word_ok (mp_type_name (md_return_type m))" "list_all param_ok (md_params m)"
    using assms by (simp_all add: method_ok_def)
  show "trim (''    '' @ method_line m) = method_line m"
    using trim_mid [of "''    ''" "[]" "method_line m"] word_ok_ends [OF w(2)] word_ok_chars(1) [OF w(2)] by (simp add: method_line_def)
  show "CHR 0x0A \<notin> set (''    '' @ method_line m)"
    using word_ok_chars(3) [OF w(1)] word_ok_chars(3) [OF w(2)] print_params_chars [OF w(3)] by (auto simp: method_line_def)
  show "method_line m \<noteq> body_end" "method_line m \<noteq> []" "hd (method_line m) \<noteq> CHR ''#''"
    using word_not_special [OF w(2)] unfolding method_line_def by blast+
qed

lemma parse_service_body_step:
  assumes "getline (CHR 0x0A) stream = Some (raw, rest)" "trim raw = line" "line \<noteq> body_end" "line \<noteq> []" "hd line \<noteq> CHR ''#''"
    and "parse_method line = Some m"
  shows "parse_service_body stream acc = parse_service_body rest (acc @ [m])"
  using assms by (simp add: parse_service_body.simps [of stream] Let_def)

lemma parse_service_body_printed:
  assumes "list_all method_ok ms"
  shows "parse_service_body (concat (map (\<lambda>m. ''    '' @ method_line m @ [CHR 0x0A]) ms) @ body_end @ CHR 0x0A # rest) acc = (acc @ ms, rest)"
  using assms
proof (induction ms arbitrary: acc)
  case Nil
  show ?case
    using getline_at [OF body_end_line(2), of rest] body_end_line(1) by (subst parse_service_body.simps) simp
next
  case (Cons m ms)
  then have m: "method_ok m" by simp
  let ?rest = "concat (map (\<lambda>m. ''    '' @ method_line m @ [CHR 0x0A]) ms) @ body_end @ CHR 0x0A # rest"
  have "getline (CHR 0x0A) (concat (map (\<lambda>m. ''    '' @ method_line m @ [CHR 0x0A]) (m # ms)) @ body_end @ CHR 0x0A # rest) =
      Some (''    '' @ method_line m, ?rest)"
    using getline_at [OF method_line_ok(2) [OF m], of ?rest] by simp
  then show ?case
    using Cons.IH [of "acc @ [m]"] Cons.prems
      parse_service_body_step [OF _ method_line_ok(1,3-5) [OF m] parse_method_printed [OF m]] by simp
qed

lemma parse_loop_service:
  assumes "service_ok s"
  shows "parse_loop (print_service s @ rest) doc = parse_loop rest (doc\<lparr>idl_services := idl_services doc @ [s]\<rparr>)"
proof -
  let ?l = "''service'' @ '' '' @ sv_name s @ '' {''"
  let ?rest = "concat (map (\<lambda>m. ''    '' @ method_line m @ [CHR 0x0A]) (sv_methods s)) @ body_end @ CHR 0x0A # rest"
  have w: "word_ok (sv_name s)" "length (sv_name s) < 2 ^ 63" "list_all method_ok (sv_methods s)" using assms by (simp_all add: service_ok_def)
  have l: "trim ?l = ?l" "CHR 0x0A \<notin> set ?l" using header_line [OF w(1), of "''service''"] by simp_all
  have "print_service s @ rest = ?l @ CHR 0x0A # ?rest" by (simp add: print_service_def)
  then have "getline (CHR 0x0A) (print_service s @ rest) = Some (?l, ?rest)" using getline_at [OF l(2), of ?rest] by (simp only:)
  moreover have "parse_service ?rest ?l = (Some s, rest)"
    using header_name_printed [OF w(1,2), of "''service''"] parse_service_body_printed [OF w(3), of rest "[]"]
    by (simp add: parse_service_def)
  ultimately show ?thesis using l(1) by (subst parse_loop.simps) (simp add: Let_def add_opt_def)
qed

section \<open>Properties\<close>

lemma parse_loop_structs:
  "list_all struct_ok ss \<Longrightarrow>
    parse_loop (concat (map print_struct ss) @ rest) doc = parse_loop rest (doc\<lparr>idl_structs := idl_structs doc @ ss\<rparr>)"
  by (induction ss arbitrary: doc) (simp_all add: parse_loop_struct)

lemma parse_loop_services:
  "list_all service_ok ss \<Longrightarrow>
    parse_loop (concat (map print_service ss) @ rest) doc = parse_loop rest (doc\<lparr>idl_services := idl_services doc @ ss\<rparr>)"
  by (induction ss arbitrary: doc) (simp_all add: parse_loop_service)

lemma parse_loop_namespace:
  assumes "word_ok name"
  shows "parse_loop (''namespace '' @ name @ CHR 0x0A # rest) doc = parse_loop rest (doc\<lparr>idl_namespace_name := name\<rparr>)"
proof -
  let ?l = "''namespace'' @ '' '' @ name"
  have nl: "CHR 0x0A \<notin> set ?l" using word_ok_chars(3) [OF assms] by auto
  have t: "trim ?l = ?l" using trim_mid [of "[]" "[]" ?l] word_ok_ends [OF assms] word_ok_chars(1) [OF assms] by simp
  have "parse_namespace ?l = name"
    using trim_word [OF assms, of "'' ''" "[]"] by (simp add: parse_namespace_def find_str_0)
  with getline_at [OF nl, of rest] t show ?thesis by (subst parse_loop.simps) (simp add: Let_def)
qed

lemma parse_printed:
  assumes "doc_ok doc"
  shows "parse (print_doc doc) = Some doc"
proof -
  have ok: "idl_namespace_name doc = [] \<or> word_ok (idl_namespace_name doc)" "list_all struct_ok (idl_structs doc)"
      "list_all service_ok (idl_services doc)" using assms by (simp_all add: doc_ok_def)
  let ?d = "\<lparr>idl_namespace_name = [], idl_structs = [], idl_services = []\<rparr>"
  let ?t = "concat (map print_struct (idl_structs doc)) @ concat (map print_service (idl_services doc))"
  have body: "parse_loop ?t d = d\<lparr>idl_structs := idl_structs d @ idl_structs doc, idl_services := idl_services d @ idl_services doc\<rparr>" for d
    using parse_loop_structs [OF ok(2), of "concat (map print_service (idl_services doc))" d]
      parse_loop_services [OF ok(3), of "[]" "d\<lparr>idl_structs := idl_structs d @ idl_structs doc\<rparr>"]
    by (simp add: parse_loop.simps [of "[]"] getline_def)
  show ?thesis
  proof (cases "idl_namespace_name doc = []")
    case True
    with body [of ?d] show ?thesis by (simp add: parse_def print_doc_def)
  next
    case False
    with ok(1) parse_loop_namespace [of "idl_namespace_name doc" ?t ?d] body show ?thesis
      by (simp add: parse_def print_doc_def)
  qed
qed

text \<open>
  C14. Parsing inverts printing: every well-formed document, with any number of structs, fields, services, methods and
  parameters, is read back exactly from its printed text, in which each body ends with a quoted closing
  brace.
\<close>

theorem parse_print_roundtrip:
  assumes "doc_ok doc"
  shows "parse (print_doc doc) = Some doc"
  using assms by (rule parse_printed)

definition doc_ex :: IDLDocument where
  "doc_ex = \<lparr>idl_namespace_name = ''calc'',
     idl_structs = [\<lparr>sd_name = ''Req'', sd_fields = [\<lparr>fd_name = ''a'', fd_type = FT_INT32, fd_type_name = ''int32'', fd_element_type = FT_INT32, fd_field_id = 0\<rparr>]\<rparr>],
     idl_services = [\<lparr>sv_name = ''Calc'', sv_methods = [\<lparr>md_name = ''add'',
       md_params = [\<lparr>mp_name = ''x'', mp_type = FT_CUSTOM, mp_type_name = ''Req''\<rparr>, \<lparr>mp_name = ''y'', mp_type = FT_BOOL, mp_type_name = ''bool''\<rparr>],
       md_return_type = \<lparr>mp_name = [], mp_type = FT_CUSTOM, mp_type_name = ''Req''\<rparr>\<rparr>]\<rparr>]\<rparr>"

theorem parse_print_roundtrip_witness: "parse (print_doc doc_ex) = Some doc_ex"
proof (rule parse_print_roundtrip)
  show "doc_ok doc_ex"
    by (simp add: doc_ok_def doc_ex_def word_ok_def is_ws_def struct_ok_def field_ok_def service_ok_def method_ok_def param_ok_def
        method_line_def print_param_def parse_type_def)
qed

function idl_lines :: "string \<Rightarrow> string list" where
  "idl_lines stream = (case getline (CHR 0x0A) stream of None \<Rightarrow> [] | Some (line, rest) \<Rightarrow> line # idl_lines rest)"
  by pat_completeness auto
termination by (relation "measure length") (auto dest: getline_shrinks)

declare idl_lines.simps [simp del]

lemma parse_struct_body_unended:
  assumes "list_all (\<lambda>l. trim l \<noteq> body_end) (idl_lines stream)"
  shows "snd (parse_struct_body stream acc) = []"
  using assms
proof (induction stream acc rule: parse_struct_body.induct)
  case (1 stream acc)
  show ?case
  proof (cases "getline (CHR 0x0A) stream")
    case None
    then have "stream = []" by (simp add: getline_def split: if_splits)
    with None show ?thesis by (subst parse_struct_body.simps) simp
  next
    case (Some lr)
    obtain raw rest where lr: "lr = (raw, rest)" by fastforce
    with "1.prems" Some have "trim raw \<noteq> body_end" "list_all (\<lambda>l. trim l \<noteq> body_end) (idl_lines rest)"
      by (simp_all add: idl_lines.simps [of stream])
    with "1.IH" [OF Some lr [symmetric] refl] Some lr show ?thesis
      by (subst parse_struct_body.simps) (auto simp: Let_def split: option.splits)
  qed
qed

text \<open>
  C40. The quotes are required: when no line of the rest is a quoted brace, as in every file that closes its bodies with a
  plain one, the first struct swallows the whole rest of the document; no other struct and no service is
  found.
\<close>

theorem first_struct_swallows_rest:
  assumes "word_ok name" "length name < 2 ^ 63" "list_all (\<lambda>l. trim l \<noteq> body_end) (idl_lines rest)"
  shows "parse (''struct '' @ name @ '' {'' @ CHR 0x0A # rest) =
    Some \<lparr>idl_namespace_name = [], idl_structs = [\<lparr>sd_name = name, sd_fields = fst (parse_struct_body rest [])\<rparr>], idl_services = []\<rparr>"
proof -
  let ?l = "''struct'' @ '' '' @ name @ '' {''"
  have l: "trim ?l = ?l" "CHR 0x0A \<notin> set ?l" using header_line [OF assms(1), of "''struct''"] by simp_all
  obtain fs where "parse_struct_body rest [] = (fs, [])"
    using parse_struct_body_unended [OF assms(3), of "[]"] by (metis prod.collapse)
  with header_name_printed [OF assms(1,2), of "''struct''"]
  have "parse_struct rest ?l = (Some \<lparr>sd_name = name, sd_fields = fst (parse_struct_body rest [])\<rparr>, [])" by (simp add: parse_struct_def)
  with getline_at [OF l(2), of rest] l(1) show ?thesis
    by (simp add: parse_def parse_loop.simps [of "_ # _"] parse_loop.simps [of "[]"] getline_def [of _ "[]"] Let_def add_opt_def)
qed

theorem first_struct_swallows_rest_witness:
  "map_option idl_services (parse (''struct '' @ ''A'' @ '' {'' @ CHR 0x0A #
     ''int32 a;'' @ CHR 0x0A # ''}'' @ CHR 0x0A # ''service S {'' @ CHR 0x0A # ''}'' @ [CHR 0x0A])) = Some []"
proof -
  let ?rest = "''int32 a;'' @ CHR 0x0A # ''}'' @ CHR 0x0A # ''service S {'' @ CHR 0x0A # ''}'' @ [CHR 0x0A]"
  have "list_all (\<lambda>l. trim l \<noteq> body_end) (idl_lines ?rest)" by code_simp
  moreover have "word_ok ''A''" by code_simp
  ultimately show ?thesis by (subst first_struct_swallows_rest) simp_all
qed

text \<open>
  \<open>trim\<close>, which finds the first and the last character that is not white space and takes the substring between them,
  removes exactly the white space at both ends.
\<close>

theorem trim_spec: "trim s = rev (dropWhile is_ws (rev (dropWhile is_ws s)))"
proof (cases "dropWhile is_ws s = []")
  case True
  then have "trim s = []" by (intro trim_all_ws) (simp only: dropWhile_eq_Nil_conv)
  then show ?thesis unfolding True by simp
next
  case False
  let ?r = "dropWhile is_ws s" and ?a = "takeWhile is_ws s"
  let ?m = "rev (dropWhile is_ws (rev ?r))" and ?b = "rev (takeWhile is_ws (rev ?r))"
  have hd: "\<not> is_ws (hd ?r)" using False by (rule hd_dropWhile)
  have r: "?r = ?m @ ?b" by (metis rev_append rev_rev_ident takeWhile_dropWhile_id)
  have "hd ?r \<in> set (rev ?r)" using hd_in_set [OF False] by simp
  then have "dropWhile is_ws (rev ?r) \<noteq> []" using hd unfolding dropWhile_eq_Nil_conv by blast
  then have m: "?m \<noteq> []" "\<not> is_ws (last ?m)" using hd_dropWhile [of is_ws "rev ?r"] by (auto simp: last_rev)
  moreover have "\<not> is_ws (hd ?m)" using hd r m(1) by (metis hd_append2)
  moreover have "s = ?a @ ?m @ ?b" using r takeWhile_dropWhile_id [of is_ws s] by metis
  ultimately show ?thesis using trim_mid [of ?a ?b ?m] by (metis set_takeWhileD set_rev)
qed

end
