(* ===== verification/Idl_Codegen.thy ===== *)
theory Idl_Codegen
  imports Idl_Parser Rpc_Serializer
begin

text \<open>
  The code generator of \<open>idl/code_generator.hpp\<close>: the text it writes, as strings, one definition per function of the
  class. A reader of the generated text, with the meaning of the statements it holds, runs the generated functions on an object,
  so that what the text does can be compared with the serializer.
\<close>

section \<open>The generator\<close>

definition nl :: string where
  "nl = [CHR 0x0A]"

definition dq :: string where
  "dq = [CHR 0x22]"

record Config =
  output_dir :: string
  generate_serialization :: bool
  generate_client :: bool
  generate_server :: bool

definition Config_default :: Config where
  "Config_default = \<lparr>output_dir = ''.'', generate_serialization = True, generate_client = True, generate_server = True\<rparr>"

text \<open>\<open>std::toupper\<close> is defined on the values of an \<open>unsigned char\<close> only: \<open>None\<close> for a negative \<open>char\<close>.\<close>

definition toupper :: "char \<Rightarrow> char option" where
  "toupper c =
     (let n = (of_char c :: nat)
      in if 128 \<le> n then None else if 97 \<le> n \<and> n \<le> 122 then Some (char_of (n - 32)) else Some c)"

fun to_upper :: "string \<Rightarrow> string option" where
  "to_upper [] = Some []"
| "to_upper (c # s) = (case (toupper c, to_upper s) of (Some c', Some s') \<Rightarrow> Some (c' # s') | _ \<Rightarrow> None)"

fun to_cpp_type :: "FieldType \<Rightarrow> string \<Rightarrow> string" where
  "to_cpp_type FT_INT8 type_name = ''int8_t''"
| "to_cpp_type FT_INT16 type_name = ''int16_t''"
| "to_cpp_type FT_INT32 type_name = ''int32_t''"
| "to_cpp_type FT_INT64 type_name = ''int64_t''"
| "to_cpp_type FT_UINT8 type_name = ''uint8_t''"
| "to_cpp_type FT_UINT16 type_name = ''uint16_t''"
| "to_cpp_type FT_UINT32 type_name = ''uint32_t''"
| "to_cpp_type FT_UINT64 type_name = ''uint64_t''"
| "to_cpp_type FT_FLOAT type_name = ''float''"
| "to_cpp_type FT_DOUBLE type_name = ''double''"
| "to_cpp_type FT_STRING type_name = ''std::string''"
| "to_cpp_type FT_BOOL type_name = ''bool''"
| "to_cpp_type FT_VECTOR type_name = type_name"
| "to_cpp_type FT_MAP type_name = type_name"
| "to_cpp_type FT_CUSTOM type_name = type_name"

definition generate_serialization_code :: "StructDef \<Rightarrow> string" where
  "generate_serialization_code s =
     ''namespace rpc::rpc {'' @ nl @
     ''template<>'' @ nl @
     ''std::vector<uint8_t> serialize(const '' @ sd_name s @ ''& obj) {'' @ nl @
     ''    std::vector<uint8_t> buffer;'' @ nl @
     concat (map (\<lambda>f. ''    BinarySerializer::encode(buffer, obj.'' @ fd_name f @ '');'' @ nl) (sd_fields s)) @
     ''    return buffer;'' @ nl @
     ''}'' @ nl @ nl @
     ''template<>'' @ nl @
     ''bool deserialize(const std::vector<uint8_t>& buffer, '' @ sd_name s @ ''& obj) {'' @ nl @
     ''    size_t offset = 0;'' @ nl @
     concat (map (\<lambda>f.
       ''    auto r_'' @ fd_name f @ '' = BinarySerializer::decode('' @ nl @
       ''        buffer.data() + offset, buffer.size() - offset, obj.'' @ fd_name f @ '');'' @ nl @
       ''    if (!r_'' @ fd_name f @ ''.success) return false;'' @ nl @
       ''    offset += r_'' @ fd_name f @ ''.bytes_read;'' @ nl) (sd_fields s)) @
     ''    return true;'' @ nl @
     ''}'' @ nl @
     ''} // namespace rpc::rpc'' @ nl @ nl"

definition generate_struct :: "Config \<Rightarrow> StructDef \<Rightarrow> string" where
  "generate_struct config s =
     ''struct '' @ sd_name s @ '' {'' @ nl @
     concat (map (\<lambda>f. ''    '' @ to_cpp_type (fd_type f) (fd_type_name f) @ '' '' @ fd_name f @ '';'' @ nl) (sd_fields s)) @
     ''};'' @ nl @ nl @
     (if generate_serialization config then generate_serialization_code s else [])"

text \<open>The loop over the parameters, with a comma before every one but the first.\<close>

definition generate_params :: "MethodParam list \<Rightarrow> string" where
  "generate_params ps =
     concat (map (\<lambda>i. (if i > 0 then '','' @ '' '' else []) @
       to_cpp_type (mp_type (ps ! i)) (mp_type_name (ps ! i)) @ '' '' @ mp_name (ps ! i)) [0..<length ps])"

definition generate_client_method :: "ServiceDef \<Rightarrow> MethodDef \<Rightarrow> string" where
  "generate_client_method s m =
     ''    coroutine::Task<'' @ to_cpp_type (mp_type (md_return_type m)) (mp_type_name (md_return_type m)) @
     ''> '' @ md_name m @ ''('' @ generate_params (md_params m) @ '') {'' @ nl @
     (if md_params m \<noteq> [] then
        ''        '' @ md_name m @ ''Request req;'' @ nl @
        concat (map (\<lambda>p. ''        req.'' @ mp_name p @ '' = '' @ mp_name p @ '';'' @ nl) (md_params m)) @
        ''        auto resp = co_await client_.call<'' @
        md_name m @ ''Response>('' @ dq @ sv_name s @ dq @ '', '' @ dq @ md_name m @ dq @ '', req);'' @ nl
      else
        ''        auto resp = co_await client_.call<'' @
        md_name m @ ''Response>('' @ dq @ sv_name s @ dq @ '', '' @ dq @ md_name m @ dq @ '');'' @ nl) @
     ''        co_return resp;'' @ nl @
     ''    }'' @ nl @ nl"

definition generate_service :: "Config \<Rightarrow> ServiceDef \<Rightarrow> string" where
  "generate_service config s =
     ''class '' @ sv_name s @ ''Service {'' @ nl @
     ''public:'' @ nl @
     ''    virtual ~'' @ sv_name s @ ''Service() = default;'' @ nl @ nl @
     concat (map (\<lambda>m.
       ''    virtual '' @ to_cpp_type (mp_type (md_return_type m)) (mp_type_name (md_return_type m)) @
       '' '' @ md_name m @ ''('' @ generate_params (md_params m) @ '') = 0;'' @ nl) (sv_methods s)) @
     ''};'' @ nl @ nl @
     (if generate_client config then
        ''class '' @ sv_name s @ ''Client {'' @ nl @
        ''public:'' @ nl @
        ''    explicit '' @ sv_name s @ ''Client(RpcClient& client)'' @ nl @
        ''        : client_(client) {}'' @ nl @ nl @
        concat (map (generate_client_method s) (sv_methods s)) @
        ''private:'' @ nl @
        ''    RpcClient& client_;'' @ nl @
        ''};'' @ nl @ nl
      else [])"

definition generate_header :: "Config \<Rightarrow> IDLDocument \<Rightarrow> string \<Rightarrow> string" where
  "generate_header config doc filename =
     ''/**'' @ nl @
     '' * @file '' @ filename @ ''.hpp'' @ nl @
     '' * @brief Auto-generated from IDL'' @ nl @
     '' * @author RPC Framework IDL Generator'' @ nl @
     '' */'' @ nl @ nl @
     ''#pragma once'' @ nl @ nl @
     ''#include '' @ dq @ ''../framework.hpp'' @ dq @ nl @ nl @
     (if idl_namespace_name doc \<noteq> [] then ''namespace '' @ idl_namespace_name doc @ '' {'' @ nl @ nl else []) @
     concat (map (generate_struct config) (idl_structs doc)) @
     concat (map (generate_service config) (idl_services doc)) @
     (if idl_namespace_name doc \<noteq> [] then ''} // namespace '' @ idl_namespace_name doc @ nl else [])"

text \<open>
  The output file. \<open>can_open\<close> says which paths the stream opens for writing, \<open>room\<close> how many characters the device
  takes; a write that fails puts the stream into a bad state, which the code does not look at.
\<close>

definition generate ::
  "Config \<Rightarrow> (string \<Rightarrow> bool) \<Rightarrow> nat \<Rightarrow> IDLDocument \<Rightarrow> string \<Rightarrow> (string \<rightharpoonup> string) \<Rightarrow> bool \<times> (string \<rightharpoonup> string)" where
  "generate config can_open room doc filename files =
     (let header = generate_header config doc filename;
          header_path = output_dir config @ ''/'' @ filename @ ''.hpp''
      in if \<not> can_open header_path then (False, files) else (True, files(header_path \<mapsto> take room header)))"

section \<open>Running the generated functions\<close>

text \<open>The values of the types the serializer has overloads for, and the overloads by the name of the C++ type.\<close>

datatype cpp_value =
  CV_i8 "8 word" | CV_i16 "16 word" | CV_i32 "32 word" | CV_i64 "64 word"
| CV_u8 "8 word" | CV_u16 "16 word" | CV_u32 "32 word" | CV_u64 "64 word"
| CV_float "32 word" | CV_double "64 word" | CV_string bytes | CV_bool bool

fun value_type :: "cpp_value \<Rightarrow> string" where
  "value_type (CV_i8 _) = ''int8_t''" | "value_type (CV_i16 _) = ''int16_t''"
| "value_type (CV_i32 _) = ''int32_t''" | "value_type (CV_i64 _) = ''int64_t''"
| "value_type (CV_u8 _) = ''uint8_t''" | "value_type (CV_u16 _) = ''uint16_t''"
| "value_type (CV_u32 _) = ''uint32_t''" | "value_type (CV_u64 _) = ''uint64_t''"
| "value_type (CV_float _) = ''float''" | "value_type (CV_double _) = ''double''"
| "value_type (CV_string _) = ''std::string''" | "value_type (CV_bool _) = ''bool''"

fun value_fits :: "cpp_value \<Rightarrow> bool" where
  "value_fits (CV_string v) = (length v < 2 ^ 32)"
| "value_fits _ = True"

fun encode_value :: "bytes \<Rightarrow> cpp_value \<Rightarrow> bytes" where
  "encode_value buf (CV_i8 v) = encode_i8 buf v" | "encode_value buf (CV_i16 v) = encode_i16 buf v"
| "encode_value buf (CV_i32 v) = encode_i32 buf v" | "encode_value buf (CV_i64 v) = encode_i64 buf v"
| "encode_value buf (CV_u8 v) = encode_u8 buf v" | "encode_value buf (CV_u16 v) = encode_u16 buf v"
| "encode_value buf (CV_u32 v) = encode_u32 buf v" | "encode_value buf (CV_u64 v) = encode_u64 buf v"
| "encode_value buf (CV_float v) = encode_float buf v" | "encode_value buf (CV_double v) = encode_double buf v"
| "encode_value buf (CV_string v) = encode_string buf v" | "encode_value buf (CV_bool v) = encode_bool buf v"

definition decode_as :: "('a \<Rightarrow> cpp_value) \<Rightarrow> 'a decoder \<Rightarrow> cpp_value decoder" where
  "decode_as c dec data = (let (r, v) = dec data in (r, map_option c v))"

definition decoder_of :: "string \<Rightarrow> cpp_value decoder option" where
  "decoder_of t = map_of
     [(''int8_t'', decode_as CV_i8 decode_i8), (''int16_t'', decode_as CV_i16 decode_i16),
      (''int32_t'', decode_as CV_i32 decode_i32), (''int64_t'', decode_as CV_i64 decode_i64),
      (''uint8_t'', decode_as CV_u8 decode_u8), (''uint16_t'', decode_as CV_u16 decode_u16),
      (''uint32_t'', decode_as CV_u32 decode_u32), (''uint64_t'', decode_as CV_u64 decode_u64),
      (''float'', decode_as CV_float decode_float), (''double'', decode_as CV_double decode_double),
      (''std::string'', decode_as CV_string decode_string), (''bool'', decode_as CV_bool decode_bool)] t"

text \<open>The reader. \<open>between\<close> takes a line apart that has a fixed beginning and a fixed end.\<close>

definition between :: "string \<Rightarrow> string \<Rightarrow> string \<Rightarrow> string option" where
  "between pre suf line =
     (if prefix pre line \<and> suffix suf line \<and> length pre + length suf \<le> length line
      then Some (take (length line - length pre - length suf) (drop (length pre) line)) else None)"

definition block_after :: "string \<Rightarrow> string \<Rightarrow> string list \<Rightarrow> string list" where
  "block_after header stop ls = takeWhile (\<lambda>l. l \<noteq> stop) (drop 1 (dropWhile (\<lambda>l. l \<noteq> header) ls))"

definition read_member :: "string \<Rightarrow> (string \<times> string) option" where
  "read_member line =
     map_option (\<lambda>s. (drop 1 (dropWhile (\<lambda>c. c \<noteq> CHR '' '') s), takeWhile (\<lambda>c. c \<noteq> CHR '' '') s))
       (between ''    '' '';'' line)"

definition members :: "string \<Rightarrow> string \<Rightarrow> (string \<times> string) list" where
  "members text name = List.map_filter read_member (block_after (''struct '' @ name @ '' {'') ''};'' (idl_lines text))"

text \<open>The statements of \<open>serialize\<close>: the result is \<open>None\<close> for a statement that has no meaning.\<close>

type_synonym cpp_object = "string \<rightharpoonup> cpp_value"

fun run_encodes :: "string list \<Rightarrow> cpp_object \<Rightarrow> bytes \<Rightarrow> bytes option" where
  "run_encodes [] obj buf = None"
| "run_encodes (l # ls) obj buf =
     (if l = ''    return buffer;'' then Some buf
      else case between ''    BinarySerializer::encode(buffer, obj.'' '');'' l of
             None \<Rightarrow> None
           | Some x \<Rightarrow> (case obj x of None \<Rightarrow> None | Some v \<Rightarrow> run_encodes ls obj (encode_value buf v)))"

definition run_serialize :: "string \<Rightarrow> string \<Rightarrow> cpp_object \<Rightarrow> bytes option" where
  "run_serialize text name obj =
     (case block_after (''std::vector<uint8_t> serialize(const '' @ name @ ''& obj) {'') ''}'' (idl_lines text) of
        l # ls \<Rightarrow> if l = ''    std::vector<uint8_t> buffer;'' then run_encodes ls obj [] else None
      | [] \<Rightarrow> None)"

text \<open>The statements of \<open>deserialize\<close>, with the declared types of the members and the results \<open>r_x\<close> so far.\<close>

fun run_decodes ::
  "(string \<rightharpoonup> string) \<Rightarrow> bytes \<Rightarrow> string list \<Rightarrow> nat \<Rightarrow> (string \<rightharpoonup> DecodeResult) \<Rightarrow> cpp_object \<Rightarrow> (bool \<times> cpp_object) option" where
  "run_decodes types buffer [] offset rs obj = None"
| "run_decodes types buffer (l # ls) offset rs obj =
     (if l = ''    return true;'' then Some (True, obj)
      else case between ''    offset += r_'' ''.bytes_read;'' l of
        Some x \<Rightarrow> (case rs x of None \<Rightarrow> None | Some r \<Rightarrow> run_decodes types buffer ls (offset + bytes_read r) rs obj)
      | None \<Rightarrow>
      (case between ''    if (!r_'' ''.success) return false;'' l of
        Some x \<Rightarrow> (case rs x of None \<Rightarrow> None | Some r \<Rightarrow> if success r then run_decodes types buffer ls offset rs obj else Some (False, obj))
      | None \<Rightarrow>
      (case (between ''    auto r_'' '' = BinarySerializer::decode('' l, ls) of
        (Some x, l' # ls') \<Rightarrow>
          (case between ''        buffer.data() + offset, buffer.size() - offset, obj.'' '');'' l' of
             None \<Rightarrow> None
           | Some y \<Rightarrow>
               (case Option.bind (types y) decoder_of of
                  None \<Rightarrow> None
                | Some dec \<Rightarrow>
                    (case dec (drop offset buffer) of
                       (r, v) \<Rightarrow> run_decodes types buffer ls' offset (rs(x \<mapsto> r)) (obj(y := v)))))
      | _ \<Rightarrow> None)))"

definition run_deserialize :: "string \<Rightarrow> string \<Rightarrow> bytes \<Rightarrow> cpp_object \<Rightarrow> (bool \<times> cpp_object) option" where
  "run_deserialize text name buffer obj =
     (case block_after (''bool deserialize(const std::vector<uint8_t>& buffer, '' @ name @ ''& obj) {'') ''}'' (idl_lines text) of
        l # ls \<Rightarrow>
          if l = ''    size_t offset = 0;'' then run_decodes (map_of (members text name)) buffer ls 0 Map.empty obj else None
      | [] \<Rightarrow> None)"


section \<open>Every declared type is serializable\<close>

context codec
begin

lemma as_codec:
  assumes "\<And>buf x. E buf (c x) = enc buf x" "\<And>buf v. E buf v = buf @ E [] v"
    and "\<And>v. F v \<Longrightarrow> \<exists>x. v = c x \<and> fits x"
  shows "codec E (decode_as c dec) F"
proof
  show "E buf v = buf @ E [] v" for buf v by (rule assms(2))
  show "decode_as c dec (E [] v @ rest) = (decode_ok (length (E [] v)), Some v)" if "F v" for v rest
    using assms(3) [OF that] dec_enc by (auto simp: decode_as_def assms(1))
  show "fst (decode_as c dec (take k (E [] v))) = decode_fail" if "F v" "k < length (E [] v)" for v k
    using assms(3) [OF that(1)] that(2) dec_trunc by (fastforce simp: decode_as_def assms(1) split: prod.splits)
  show "bytes_read (fst (decode_as c dec bs)) \<le> length bs \<and> snd (decode_as c dec bs) \<noteq> None"
    if "success (fst (decode_as c dec bs))" for bs
    using that dec_bound [of bs] by (auto simp: decode_as_def split: prod.splits)
  show "fst (decode_as c dec bs) = decode_fail" if "\<not> success (fst (decode_as c dec bs))" for bs
    using that dec_failed [of bs] by (auto simp: decode_as_def split: prod.splits)
qed

end

lemma encode_value_app: "encode_value buf v = buf @ encode_value [] v"
  by (cases v) (simp_all only: encode_value.simps, (rule i8.enc_app i16.enc_app i32.enc_app i64.enc_app u8.enc_app u16.enc_app
    u32.enc_app u64.enc_app float.enc_app double.enc_app string.enc_app bool.enc_app)+)

lemma value_shape:
  "value_type v = ''int8_t'' \<longleftrightarrow> (\<exists>x. v = CV_i8 x)" "value_type v = ''int16_t'' \<longleftrightarrow> (\<exists>x. v = CV_i16 x)"
  "value_type v = ''int32_t'' \<longleftrightarrow> (\<exists>x. v = CV_i32 x)" "value_type v = ''int64_t'' \<longleftrightarrow> (\<exists>x. v = CV_i64 x)"
  "value_type v = ''uint8_t'' \<longleftrightarrow> (\<exists>x. v = CV_u8 x)" "value_type v = ''uint16_t'' \<longleftrightarrow> (\<exists>x. v = CV_u16 x)"
  "value_type v = ''uint32_t'' \<longleftrightarrow> (\<exists>x. v = CV_u32 x)" "value_type v = ''uint64_t'' \<longleftrightarrow> (\<exists>x. v = CV_u64 x)"
  "value_type v = ''float'' \<longleftrightarrow> (\<exists>x. v = CV_float x)" "value_type v = ''double'' \<longleftrightarrow> (\<exists>x. v = CV_double x)"
  "value_type v = ''std::string'' \<longleftrightarrow> (\<exists>x. v = CV_string x)" "value_type v = ''bool'' \<longleftrightarrow> (\<exists>x. v = CV_bool x)"
  by (cases v; simp)+

lemma value_codec:
  assumes "decoder_of t = Some dec"
  shows "codec encode_value dec (\<lambda>v. value_type v = t \<and> value_fits v)"
  using assms unfolding decoder_of_def
  by (auto split: if_splits simp: value_shape
      intro!: i8.as_codec i16.as_codec i32.as_codec i64.as_codec u8.as_codec u16.as_codec u32.as_codec u64.as_codec
        float.as_codec double.as_codec string.as_codec bool.as_codec encode_value_app)

lemma decoder_of_value: "\<exists>dec. decoder_of (value_type v) = Some dec"
  by (cases v) (simp_all add: decoder_of_def)

section \<open>The lines of the generated text\<close>

definition unlines :: "string list \<Rightarrow> string" where
  "unlines ls = concat (map (\<lambda>l. l @ nl) ls)"

lemma unlines_simps [simp]: "unlines [] = []" "unlines (l # ls) = l @ nl @ unlines ls" "unlines (as @ bs) = unlines as @ unlines bs"
  by (simp_all add: unlines_def)

lemma idl_lines_unlines: "\<forall>l \<in> set ls. CHR 0x0A \<notin> set l \<Longrightarrow> idl_lines (unlines ls @ rest) = ls @ idl_lines rest"
  by (induction ls) (simp_all add: nl_def idl_lines.simps [of "_ @ _"] getline_at)

definition member_line :: "Field \<Rightarrow> string" where
  "member_line f = ''    '' @ to_cpp_type (fd_type f) (fd_type_name f) @ '' '' @ fd_name f @ '';''"

definition encode_line :: "Field \<Rightarrow> string" where
  "encode_line f = ''    BinarySerializer::encode(buffer, obj.'' @ fd_name f @ '');''"

definition decode_lines :: "Field \<Rightarrow> string list" where
  "decode_lines f =
     [''    auto r_'' @ fd_name f @ '' = BinarySerializer::decode('',
      ''        buffer.data() + offset, buffer.size() - offset, obj.'' @ fd_name f @ '');'',
      ''    if (!r_'' @ fd_name f @ ''.success) return false;'',
      ''    offset += r_'' @ fd_name f @ ''.bytes_read;'']"

definition ser_head :: "string \<Rightarrow> string" where
  "ser_head name = ''std::vector<uint8_t> serialize(const '' @ name @ ''& obj) {''"

definition deser_head :: "string \<Rightarrow> string" where
  "deser_head name = ''bool deserialize(const std::vector<uint8_t>& buffer, '' @ name @ ''& obj) {''"

definition struct_head :: "string \<Rightarrow> string" where
  "struct_head name = ''struct '' @ name @ '' {''"

definition ser_body :: "StructDef \<Rightarrow> string list" where
  "ser_body s = ''    std::vector<uint8_t> buffer;'' # map encode_line (sd_fields s) @ [''    return buffer;'']"

definition deser_body :: "StructDef \<Rightarrow> string list" where
  "deser_body s = ''    size_t offset = 0;'' # concat (map decode_lines (sd_fields s)) @ [''    return true;'']"

definition ser_lines :: "StructDef \<Rightarrow> string list" where
  "ser_lines s = [''namespace rpc::rpc {'', ''template<>'', ser_head (sd_name s)] @ ser_body s @ [''}'', [], ''template<>'', deser_head (sd_name s)]
     @ deser_body s @ [''}'', ''} // namespace rpc::rpc'', []]"

definition struct_lines :: "Config \<Rightarrow> StructDef \<Rightarrow> string list" where
  "struct_lines config s = struct_head (sd_name s) # map member_line (sd_fields s) @ [''};'', []] @
     (if generate_serialization config then ser_lines s else [])"

definition top_lines :: "IDLDocument \<Rightarrow> string \<Rightarrow> string list" where
  "top_lines doc filename =
     [''/**'', '' * @file '' @ filename @ ''.hpp'', '' * @brief Auto-generated from IDL'',
      '' * @author RPC Framework IDL Generator'', '' */'', [], ''#pragma once'', [],
      ''#include '' @ dq @ ''../framework.hpp'' @ dq, []] @
     (if idl_namespace_name doc \<noteq> [] then [''namespace '' @ idl_namespace_name doc @ '' {'', []] else [])"

lemma unlines_map: "unlines (map g xs) = concat (map (\<lambda>x. g x @ nl) xs)"
  by (simp add: unlines_def comp_def)

lemma unlines_concat: "unlines (concat (map g xs)) = concat (map (\<lambda>x. unlines (g x)) xs)"
  by (induction xs) simp_all

lemma generate_struct_lines: "generate_struct config s = unlines (struct_lines config s)"
  by (simp add: generate_struct_def generate_serialization_code_def struct_lines_def ser_lines_def ser_body_def deser_body_def
      unlines_map unlines_concat member_line_def encode_line_def decode_lines_def struct_head_def ser_head_def deser_head_def)

lemma generate_header_lines:
  "\<exists>rest. generate_header config doc filename =
     unlines (top_lines doc filename @ concat (map (struct_lines config) (idl_structs doc))) @ rest"
  by (simp add: generate_header_def top_lines_def unlines_concat generate_struct_lines [abs_def])

lemma to_cpp_type_word: "word_ok n \<Longrightarrow> c \<in> set (to_cpp_type t n) \<Longrightarrow> c \<noteq> CHR 0x0A \<and> c \<noteq> CHR '' ''"
  using word_ok_chars(3,4) [of n c] by (cases t) auto

lemma struct_lines_clean:
  assumes "struct_ok s"
  shows "\<forall>l \<in> set (struct_lines config s). CHR 0x0A \<notin> set l"
proof -
  have f: "CHR 0x0A \<notin> set (fd_name f) \<and> CHR 0x0A \<notin> set (to_cpp_type (fd_type f) (fd_type_name f))" if "f \<in> set (sd_fields s)" for f
    using assms that to_cpp_type_word word_ok_chars(3) by (fastforce simp: struct_ok_def field_ok_def list_all_iff)
  have "CHR 0x0A \<notin> set (sd_name s)" using assms word_ok_chars(3) by (fastforce simp: struct_ok_def)
  with f show ?thesis
    by (auto simp: struct_lines_def ser_lines_def ser_body_def deser_body_def member_line_def encode_line_def decode_lines_def
        struct_head_def ser_head_def deser_head_def)
qed


lemmas line_defs = struct_lines_def ser_lines_def ser_body_def deser_body_def member_line_def encode_line_def decode_lines_def
  struct_head_def ser_head_def deser_head_def

lemma head_in_struct:
  "struct_head n \<in> set (struct_lines config s) \<Longrightarrow> n = sd_name s"
  "ser_head n \<in> set (struct_lines config s) \<Longrightarrow> n = sd_name s"
  "deser_head n \<in> set (struct_lines config s) \<Longrightarrow> n = sd_name s"
  by (auto simp: line_defs split: if_splits)

lemma head_not_top:
  "struct_head n \<notin> set (top_lines doc filename)" "ser_head n \<notin> set (top_lines doc filename)"
  "deser_head n \<notin> set (top_lines doc filename)"
  by (auto simp: top_lines_def struct_head_def ser_head_def deser_head_def)

lemma block_after_at:
  assumes "header \<notin> set pre" "stop \<notin> set body"
  shows "block_after header stop (pre @ header # body @ stop # rest) = body"
proof -
  have "dropWhile (\<lambda>l. l \<noteq> header) (pre @ header # body @ stop # rest) = header # body @ stop # rest"
    using assms(1) by (induction pre) auto
  moreover have "takeWhile (\<lambda>l. l \<noteq> stop) (body @ stop # rest) = body"
    using assms(2) by (induction body) auto
  ultimately show ?thesis by (simp add: block_after_def)
qed

lemma between_at: "between p s (p @ x @ s) = Some x"
  by (simp add: between_def suffix_def)

lemma between_none: "take (length p) l \<noteq> p \<Longrightarrow> between p s l = None"
  by (auto simp: between_def prefix_def)

text \<open>Where a struct's blocks are in the text of a document.\<close>

lemma header_split:
  assumes "doc_ok doc" "distinct (map sd_name (idl_structs doc))" "s \<in> set (idl_structs doc)" "CHR 0x0A \<notin> set filename"
  obtains pre rest where "idl_lines (generate_header config doc filename) = pre @ struct_lines config s @ rest"
    "struct_head (sd_name s) \<notin> set pre" "ser_head (sd_name s) \<notin> set pre" "deser_head (sd_name s) \<notin> set pre"
proof -
  obtain xs ys where sp: "idl_structs doc = xs @ s # ys" using assms(3) by (auto dest: split_list)
  let ?pre = "top_lines doc filename @ concat (map (struct_lines config) xs)"
  obtain rest where gen: "generate_header config doc filename =
      unlines (?pre @ struct_lines config s @ concat (map (struct_lines config) ys)) @ rest"
    using generate_header_lines [of config doc filename] sp by auto
  have "CHR 0x0A \<notin> set (idl_namespace_name doc)" using assms(1) word_ok_chars(3) by (fastforce simp: doc_ok_def)
  then have "\<forall>l \<in> set (top_lines doc filename). CHR 0x0A \<notin> set l" using assms(4) by (auto simp: top_lines_def dq_def)
  moreover have "\<forall>t \<in> set (idl_structs doc). \<forall>l \<in> set (struct_lines config t). CHR 0x0A \<notin> set l"
    using assms(1) struct_lines_clean unfolding doc_ok_def list_all_iff by blast
  ultimately have "idl_lines (generate_header config doc filename) =
      ?pre @ struct_lines config s @ (concat (map (struct_lines config) ys) @ idl_lines rest)"
    unfolding gen using sp by (subst idl_lines_unlines) auto
  moreover have "sd_name s \<notin> sd_name ` set xs" using assms(2) sp by simp
  then have "struct_head (sd_name s) \<notin> set ?pre" "ser_head (sd_name s) \<notin> set ?pre" "deser_head (sd_name s) \<notin> set ?pre"
    using head_not_top [of "sd_name s" doc filename] by (auto dest: head_in_struct)
  ultimately show ?thesis using that by blast
qed

lemma read_member_line:
  assumes "field_ok f"
  shows "read_member (member_line f) = Some (fd_name f, to_cpp_type (fd_type f) (fd_type_name f))"
proof -
  let ?t = "to_cpp_type (fd_type f) (fd_type_name f)"
  have sp: "\<forall>c \<in> set ?t. c \<noteq> CHR '' ''" using assms to_cpp_type_word by (auto simp: field_ok_def)
  have "between ''    '' '';'' (member_line f) = Some (?t @ CHR '' '' # fd_name f)"
    using between_at [of "''    ''" "'';''" "?t @ CHR '' '' # fd_name f"] by (simp add: member_line_def)
  with takeWhile_stop [OF sp, of "CHR '' ''" "fd_name f"] dropWhile_stop [OF sp, of "CHR '' ''" "fd_name f"]
  show ?thesis by (simp add: read_member_def)
qed

lemma map_filter_members:
  "list_all field_ok fs \<Longrightarrow>
   List.map_filter read_member (map member_line fs) = map (\<lambda>f. (fd_name f, to_cpp_type (fd_type f) (fd_type_name f))) fs"
  by (induction fs) (simp_all add: List.map_filter_simps read_member_line)

lemma generated_blocks:
  assumes "doc_ok doc" "distinct (map sd_name (idl_structs doc))" "s \<in> set (idl_structs doc)" "CHR 0x0A \<notin> set filename"
    and "generate_serialization config"
  shows "members (generate_header config doc filename) (sd_name s) =
      map (\<lambda>f. (fd_name f, to_cpp_type (fd_type f) (fd_type_name f))) (sd_fields s)"
    and "block_after (ser_head (sd_name s)) ''}'' (idl_lines (generate_header config doc filename)) = ser_body s"
    and "block_after (deser_head (sd_name s)) ''}'' (idl_lines (generate_header config doc filename)) = deser_body s"
proof -
  let ?ls = "idl_lines (generate_header config doc filename)"
  obtain pre rest where ls: "?ls = pre @ struct_lines config s @ rest"
    and out: "struct_head (sd_name s) \<notin> set pre" "ser_head (sd_name s) \<notin> set pre" "deser_head (sd_name s) \<notin> set pre"
    using header_split [OF assms(1-4), of config] by blast
  have fs: "list_all field_ok (sd_fields s)" using assms(1,3) by (auto simp: doc_ok_def list_all_iff struct_ok_def)
  have "block_after (struct_head (sd_name s)) ''};'' (pre @ struct_head (sd_name s) # map member_line (sd_fields s) @ ''};'' #
      [] # ser_lines s @ rest) = map member_line (sd_fields s)"
    by (rule block_after_at) (use out in \<open>auto simp: member_line_def\<close>)
  then have "block_after (struct_head (sd_name s)) ''};'' ?ls = map member_line (sd_fields s)"
    using ls assms(5) by (simp add: struct_lines_def)
  with fs show "members (generate_header config doc filename) (sd_name s) =
      map (\<lambda>f. (fd_name f, to_cpp_type (fd_type f) (fd_type_name f))) (sd_fields s)"
    by (simp add: members_def struct_head_def map_filter_members)
  let ?p1 = "pre @ struct_head (sd_name s) # map member_line (sd_fields s) @ [''};'', [], ''namespace rpc::rpc {'', ''template<>'']"
  let ?r1 = "[] # ''template<>'' # deser_head (sd_name s) # deser_body s @ [''}'', ''} // namespace rpc::rpc'', []] @ rest"
  have "ser_head (sd_name s) \<notin> set ?p1" using out(2) by (auto simp: member_line_def struct_head_def ser_head_def)
  moreover have "''}'' \<notin> set (ser_body s)" by (auto simp: ser_body_def encode_line_def)
  ultimately have "block_after (ser_head (sd_name s)) ''}'' (?p1 @ ser_head (sd_name s) # ser_body s @ ''}'' # ?r1) = ser_body s"
    by (rule block_after_at)
  moreover have "?ls = ?p1 @ ser_head (sd_name s) # ser_body s @ ''}'' # ?r1" using ls assms(5) by (simp add: struct_lines_def ser_lines_def)
  ultimately show "block_after (ser_head (sd_name s)) ''}'' ?ls = ser_body s" by simp
  let ?p2 = "?p1 @ ser_head (sd_name s) # ser_body s @ [''}'', [], ''template<>'']"
  let ?r2 = "[''} // namespace rpc::rpc'', []] @ rest"
  have "deser_head (sd_name s) \<notin> set ?p2" using out(3)
    by (auto simp: member_line_def struct_head_def ser_head_def deser_head_def ser_body_def encode_line_def)
  moreover have "''}'' \<notin> set (deser_body s)" by (auto simp: deser_body_def decode_lines_def)
  ultimately have "block_after (deser_head (sd_name s)) ''}'' (?p2 @ deser_head (sd_name s) # deser_body s @ ''}'' # ?r2) = deser_body s"
    by (rule block_after_at)
  moreover have "?ls = ?p2 @ deser_head (sd_name s) # deser_body s @ ''}'' # ?r2" using ls assms(5) by (simp add: struct_lines_def ser_lines_def)
  ultimately show "block_after (deser_head (sd_name s)) ''}'' ?ls = deser_body s" by simp
qed

section \<open>What the generated functions compute\<close>

definition field_value_ok :: "cpp_object \<Rightarrow> Field \<Rightarrow> bool" where
  "field_value_ok obj f \<longleftrightarrow>
     (case obj (fd_name f) of None \<Rightarrow> False | Some v \<Rightarrow> value_type v = to_cpp_type (fd_type f) (fd_type_name f) \<and> value_fits v)"

definition object_bytes :: "Field list \<Rightarrow> cpp_object \<Rightarrow> bytes" where
  "object_bytes fs obj = concat (map (\<lambda>f. encode_value [] (the (obj (fd_name f)))) fs)"

lemma between_encode: "between ''    BinarySerializer::encode(buffer, obj.'' '');'' (encode_line f) = Some (fd_name f)"
  using between_at [of "''    BinarySerializer::encode(buffer, obj.''" "'');''" "fd_name f"] by (simp add: encode_line_def)

lemma run_encodes_lines:
  assumes "list_all (field_value_ok obj) fs"
  shows "run_encodes (map encode_line fs @ [''    return buffer;'']) obj buf = Some (buf @ object_bytes fs obj)"
  using assms
proof (induction fs arbitrary: buf)
  case Nil
  then show ?case by (simp add: object_bytes_def)
next
  case (Cons f fs)
  then obtain v where v: "obj (fd_name f) = Some v" by (auto simp: field_value_ok_def split: option.splits)
  have "encode_line f \<noteq> ''    return buffer;''" by (simp add: encode_line_def)
  with Cons v between_encode [of f] encode_value_app [of buf v] show ?case by (simp add: object_bytes_def)
qed


lemma between_decode:
  "between ''    auto r_'' '' = BinarySerializer::decode('' (''    auto r_'' @ x @ '' = BinarySerializer::decode('') = Some x"
  "between ''        buffer.data() + offset, buffer.size() - offset, obj.'' '');''
     (''        buffer.data() + offset, buffer.size() - offset, obj.'' @ x @ '');'') = Some x"
  "between ''    if (!r_'' ''.success) return false;'' (''    if (!r_'' @ x @ ''.success) return false;'') = Some x"
  "between ''    offset += r_'' ''.bytes_read;'' (''    offset += r_'' @ x @ ''.bytes_read;'') = Some x"
  by (rule between_at)+

lemma between_other:
  "between ''    offset += r_'' ''.bytes_read;'' (''    auto r_'' @ x) = None"
  "between ''    if (!r_'' ''.success) return false;'' (''    auto r_'' @ x) = None"
  "between ''    offset += r_'' ''.bytes_read;'' (''    if (!r_'' @ x) = None"
  by (rule between_none, simp)+

lemma not_return_true:
  "(''    auto r_'' @ x = ''    return true;'') = False" "(''    if (!r_'' @ x = ''    return true;'') = False"
  "(''    offset += r_'' @ x = ''    return true;'') = False"
  by simp_all

lemma run_offset:
  "run_decodes types buffer ((''    offset += r_'' @ x @ ''.bytes_read;'') # ls) offset rs obj =
     (case rs x of None \<Rightarrow> None | Some r \<Rightarrow> run_decodes types buffer ls (offset + bytes_read r) rs obj)"
  by (subst run_decodes.simps) (simp only: not_return_true if_False between_decode option.case)

lemma run_check:
  "run_decodes types buffer ((''    if (!r_'' @ x @ ''.success) return false;'') # ls) offset rs obj =
     (case rs x of None \<Rightarrow> None
      | Some r \<Rightarrow> if success r then run_decodes types buffer ls offset rs obj else Some (False, obj))"
  by (subst run_decodes.simps) (simp only: not_return_true if_False between_decode between_other option.case)

lemma run_decode_call:
  assumes "types y = Some t" "decoder_of t = Some dec" "dec (drop offset buffer) = (r, v)"
  shows "run_decodes types buffer ((''    auto r_'' @ x @ '' = BinarySerializer::decode('') #
      (''        buffer.data() + offset, buffer.size() - offset, obj.'' @ y @ '');'') # ls) offset rs obj =
    run_decodes types buffer ls offset (rs(x \<mapsto> r)) (obj(y := v))"
  by (subst run_decodes.simps)
    (simp only: not_return_true if_False between_decode between_other option.case prod.case list.case assms Option.bind.simps)

lemma decode_lines_app:
  "decode_lines f @ ls =
     (''    auto r_'' @ fd_name f @ '' = BinarySerializer::decode('') #
     (''        buffer.data() + offset, buffer.size() - offset, obj.'' @ fd_name f @ '');'') #
     (''    if (!r_'' @ fd_name f @ ''.success) return false;'') #
     (''    offset += r_'' @ fd_name f @ ''.bytes_read;'') # ls"
  by (simp add: decode_lines_def)

text \<open>One field: the four lines that decode it, when its declared type is known.\<close>

lemma run_decodes_field:
  assumes "types (fd_name f) = Some t" "decoder_of t = Some dec" "dec (drop offset buffer) = (r, v)"
  shows "run_decodes types buffer (decode_lines f @ ls) offset rs obj =
    (if success r then run_decodes types buffer ls (offset + bytes_read r) (rs(fd_name f \<mapsto> r)) (obj(fd_name f := v))
     else Some (False, obj(fd_name f := v)))"
  by (simp only: decode_lines_app run_decode_call [of types, OF assms] run_check run_offset fun_upd_same option.case)


lemma field_decoder:
  assumes "field_value_ok obj f"
  obtains v dec where "obj (fd_name f) = Some v" "decoder_of (to_cpp_type (fd_type f) (fd_type_name f)) = Some dec"
    "codec encode_value dec (\<lambda>w. value_type w = value_type v \<and> value_fits w)" "value_fits v"
proof -
  from assms obtain v where v: "obj (fd_name f) = Some v" "value_type v = to_cpp_type (fd_type f) (fd_type_name f)" "value_fits v"
    by (auto simp: field_value_ok_def split: option.splits)
  moreover obtain dec where "decoder_of (value_type v) = Some dec" using decoder_of_value by blast
  ultimately show ?thesis using that value_codec by metis
qed

lemma run_decodes_all:
  assumes "list_all (field_value_ok obj) fs"
    and "\<forall>f \<in> set fs. types (fd_name f) = Some (to_cpp_type (fd_type f) (fd_type_name f))"
  shows "run_decodes types (pre @ object_bytes fs obj @ rest) (concat (map decode_lines fs) @ [''    return true;'']) (length pre) rs obj0 =
    Some (True, override_on obj0 obj (fd_name ` set fs))"
  using assms
proof (induction fs arbitrary: pre rs obj0)
  case Nil
  then show ?case by (simp add: override_on_def)
next
  case (Cons f fs)
  from Cons.prems(1) have "field_value_ok obj f" by simp
  then obtain v dec where v: "obj (fd_name f) = Some v" "decoder_of (to_cpp_type (fd_type f) (fd_type_name f)) = Some dec"
    and c: "codec encode_value dec (\<lambda>w. value_type w = value_type v \<and> value_fits w)" "value_fits v"
    by (rule field_decoder)
  let ?e = "encode_value [] v"
  have b: "object_bytes (f # fs) obj = ?e @ object_bytes fs obj" using v by (simp add: object_bytes_def)
  have "dec (?e @ object_bytes fs obj @ rest) = (decode_ok (length ?e), Some v)" using codec.dec_enc [OF c(1), of v] c(2) by simp
  then have d: "dec (drop (length pre) (pre @ object_bytes (f # fs) obj @ rest)) = (decode_ok (length ?e), Some v)" by (simp add: b)
  have ty: "types (fd_name f) = Some (to_cpp_type (fd_type f) (fd_type_name f))" using Cons.prems(2) by simp
  have "run_decodes types ((pre @ ?e) @ object_bytes fs obj @ rest) (concat (map decode_lines fs) @ [''    return true;'']) (length (pre @ ?e))
      (rs(fd_name f \<mapsto> decode_ok (length ?e))) (obj0(fd_name f \<mapsto> v)) =
    Some (True, override_on (obj0(fd_name f \<mapsto> v)) obj (fd_name ` set fs))"
    by (rule Cons.IH) (use Cons.prems in auto)
  moreover have "override_on (obj0(fd_name f \<mapsto> v)) obj (fd_name ` set fs) = override_on obj0 obj (fd_name ` set (f # fs))"
    using v by (auto simp: override_on_def fun_eq_iff)
  ultimately show ?case
    using run_decodes_field [of types f, OF ty v(2) d, of "concat (map decode_lines fs) @ [''    return true;'']" rs obj0] by (simp add: b)
qed

lemma run_decodes_truncated:
  assumes "list_all (field_value_ok obj) fs" "length pre \<le> k" "k < length (pre @ object_bytes fs obj)"
    and "\<forall>f \<in> set fs. types (fd_name f) = Some (to_cpp_type (fd_type f) (fd_type_name f))"
  shows "\<exists>obj'. run_decodes types (take k (pre @ object_bytes fs obj)) (concat (map decode_lines fs) @ ls) (length pre) rs obj0 =
    Some (False, obj')"
  using assms
proof (induction fs arbitrary: pre rs obj0)
  case Nil
  then show ?case by (simp add: object_bytes_def)
next
  case (Cons f fs)
  from Cons.prems(1) have "field_value_ok obj f" by simp
  then obtain v dec where v: "obj (fd_name f) = Some v" "decoder_of (to_cpp_type (fd_type f) (fd_type_name f)) = Some dec"
    and c: "codec encode_value dec (\<lambda>w. value_type w = value_type v \<and> value_fits w)" "value_fits v"
    by (rule field_decoder)
  let ?e = "encode_value [] v"
  let ?buf = "take k (pre @ object_bytes (f # fs) obj)"
  have b: "object_bytes (f # fs) obj = ?e @ object_bytes fs obj" using v by (simp add: object_bytes_def)
  have ty: "types (fd_name f) = Some (to_cpp_type (fd_type f) (fd_type_name f))" using Cons.prems(4) by simp
  show ?case
  proof (cases "length (pre @ ?e) \<le> k")
    case True
    have "dec (?e @ take (k - length (pre @ ?e)) (object_bytes fs obj)) = (decode_ok (length ?e), Some v)"
      using codec.dec_enc [OF c(1), of v] c(2) by simp
    then have d: "dec (drop (length pre) ?buf) = (decode_ok (length ?e), Some v)" using True by (simp add: b)
    have "\<exists>obj'. run_decodes types (take k ((pre @ ?e) @ object_bytes fs obj)) (concat (map decode_lines fs) @ ls) (length (pre @ ?e))
        (rs(fd_name f \<mapsto> decode_ok (length ?e))) (obj0(fd_name f \<mapsto> v)) = Some (False, obj')"
      by (rule Cons.IH) (use Cons.prems True b in auto)
    then show ?thesis
      using run_decodes_field [of types f, OF ty v(2) d, of "concat (map decode_lines fs) @ ls" rs obj0] by (simp add: b)
  next
    case False
    obtain r w where d: "dec (drop (length pre) ?buf) = (r, w)" by fastforce
    have "drop (length pre) ?buf = take (k - length pre) ?e" using False Cons.prems(2) by (simp add: b)
    moreover have "fst (dec (take (k - length pre) ?e)) = decode_fail"
      using codec.dec_trunc [OF c(1), of v "k - length pre"] c(2) False Cons.prems(2) by simp
    ultimately have "\<not> success r" using d by simp
    then show ?thesis using run_decodes_field [of types f, OF ty v(2) d, of "concat (map decode_lines fs) @ ls" rs obj0] by simp
  qed
qed

lemma run_generated:
  assumes "doc_ok doc" "distinct (map sd_name (idl_structs doc))" "s \<in> set (idl_structs doc)" "CHR 0x0A \<notin> set filename"
    and "generate_serialization config" "distinct (map fd_name (sd_fields s))"
  defines "text \<equiv> generate_header config doc filename"
  shows "run_serialize text (sd_name s) obj = run_encodes (map encode_line (sd_fields s) @ [''    return buffer;'']) obj []"
    and "run_deserialize text (sd_name s) buf obj0 =
      run_decodes (map_of (members text (sd_name s))) buf (concat (map decode_lines (sd_fields s)) @ [''    return true;'']) 0 Map.empty obj0"
    and "\<forall>f \<in> set (sd_fields s). map_of (members text (sd_name s)) (fd_name f) = Some (to_cpp_type (fd_type f) (fd_type_name f))"
proof -
  note blocks = generated_blocks [OF assms(1-5), folded text_def]
  show "run_serialize text (sd_name s) obj = run_encodes (map encode_line (sd_fields s) @ [''    return buffer;'']) obj []"
    unfolding run_serialize_def by (simp only: blocks(2) [unfolded ser_head_def] ser_body_def list.case simp_thms if_True)
  show "run_deserialize text (sd_name s) buf obj0 =
      run_decodes (map_of (members text (sd_name s))) buf (concat (map decode_lines (sd_fields s)) @ [''    return true;'']) 0 Map.empty obj0"
    unfolding run_deserialize_def by (simp only: blocks(3) [unfolded deser_head_def] deser_body_def list.case simp_thms if_True)
  have "distinct (map fst (members text (sd_name s)))" unfolding blocks(1) using assms(6) by (simp add: comp_def)
  then show "\<forall>f \<in> set (sd_fields s). map_of (members text (sd_name s)) (fd_name f) = Some (to_cpp_type (fd_type f) (fd_type_name f))"
    unfolding blocks(1) by (auto intro!: map_of_is_SomeI)
qed

lemma generated_code_runs:
  assumes "doc_ok doc" "distinct (map sd_name (idl_structs doc))" "s \<in> set (idl_structs doc)" "CHR 0x0A \<notin> set filename"
    and "generate_serialization config" "distinct (map fd_name (sd_fields s))" "list_all (field_value_ok obj) (sd_fields s)"
  defines "text \<equiv> generate_header config doc filename" and "bs \<equiv> object_bytes (sd_fields s) obj"
  shows "run_serialize text (sd_name s) obj = Some bs \<and>
    run_deserialize text (sd_name s) (bs @ rest) obj0 = Some (True, override_on obj0 obj (fd_name ` set (sd_fields s))) \<and>
    (k < length bs \<longrightarrow> (\<exists>obj'. run_deserialize text (sd_name s) (take k bs) obj0 = Some (False, obj')))"
  using run_encodes_lines [OF assms(7), of "[]"] run_decodes_all [OF assms(7), of _ "[]" rest Map.empty obj0]
    run_decodes_truncated [OF assms(7), of "[]" k _ "[''    return true;'']" Map.empty obj0]
  unfolding text_def bs_def run_generated(1,2) [OF assms(1-6)]
  using run_generated(3) [OF assms(1-6)] by simp



definition point_ex :: StructDef where
  "point_ex = \<lparr>sd_name = ''P'', sd_fields =
     [\<lparr>fd_name = ''a'', fd_type = FT_INT32, fd_type_name = ''int32'', fd_element_type = FT_INT32, fd_field_id = 0\<rparr>,
      \<lparr>fd_name = ''b'', fd_type = FT_STRING, fd_type_name = ''string'', fd_element_type = FT_INT32, fd_field_id = 0\<rparr>]\<rparr>"

definition point_doc_ex :: IDLDocument where
  "point_doc_ex = \<lparr>idl_namespace_name = [], idl_structs = [point_ex], idl_services = []\<rparr>"

definition point_obj_ex :: cpp_object where
  "point_obj_ex = [''a'' \<mapsto> CV_i32 7, ''b'' \<mapsto> CV_string [1, 2]]"


end
