(* ===== verification/Co_TaskVoid.thy ===== *)
theory Co_TaskVoid
  imports Co_Task
begin

text \<open>
  The specialisations \<open>TaskPromise<void>\<close> and \<open>Task<void>\<close> of \<open>coroutine/task.hpp\<close>, which the source writes out a second time. Their
  promise has no result, so frames of the two kinds have different types: the store of this theory holds both. The operations of
  the specialisation are translated from its own code; \<open>erase\<close> maps a store to the one of \<open>Co_Task\<close>, in which the two kinds are told apart by a
  flag, and every operation commutes with it, so what is proved of the primary template holds of the specialisation.
\<close>

section \<open>The promise\<close>

record ('v, 'e) TaskPromise_void =
  vp_exception :: "'e option"
  vp_state :: CoroutineState
  vp_continuation :: "handle option"
  vp_ref_count :: int
  vp_point :: "('v, 'e) point"

definition TaskPromise_void_init :: "('v, 'e) body \<Rightarrow> ('v, 'e) TaskPromise_void" where
  "TaskPromise_void_init b = \<lparr>vp_exception = None, vp_state = CS_Created, vp_continuation = None, vp_ref_count = 1, vp_point = At_body b\<rparr>"

definition get_return_object_void :: "handle \<Rightarrow> handle option" where
  "get_return_object_void h = Some h"

definition return_void :: "('v, 'e) TaskPromise_void \<Rightarrow> ('v, 'e) TaskPromise_void" where
  "return_void p = p"

definition unhandled_exception_void :: "'e \<Rightarrow> ('v, 'e) TaskPromise_void \<Rightarrow> ('v, 'e) TaskPromise_void" where
  "unhandled_exception_void e p = p\<lparr>vp_exception := Some e\<rparr>"

definition final_suspend_void :: "('v, 'e) TaskPromise_void \<Rightarrow> ('v, 'e) TaskPromise_void \<times> handle option" where
  "final_suspend_void p = (p\<lparr>vp_state := CS_Completed, vp_point := At_final\<rparr>, vp_continuation p)"

section \<open>Awaiting\<close>

definition TaskVoid_await_ready :: "('v, 'e) TaskPromise_void \<Rightarrow> bool" where
  "TaskVoid_await_ready p \<longleftrightarrow> vp_state p = CS_Completed \<or> vp_state p = CS_Cancelled"

definition TaskVoid_await_suspend :: "handle \<Rightarrow> ('v, 'e) TaskPromise_void \<Rightarrow> ('v, 'e) TaskPromise_void \<times> bool" where
  "TaskVoid_await_suspend cont p =
     (let p' = p\<lparr>vp_continuation := Some cont\<rparr>
      in if vp_state p' = CS_Created then (p'\<lparr>vp_state := CS_Running\<rparr>, True) else (p', False))"

definition TaskVoid_await_resume :: "('v, 'e) TaskPromise_void \<Rightarrow> ('v, 'e) outcome" where
  "TaskVoid_await_resume p = (case vp_exception p of Some e \<Rightarrow> Inl e | None \<Rightarrow> Inr None)"

section \<open>Frames of both kinds\<close>

datatype ('v, 'e) frame = Frame "('v, 'e) TaskPromise" | Frame_void "('v, 'e) TaskPromise_void"

type_synonym ('v, 'e) tframes = "handle \<rightharpoonup> ('v, 'e) frame"

fun frame_point :: "('v, 'e) frame \<Rightarrow> ('v, 'e) point" where
  "frame_point (Frame p) = tp_point p"
| "frame_point (Frame_void p) = vp_point p"

fun frame_at :: "('v, 'e) point \<Rightarrow> ('v, 'e) frame \<Rightarrow> ('v, 'e) frame" where
  "frame_at pt (Frame p) = Frame (p\<lparr>tp_point := pt\<rparr>)"
| "frame_at pt (Frame_void p) = Frame_void (p\<lparr>vp_point := pt\<rparr>)"

fun frame_await_ready :: "('v, 'e) frame \<Rightarrow> bool" where
  "frame_await_ready (Frame p) = Task_await_ready p"
| "frame_await_ready (Frame_void p) = TaskVoid_await_ready p"

fun frame_await_suspend :: "handle \<Rightarrow> ('v, 'e) frame \<Rightarrow> ('v, 'e) frame \<times> bool" where
  "frame_await_suspend cont (Frame p) = map_prod Frame id (Task_await_suspend cont p)"
| "frame_await_suspend cont (Frame_void p) = map_prod Frame_void id (TaskVoid_await_suspend cont p)"

fun frame_await_resume :: "('v, 'e) frame \<Rightarrow> co_error + ('v, 'e) outcome" where
  "frame_await_resume (Frame p) = Task_await_resume_value p"
| "frame_await_resume (Frame_void p) = Inr (TaskVoid_await_resume p)"

fun frame_final_suspend :: "('v, 'e) frame \<Rightarrow> ('v, 'e) frame \<times> handle option" where
  "frame_final_suspend (Frame p) = map_prod Frame id (final_suspend p)"
| "frame_final_suspend (Frame_void p) = map_prod Frame_void id (final_suspend_void p)"

definition frame_set_point :: "('v, 'e) tframes \<Rightarrow> handle \<Rightarrow> ('v, 'e) point \<Rightarrow> ('v, 'e) tframes" where
  "frame_set_point st h pt = (case st h of None \<Rightarrow> st | Some f \<Rightarrow> st(h \<mapsto> frame_at pt f))"

text \<open>Resumption, as in \<open>Co_Task\<close>, with the code that the kind of each frame selects.\<close>

definition frame_finish ::
  "('v, 'e) tframes \<Rightarrow> handle \<Rightarrow> ('v, 'e) frame \<Rightarrow> (co_error + ('v, 'e) tframes \<times> ('v, 'e) job option)" where
  "frame_finish st h f = (case frame_final_suspend f of (f', cont) \<Rightarrow> Inr (st(h \<mapsto> f'), map_option Resume cont))"

definition frame_outcome ::
  "('v, 'e) tframes \<Rightarrow> handle \<Rightarrow> handle \<Rightarrow> (('v, 'e) outcome \<Rightarrow> ('v, 'e) body) \<Rightarrow> (co_error + ('v, 'e) tframes \<times> ('v, 'e) job option)" where
  "frame_outcome st h t k =
     (case st t of
        None \<Rightarrow> Inl Bad_handle
      | Some f \<Rightarrow>
          (case frame_await_resume f of
             Inl err \<Rightarrow> Inl err
           | Inr r \<Rightarrow> Inr (frame_set_point st h Executing, Some (Run h (k r)))))"

definition frame_await ::
  "('v, 'e) tframes \<Rightarrow> handle \<Rightarrow> handle \<Rightarrow> (('v, 'e) outcome \<Rightarrow> ('v, 'e) body) \<Rightarrow> (co_error + ('v, 'e) tframes \<times> ('v, 'e) job option)" where
  "frame_await st h t k =
     (case st t of
        None \<Rightarrow> Inl Bad_handle
      | Some f \<Rightarrow>
          if frame_await_ready f then frame_outcome st h t k
          else (case frame_await_suspend h f of
                  (f', transfer) \<Rightarrow>
                    Inr (frame_set_point (st(t \<mapsto> f')) h (At_await t k), Some (Resume (if transfer then t else h)))))"

fun frame_return :: "('v, 'e) body \<Rightarrow> ('v, 'e) frame \<Rightarrow> ('v, 'e) frame option" where
  "frame_return (Co_return v) (Frame p) = Some (Frame (return_value v p))"
| "frame_return Co_return_void (Frame_void p) = Some (Frame_void (return_void p))"
| "frame_return (Co_throw e) (Frame p) = Some (Frame (unhandled_exception e p))"
| "frame_return (Co_throw e) (Frame_void p) = Some (Frame_void (unhandled_exception_void e p))"
| "frame_return _ _ = None"

fun frame_step :: "('v, 'e) tframes \<Rightarrow> ('v, 'e) job \<Rightarrow> (co_error + ('v, 'e) tframes \<times> ('v, 'e) job option)" where
  "frame_step st (Resume h) =
     (case st h of
        None \<Rightarrow> Inl Bad_handle
      | Some f \<Rightarrow>
          (case frame_point f of
             At_final \<Rightarrow> Inl Resumed_done
           | Executing \<Rightarrow> Inl Resumed_running
           | At_body b \<Rightarrow> Inr (frame_set_point st h Executing, Some (Run h b))
           | At_await t k \<Rightarrow> frame_outcome st h t k))"
| "frame_step st (Run h b) =
     (case st h of
        None \<Rightarrow> Inl Bad_handle
      | Some f \<Rightarrow>
          (case b of
             Co_suspend b' \<Rightarrow> Inr (frame_set_point st h (At_body b'), None)
           | Co_await t k \<Rightarrow> (case t of None \<Rightarrow> Inl Bad_handle | Some t \<Rightarrow> frame_await st h t k)
           | _ \<Rightarrow> (case frame_return b f of None \<Rightarrow> Inl Flowed_off | Some f' \<Rightarrow> frame_finish st h f')))"

declare frame_step.simps [simp del]

partial_function (option) frame_exec :: "('v, 'e) tframes \<Rightarrow> ('v, 'e) job \<Rightarrow> (co_error + ('v, 'e) tframes) option" where
  "frame_exec st j =
     (case frame_step st j of
        Inl err \<Rightarrow> Some (Inl err)
      | Inr (st', None) \<Rightarrow> Some (Inr st')
      | Inr (st', Some j') \<Rightarrow> frame_exec st' j')"

section \<open>The operations of \<open>Task<void>\<close>\<close>

text \<open>The handle of a \<open>Task<void>\<close> is one of a frame without a result; \<open>None\<close> when there is no such frame.\<close>

definition void_promise :: "('v, 'e) tframes \<Rightarrow> handle \<Rightarrow> ('v, 'e) TaskPromise_void option" where
  "void_promise st h = (case st h of Some (Frame_void p) \<Rightarrow> Some p | _ \<Rightarrow> None)"

definition TaskVoid_valid :: "handle option \<Rightarrow> bool" where
  "TaskVoid_valid t \<longleftrightarrow> t \<noteq> None"

definition TaskVoid_state :: "('v, 'e) tframes \<Rightarrow> handle option \<Rightarrow> CoroutineState option" where
  "TaskVoid_state st t = (case t of None \<Rightarrow> Some CS_Cancelled | Some h \<Rightarrow> map_option vp_state (void_promise st h))"

definition TaskVoid_start :: "('v, 'e) tframes \<Rightarrow> handle option \<Rightarrow> (co_error + ('v, 'e) tframes) option" where
  "TaskVoid_start st t =
     (case t of
        None \<Rightarrow> Some (Inr st)
      | Some h \<Rightarrow>
          (case void_promise st h of
             None \<Rightarrow> Some (Inl Bad_handle)
           | Some p \<Rightarrow>
               if vp_state p = CS_Created then frame_exec (st(h \<mapsto> Frame_void (p\<lparr>vp_state := CS_Running\<rparr>))) (Resume h)
               else Some (Inr st)))"

fun TaskVoid_get_loop :: "('v, 'e) tframes \<Rightarrow> handle \<Rightarrow> handle list \<Rightarrow> (co_error + ('v, 'e) tframes) option" where
  "TaskVoid_get_loop st h others =
     (case void_promise st h of
        None \<Rightarrow> Some (Inl Bad_handle)
      | Some p \<Rightarrow>
          if vp_state p = CS_Completed \<or> vp_state p = CS_Cancelled then Some (Inr st)
          else (case others of
                  [] \<Rightarrow> None
                | r # others' \<Rightarrow>
                    (case frame_exec st (Resume r) of
                       None \<Rightarrow> None
                     | Some (Inl err) \<Rightarrow> Some (Inl err)
                     | Some (Inr st') \<Rightarrow> TaskVoid_get_loop st' h others')))"

declare TaskVoid_get_loop.simps [simp del]

definition TaskVoid_get ::
  "('v, 'e) tframes \<Rightarrow> handle option \<Rightarrow> handle list \<Rightarrow> (co_error + ('v, 'e) tframes \<times> ('v, 'e) get_result) option" where
  "TaskVoid_get st t others =
     (case t of
        None \<Rightarrow> Some (Inr (st, Task_is_null))
      | Some h \<Rightarrow>
          (case TaskVoid_start st t of
             None \<Rightarrow> None
           | Some (Inl err) \<Rightarrow> Some (Inl err)
           | Some (Inr st1) \<Rightarrow>
               (case TaskVoid_get_loop st1 h others of
                  None \<Rightarrow> None
                | Some (Inl err) \<Rightarrow> Some (Inl err)
                | Some (Inr st2) \<Rightarrow>
                    (case void_promise st2 h of
                       None \<Rightarrow> Some (Inl Bad_handle)
                     | Some p \<Rightarrow> Some (Inr (st2, Got (case vp_exception p of Some e \<Rightarrow> Inl e | None \<Rightarrow> Inr None)))))))"

definition TaskVoid_cancel :: "('v, 'e) tframes \<Rightarrow> handle option \<Rightarrow> ('v, 'e) tframes" where
  "TaskVoid_cancel st t =
     (case t of
        None \<Rightarrow> st
      | Some h \<Rightarrow>
          (case void_promise st h of
             None \<Rightarrow> st
           | Some p \<Rightarrow> if vp_state p \<noteq> CS_Completed then st(h \<mapsto> Frame_void (p\<lparr>vp_state := CS_Cancelled\<rparr>)) else st))"

definition TaskVoid_destroy :: "('v, 'e) tframes \<Rightarrow> handle option \<Rightarrow> ('v, 'e) tframes \<times> handle option" where
  "TaskVoid_destroy st t = (case t of None \<Rightarrow> (st, None) | Some h \<Rightarrow> (st(h := None), None))"

definition TaskVoid_move :: "handle option \<Rightarrow> handle option \<times> handle option" where
  "TaskVoid_move other = (other, None)"

definition TaskVoid_move_assign ::
  "('v, 'e) tframes \<Rightarrow> bool \<Rightarrow> handle option \<Rightarrow> handle option \<Rightarrow> ('v, 'e) tframes \<times> handle option \<times> handle option" where
  "TaskVoid_move_assign st same this other =
     (if same then (st, this, other) else case TaskVoid_destroy st this of (st', _) \<Rightarrow> (st', other, None))"

section \<open>Agreement with the primary template\<close>

fun erase :: "('v, 'e) frame \<Rightarrow> ('v, 'e) TaskPromise" where
  "erase (Frame p) = p\<lparr>tp_void := False\<rparr>"
| "erase (Frame_void p) = \<lparr>tp_void = True, tp_result = None, tp_exception = vp_exception p, tp_state = vp_state p,
     tp_continuation = vp_continuation p, tp_ref_count = vp_ref_count p, tp_point = vp_point p\<rparr>"

definition erase_all :: "('v, 'e) tframes \<Rightarrow> ('v, 'e) frames" where
  "erase_all st h = map_option erase (st h)"

lemma erase_all_upd [simp]: "erase_all (st(h \<mapsto> f)) = (erase_all st)(h \<mapsto> erase f)" "erase_all (st(h := None)) = (erase_all st)(h := None)"
  by (auto simp: erase_all_def)

lemma erase_all_get: "st h = Some f \<Longrightarrow> erase_all st h = Some (erase f)" "st h = None \<Longrightarrow> erase_all st h = None"
  by (simp_all add: erase_all_def)

lemma erase_point [simp]: "tp_point (erase f) = frame_point f" "(erase f)\<lparr>tp_point := pt\<rparr> = erase (frame_at pt f)"
  by (cases f; simp)+

lemma erase_set_point [simp]: "set_point (erase_all st) h pt = erase_all (frame_set_point st h pt)"
  by (cases "st h") (simp_all add: set_point_def frame_set_point_def erase_all_get)

lemma erase_ready [simp]: "Task_await_ready (erase f) = frame_await_ready f"
  by (cases f) (simp_all add: Task_await_ready_def TaskVoid_await_ready_def)

lemma erase_await_suspend [simp]: "Task_await_suspend cont (erase f) = map_prod erase id (frame_await_suspend cont f)"
  by (cases f) (simp_all add: Task_await_suspend_def TaskVoid_await_suspend_def Let_def)

lemma erase_await_resume [simp]: "Task_await_resume (erase f) = frame_await_resume f"
  by (cases f) (simp_all add: Task_await_resume_def Task_await_resume_value_def Task_await_resume_void_def TaskVoid_await_resume_def split: option.splits)

lemma erase_final_suspend [simp]: "final_suspend (erase f) = map_prod erase id (frame_final_suspend f)"
  by (cases f) (simp_all add: final_suspend_def final_suspend_void_def)

abbreviation erase_step :: "(co_error + ('v, 'e) tframes \<times> ('v, 'e) job option) \<Rightarrow> (co_error + ('v, 'e) frames \<times> ('v, 'e) job option)" where
  "erase_step \<equiv> map_sum id (map_prod erase_all id)"

lemma erase_finish: "finish (erase_all st) h (erase f) = erase_step (frame_finish st h f)"
  by (cases "frame_final_suspend f") (simp add: finish_def frame_finish_def)

lemma erase_outcome: "resume_outcome (erase_all st) h t k = erase_step (frame_outcome st h t k)"
  by (cases "st t") (simp_all add: resume_outcome_def frame_outcome_def erase_all_get split: sum.split)

lemma erase_await: "step_await (erase_all st) h t k = erase_step (frame_await st h t k)"
proof (cases "st t")
  case (Some f)
  moreover obtain f' transfer where "frame_await_suspend h f = (f', transfer)" by fastforce
  ultimately show ?thesis
    by (simp add: step_await_def frame_await_def erase_all_get erase_outcome flip: erase_all_upd)
qed (simp add: step_await_def frame_await_def erase_all_get)

lemma erase_return:
  "frame_return (Co_return v) f = (case f of Frame p \<Rightarrow> Some (Frame (return_value v p)) | Frame_void p \<Rightarrow> None)"
  "frame_return Co_return_void f = (case f of Frame p \<Rightarrow> None | Frame_void p \<Rightarrow> Some f)"
  "\<exists>f'. frame_return (Co_throw e) f = Some f' \<and> erase f' = unhandled_exception e (erase f)"
  by (cases f; simp add: return_void_def unhandled_exception_def unhandled_exception_void_def)+

lemma return_value_void [simp]: "(return_value v p)\<lparr>tp_void := b\<rparr> = return_value v (p\<lparr>tp_void := b\<rparr>)"
  by (cases p) (simp add: return_value_def)

lemma step_job_erase: "step_job (erase_all st) j = erase_step (frame_step st j)"
proof (cases j)
  case (Resume h)
  then show ?thesis
    by (cases "st h") (simp_all add: step_job.simps step_resume.simps frame_step.simps erase_all_get erase_outcome split: point.split)
next
  case (Run h b)
  show ?thesis
  proof (cases "st h")
    case (Some f)
    with Run show ?thesis
    proof (cases b)
      case (Co_throw e)
      from erase_return(3) [of e f] obtain f' where
        "frame_return (Co_throw e) f = Some f'" "erase f' = unhandled_exception e (erase f)" by (elim exE conjE)
      with Run Some Co_throw show ?thesis
        by (simp add: step_job.simps frame_step.simps erase_all_get flip: erase_finish)
    next
      case (Co_return v)
      with Run Some show ?thesis
        by (cases f) (simp_all add: step_job.simps frame_step.simps erase_all_get flip: erase_finish)
    next
      case Co_return_void
      with Run Some show ?thesis
        by (cases f) (simp_all add: step_job.simps frame_step.simps erase_all_get return_void_def flip: erase_finish)
    qed (simp_all add: step_job.simps frame_step.simps erase_all_get erase_await split: option.split)
  qed (use Run in \<open>simp add: step_job.simps frame_step.simps erase_all_get\<close>)
qed

text \<open>Resumption of a frame commutes with \<open>erase_all\<close>, and one side returns exactly when the other does.\<close>

lemma exec_erase_returns:
  fixes st :: "('v, 'e) tframes"
  assumes "frame_exec st j = Some r"
  shows "exec (erase_all st) j = Some (map_sum id erase_all r)"
proof (rule frame_exec.raw_induct [of "\<lambda>st j r. exec (erase_all st) j = Some (map_sum id erase_all r)", OF _ assms])
  fix ex :: "('v, 'e) tframes \<Rightarrow> ('v, 'e) job \<Rightarrow> (co_error + ('v, 'e) tframes) option" and st j y
  assume IH: "\<And>st j r. ex st j = Some r \<Longrightarrow> exec (erase_all st) j = Some (map_sum id erase_all r)"
    and e: "(case frame_step st j of Inl err \<Rightarrow> Some (Inl err) | Inr (st', None) \<Rightarrow> Some (Inr st') | Inr (st', Some j') \<Rightarrow> ex st' j') = Some y"
  from e IH show "exec (erase_all st) j = Some (map_sum id erase_all y)"
    by (auto simp: exec.simps [of _ j] step_job_erase split: sum.splits option.splits)
qed

lemma frame_exec_returns:
  fixes st :: "('v, 'e) tframes"
  assumes "exec (erase_all st) j = Some r"
  shows "frame_exec st j \<noteq> None"
proof -
  let ?P = "\<lambda>s j (r :: co_error + ('v, 'e) frames). \<forall>st :: ('v, 'e) tframes. s = erase_all st \<longrightarrow> frame_exec st j \<noteq> None"
  have "?P (erase_all st) j r"
  proof (rule exec.raw_induct [of ?P, OF _ assms], intro allI impI)
    fix ex :: "('v, 'e) frames \<Rightarrow> ('v, 'e) job \<Rightarrow> (co_error + ('v, 'e) frames) option" and s j y and st :: "('v, 'e) tframes"
    assume IH: "\<And>s j r. ex s j = Some r \<Longrightarrow> ?P s j r"
      and e: "(case step_job s j of Inl err \<Rightarrow> Some (Inl err) | Inr (st', None) \<Rightarrow> Some (Inr st') | Inr (st', Some j') \<Rightarrow> ex st' j') = Some y"
      and s: "s = erase_all st"
    show "frame_exec st j \<noteq> None"
    proof (cases "\<exists>st' j'. frame_step st j = Inr (st', Some j')")
      case True
      then obtain st' j' where f: "frame_step st j = Inr (st', Some j')" by blast
      with e s have "ex (erase_all st') j' = Some y" by (simp add: step_job_erase)
      with IH [of "erase_all st'" j' y] f show ?thesis by (simp add: frame_exec.simps [of st j])
    next
      case False
      then show ?thesis by (auto simp: frame_exec.simps [of st j] split: sum.splits option.splits)
    qed
  qed
  then show ?thesis by blast
qed

lemma exec_erase: "exec (erase_all st) j = map_option (map_sum id erase_all) (frame_exec st j)"
proof (cases "frame_exec st j")
  case None
  with frame_exec_returns [of st j] show ?thesis by (cases "exec (erase_all st) j") auto
qed (simp add: exec_erase_returns)

text \<open>The handle of a task without a result, while the frame exists.\<close>

definition void_handle :: "('v, 'e) tframes \<Rightarrow> handle option \<Rightarrow> bool" where
  "void_handle st t \<longleftrightarrow> (\<forall>h f. t = Some h \<longrightarrow> st h = Some f \<longrightarrow> (\<exists>p. f = Frame_void p))"

lemma void_promise_eq: "void_handle st (Some h) \<Longrightarrow> erase_all st h = map_option (erase \<circ> Frame_void) (void_promise st h)"
  by (cases "st h") (auto simp: void_handle_def void_promise_def erase_all_def)

lemma erase_state [simp]: "tp_state (erase (Frame_void p)) = vp_state p" "(erase (Frame_void p))\<lparr>tp_state := s\<rparr> = erase (Frame_void (p\<lparr>vp_state := s\<rparr>))"
  by simp_all

lemma start_erase:
  assumes "void_handle st t"
  shows "Task_start (erase_all st) t = map_option (map_sum id erase_all) (TaskVoid_start st t)"
proof (cases t)
  case (Some h)
  with assms have e: "erase_all st h = map_option (erase \<circ> Frame_void) (void_promise st h)" by (simp add: void_promise_eq)
  show ?thesis
  proof (cases "void_promise st h")
    case (Some p)
    with e \<open>t = Some h\<close> show ?thesis
      by (simp add: Task_start_def TaskVoid_start_def set_state_def exec_erase [symmetric] del: erase.simps)
  qed (use e Some in \<open>simp add: Task_start_def TaskVoid_start_def\<close>)
qed (simp add: Task_start_def TaskVoid_start_def)

text \<open>No resumption changes the kind of a frame, so a handle of a \<open>Task<void>\<close> stays one.\<close>

fun frame_kind :: "('v, 'e) frame \<Rightarrow> bool" where
  "frame_kind (Frame p) = False"
| "frame_kind (Frame_void p) = True"

definition same_kinds :: "('v, 'e) tframes \<Rightarrow> ('v, 'e) tframes \<Rightarrow> bool" where
  "same_kinds st st' \<longleftrightarrow> (\<forall>h. map_option frame_kind (st h) = map_option frame_kind (st' h))"

lemma frame_kind_simps [simp]:
  "frame_kind (frame_at pt f) = frame_kind f"
  "frame_kind (fst (frame_await_suspend c f)) = frame_kind f"
  "frame_kind (fst (frame_final_suspend f)) = frame_kind f"
  by (cases f; simp)+

lemma frame_return_kind: "frame_return b f = Some f' \<Longrightarrow> frame_kind f' = frame_kind f"
  by (cases "(b, f)" rule: frame_return.cases) auto

lemma frame_await_suspend_kind: "frame_await_suspend c f = (f', transfer) \<Longrightarrow> frame_kind f' = frame_kind f"
  using frame_kind_simps(2) [of c f] by simp

lemma same_kinds_upd: "st h = Some f \<Longrightarrow> frame_kind f' = frame_kind f \<Longrightarrow> same_kinds st (st(h \<mapsto> f'))"
  by (simp add: same_kinds_def)

lemma same_kinds_point: "same_kinds st st' \<Longrightarrow> same_kinds st (frame_set_point st' h pt)"
  by (auto simp: frame_set_point_def same_kinds_def split: option.split)

lemma same_kinds_refl [simp]: "same_kinds st st"
  by (simp add: same_kinds_def)

lemma same_kinds_trans: "same_kinds st st' \<Longrightarrow> same_kinds st' st'' \<Longrightarrow> same_kinds st st''"
  by (simp add: same_kinds_def)

lemma frame_finish_kinds:
  assumes "st h = Some f" "frame_kind f' = frame_kind f" "frame_finish st h f' = Inr (st', j')"
  shows "same_kinds st st'"
  using assms same_kinds_upd [of st h f "fst (frame_final_suspend f')"] by (auto simp: frame_finish_def split: prod.splits)

lemma frame_await_kinds:
  assumes "frame_await st h t k = Inr (st', j')"
  shows "same_kinds st st'"
  using assms
  by (auto simp: frame_await_def frame_outcome_def intro!: same_kinds_point intro: same_kinds_upd dest: frame_await_suspend_kind split: option.splits sum.splits if_splits prod.splits)

lemma frame_step_kinds:
  assumes "frame_step st j = Inr (st', j')"
  shows "same_kinds st st'"
proof (cases j)
  case (Resume h)
  with assms show ?thesis
    by (auto simp: frame_step.simps frame_outcome_def intro!: same_kinds_point split: option.splits point.splits sum.splits)
next
  case (Run h b)
  with assms show ?thesis
    by (auto simp: frame_step.simps intro: same_kinds_point frame_await_kinds frame_finish_kinds dest!: frame_return_kind
        split: option.splits body.splits)
qed

lemma frame_exec_kinds:
  fixes st :: "('v, 'e) tframes"
  assumes "frame_exec st j = Some (Inr st')"
  shows "same_kinds st st'"
proof -
  let ?P = "\<lambda>(st :: ('v, 'e) tframes) j (y :: co_error + ('v, 'e) tframes). \<forall>st'. y = Inr st' \<longrightarrow> same_kinds st st'"
  have "?P st j (Inr st')"
  proof (rule frame_exec.raw_induct [of ?P, OF _ assms], intro allI impI)
    fix ex :: "('v, 'e) tframes \<Rightarrow> ('v, 'e) job \<Rightarrow> (co_error + ('v, 'e) tframes) option" and st j y st'
    assume IH: "\<And>st j y. ex st j = Some y \<Longrightarrow> ?P st j y"
      and e: "(case frame_step st j of Inl err \<Rightarrow> Some (Inl err) | Inr (st', None) \<Rightarrow> Some (Inr st') | Inr (st', Some j') \<Rightarrow> ex st' j') = Some y"
      and y: "y = Inr st'"
    then obtain st1 j1 where s: "frame_step st j = Inr (st1, j1)" by (auto split: sum.splits)
    from frame_step_kinds [OF s] e IH y s show "same_kinds st st'"
      by (cases j1) (auto intro: same_kinds_trans)
  qed
  then show ?thesis by blast
qed

lemma void_handle_kinds: "void_handle st t \<Longrightarrow> same_kinds st st' \<Longrightarrow> void_handle st' t"
proof (unfold void_handle_def, intro allI impI)
  fix h f
  assume a: "\<forall>h f. t = Some h \<longrightarrow> st h = Some f \<longrightarrow> (\<exists>p. f = Frame_void p)" "same_kinds st st'" "t = Some h" "st' h = Some f"
  from a(2) have "map_option frame_kind (st h) = map_option frame_kind (st' h)" unfolding same_kinds_def by blast
  with a(4) obtain g where "st h = Some g" "frame_kind g = frame_kind f" by auto
  with a(1,3) show "\<exists>p. f = Frame_void p" by (cases f) auto
qed

lemma TaskVoid_start_kinds:
  assumes "TaskVoid_start st t = Some (Inr st')"
  shows "same_kinds st st'"
proof (cases "\<exists>h p. t = Some h \<and> void_promise st h = Some p \<and> vp_state p = CS_Created")
  case True
  then obtain h p where h: "t = Some h" "void_promise st h = Some p" "vp_state p = CS_Created" by blast
  let ?st = "st(h \<mapsto> Frame_void (p\<lparr>vp_state := CS_Running\<rparr>))"
  have "same_kinds st ?st" using h(2) by (intro same_kinds_upd) (auto simp: void_promise_def split: option.splits frame.splits)
  moreover have "same_kinds ?st st'" using assms h by (intro frame_exec_kinds) (simp add: TaskVoid_start_def)
  ultimately show ?thesis by (rule same_kinds_trans)
next
  case False
  with assms show ?thesis by (auto simp: TaskVoid_start_def split: option.splits if_splits)
qed

lemma get_loop_erase:
  assumes "void_handle st (Some h)"
  shows "get_loop (erase_all st) h others = map_option (map_sum id erase_all) (TaskVoid_get_loop st h others) \<and>
    (\<forall>st'. TaskVoid_get_loop st h others = Some (Inr st') \<longrightarrow> same_kinds st st')"
  using assms
proof (induction others arbitrary: st)
  case Nil
  then show ?case
    by (cases "void_promise st h") (simp_all add: get_loop.simps [of _ _ "[]"] TaskVoid_get_loop.simps [of _ _ "[]"] void_promise_eq del: erase.simps)
next
  case (Cons r others)
  note e = void_promise_eq [OF Cons.prems]
  note unfold = get_loop.simps [of _ _ "r # others"] TaskVoid_get_loop.simps [of _ _ "r # others"]
  show ?case
  proof (cases "\<exists>p. void_promise st h = Some p \<and> vp_state p \<noteq> CS_Completed \<and> vp_state p \<noteq> CS_Cancelled")
    case True
    then obtain p where p: "void_promise st h = Some p" "vp_state p \<noteq> CS_Completed" "vp_state p \<noteq> CS_Cancelled" by blast
    show ?thesis
    proof (cases "\<exists>st1. frame_exec st (Resume r) = Some (Inr st1)")
      case True
      then obtain st1 where f: "frame_exec st (Resume r) = Some (Inr st1)" by blast
      note k = frame_exec_kinds [OF f]
      note IH = Cons.IH [OF void_handle_kinds [OF Cons.prems k]]
      from p e f have "get_loop (erase_all st) h (r # others) = get_loop (erase_all st1) h others"
        "TaskVoid_get_loop st h (r # others) = TaskVoid_get_loop st1 h others"
        by (simp_all add: unfold exec_erase del: erase.simps)
      with IH k show ?thesis by (auto intro: same_kinds_trans)
    next
      case False
      with p e show ?thesis
        by (cases "frame_exec st (Resume r)") (auto simp: unfold exec_erase simp del: erase.simps split: sum.split)
    qed
  next
    case False
    with e show ?thesis by (cases "void_promise st h") (auto simp: unfold simp del: erase.simps)
  qed
qed

lemma await_resume_void_erase:
  "Task_await_resume (erase (Frame_void p)) = Inr (case vp_exception p of Some e \<Rightarrow> Inl e | None \<Rightarrow> Inr None)"
  by (simp add: TaskVoid_await_resume_def del: erase.simps)

lemma get_erase:
  assumes "void_handle st t"
  shows "Task_get (erase_all st) t others = map_option (map_sum id (map_prod erase_all id)) (TaskVoid_get st t others)"
proof (cases "\<exists>h st1. t = Some h \<and> TaskVoid_start st t = Some (Inr st1)")
  case True
  then obtain h st1 where t: "t = Some h" "TaskVoid_start st t = Some (Inr st1)" by blast
  from t(1) void_handle_kinds [OF assms TaskVoid_start_kinds [OF t(2)]] have v: "void_handle st1 (Some h)" by simp
  note loop = get_loop_erase [OF v, of others]
  have s: "Task_start (erase_all st) (Some h) = Some (Inr (erase_all st1))" using start_erase [OF assms] t by simp
  show ?thesis
  proof (cases "\<exists>st2. TaskVoid_get_loop st1 h others = Some (Inr st2)")
    case True
    then obtain st2 where l: "TaskVoid_get_loop st1 h others = Some (Inr st2)" by blast
    with loop have "void_handle st2 (Some h)" using void_handle_kinds [OF v] by blast
    then have "erase_all st2 h = map_option (erase \<circ> Frame_void) (void_promise st2 h)" by (rule void_promise_eq)
    with t s l loop show ?thesis
      by (cases "void_promise st2 h") (simp_all add: Task_get_def TaskVoid_get_def await_resume_void_erase del: erase.simps erase_await_resume)
  next
    case False
    with t s loop show ?thesis
      by (cases "TaskVoid_get_loop st1 h others") (auto simp: Task_get_def TaskVoid_get_def split: sum.splits)
  qed
next
  case False
  with start_erase [OF assms] show ?thesis
    by (cases t; cases "TaskVoid_start st t") (auto simp: Task_get_def TaskVoid_get_def split: sum.splits)
qed

lemma cancel_erase:
  assumes "void_handle st t"
  shows "Task_cancel (erase_all st) t = erase_all (TaskVoid_cancel st t)"
proof (cases t)
  case (Some h)
  with assms void_promise_eq [of st h] show ?thesis
    by (cases "void_promise st h") (simp_all add: Task_cancel_def TaskVoid_cancel_def Task_state_def set_state_def del: erase.simps)
qed (simp add: Task_cancel_def TaskVoid_cancel_def)

lemma state_erase: "void_handle st t \<Longrightarrow> Task_state (erase_all st) t = TaskVoid_state st t"
  by (cases t) (simp_all add: Task_state_def TaskVoid_state_def void_promise_eq option.map_comp comp_def del: erase.simps)

text \<open>
  C12. \<open>Task<void>\<close>, which the source writes out as a second class, agrees with the primary template: seen through \<open>erase_all\<close>, its
  state, its start, its \<open>get\<close> (also when it never returns, or ends in an error), its cancellation, move assignment and
  destruction, and the resumption of any frame with the awaits it makes, are those of \<open>Task<T>\<close> without a result.
\<close>

theorem void_task_agrees:
  assumes "void_handle st t"
  shows "TaskVoid_state st t = Task_state (erase_all st) t \<and>
    map_option (map_sum id erase_all) (TaskVoid_start st t) = Task_start (erase_all st) t \<and>
    map_option (map_sum id (map_prod erase_all id)) (TaskVoid_get st t others) = Task_get (erase_all st) t others \<and>
    erase_all (TaskVoid_cancel st t) = Task_cancel (erase_all st) t \<and>
    map_prod erase_all id (TaskVoid_destroy st t) = Task_destroy (erase_all st) t \<and>
    map_prod erase_all id (TaskVoid_move_assign st same t other) = Task_move_assign (erase_all st) same t other \<and>
    map_option (map_sum id erase_all) (frame_exec st j) = exec (erase_all st) j"
proof (intro conjI)
  show d: "map_prod erase_all id (TaskVoid_destroy st t) = Task_destroy (erase_all st) t"
    by (simp add: TaskVoid_destroy_def Task_destroy_def split: option.split)
  then show "map_prod erase_all id (TaskVoid_move_assign st same t other) = Task_move_assign (erase_all st) same t other"
    by (cases "TaskVoid_destroy st t") (simp add: TaskVoid_move_assign_def Task_move_assign_def flip: d)
qed (use assms in \<open>simp_all add: state_erase start_erase get_erase cancel_erase exec_erase\<close>)

definition void_store_ex :: "(int, string) tframes" where
  "void_store_ex = [0 \<mapsto> Frame (TaskPromise_init False (make_ready_task 5)),
     1 \<mapsto> Frame_void (TaskPromise_void_init (Co_await (Some 0) (\<lambda>r. case r of Inr (Some x) \<Rightarrow> Co_throw ''five'' | _ \<Rightarrow> Co_return_void)))]"

theorem void_task_agrees_witness:
  "map_option (map_sum id (map_prod erase_all id)) (TaskVoid_get void_store_ex (Some 1) []) =
     Task_get (erase_all void_store_ex) (Some 1) [] \<and>
   map_option (map_sum id snd) (TaskVoid_get void_store_ex (Some 1) []) = Some (Inr (Got (Inl ''five'')))"
proof (intro conjI)
  have "void_handle void_store_ex (Some 1)" by (simp add: void_handle_def void_store_ex_def)
  from void_task_agrees [OF this, of "[]"]
  show "map_option (map_sum id (map_prod erase_all id)) (TaskVoid_get void_store_ex (Some 1) []) =
     Task_get (erase_all void_store_ex) (Some 1) []" by blast
  show "map_option (map_sum id snd) (TaskVoid_get void_store_ex (Some 1) []) = Some (Inr (Got (Inl ''five'')))"
    by (simp add: void_store_ex_def TaskVoid_get_def TaskVoid_start_def void_promise_def TaskPromise_void_init_def TaskPromise_init_def make_ready_task_def
        frame_exec.simps frame_step.simps frame_set_point_def frame_await_def Task_await_ready_def Task_await_suspend_def frame_finish_def
        final_suspend_def final_suspend_void_def return_value_def unhandled_exception_void_def frame_outcome_def Task_await_resume_value_def
        TaskVoid_get_loop.simps)
qed

end
