(* ===== verification/Io_Spawn.thy ===== *)
theory Io_Spawn
  imports Io_EventLoopPool Co_Runtime
begin

text \<open>
  Coroutines on an event loop: \<open>EventLoop::spawn\<close> and \<open>EventLoopThread::spawn\<close> with the tasks of \<open>Co_Task\<close>. The closure that is posted owns the
  task through a shared pointer; the loop calls it and then pops it, which runs the destructor of the task. So the effect of a posted
  closure is to start the coroutine and to destroy its frame when control comes back.
\<close>

section \<open>The posted closure\<close>

text \<open>
  The world is the frames, with a record of the frames that were destroyed, each as it was then; \<open>None\<close> is a coroutine that
  never gives control back.
\<close>

type_synonym ('v, 'e) spawn_world = "(co_error + ('v, 'e) frames \<times> (handle \<times> ('v, 'e) TaskPromise) list) option"

definition drop_task :: "('v, 'e) frames \<Rightarrow> handle option \<Rightarrow> (handle \<times> ('v, 'e) TaskPromise) list \<Rightarrow>
    ('v, 'e) frames \<times> (handle \<times> ('v, 'e) TaskPromise) list" where
  "drop_task st t dead =
     (fst (Task_destroy st t), dead @ (case t of None \<Rightarrow> [] | Some h \<Rightarrow> (case st h of None \<Rightarrow> [] | Some p \<Rightarrow> [(h, p)])))"

definition spawned :: "handle option \<Rightarrow> ('v, 'e) spawn_world \<Rightarrow> handle option list \<times> ('v, 'e) spawn_world" where
  "spawned t w =
     ([], case w of
        Some (Inr (st, dead)) \<Rightarrow>
          (case Task_start st t of
             None \<Rightarrow> None
           | Some (Inl err) \<Rightarrow> Some (Inl err)
           | Some (Inr st') \<Rightarrow> Some (Inr (drop_task st' t dead)))
      | _ \<Rightarrow> w)"

fun spawn_all :: "('r, 'cb, handle option, 'w) loop_env \<Rightarrow> handle list \<Rightarrow> ('r, 'cb, handle option, 'w) loop_state \<Rightarrow>
    loop_error + ('r, 'cb, handle option, 'w) loop_state" where
  "spawn_all env [] s = Inr s"
| "spawn_all env (h # hs) s = rbind (EventLoop_spawn env (\<lambda>t. t) (Some h) s) (spawn_all env hs)"

fun thread_spawn_all :: "'r liburing \<Rightarrow> 'cb \<Rightarrow> handle list \<Rightarrow> ('r, 'cb, handle option) EventLoopThread \<Rightarrow> ('r, 'cb, handle option) EventLoopThread" where
  "thread_spawn_all lib noop [] t = t"
| "thread_spawn_all lib noop (h # hs) t = thread_spawn_all lib noop hs (thread_spawn lib noop (\<lambda>t. t) (Some h) t)"

section \<open>What becomes of a spawned coroutine\<close>

text \<open>The promise of a coroutine without awaits when control comes back from its start.\<close>

definition ran_until :: "bool \<Rightarrow> ('v, 'e) body \<Rightarrow> ('v, 'e) TaskPromise \<Rightarrow> bool" where
  "ran_until is_void b p \<longleftrightarrow>
     (case b of
        Co_suspend b' \<Rightarrow> p = (TaskPromise_init is_void b)\<lparr>tp_state := CS_Running, tp_point := At_body b'\<rparr>
      | _ \<Rightarrow> task_done (body_outcome b) p \<and> tp_point p = At_final)"

lemma start_straight:
  assumes "st h = Some (TaskPromise_init is_void b)" "straight is_void b"
  shows "\<exists>p. Task_start st (Some h) = Some (Inr (st(h \<mapsto> p))) \<and> ran_until is_void b p"
proof -
  let ?p = "(TaskPromise_init is_void b)\<lparr>tp_state := CS_Running\<rparr>"
  have s: "Task_start st (Some h) = exec (st(h \<mapsto> ?p)) (Resume h)"
    using assms(1) by (simp add: Task_start_def set_state_def TaskPromise_init_def)
  show ?thesis
  proof (cases "suspensions b")
    case 0
    have "frame_ready (body_outcome b) 0 ?p" using assms(2) 0 by (simp add: frame_ready_def TaskPromise_init_def)
    from resume_ready [OF _ this, of "st(h \<mapsto> ?p)" h] s 0 assms(2) show ?thesis by (cases b) (auto simp: ran_until_def)
  next
    case (Suc n)
    with assms(2) obtain b' where b: "b = Co_suspend b'" by (cases b) auto
    then have "exec (st(h \<mapsto> ?p)) (Resume h) = Some (Inr (st(h \<mapsto> ?p\<lparr>tp_point := At_body b'\<rparr>)))"
      by (simp add: exec.simps [of _ "Resume h"] exec.simps [of _ "Run h (Co_suspend b')"] step_job.simps step_resume.simps set_point_def TaskPromise_init_def)
    with s b show ?thesis by (auto simp: ran_until_def)
  qed
qed

definition fresh_coroutine :: "('v, 'e) frames \<Rightarrow> handle \<Rightarrow> bool \<times> ('v, 'e) body \<Rightarrow> bool" where
  "fresh_coroutine st h c \<longleftrightarrow> st h = Some (TaskPromise_init (fst c) (snd c)) \<and> straight (fst c) (snd c)"

lemma effects_spawned:
  assumes "distinct hs" "\<forall>h \<in> set hs. fresh_coroutine st h (P h)"
  shows "\<exists>ps. effects spawned (map Some hs) (Some (Inr (st, dead))) = ([], Some (Inr (st |` (- set hs), dead @ zip hs ps))) \<and>
    list_all2 (\<lambda>h p. ran_until (fst (P h)) (snd (P h)) p) hs ps"
  using assms
proof (induction hs arbitrary: st dead)
  case Nil
  then show ?case by (simp add: restrict_map_def)
next
  case (Cons h hs)
  from Cons.prems(2) have h: "st h = Some (TaskPromise_init (fst (P h)) (snd (P h)))" "straight (fst (P h)) (snd (P h))"
    by (simp_all add: fresh_coroutine_def)
  from start_straight [of st h, OF this] obtain p where
    p: "Task_start st (Some h) = Some (Inr (st(h \<mapsto> p)))" "ran_until (fst (P h)) (snd (P h)) p" by blast
  define st1 where "st1 = st(h := None)"
  have e: "spawned (Some h) (Some (Inr (st, dead))) = ([], Some (Inr (st1, dead @ [(h, p)])))"
    using p(1) by (simp add: spawned_def drop_task_def Task_destroy_def st1_def)
  have "distinct hs" "\<forall>h' \<in> set hs. fresh_coroutine st1 h' (P h')" using Cons.prems by (auto simp: fresh_coroutine_def st1_def)
  from Cons.IH [OF this, of "dead @ [(h, p)]"] obtain ps where
    "effects spawned (map Some hs) (Some (Inr (st1, dead @ [(h, p)]))) = ([], Some (Inr (st1 |` (- set hs), (dead @ [(h, p)]) @ zip hs ps)))"
    "list_all2 (\<lambda>h p. ran_until (fst (P h)) (snd (P h)) p) hs ps" by blast
  moreover have "st1 |` (- set hs) = st |` (- set (h # hs))" by (auto simp: restrict_map_def st1_def)
  ultimately show ?case using e p(2) by (intro exI [of _ "p # ps"]) simp
qed

lemma spawn_all_posts:
  assumes "wake_ring lib room" "le_lib env = lib" "room (iu_ring u)"
  shows "\<exists>u'. spawn_all env hs (u, l, w) = Inr (u', l\<lparr>el_pending_tasks := el_pending_tasks l @ map Some hs\<rparr>, w) \<and> room (iu_ring u')"
  using assms(3)
proof (induction hs arbitrary: u l)
  case Nil
  then show ?case by simp
next
  case (Cons h hs)
  from wake_ring.post_ok [OF assms(1,2) Cons.prems, of "Some h" l w] obtain u1 where
    "EventLoop_spawn env (\<lambda>t. t) (Some h) (u, l, w) = Inr (u1, l\<lparr>el_pending_tasks := el_pending_tasks l @ [Some h]\<rparr>, w)" "room (iu_ring u1)"
    by (auto simp: EventLoop_spawn_def)
  with Cons.IH [of u1 "l\<lparr>el_pending_tasks := el_pending_tasks l @ [Some h]\<rparr>"] show ?case by simp
qed

lemma thread_spawn_all_posts:
  "\<exists>u. thread_spawn_all lib noop hs t = t\<lparr>et_task_queue := et_task_queue t @ map (fn_task \<circ> Some) hs, et_io_uring := u\<rparr>"
proof (induction hs arbitrary: t)
  case Nil
  show ?case by (rule exI [of _ "et_io_uring t"]) simp
next
  case (Cons h hs)
  from Cons.IH [of "thread_spawn lib noop (\<lambda>t. t) (Some h) t"] show ?case
    by (auto simp: thread_spawn_def thread_post_fn_def thread_post_def fn_task_def)
qed

lemma gone_frame: "exec (st |` (- set hs)) (Resume h) = Some (Inl Bad_handle)" if "h \<in> set hs"
  using that by (simp add: exec_step step_job.simps restrict_map_def)

text \<open>
  C24. Coroutines that are spawned on the event loop are started by the next round, each once and in the order of spawning. One that
  runs to its end is destroyed in the completed state with its outcome. One that suspends, which a coroutine does to wait for
  anything, is destroyed at that suspension with its remaining body, and the resumption that the awaited event
  makes later uses a frame that is gone.
\<close>

theorem spawn_destroys_suspended:
  assumes "wake_ring lib room" "le_lib env = lib" "le_call env = posting spawned" "room (iu_ring u)" "el_pending_tasks l = []"
    and "distinct hs" "\<forall>h \<in> set hs. fresh_coroutine st h (P h)"
  shows "\<exists>u' ps. rbind (spawn_all env hs (u, l, Some (Inr (st, [])))) (process_tasks env) =
      Inr (u', l, Some (Inr (st |` (- set hs), zip hs ps))) \<and>
    list_all2 (\<lambda>h p. ran_until (fst (P h)) (snd (P h)) p) hs ps \<and>
    (\<forall>h \<in> set hs. exec (st |` (- set hs)) (Resume h) = Some (Inl Bad_handle))"
proof -
  let ?w = "Some (Inr (st, []))"
  from spawn_all_posts [OF assms(1,2,4), of hs l ?w] assms(5) obtain u1 where
    s: "spawn_all env hs (u, l, ?w) = Inr (u1, l\<lparr>el_pending_tasks := map Some hs\<rparr>, ?w)" "room (iu_ring u1)" by auto
  from effects_spawned [OF assms(6,7), of "[]"] obtain ps where
    e: "effects spawned (map Some hs) ?w = ([], Some (Inr (st |` (- set hs), zip hs ps)))"
      "list_all2 (\<lambda>h p. ran_until (fst (P h)) (snd (P h)) p) hs ps" by auto
  have "l\<lparr>el_pending_tasks := []\<rparr> = l" using assms(5) by (cases l) simp
  with wake_ring.run_tasks_posting [OF assms(1-3) s(2), of "map Some hs" l ?w] e(1) assms(5) obtain u2 where
    "process_tasks env (u1, l\<lparr>el_pending_tasks := map Some hs\<rparr>, ?w) = Inr (u2, l, Some (Inr (st |` (- set hs), zip hs ps)))"
    by (auto simp: process_tasks_def with_loop_def)
  with s(1) e(2) show ?thesis by (intro exI [of _ u2] exI [of _ ps] conjI ballI gone_frame) simp_all
qed

definition spawn_env_ex :: "(list_ring, nat, handle option, (int, string) spawn_world) loop_env" where
  "spawn_env_ex = \<lparr>le_call = posting spawned, le_clock = (\<lambda>_. 0), le_lib = list_lib, le_noop = 0, le_pick = pick_min\<rparr>"

definition spawn_prog_ex :: "(int, string) program" where
  "spawn_prog_ex h = (if h = 1 then (False, Co_return 5) else (True, Co_suspend Co_return_void))"

theorem spawn_destroys_suspended_witness:
  "\<exists>u' ps. rbind (spawn_all spawn_env_ex [2, 1] (uring_ex 1, EventLoop_ctor, Some (Inr (\<lambda>h. Some (task_init spawn_prog_ex h), []))))
      (process_tasks spawn_env_ex) =
    Inr (u', EventLoop_ctor, Some (Inr ((\<lambda>h. Some (task_init spawn_prog_ex h)) |` (- {1, 2}), zip [2, 1] ps))) \<and>
    tp_point (hd ps) = At_body Co_return_void \<and> tp_state (hd (tl ps)) = CS_Completed"
proof -
  let ?st = "\<lambda>h. Some (task_init spawn_prog_ex h)"
  have "\<forall>h \<in> set [2, 1]. fresh_coroutine ?st h (spawn_prog_ex h)"
    by (simp add: fresh_coroutine_def task_init_def spawn_prog_ex_def)
  from spawn_destroys_suspended [OF list_wake.wake_ring_axioms _ _ _ _ _ this, of spawn_env_ex "uring_ex 1" EventLoop_ctor]
  obtain u' ps where r: "rbind (spawn_all spawn_env_ex [2, 1] (uring_ex 1, EventLoop_ctor, Some (Inr (?st, [])))) (process_tasks spawn_env_ex) =
      Inr (u', EventLoop_ctor, Some (Inr (?st |` (- {1, 2}), zip [2, 1] ps)))"
    "list_all2 (\<lambda>h p. ran_until (fst (spawn_prog_ex h)) (snd (spawn_prog_ex h)) p) [2, 1] ps"
    by (auto simp: spawn_env_ex_def uring_ex_def EventLoop_ctor_def insert_commute)
  then have "tp_point (hd ps) = At_body Co_return_void \<and> tp_state (hd (tl ps)) = CS_Completed"
    by (auto simp: list_all2_Cons1 spawn_prog_ex_def ran_until_def task_done_def)
  with r(1) show ?thesis by blast
qed

text \<open>The same on a thread of the pool: what \<open>EventLoopThread::spawn\<close> posts is run, and then destroyed, by its \<open>process_tasks\<close>.\<close>

lemma thread_spawn_destroys:
  assumes "te_call env = thread_posting spawned" "et_task_queue t = []" "et_pending_tasks t = []"
    and "distinct hs" "\<forall>h \<in> set hs. fresh_coroutine st h (P h)"
  shows "\<exists>u ps. thread_process_tasks env (thread_spawn_all lib noop hs t, Some (Inr (st, []))) =
      Inr (t\<lparr>et_io_uring := u\<rparr>, Some (Inr (st |` (- set hs), zip hs ps))) \<and>
    list_all2 (\<lambda>h p. ran_until (fst (P h)) (snd (P h)) p) hs ps"
proof -
  let ?w = "Some (Inr (st, []))"
  from effects_spawned [OF assms(4,5), of "[]"] obtain ps where
    e: "effects spawned (map Some hs) ?w = ([], Some (Inr (st |` (- set hs), zip hs ps)))"
      "list_all2 (\<lambda>h p. ran_until (fst (P h)) (snd (P h)) p) hs ps" by auto
  have fns: "task_fns (map (fn_task \<circ> Some) hs) = map Some hs" by (induction hs) (simp_all add: task_fns_def fn_task_def)
  from thread_spawn_all_posts [of lib noop hs t] obtain u1 where
    t1: "thread_spawn_all lib noop hs t = t\<lparr>et_task_queue := map (fn_task \<circ> Some) hs, et_io_uring := u1\<rparr>" using assms(2) by auto
  from run_queue_posting [OF assms(1), of "map (fn_task \<circ> Some) hs" "t\<lparr>et_io_uring := u1, et_task_queue := []\<rparr>" ?w] fns e(1) obtain u where
    "run_queue env (map (fn_task \<circ> Some) hs) (t\<lparr>et_io_uring := u1, et_task_queue := []\<rparr>, ?w) =
      Inr (t\<lparr>et_task_queue := [], et_io_uring := u\<rparr>, Some (Inr (st |` (- set hs), zip hs ps)))" by auto
  moreover have "t\<lparr>et_task_queue := [], et_io_uring := u\<rparr> = t\<lparr>et_io_uring := u\<rparr>" using assms(2) by (cases t) simp
  ultimately show ?thesis using t1 assms(3) e(2) by (intro exI [of _ u] exI [of _ ps]) (simp add: thread_process_tasks_def)
qed

end
