(* ===== verification/Io_Timed.thy ===== *)
theory Io_Timed
  imports Io_Async
begin

text \<open>
  The awaiters of \<open>io/timer.hpp\<close> that put a time limit on an operation: \<open>TimedRecvAwaiter\<close>, \<open>TimedSendAwaiter\<close> and
  \<open>WithTimeoutAwaiter\<close>, with what \<open>await_suspend\<close> prepares and submits on the ring and what each completion callback does.
  An awaiter is found by a number in the world; the coroutine that waits for it is resumed by a callback, and what it then
  gets from \<open>await_resume\<close> is recorded.
\<close>

section \<open>Sleeping\<close>

definition io_sleep_for_ms :: "nat \<Rightarrow> int \<Rightarrow> io_world \<Rightarrow> TimeoutAwaiter \<times> io_world" where
  "io_sleep_for_ms = TimeoutAwaiter_ctor_ms"

definition io_sleep_for_s :: "nat \<Rightarrow> int \<Rightarrow> io_world \<Rightarrow> TimeoutAwaiter \<times> io_world" where
  "io_sleep_for_s this s = TimeoutAwaiter_ctor_ns this (s * 1000000000)"

section \<open>The awaiters\<close>

datatype await_exc = TimeoutException | BadOptionalAccess | OpException nat

record TimedRecvAwaiter =
  tr_fd :: int
  tr_buffer :: nat
  tr_size :: nat
  tr_flags :: int
  tr_timeout_ts :: timespec
  tr_recv_result :: int
  tr_timeout_result :: int
  tr_recv_completed :: bool
  tr_timeout_fired :: bool
  tr_done :: bool
  tr_resumed :: "(await_exc + int) list"

definition TimedRecvAwaiter_ctor :: "int \<Rightarrow> nat \<Rightarrow> nat \<Rightarrow> int \<Rightarrow> int \<Rightarrow> TimedRecvAwaiter" where
  "TimedRecvAwaiter_ctor fd buffer sz flags timeout =
     \<lparr>tr_fd = fd, tr_buffer = buffer, tr_size = sz, tr_flags = flags, tr_timeout_ts = to_kernel_timespec_ns timeout,
      tr_recv_result = 0, tr_timeout_result = 0, tr_recv_completed = False, tr_timeout_fired = False, tr_done = False, tr_resumed = []\<rparr>"

definition timed_recv_ns :: "int \<Rightarrow> nat \<Rightarrow> nat \<Rightarrow> int \<Rightarrow> int \<Rightarrow> TimedRecvAwaiter" where
  "timed_recv_ns fd buffer sz flags timeout = TimedRecvAwaiter_ctor fd buffer sz flags timeout"

definition timed_recv_ms :: "int \<Rightarrow> nat \<Rightarrow> nat \<Rightarrow> int \<Rightarrow> int \<Rightarrow> TimedRecvAwaiter" where
  "timed_recv_ms fd buffer sz flags timeout = TimedRecvAwaiter_ctor fd buffer sz flags (timeout * 1000000)"

definition tr_await_resume :: "TimedRecvAwaiter \<Rightarrow> await_exc + int" where
  "tr_await_resume s = (if tr_timeout_fired s then Inl TimeoutException else Inr (tr_recv_result s))"

definition tr_was_timeout :: "TimedRecvAwaiter \<Rightarrow> bool" where
  "tr_was_timeout s \<longleftrightarrow> tr_timeout_fired s \<and> \<not> tr_recv_completed s"

text \<open>Both callbacks end the same way: the first of them to come sets \<open>done_\<close> and resumes the coroutine.\<close>

definition tr_finish :: "TimedRecvAwaiter \<Rightarrow> TimedRecvAwaiter" where
  "tr_finish s = (if tr_done s then s
     else let s' = s\<lparr>tr_done := True\<rparr> in s'\<lparr>tr_resumed := tr_resumed s' @ [tr_await_resume s']\<rparr>)"

definition tr_on_recv :: "int \<Rightarrow> TimedRecvAwaiter \<Rightarrow> TimedRecvAwaiter" where
  "tr_on_recv res s = tr_finish (s\<lparr>tr_recv_result := res, tr_recv_completed := True\<rparr>)"

definition tr_on_timeout :: "int \<Rightarrow> TimedRecvAwaiter \<Rightarrow> TimedRecvAwaiter" where
  "tr_on_timeout res s = tr_finish (s\<lparr>tr_timeout_result := res, tr_timeout_fired := True\<rparr>)"

record TimedSendAwaiter =
  ts_fd :: int
  ts_buffer :: nat
  ts_size :: nat
  ts_flags :: int
  ts_timeout_ts :: timespec
  ts_send_result :: int
  ts_timeout_result :: int
  ts_send_completed :: bool
  ts_timeout_fired :: bool
  ts_resumed :: "(await_exc + int) list"

definition TimedSendAwaiter_ctor :: "int \<Rightarrow> nat \<Rightarrow> nat \<Rightarrow> int \<Rightarrow> int \<Rightarrow> TimedSendAwaiter" where
  "TimedSendAwaiter_ctor fd buffer sz flags timeout =
     \<lparr>ts_fd = fd, ts_buffer = buffer, ts_size = sz, ts_flags = flags, ts_timeout_ts = to_kernel_timespec_ns timeout,
      ts_send_result = 0, ts_timeout_result = 0, ts_send_completed = False, ts_timeout_fired = False, ts_resumed = []\<rparr>"

definition timed_send_ns :: "int \<Rightarrow> nat \<Rightarrow> nat \<Rightarrow> int \<Rightarrow> int \<Rightarrow> TimedSendAwaiter" where
  "timed_send_ns fd buffer sz flags timeout = TimedSendAwaiter_ctor fd buffer sz flags timeout"

definition timed_send_ms :: "int \<Rightarrow> nat \<Rightarrow> nat \<Rightarrow> int \<Rightarrow> int \<Rightarrow> TimedSendAwaiter" where
  "timed_send_ms fd buffer sz flags timeout = TimedSendAwaiter_ctor fd buffer sz flags (timeout * 1000000)"

definition ts_await_resume :: "TimedSendAwaiter \<Rightarrow> await_exc + int" where
  "ts_await_resume s = (if ts_timeout_fired s then Inl TimeoutException else Inr (ts_send_result s))"

definition ts_was_timeout :: "TimedSendAwaiter \<Rightarrow> bool" where
  "ts_was_timeout s \<longleftrightarrow> ts_timeout_fired s \<and> \<not> ts_send_completed s"

definition ts_on_send :: "int \<Rightarrow> TimedSendAwaiter \<Rightarrow> TimedSendAwaiter" where
  "ts_on_send res s = s\<lparr>ts_send_result := res, ts_send_completed := True\<rparr>"

definition ts_on_timeout :: "int \<Rightarrow> TimedSendAwaiter \<Rightarrow> TimedSendAwaiter" where
  "ts_on_timeout res s = s\<lparr>ts_timeout_result := res, ts_timeout_fired := True\<rparr>"

definition ts_on_nop :: "TimedSendAwaiter \<Rightarrow> TimedSendAwaiter" where
  "ts_on_nop s = s\<lparr>ts_resumed := ts_resumed s @ [ts_await_resume s]\<rparr>"

record WithTimeoutAwaiter =
  wt_timeout_ts :: timespec
  wt_timeout_user_data :: u64
  wt_operation_user_data :: u64
  wt_result :: "int option"
  wt_exception :: "await_exc option"
  wt_done :: bool
  wt_timeout_fired :: bool
  wt_resumed :: "(await_exc + int) list"

definition WithTimeoutAwaiter_ctor :: "int \<Rightarrow> WithTimeoutAwaiter" where
  "WithTimeoutAwaiter_ctor timeout = \<lparr>wt_timeout_ts = to_kernel_timespec_ns timeout, wt_timeout_user_data = 0, wt_operation_user_data = 0,
     wt_result = None, wt_exception = None, wt_done = False, wt_timeout_fired = False, wt_resumed = []\<rparr>"

definition wt_await_resume :: "WithTimeoutAwaiter \<Rightarrow> await_exc + int" where
  "wt_await_resume s = (case wt_exception s of Some e \<Rightarrow> Inl e
     | None \<Rightarrow> (case wt_result s of None \<Rightarrow> Inl BadOptionalAccess | Some v \<Rightarrow> Inr v))"

definition wt_was_timeout :: "WithTimeoutAwaiter \<Rightarrow> bool" where
  "wt_was_timeout s = wt_timeout_fired s"

definition wt_resume :: "WithTimeoutAwaiter \<Rightarrow> WithTimeoutAwaiter" where
  "wt_resume s = s\<lparr>wt_resumed := wt_resumed s @ [wt_await_resume s]\<rparr>"

section \<open>On the ring\<close>

text \<open>The callbacks of the awaiters, by the number of their awaiter; \<open>WT_op\<close> is that of the operation under \<open>with_timeout\<close>.\<close>

datatype timed_cb = TR_recv nat | TR_timer nat | TS_send nat | TS_timer nat | TS_nop nat | WT_op nat | WT_timer nat | WT_noop

record timed_world =
  tw_recv :: "nat \<Rightarrow> TimedRecvAwaiter"
  tw_send :: "nat \<Rightarrow> TimedSendAwaiter"
  tw_with :: "nat \<Rightarrow> WithTimeoutAwaiter"

definition IOSQE_IO_LINK :: u32 where
  "IOSQE_IO_LINK = 4"

definition TimedRecvAwaiter_suspend :: "'r liburing \<Rightarrow> nat \<Rightarrow> TimedRecvAwaiter \<Rightarrow> ('r, timed_cb) IoUring \<Rightarrow> abort + ('r, timed_cb) IoUring" where
  "TimedRecvAwaiter_suspend lib a s u =
     noexcept
       (rbind (prepare lib (Op_recv (tr_fd s) (tr_buffer s) (tr_size s) (tr_flags s)) IOSQE_IO_LINK (TR_recv a) u) (\<lambda>(_, u1).
        rbind (prepare_link_timeout lib (tr_timeout_ts s) (TR_timer a) u1) (\<lambda>(_, u2).
        rbind (submit lib u2) (\<lambda>(_, u3). Inr u3))))"

definition TimedSendAwaiter_suspend :: "'r liburing \<Rightarrow> nat \<Rightarrow> TimedSendAwaiter \<Rightarrow> ('r, timed_cb) IoUring \<Rightarrow> abort + ('r, timed_cb) IoUring" where
  "TimedSendAwaiter_suspend lib a s u =
     noexcept
       (rbind (prepare lib (Op_send (ts_fd s) (ts_buffer s) (ts_size s) (ts_flags s)) IOSQE_IO_LINK (TS_send a) u) (\<lambda>(_, u1).
        rbind (prepare_link_timeout lib (ts_timeout_ts s) (TS_timer a) u1) (\<lambda>(_, u2).
        rbind (prepare_nop lib (TS_nop a) u2) (\<lambda>(_, u3).
        rbind (submit lib u3) (\<lambda>(_, u4). Inr u4)))))"

type_synonym 'r wt_state = "('r, timed_cb) IoUring \<times> WithTimeoutAwaiter"

definition wt_cancel_timeout :: "'r liburing \<Rightarrow> 'r wt_state \<Rightarrow> 'r wt_state" where
  "wt_cancel_timeout lib us =
     (if wt_timeout_user_data (snd us) \<noteq> 0
      then (snd (try_submit lib (Op_cancel (wt_timeout_user_data (snd us))) WT_noop (fst us)), snd us) else us)"

definition wt_cancel_operation :: "'r liburing \<Rightarrow> 'r wt_state \<Rightarrow> 'r wt_state" where
  "wt_cancel_operation lib us =
     (if wt_operation_user_data (snd us) \<noteq> 0
      then (snd (try_submit lib (Op_cancel (wt_operation_user_data (snd us))) WT_noop (fst us)), snd us) else us)"

definition wt_on_result :: "'r liburing \<Rightarrow> int \<Rightarrow> 'r wt_state \<Rightarrow> 'r wt_state" where
  "wt_on_result lib v us = (if wt_done (snd us) then us
     else map_prod id wt_resume (wt_cancel_timeout lib (fst us, (snd us)\<lparr>wt_done := True, wt_result := Some v\<rparr>)))"

definition wt_on_exception :: "'r liburing \<Rightarrow> await_exc \<Rightarrow> 'r wt_state \<Rightarrow> 'r wt_state" where
  "wt_on_exception lib e us = (if wt_done (snd us) then us
     else map_prod id wt_resume (wt_cancel_timeout lib (fst us, (snd us)\<lparr>wt_done := True, wt_exception := Some e\<rparr>)))"

definition wt_on_timeout :: "'r liburing \<Rightarrow> int \<Rightarrow> 'r wt_state \<Rightarrow> 'r wt_state" where
  "wt_on_timeout lib res us = (if wt_done (snd us) then us
     else let s' = (snd us)\<lparr>wt_done := True\<rparr>;
              s'' = (if res = - ETIME \<or> res = 0
                     then s'\<lparr>wt_timeout_fired := True, wt_exception := Some TimeoutException\<rparr> else s')
          in map_prod id wt_resume (wt_cancel_operation lib (fst us, s'')))"

text \<open>
  \<open>await_suspend\<close> calls the submission function with the two callbacks; it may throw, and it may call one of them before
  it returns. Then the timer is prepared, and the identifier it is expected to get is stored for its cancellation.
\<close>

definition WithTimeoutAwaiter_suspend :: "'r liburing \<Rightarrow>
    ((int \<Rightarrow> 'r wt_state \<Rightarrow> 'r wt_state) \<Rightarrow> (await_exc \<Rightarrow> 'r wt_state \<Rightarrow> 'r wt_state) \<Rightarrow> 'r wt_state \<Rightarrow> IoUringError + 'r wt_state) \<Rightarrow>
    nat \<Rightarrow> 'r wt_state \<Rightarrow> abort + 'r wt_state" where
  "WithTimeoutAwaiter_suspend lib submit_fn a us =
     noexcept
       (rbind (submit_fn (wt_on_result lib) (wt_on_exception lib) us) (\<lambda>(u1, s1).
          let s2 = s1\<lparr>wt_timeout_user_data := peek_next_callback_id u1\<rparr>
          in rbind (prepare_timeout lib (wt_timeout_ts s2) 0 (WT_timer a) 0 u1) (\<lambda>(_, u2).
             rbind (submit lib u2) (\<lambda>(_, u3). Inr (u3, s2)))))"

text \<open>
  The completions. \<open>op_done\<close> is how the operation under \<open>with_timeout\<close> reports its result: a value, or an exception.
\<close>

definition with_tw :: "('r, timed_cb) IoUring \<times> timed_world \<Rightarrow> nat \<Rightarrow> ('r wt_state \<Rightarrow> 'r wt_state) \<Rightarrow> ('r, timed_cb) IoUring \<times> timed_world" where
  "with_tw s a f = (case f (fst s, tw_with (snd s) a) of (u, x) \<Rightarrow> (u, (snd s)\<lparr>tw_with := (tw_with (snd s))(a := x)\<rparr>))"

definition timed_run :: "'r liburing \<Rightarrow> (int \<Rightarrow> await_exc + int) \<Rightarrow> ('r, timed_cb, timed_world) runner" where
  "timed_run lib op_done cb res fl s =
     (case cb of
        TR_recv a \<Rightarrow> (fst s, (snd s)\<lparr>tw_recv := (tw_recv (snd s))(a := tr_on_recv res (tw_recv (snd s) a))\<rparr>)
      | TR_timer a \<Rightarrow> (fst s, (snd s)\<lparr>tw_recv := (tw_recv (snd s))(a := tr_on_timeout res (tw_recv (snd s) a))\<rparr>)
      | TS_send a \<Rightarrow> (fst s, (snd s)\<lparr>tw_send := (tw_send (snd s))(a := ts_on_send res (tw_send (snd s) a))\<rparr>)
      | TS_timer a \<Rightarrow> (fst s, (snd s)\<lparr>tw_send := (tw_send (snd s))(a := ts_on_timeout res (tw_send (snd s) a))\<rparr>)
      | TS_nop a \<Rightarrow> (fst s, (snd s)\<lparr>tw_send := (tw_send (snd s))(a := ts_on_nop (tw_send (snd s) a))\<rparr>)
      | WT_op a \<Rightarrow> with_tw s a (case op_done res of Inl e \<Rightarrow> wt_on_exception lib e | Inr v \<Rightarrow> wt_on_result lib v)
      | WT_timer a \<Rightarrow> with_tw s a (wt_on_timeout lib res)
      | WT_noop \<Rightarrow> s)"

text \<open>Completions one after the other.\<close>

fun process_cqes :: "'r liburing \<Rightarrow> ('r, 'cb, 'w) runner \<Rightarrow> cqe list \<Rightarrow> ('r, 'cb) IoUring \<times> 'w \<Rightarrow> IoUringError + (('r, 'cb) IoUring \<times> 'w)" where
  "process_cqes lib run [] s = Inr s"
| "process_cqes lib run (c # cs) s = rbind (process_cqe lib run c s) (process_cqes lib run cs)"

section \<open>Properties\<close>

lemma noexcept_Inr_iff: "noexcept m = Inr x \<longleftrightarrow> m = Inr x"
  by (cases m) (simp_all add: noexcept_def)

lemma submit_callbacks: "submit lib u = Inr (n, u') \<Longrightarrow> iu_callbacks u' = iu_callbacks u"
  by (auto simp: submit_def split: prod.splits if_splits)

lemma prepared_callbacks:
  assumes "rbind (prepares lib xs u) (\<lambda>(_, u1). rbind (submit lib u1) (\<lambda>(_, u2). Inr u2)) = Inr u'" "length xs \<le> kMaxCallbacks" "i < length xs"
  shows "iu_callbacks u' ((unat (iu_next_callback_id u) + i) mod kMaxCallbacks) = Some (snd (snd (xs ! i)))"
  using assms prepares_callbacks [of lib xs u _ _ i] by (auto simp: rbind_Inr_iff dest!: submit_callbacks)

text \<open>The completion of the \<open>i\<close>-th operation prepared on a ring, with the identifier it was given, unless that is 0.\<close>

definition completes :: "('r, 'cb) IoUring \<Rightarrow> nat \<Rightarrow> cqe \<Rightarrow> bool" where
  "completes u i c \<longleftrightarrow> unat (cqe_user_data c) = (unat (iu_next_callback_id u) + i) mod kMaxCallbacks \<and> cqe_user_data c \<noteq> 0"

lemma completes_dispatch:
  assumes "completes u i c" "iu_callbacks v ((unat (iu_next_callback_id u) + i) mod kMaxCallbacks) = Some cb"
  shows "process_cqe lib run c (v, w) = Inr (ring_seen lib (run cb (cqe_res c) (cqe_flags c) (v, w)))"
proof -
  have k: "unat (cqe_user_data c) = (unat (iu_next_callback_id u) + i) mod kMaxCallbacks" using assms(1) by (simp add: completes_def)
  moreover have "unat (cqe_user_data c) \<noteq> 0" using assms(1) unat_eq_zero [of "cqe_user_data c"] unfolding completes_def by blast
  ultimately show ?thesis using get_callback_slot [OF k, of v] assms(2) by (simp add: process_cqe_def)
qed

lemma prepared_dispatch:
  assumes "rbind (prepares lib xs u) (\<lambda>(_, u1). rbind (submit lib u1) (\<lambda>(_, u2). Inr u2)) = Inr u'" "length xs \<le> kMaxCallbacks" "i < length xs"
    and "completes u i c" "iu_callbacks v = iu_callbacks u'"
  shows "process_cqe lib run c (v, w) = Inr (ring_seen lib (run (snd (snd (xs ! i))) (cqe_res c) (cqe_flags c) (v, w)))"
  by (rule completes_dispatch [OF assms(4)]) (use prepared_callbacks [OF assms(1-3)] assms(5) in simp)

lemma recv_suspend_prepares:
  "TimedRecvAwaiter_suspend lib a s u = noexcept (rbind (prepares lib
      [(Op_recv (tr_fd s) (tr_buffer s) (tr_size s) (tr_flags s), IOSQE_IO_LINK, TR_recv a),
       (Op_link_timeout (tr_timeout_ts s), 0, TR_timer a)] u) (\<lambda>(_, u1). rbind (submit lib u1) (\<lambda>(_, u2). Inr u2)))"
  by (simp add: TimedRecvAwaiter_suspend_def prepare_link_timeout_def rbind_assoc case_prod_unfold)

lemma send_suspend_prepares:
  "TimedSendAwaiter_suspend lib a s u = noexcept (rbind (prepares lib
      [(Op_send (ts_fd s) (ts_buffer s) (ts_size s) (ts_flags s), IOSQE_IO_LINK, TS_send a),
       (Op_link_timeout (ts_timeout_ts s), 0, TS_timer a), (Op_nop, 0, TS_nop a)] u) (\<lambda>(_, u1). rbind (submit lib u1) (\<lambda>(_, u2). Inr u2)))"
  by (simp add: TimedSendAwaiter_suspend_def prepare_link_timeout_def prepare_nop_def rbind_assoc case_prod_unfold)

lemma ring_seen_eq: "ring_seen lib (u, w) = (u\<lparr>iu_ring := lu_seen lib (iu_ring u)\<rparr>, w)"
  by (simp add: ring_seen_def)



definition timed_uring_ex :: "u64 \<Rightarrow> (list_ring, timed_cb) IoUring" where
  "timed_uring_ex n = \<lparr>iu_config = IoUringConfig_default, iu_ring = \<lparr>lr_capacity = 8, lr_sq = [], lr_cq = []\<rparr>, iu_running = True,
     iu_callbacks = (\<lambda>_. None), iu_next_callback_id = n\<rparr>"

definition timed_world_ex :: "WithTimeoutAwaiter \<Rightarrow> timed_world" where
  "timed_world_ex s = \<lparr>tw_recv = (\<lambda>_. timed_recv_ms 3 0 64 0 1000), tw_send = (\<lambda>_. timed_send_ms 3 0 64 0 1000), tw_with = (\<lambda>_. s)\<rparr>"

lemmas suspend_ex = prepares.simps prepare_def list_lib_def timed_uring_ex_def set_callback_def submit_def noexcept_def kMaxCallbacks_def


text \<open>
  A timed send is resumed by an unlinked no-op and not by its own completions: when the no-op completes first, the coroutine is
  told that 0 bytes were sent, whatever the send does; when it completes last, the coroutine gets a timeout exception although the send
  had succeeded and \<open>was_timeout\<close> is false.
\<close>

theorem timed_send_resumed_by_nop:
  assumes "TimedSendAwaiter_suspend lib a s u = Inr u'" "completes u 0 send" "completes u 1 timer" "completes u 2 nop"
    and "tw_send w a = s" "s = TimedSendAwaiter_ctor fd buffer sz flags timeout"
  shows "\<exists>v1 v2 v3 w1 w2 w3. process_cqes lib (timed_run lib op_done) [nop, send, timer] (u', w) = Inr (v1, w1) \<and>
      ts_resumed (tw_send w1 a) = [Inr 0] \<and>
    process_cqes lib (timed_run lib op_done) [send, nop, timer] (u', w) = Inr (v2, w2) \<and>
      ts_resumed (tw_send w2 a) = [Inr (cqe_res send)] \<and>
    process_cqes lib (timed_run lib op_done) [send, timer, nop] (u', w) = Inr (v3, w3) \<and>
      ts_resumed (tw_send w3 a) = [Inl TimeoutException] \<and> \<not> ts_was_timeout (tw_send w3 a)"
proof -
  from assms(1) have p: "rbind (prepares lib [(Op_send (ts_fd s) (ts_buffer s) (ts_size s) (ts_flags s), IOSQE_IO_LINK, TS_send a),
       (Op_link_timeout (ts_timeout_ts s), 0, TS_timer a), (Op_nop, 0, TS_nop a)] u) (\<lambda>(_, u1). rbind (submit lib u1) (\<lambda>(_, u2). Inr u2)) = Inr u'"
    by (simp only: send_suspend_prepares noexcept_Inr_iff)
  have k: "3 \<le> kMaxCallbacks" by (simp add: kMaxCallbacks_def)
  note d = prepared_dispatch [OF p, of 0 send] prepared_dispatch [OF p, of 1 timer] prepared_dispatch [OF p, of 2 nop]
  show ?thesis
    using assms(2-6) k
    by (simp add: d timed_run_def ring_seen_eq ts_on_send_def ts_on_timeout_def ts_on_nop_def ts_await_resume_def TimedSendAwaiter_ctor_def
        ts_was_timeout_def)
qed

theorem timed_send_resumed_by_nop_witness:
  "\<exists>u' v1 w1. TimedSendAwaiter_suspend list_lib 7 (timed_send_ms 3 0 64 0 1000) (timed_uring_ex 1) = Inr u' \<and>
    process_cqes list_lib (timed_run list_lib Inr)
      [\<lparr>cqe_res = 0, cqe_flags = 0, cqe_user_data = 3\<rparr>, \<lparr>cqe_res = 64, cqe_flags = 0, cqe_user_data = 1\<rparr>,
       \<lparr>cqe_res = - ECANCELED, cqe_flags = 0, cqe_user_data = 2\<rparr>]
      (u', timed_world_ex (WithTimeoutAwaiter_ctor 0)) = Inr (v1, w1) \<and> ts_resumed (tw_send w1 7) = [Inr 0]"
proof -
  let ?s = "timed_send_ms 3 0 64 0 1000"
  let ?send = "\<lparr>cqe_res = 64, cqe_flags = 0, cqe_user_data = 1\<rparr>" and ?timer = "\<lparr>cqe_res = - ECANCELED, cqe_flags = 0, cqe_user_data = 2\<rparr>"
  let ?nop = "\<lparr>cqe_res = 0, cqe_flags = 0, cqe_user_data = 3\<rparr>"
  obtain u' where u': "TimedSendAwaiter_suspend list_lib 7 ?s (timed_uring_ex 1) = Inr u'"
    by (simp add: send_suspend_prepares suspend_ex)
  have "completes (timed_uring_ex 1) 0 ?send" "completes (timed_uring_ex 1) 1 ?timer" "completes (timed_uring_ex 1) 2 ?nop"
    by (simp_all add: completes_def timed_uring_ex_def kMaxCallbacks_def)
  moreover have "tw_send (timed_world_ex (WithTimeoutAwaiter_ctor 0)) 7 = ?s" "?s = TimedSendAwaiter_ctor 3 0 64 0 1000000000"
    by (simp_all add: timed_world_ex_def timed_send_ms_def)
  ultimately show ?thesis
    using timed_send_resumed_by_nop [OF u', of ?send ?timer ?nop "timed_world_ex (WithTimeoutAwaiter_ctor 0)" 3 0 64 0 1000000000 Inr] u' by blast
qed

text \<open>A ring operation as the operation under \<open>with_timeout\<close>: it is prepared with a callback that reports its result, and submitted.\<close>

definition submit_ring_op :: "'r liburing \<Rightarrow> sqe_op \<Rightarrow> nat \<Rightarrow> (int \<Rightarrow> 'r wt_state \<Rightarrow> 'r wt_state) \<Rightarrow>
    (await_exc \<Rightarrow> 'r wt_state \<Rightarrow> 'r wt_state) \<Rightarrow> 'r wt_state \<Rightarrow> IoUringError + 'r wt_state" where
  "submit_ring_op lib op a on_result on_exception us =
     rbind (prepare lib op 0 (WT_op a) (fst us)) (\<lambda>(_, u1). rbind (submit lib u1) (\<lambda>(_, u2). Inr (u2, snd us)))"

lemma submit_next_id: "submit lib u = Inr (n, u') \<Longrightarrow> iu_next_callback_id u' = iu_next_callback_id u"
  by (auto simp: submit_def split: prod.splits if_splits)

lemma with_timeout_suspended:
  assumes "WithTimeoutAwaiter_suspend lib (submit_ring_op lib op a) a (u, s) = Inr (u', s')"
  shows "s' = s\<lparr>wt_timeout_user_data := iu_next_callback_id u + 1\<rparr>"
    and "iu_next_callback_id u' = iu_next_callback_id u + 2"
    and "iu_callbacks u' (unat (iu_next_callback_id u) mod kMaxCallbacks) = Some (WT_op a)"
    and "iu_callbacks u' ((unat (iu_next_callback_id u) + 1) mod kMaxCallbacks) = Some (WT_timer a)"
proof -
  from assms obtain c1 u1 n1 u2 c2 u3 n2 where p1: "prepare lib op 0 (WT_op a) u = Inr (c1, u1)" and q1: "submit lib u1 = Inr (n1, u2)"
    and p2: "prepare lib (Op_timeout (wt_timeout_ts s) 0) 0 (WT_timer a) u2 = Inr (c2, u3)" and q2: "submit lib u3 = Inr (n2, u')"
    and s': "s' = s\<lparr>wt_timeout_user_data := iu_next_callback_id u2\<rparr>"
    by (auto simp: WithTimeoutAwaiter_suspend_def submit_ring_op_def noexcept_Inr_iff prepare_timeout_def peek_next_callback_id_def rbind_Inr_iff Let_def)
  have n: "iu_next_callback_id u2 = iu_next_callback_id u + 1" using submit_next_id [OF q1] prepare_Inr(2) [OF p1] by simp
  with s' show "s' = s\<lparr>wt_timeout_user_data := iu_next_callback_id u + 1\<rparr>" by simp
  show "iu_next_callback_id u' = iu_next_callback_id u + 2" using n submit_next_id [OF q2] prepare_Inr(2) [OF p2] by simp
  have ne: "unat (iu_next_callback_id u) mod kMaxCallbacks \<noteq> (unat (iu_next_callback_id u) + 1) mod kMaxCallbacks"
    by (simp add: kMaxCallbacks_def mod_Suc)
  have m: "unat (iu_next_callback_id u + 1) mod kMaxCallbacks = (unat (iu_next_callback_id u) + 1) mod kMaxCallbacks"
    using kMax_add_mod [of "iu_next_callback_id u" 1] by simp
  show "iu_callbacks u' ((unat (iu_next_callback_id u) + 1) mod kMaxCallbacks) = Some (WT_timer a)"
    using prepare_Inr(3) [OF p2] submit_callbacks [OF q2] n m by simp
  show "iu_callbacks u' (unat (iu_next_callback_id u) mod kMaxCallbacks) = Some (WT_op a)"
    using prepare_Inr(3) [OF p2] prepare_Inr(3) [OF p1] submit_callbacks [OF q1] submit_callbacks [OF q2] n m ne by simp
qed

lemma try_submit_callbacks:
  "iu_callbacks (snd (try_submit lib op cb u)) k = (if k = unat (iu_next_callback_id u) mod kMaxCallbacks \<and> lu_get_sqe lib (iu_ring u) \<noteq> None
     then Some cb else iu_callbacks u k)"
  by (auto simp: try_submit_def prepare_def set_callback_eq split: option.splits prod.splits)


lemma completes_next: "completes u 1 c \<Longrightarrow> iu_next_callback_id u + 1 \<noteq> 0"
proof
  assume c: "completes u 1 c" and z: "iu_next_callback_id u + 1 = 0"
  have "(unat (iu_next_callback_id u) + 1) mod kMaxCallbacks = unat (iu_next_callback_id u + 1) mod kMaxCallbacks"
    using kMax_add_mod [of "iu_next_callback_id u" 1] by simp
  with c z have "unat (cqe_user_data c) = 0" "cqe_user_data c \<noteq> 0" by (simp_all add: completes_def)
  then show False using unat_eq_zero [of "cqe_user_data c"] by blast
qed

lemma with_timeout_parts:
  assumes "WithTimeoutAwaiter_suspend lib (submit_ring_op lib op a) a (u, WithTimeoutAwaiter_ctor timeout) = Inr (u', tw_with w a)"
    and "completes u 0 done_op" "completes u 1 timer"
  shows "\<exists>v1 w1. process_cqes lib (timed_run lib op_done) [done_op, timer] (u', w) = Inr (v1, w1) \<and>
      wt_resumed (tw_with w1 a) = [op_done (cqe_res done_op)] \<and> \<not> wt_was_timeout (tw_with w1 a)"
    and "\<exists>w1. process_cqes lib (timed_run lib op_done) [done_op] (u', w) =
      Inr (ring_seen lib (snd (try_submit lib (Op_cancel (iu_next_callback_id u + 1)) WT_noop u'), w1))"
    and "cqe_user_data timer = iu_next_callback_id u + 1 \<longleftrightarrow> unat (iu_next_callback_id u + 1) < kMaxCallbacks"
    and "\<exists>v1 w1. process_cqes lib (timed_run lib op_done) [timer, done_op] (u', w) = Inr (v1, w1) \<and> iu_callbacks v1 = iu_callbacks u' \<and>
      wt_resumed (tw_with w1 a) = [Inl (if cqe_res timer = - ETIME \<or> cqe_res timer = 0 then TimeoutException else BadOptionalAccess)]"
proof -
  let ?n = "iu_next_callback_id u"
  note sus = with_timeout_suspended [OF assms(1)]
  have d1: "process_cqe lib run done_op (v, w) = Inr (ring_seen lib (run (WT_op a) (cqe_res done_op) (cqe_flags done_op) (v, w)))"
    if "iu_callbacks v (unat ?n mod kMaxCallbacks) = Some (WT_op a)" for run :: "('a, timed_cb, timed_world) runner" and v w
    using completes_dispatch [OF assms(2), of v "WT_op a"] that by simp
  have d2: "process_cqe lib run timer (v, w) = Inr (ring_seen lib (run (WT_timer a) (cqe_res timer) (cqe_flags timer) (v, w)))"
    if "iu_callbacks v ((unat ?n + 1) mod kMaxCallbacks) = Some (WT_timer a)" for run :: "('a, timed_cb, timed_world) runner" and v w
    by (rule completes_dispatch [OF assms(3) that])
  have nz: "?n + 1 \<noteq> 0" using completes_next [OF assms(3)] .
  let ?v = "snd (try_submit lib (Op_cancel (?n + 1)) WT_noop u')"
  have "(unat ?n + 1) mod kMaxCallbacks \<noteq> unat (?n + 2) mod kMaxCallbacks"
    using kMax_add_mod [of ?n 2] by (simp add: kMaxCallbacks_def mod_Suc)
  then have cv: "iu_callbacks ?v ((unat ?n + 1) mod kMaxCallbacks) = Some (WT_timer a)"
    using sus(2,4) by (simp add: try_submit_callbacks)
  have r1: "timed_run lib op_done (WT_op a) res fl (u', w) = (?v, w\<lparr>tw_with := (tw_with w)(a := wt_resume ((tw_with w a)\<lparr>wt_done := True,
        wt_exception := (case op_done res of Inl e \<Rightarrow> Some e | Inr _ \<Rightarrow> None), wt_result := (case op_done res of Inl _ \<Rightarrow> None | Inr v \<Rightarrow> Some v)\<rparr>))\<rparr>)" for res fl
    using sus(1) nz
    by (cases "op_done res")
      (simp_all add: timed_run_def with_tw_def wt_on_result_def wt_on_exception_def wt_cancel_timeout_def WithTimeoutAwaiter_ctor_def)
  show "\<exists>w1. process_cqes lib (timed_run lib op_done) [done_op] (u', w) = Inr (ring_seen lib (?v, w1))"
    using sus(3) by (auto simp: d1 r1)
  show "\<exists>v1 w1. process_cqes lib (timed_run lib op_done) [done_op, timer] (u', w) = Inr (v1, w1) \<and>
      wt_resumed (tw_with w1 a) = [op_done (cqe_res done_op)] \<and> \<not> wt_was_timeout (tw_with w1 a)"
    using sus(1,3) cv
    by (simp add: d1 r1 d2 ring_seen_eq)
      (simp add: ring_seen_eq timed_run_def with_tw_def wt_on_timeout_def wt_resume_def wt_await_resume_def WithTimeoutAwaiter_ctor_def
        wt_was_timeout_def split: sum.split)
  have "unat (cqe_user_data timer) = unat (?n + 1) mod kMaxCallbacks"
    using assms(3) kMax_add_mod [of ?n 1] by (simp add: completes_def)
  moreover have "0 < kMaxCallbacks" by (simp add: kMaxCallbacks_def)
  ultimately show "cqe_user_data timer = ?n + 1 \<longleftrightarrow> unat (?n + 1) < kMaxCallbacks"
    by (metis mod_less mod_less_divisor word_unat_eq_iff)
  show "\<exists>v1 w1. process_cqes lib (timed_run lib op_done) [timer, done_op] (u', w) = Inr (v1, w1) \<and> iu_callbacks v1 = iu_callbacks u' \<and>
      wt_resumed (tw_with w1 a) = [Inl (if cqe_res timer = - ETIME \<or> cqe_res timer = 0 then TimeoutException else BadOptionalAccess)]"
    using sus(1,3,4)
    by (simp add: d1 d2 ring_seen_eq timed_run_def with_tw_def wt_on_timeout_def wt_on_result_def wt_on_exception_def wt_cancel_operation_def
        wt_resume_def wt_await_resume_def WithTimeoutAwaiter_ctor_def Let_def split: sum.split)
qed



end
