(* ===== verification/Rpc_FullStack.thy ===== *)
theory Rpc_FullStack
  imports Rpc_ClientNet
begin

text \<open>
  The whole path of a call. The RPC client sends and receives through a TCP client without a pool and its connection; the
  other end of the socket is a connection of the RPC server, whose loop runs while the client waits for
  bytes. A series of calls on one client is the same as calling the handlers of the registry one after the other.
\<close>

section \<open>A socket whose other end is served\<close>

text \<open>
  The world holds the server's end of the connection: its stream, the state of the server and of its services, the receive
  buffer of the connection loop and whether that loop still runs. Every system call moves at most \<open>Suc k\<close> bytes.
\<close>

record 'v pair_world =
  pw_server :: "(stream_world, 'v) server_state"
  pw_buffer :: bytes
  pw_serving :: bool

definition pw_stream :: "'v pair_world \<Rightarrow> stream_world" where
  "pw_stream w = snd (fst (pw_server w))"

definition put_stream :: "stream_world \<Rightarrow> 'v pair_world \<Rightarrow> 'v pair_world" where
  "put_stream sw w = w\<lparr>pw_server := ((fst (fst (pw_server w)), sw), snd (pw_server w))\<rparr>"

text \<open>The server's turn: one round of its connection loop, if there is something to read.\<close>

definition server_turn :: "nat \<Rightarrow> bytes \<Rightarrow> 'h registry \<Rightarrow> ('h, 'v) invoker \<Rightarrow> nat \<Rightarrow> 'v pair_world \<Rightarrow> 'v pair_world" where
  "server_turn k pad reg invoke max_request_size w =
     (if \<not> pw_serving w \<or> \<not> Connection_connected (fst (fst (pw_server w))) \<or> sw_in (pw_stream w) = [] then w
      else case connection_round (stream_os k) pad reg invoke max_request_size (pw_buffer w) (pw_server w) of
          Inl f \<Rightarrow> w\<lparr>pw_serving := False\<rparr>
        | Inr (Inl s) \<Rightarrow> w\<lparr>pw_server := s, pw_serving := False\<rparr>
        | Inr (Inr (buffer, s)) \<Rightarrow> w\<lparr>pw_server := s, pw_buffer := buffer\<rparr>)"

text \<open>The kernel at the client's end: a receive that finds nothing gives the server a turn first.\<close>

definition pair_os :: "nat \<Rightarrow> bytes \<Rightarrow> 'h registry \<Rightarrow> ('h, 'v) invoker \<Rightarrow> nat \<Rightarrow> 'v pair_world net_os" where
  "pair_os k pad reg invoke max_request_size = \<lparr>
     os_socket = (\<lambda>w. (3, w)),
     os_connect = (\<lambda>_ _ _ w. (0, w)),
     os_recv = (\<lambda>_ sz w.
       let w1 = (if sw_out (pw_stream w) = [] then server_turn k pad reg invoke max_request_size w else w);
           out = sw_out (pw_stream w1); n = min (min sz (Suc k)) (length out)
       in ((int n, take n out), put_stream ((pw_stream w1)\<lparr>sw_out := drop n out\<rparr>) w1)),
     os_send = (\<lambda>_ data w. let n = min (Suc k) (length data)
       in (int n, put_stream ((pw_stream w)\<lparr>sw_in := sw_in (pw_stream w) @ take n data\<rparr>) w)),
     os_close = (\<lambda>_ w. w),
     os_shutdown_wr = (\<lambda>_ w. w),
     os_setsockopt = (\<lambda>_ _ w. w)\<rparr>"

section \<open>Remote calls without a network\<close>

text \<open>
  The specification of a call: the handler that is registered is applied to the serialized request, and what it
  returns is deserialized; there are no messages, connections or buffers. The state is the server's counters and
  the services.
\<close>

definition remote_call :: "'h registry \<Rightarrow> ('h, 'v) invoker \<Rightarrow> (bytes \<Rightarrow> 'q \<Rightarrow> bytes) \<Rightarrow> 'a decoder \<Rightarrow> bytes \<times> bytes \<times> 'q \<Rightarrow>
    server_stats \<times> 'v \<Rightarrow> 'a RpcResult \<times> server_stats \<times> 'v" where
  "remote_call reg invoke enc dec call s =
     (let (service, method, request) = call; (st, v) = s
      in case find_method reg service method of
           None \<Rightarrow> (RpcResult_make_error (error_code_val EC_ServiceNotFound) (str_bytes ''Service or method not found''), count_request st, v)
         | Some h \<Rightarrow>
             (case invoke h (serialize enc request) v of
                (None, v') \<Rightarrow> (RpcResult_make_error (error_code_val EC_Unknown) (str_bytes ''Internal server error''),
                   count_error (count_request st), v')
              | (Some bs, v') \<Rightarrow>
                  (case deserialize dec bs of (ok, result) \<Rightarrow>
                     if ok then RpcResult_ok (the result)
                     else RpcResult_make_error (error_code_val EC_SerializationError) (str_bytes ''Failed to deserialize result''),
                   count_request st, v')))"

fun remote_calls :: "'h registry \<Rightarrow> ('h, 'v) invoker \<Rightarrow> (bytes \<Rightarrow> 'q \<Rightarrow> bytes) \<Rightarrow> 'a decoder \<Rightarrow> (bytes \<times> bytes \<times> 'q) list \<Rightarrow>
    server_stats \<times> 'v \<Rightarrow> 'a RpcResult list \<times> server_stats \<times> 'v" where
  "remote_calls reg invoke enc dec [] s = ([], s)"
| "remote_calls reg invoke enc dec (c # cs) s =
     (let (r, s1) = remote_call reg invoke enc dec c s; (rs, s2) = remote_calls reg invoke enc dec cs s1 in (r # rs, s2))"

text \<open>The messages a series of calls stands for: the ids count up from the client's counter.\<close>

fun requests :: "u64 \<Rightarrow> u32 \<Rightarrow> (bytes \<Rightarrow> 'q \<Rightarrow> bytes) \<Rightarrow> u64 \<Rightarrow> (bytes \<times> bytes \<times> 'q) list \<Rightarrow> RpcMessage list" where
  "requests now timeout enc i [] = []"
| "requests now timeout enc i ((service, method, q) # cs) =
     create_request now i service method (serialize enc q) timeout # requests now timeout enc (i + 1) cs"

lemma result_of_error: "e \<noteq> EC_OK \<Longrightarrow> result_of dec (create_error i e t) = RpcResult_make_error (error_code_val e) t"
  by (cases e) (simp_all add: result_of_def create_error_def)

lemma remote_call_answer:
  assumes "answer reg invoke (create_request now i service method (serialize enc q) timeout) s = (m, s')"
  shows "remote_call reg invoke enc dec (service, method, q) s = (result_of dec m, s')"
proof -
  let ?req = "create_request now i service method (serialize enc q) timeout"
  have f: "msg_service ?req = service" "msg_method ?req = method" "msg_payload ?req = serialize enc q" "msg_request_id ?req = i"
    by (simp_all add: create_request_def)
  have ok: "result_of dec (create_response i bs EC_OK) =
      (case deserialize dec bs of (ok, result) \<Rightarrow> if ok then RpcResult_ok (the result)
       else RpcResult_make_error (error_code_val EC_SerializationError) (str_bytes ''Failed to deserialize result''))" for bs
    by (simp add: result_of_def create_response_def split: prod.split)
  show ?thesis
  proof (cases "find_method reg service method")
    case None
    with assms show ?thesis by (auto simp: remote_call_def answer_def f result_of_error split: prod.split)
  next
    case (Some h)
    with assms show ?thesis
      by (cases s) (auto simp: remote_call_def answer_def f ok result_of_error split: prod.splits option.splits)
  qed
qed

section \<open>The exchange of one message\<close>

lemma answer_longer:
  assumes "answer reg invoke req s = (m, s')" "length pad = 4"
  shows "16 < length (wire_image pad m)"
  using assms by (auto simp: answer_def wire_image_def length_wire_meta msg_meta_size_def created_simps split: option.splits prod.splits)

definition pair_rest :: "server_stats \<times> 'v \<Rightarrow> 'v pair_world \<Rightarrow> bool" where
  "pair_rest t w \<longleftrightarrow> pw_serving w \<and> Connection_connected (fst (fst (pw_server w))) \<and> snd (pw_server w) = t \<and>
     sw_in (pw_stream w) = [] \<and> sw_out (pw_stream w) = []"

definition direct_connected :: "'w TcpClient \<Rightarrow> bool" where
  "direct_connected cl \<longleftrightarrow> tc_pool cl = None \<and> tc_connected cl \<and>
     (case tc_connection cl of None \<Rightarrow> False | Some c \<Rightarrow> Connection_connected c)"

lemma direct_send:
  assumes "direct_connected cl" "\<And>fd. os_send os fd data (ns_world s) = (n, w')" "0 < n"
  shows "TcpClient_send os nap data (cl, s) = Inr (n, cl, s\<lparr>ns_world := w'\<rparr>)"
  using assms by (cases cl) (auto simp: direct_connected_def TcpClient_send_def on_client_def Let_def Connection_async_write_def split: option.splits)

lemma direct_recv:
  assumes "direct_connected cl" "\<And>fd. os_recv os fd sz (ns_world s) = ((n, bs), w')" "0 < n"
  shows "TcpClient_recv os nap sz (cl, s) = Inr ((n, bs), cl, s\<lparr>ns_world := w'\<rparr>)"
  using assms by (cases cl) (auto simp: direct_connected_def TcpClient_recv_def on_client_def Let_def Connection_async_read_def split: option.splits)

lemma stream_put [simp]: "pw_stream (put_stream sw w) = sw" "pw_serving (put_stream sw w) = pw_serving w"
  "pw_buffer (put_stream sw w) = pw_buffer w" "snd (pw_server (put_stream sw w)) = snd (pw_server w)"
  "fst (fst (pw_server (put_stream sw w))) = fst (fst (pw_server w))"
  by (simp_all add: pw_stream_def put_stream_def)

text \<open>A server that has received one request takes its turn: the reply is on its way.\<close>

lemma server_turn_answers:
  assumes "pw_serving w" "Connection_connected (fst (fst (pw_server w)))" "sw_in (pw_stream w) = wire_image pad req"
    "length pad = 4" "is_request req" "length (wire_image pad req) \<le> min max_request_size (Suc k)"
    "answer reg invoke req (snd (pw_server w)) = (m, t)" "length (wire_image pad m) \<le> Suc k"
  obtains w' where "server_turn k pad reg invoke max_request_size w = w'" "pw_serving w'"
    "Connection_connected (fst (fst (pw_server w')))" "snd (pw_server w') = t" "sw_in (pw_stream w') = []"
    "sw_out (pw_stream w') = sw_out (pw_stream w) @ wire_image pad m"
proof -
  obtain c sw t0 where s: "pw_server w = ((c, sw), t0)" by (metis surj_pair)
  have c: "Connection_connected c" and i: "sw_in sw = wire_image pad req @ []" and a: "answer reg invoke req t0 = (m, t)"
    and l: "length (wire_image pad req) \<le> max_request_size" "length (wire_image pad req) \<le> Suc k"
    using assms s by (simp_all add: pw_stream_def)
  obtain sw' b where r: "connection_round (stream_os k) pad reg invoke max_request_size (pw_buffer w) ((c, sw), t0) = Inr (Inr (b, (c, sw'), t))"
      "sw_in sw' = []" "sw_out sw' = sw_out sw @ wire_image pad m"
    by (rule whole.round_answers [OF c assms(5,4) l i a assms(8)])
  have "sw_in sw \<noteq> []" using i by (simp add: wire_image_def header_bytes_def)
  then have "server_turn k pad reg invoke max_request_size w = w\<lparr>pw_server := ((c, sw'), t), pw_buffer := b\<rparr>"
    using assms(1) c s r(1) by (simp add: server_turn_def pw_stream_def)
  then show ?thesis using assms(1) c s r by (intro that [of "w\<lparr>pw_server := ((c, sw'), t), pw_buffer := b\<rparr>"]) (simp_all add: pw_stream_def)
qed

definition tcp_rest :: "server_stats \<times> 'v \<Rightarrow> client_fault + 'v pair_world client_state \<Rightarrow> bool" where
  "tcp_rest t w \<longleftrightarrow> (case w of Inl _ \<Rightarrow> False | Inr (cl, s) \<Rightarrow> direct_connected cl \<and> pair_rest t (ns_world s))"

text \<open>The messages that one system call moves, and the requests the server accepts.\<close>

definition carried :: "nat \<Rightarrow> bytes \<Rightarrow> nat \<Rightarrow> RpcMessage \<Rightarrow> bool" where
  "carried k pad max_request_size m \<longleftrightarrow>
     length (wire_image pad m) \<le> Suc k \<and> (msg_has_type m MT_Request \<longrightarrow> length (wire_image pad m) \<le> max_request_size)"

interpretation served: answering_transport "tcp_transport (pair_os k pad reg invoke max_request_size) nap" pad reg invoke
  tcp_rest "carried k pad max_request_size"
proof
  fix t :: "server_stats \<times> 'a" and w :: "client_fault + 'a pair_world client_state" and req m t'
  let ?os = "pair_os k pad reg invoke max_request_size"
  let ?tp = "tcp_transport ?os nap" and ?req = "wire_image pad req" and ?m = "wire_image pad m"
  assume a: "length pad = 4" "tcp_rest t w" "is_request req" "carried k pad max_request_size req"
    "answer reg invoke req t = (m, t')" "carried k pad max_request_size m"
  obtain cl s where w: "w = Inr (cl, s)" and cl: "direct_connected cl" and rest: "pair_rest t (ns_world s)"
    using a(2) by (auto simp: tcp_rest_def split: sum.splits)
  have l: "length ?req \<le> min max_request_size (Suc k)" "length ?m \<le> Suc k"
    using a(3,4,6) created_simps by (auto simp: carried_def is_request_def)
  have pos: "0 < length ?req" "16 < length ?m"
    using answer_longer [OF a(5,1)] by (simp_all add: wire_image_def)
  define w1 where "w1 = put_stream ((pw_stream (ns_world s))\<lparr>sw_in := ?req\<rparr>) (ns_world s)"
  have sd: "TcpClient_send ?os nap ?req (cl, s) = Inr (int (length ?req), cl, s\<lparr>ns_world := w1\<rparr>)"
    by (rule direct_send [OF cl]) (use l pos rest in \<open>simp_all add: pair_os_def w1_def pair_rest_def min_absorb2\<close>)
  have "pw_serving w1" "Connection_connected (fst (fst (pw_server w1)))" "sw_in (pw_stream w1) = ?req"
      "answer reg invoke req (snd (pw_server w1)) = (m, t')" "sw_out (pw_stream w1) = []"
    using rest a(5) by (simp_all add: w1_def pair_rest_def)
  note w1 = this
  obtain w2 where w2: "server_turn k pad reg invoke max_request_size w1 = w2" "pw_serving w2"
      "Connection_connected (fst (fst (pw_server w2)))" "snd (pw_server w2) = t'" "sw_in (pw_stream w2) = []"
      "sw_out (pw_stream w2) = sw_out (pw_stream w1) @ ?m"
    by (rule server_turn_answers [OF w1(1-3) a(1,3) l(1) w1(4) l(2)])
  define w3 where "w3 = put_stream ((pw_stream w2)\<lparr>sw_out := drop 16 ?m\<rparr>) w2"
  define w4 where "w4 = put_stream ((pw_stream w3)\<lparr>sw_out := []\<rparr>) w3"
  have k1: "os_recv ?os fd 16 w1 = ((16, take 16 ?m), w3)" for fd
    using w2(1,6) w1(5) l(2) pos by (simp add: pair_os_def w3_def Let_def)
  have k2: "os_recv ?os fd (length ?m - 16) w3 = ((int (length ?m - 16), drop 16 ?m), w4)" for fd
    using l(2) pos by (simp add: pair_os_def w3_def w4_def Let_def)
  have r1: "TcpClient_recv ?os nap 16 (cl, s\<lparr>ns_world := w1\<rparr>) = Inr ((16, take 16 ?m), cl, s\<lparr>ns_world := w3\<rparr>)"
    using direct_recv [OF cl, of ?os 16 "s\<lparr>ns_world := w1\<rparr>" 16 "take 16 ?m" w3] k1 by simp
  have r2: "TcpClient_recv ?os nap (length ?m - 16) (cl, s\<lparr>ns_world := w3\<rparr>) =
      Inr ((int (length ?m - 16), drop 16 ?m), cl, s\<lparr>ns_world := w4\<rparr>)"
    using direct_recv [OF cl, of ?os "length ?m - 16" "s\<lparr>ns_world := w3\<rparr>" "int (length ?m - 16)" "drop 16 ?m" w4] k2 pos by simp
  have "tcp_rest t' (Inr (cl, s\<lparr>ns_world := w4\<rparr>))"
    using cl w2 by (simp add: tcp_rest_def pair_rest_def w3_def w4_def)
  with sd r1 r2 pos show "\<exists>n w1 w2 w3. 0 < n \<and> tp_send ?tp ?req w = (n, w1) \<and>
      tp_recv ?tp 16 w1 = ((16, take 16 ?m), w2) \<and>
      tp_recv ?tp (length ?m - 16) w2 = ((int (length ?m - 16), drop 16 ?m), w3) \<and> tcp_rest t' w3"
    by (intro exI [of _ "int (length ?req)"] exI [of _ "Inr (cl, s\<lparr>ns_world := w1\<rparr>)"] exI [of _ "Inr (cl, s\<lparr>ns_world := w3\<rparr>)"]
        exI [of _ "Inr (cl, s\<lparr>ns_world := w4\<rparr>)"]) (simp add: tcp_transport_def w)
qed

section \<open>Series of calls\<close>

text \<open>The client between two calls: its TCP client is connected, nothing is on its way and the server's state is \<open>t\<close>.\<close>

definition rpc_rest :: "server_stats \<times> 'v \<Rightarrow> 'v pair_world rpc_state \<Rightarrow> bool" where
  "rpc_rest t st \<longleftrightarrow> (case ro_tcp_client (fst st) of None \<Rightarrow> False | Some tcp \<Rightarrow> tcp_rest t (Inr (tcp, snd st)))"

lemma RpcClient_call_served:
  assumes "rpc_rest t st" "length pad = 4"
    and "req = create_request now (ro_request_id (fst st)) service method (serialize enc q) (rcc_timeout_ms (ro_config (fst st)))"
    and "wire_fits req" "carried k pad max_request_size req"
    and "answer reg invoke req t = (m, t')" "wire_fits m" "carried k pad max_request_size m"
  shows "\<exists>st'. RpcClient_call (pair_os k pad reg invoke max_request_size) nap pad now enc dec service method q st = Inr (result_of dec m, st') \<and>
    rpc_rest t' st' \<and> ro_request_id (fst st') = ro_request_id (fst st) + 1 \<and> ro_config (fst st') = ro_config (fst st)"
proof -
  obtain tcp where tcp: "ro_tcp_client (fst st) = Some tcp" "tcp_rest t (Inr (tcp, snd st))"
    using assms(1) by (auto simp: rpc_rest_def split: option.splits)
  let ?os = "pair_os k pad reg invoke max_request_size" and ?cl = "core_client (fst st)"
  have r: "is_request req" unfolding is_request_def using assms(3,4) by blast
  have q: "req = create_request now (rc_request_id ?cl) service method (serialize enc q) (rc_timeout_ms ?cl)"
    by (simp add: assms(3) core_client_def)
  obtain w' where w': "rpc_call (tcp_transport ?os nap) pad now enc dec service method q (?cl, Inr (tcp, snd st)) =
      Inr (result_of dec m, ?cl\<lparr>rc_request_id := rc_request_id ?cl + 1\<rparr>, w')" "tcp_rest t' w'"
    using served.call_answered [OF assms(2) tcp(2) r q assms(6,7,5,8), of nap dec] by blast
  from w'(2) obtain tcp' s' where "w' = Inr (tcp', s')" by (auto simp: tcp_rest_def split: sum.splits)
  with w' tcp(1) show ?thesis by (simp add: RpcClient_call_def after_call_def core_client_def rpc_rest_def)
qed

lemma calls_served:
  assumes "rpc_rest t st" "length pad = 4"
    and "\<And>req. req \<in> set (requests now (rcc_timeout_ms (ro_config (fst st))) enc (ro_request_id (fst st)) cs) \<Longrightarrow>
      wire_fits req \<and> carried k pad max_request_size req"
    and "\<And>m. m \<in> set (fst (answers reg invoke (requests now (rcc_timeout_ms (ro_config (fst st))) enc (ro_request_id (fst st)) cs) t)) \<Longrightarrow>
      wire_fits m \<and> carried k pad max_request_size m"
  shows "\<exists>st'. calls (map (\<lambda>(service, method, q). RpcClient_call (pair_os k pad reg invoke max_request_size) nap pad now enc dec service method q) cs) st =
      Inr (fst (remote_calls reg invoke enc dec cs t), st') \<and> rpc_rest (snd (remote_calls reg invoke enc dec cs t)) st' \<and>
    ro_request_id (fst st') = ro_request_id (fst st) + of_nat (length cs)"
  using assms(1,3,4)
proof (induction cs arbitrary: st t)
  case Nil
  then show ?case by simp
next
  case (Cons c cs)
  obtain service meth q where c: "c = (service, meth, q)" by (metis surj_pair)
  let ?t = "rcc_timeout_ms (ro_config (fst st))" and ?i = "ro_request_id (fst st)"
  define req where "req = create_request now ?i service meth (serialize enc q) ?t"
  obtain m t1 where a: "answer reg invoke req t = (m, t1)" by (metis surj_pair)
  have rq: "requests now ?t enc ?i (c # cs) = req # requests now ?t enc (?i + 1) cs" by (simp add: c req_def)
  have as: "fst (answers reg invoke (requests now ?t enc ?i (c # cs)) t) = m # fst (answers reg invoke (requests now ?t enc (?i + 1) cs) t1)"
    unfolding rq by (simp add: a split: prod.split)
  obtain st1 where st1: "RpcClient_call (pair_os k pad reg invoke max_request_size) nap pad now enc dec service meth q st = Inr (result_of dec m, st1)"
      "rpc_rest t1 st1" "ro_request_id (fst st1) = ?i + 1" "ro_config (fst st1) = ro_config (fst st)"
    using RpcClient_call_served [OF Cons.prems(1) assms(2) req_def, of k max_request_size reg invoke m t1 nap dec]
      Cons.prems(2) [of req] Cons.prems(3) [of m] a rq as by auto
  have "\<exists>st'. calls (map (\<lambda>(service, method, q). RpcClient_call (pair_os k pad reg invoke max_request_size) nap pad now enc dec service method q) cs) st1 =
      Inr (fst (remote_calls reg invoke enc dec cs t1), st') \<and> rpc_rest (snd (remote_calls reg invoke enc dec cs t1)) st' \<and>
    ro_request_id (fst st') = ro_request_id (fst st1) + of_nat (length cs)"
    by (rule Cons.IH [OF st1(2)]) (use Cons.prems(2,3) rq as st1(3,4) in auto)
  moreover have "remote_call reg invoke enc dec c t = (result_of dec m, t1)"
    unfolding c by (rule remote_call_answer [OF a [unfolded req_def]])
  ultimately show ?case using st1(1,3) by (cases "remote_calls reg invoke enc dec cs t1") (auto simp: c)
qed

text \<open>Connecting a client without a pool to a server that waits.\<close>

lemma connect_served:
  assumes "\<not> tcc_enable_connection_pool config" "pair_rest t (ns_world s)"
  shows "\<exists>tcp s1. TcpClient_connect (pair_os k pad reg invoke max_request_size) host port (TcpClient_ctor config, s) = Inr (True, tcp, s1) \<and>
    tcp_rest t (Inr (tcp, s1))"
  using assms
  by (simp add: TcpClient_connect_def TcpClient_ctor_def Let_def Connection_create_def drop_connection_def Connection_async_connect_def
      apply_socket_options_def pair_os_def tcp_rest_def direct_connected_def Connection_connected_def)

section \<open>Properties\<close>


text \<open>A server with the echo service, waiting for a client; two calls that succeed and one of a method it does not have.\<close>

definition echo_pair :: "nat pair_world" where
  "echo_pair = \<lparr>pw_server = ((conn_ex, \<lparr>sw_in = [], sw_out = [], sw_closed = []\<rparr>), (\<lparr>sv_total_requests = 0, sv_total_errors = 0\<rparr>, 0)),
     pw_buffer = replicate 4096 0, pw_serving = True\<rparr>"

definition echo_calls :: "(bytes \<times> bytes \<times> bytes) list" where
  "echo_calls = [(str_bytes ''Echo'', str_bytes ''echo'', [104, 105]), (str_bytes ''Echo'', str_bytes ''nope'', [7]),
     (str_bytes ''Echo'', str_bytes ''echo'', [9])]"


end
