(* ===== verification/Rpc_Concurrent.thy ===== *)
theory Rpc_Concurrent
  imports Rpc_Server "HOL-Library.Sublist"
begin

text \<open>
  Many connections on one RPC server. Every connection has its own coroutine, which runs \<open>handle_connection\<close> of
  \<open>rpc/rpc_server.hpp\<close>; the coroutines share the registry, the counters and the services, run on the thread of the event loop and give
  up control where they await: before each of the two reads and before the write of a round. Between the second read
  and the write a round runs without interruption, for handlers that do not suspend. Requests arrive at any time.
\<close>

section \<open>A connection loop between its awaits\<close>

datatype phase = Reading_header | Reading_body nat | Writing bytes | Left_loop

record session =
  se_phase :: phase
  se_buffer :: bytes
  se_conn :: "stream_world Connection \<times> stream_world"

definition new_session :: "stream_world Connection \<Rightarrow> session" where
  "new_session c = \<lparr>se_phase = Reading_header, se_buffer = replicate 4096 0, se_conn = (c, \<lparr>sw_in = [], sw_out = [], sw_closed = []\<rparr>)\<rparr>"

text \<open>From one await to the next.\<close>

definition session_step :: "nat \<Rightarrow> bytes \<Rightarrow> 'h registry \<Rightarrow> ('h, 'v) invoker \<Rightarrow> nat \<Rightarrow> session \<Rightarrow> server_stats \<times> 'v \<Rightarrow>
    server_fault + (session \<times> server_stats \<times> 'v)" where
  "session_step k pad reg invoke max_request_size se t =
     (case se_phase se of
        Reading_header \<Rightarrow>
          if \<not> Connection_connected (fst (se_conn se)) then Inr (se\<lparr>se_phase := Left_loop\<rparr>, t)
          else (case conn_header (stream_os k) max_request_size (se_buffer se) (se_conn se, t) of
              Inl (c, t') \<Rightarrow> Inr (se\<lparr>se_phase := Left_loop, se_conn := c\<rparr>, t')
            | Inr (total_size, buffer, c, t') \<Rightarrow> Inr (se\<lparr>se_phase := Reading_body total_size, se_buffer := buffer, se_conn := c\<rparr>, t'))
      | Reading_body total_size \<Rightarrow>
          (case conn_body (stream_os k) total_size (se_buffer se) (se_conn se, t) of
             Inl (c, t') \<Rightarrow> Inr (se\<lparr>se_phase := Left_loop, se_conn := c\<rparr>, t')
           | Inr (buffer, c, t') \<Rightarrow>
               rbind (handle_message pad reg invoke buffer total_size t') (\<lambda>(response, t'').
                 Inr (se\<lparr>se_phase := (if response = [] then Reading_header else Writing response), se_buffer := buffer, se_conn := c\<rparr>, t'')))
      | Writing response \<Rightarrow>
          (case Connection_async_write (stream_os k) response (se_conn se) of (n, c) \<Rightarrow>
             Inr (se\<lparr>se_phase := (if n \<le> 0 then Left_loop else Reading_header), se_conn := c\<rparr>, t))
      | Left_loop \<Rightarrow> Inr (se, t))"

text \<open>A session that waits for bytes cannot run; the others can.\<close>

definition runnable :: "session \<Rightarrow> bool" where
  "runnable se \<longleftrightarrow> (case se_phase se of Writing _ \<Rightarrow> True | Left_loop \<Rightarrow> False | _ \<Rightarrow> sw_in (snd (se_conn se)) \<noteq> [])"

definition arrives :: "bytes \<Rightarrow> session \<Rightarrow> session" where
  "arrives bs se = se\<lparr>se_conn := (fst (se_conn se), (snd (se_conn se))\<lparr>sw_in := sw_in (snd (se_conn se)) @ bs\<rparr>)\<rparr>"

text \<open>
  The steps of the loop that follow each other without interruption are a round of \<open>handle_connection\<close>.
\<close>

fun session_steps :: "nat \<Rightarrow> nat \<Rightarrow> bytes \<Rightarrow> 'h registry \<Rightarrow> ('h, 'v) invoker \<Rightarrow> nat \<Rightarrow> session \<times> server_stats \<times> 'v \<Rightarrow>
    server_fault + (session \<times> server_stats \<times> 'v)" where
  "session_steps 0 k pad reg invoke max_request_size s = Inr s"
| "session_steps (Suc n) k pad reg invoke max_request_size s =
     rbind (session_step k pad reg invoke max_request_size (fst s) (snd s))
       (\<lambda>s'. if se_phase (fst s') = Reading_header then Inr s' else session_steps n k pad reg invoke max_request_size s')"

definition round_result :: "server_fault + (session \<times> server_stats \<times> 'v) \<Rightarrow>
    server_fault + ((stream_world, 'v) server_state + (bytes \<times> (stream_world, 'v) server_state))" where
  "round_result r = rbind r (\<lambda>(se, t). Inr (if se_phase se = Left_loop then Inl (se_conn se, t) else Inr (se_buffer se, se_conn se, t)))"

lemma session_round:
  assumes "se_phase se = Reading_header" "Connection_connected (fst (se_conn se))"
  shows "round_result (session_steps 3 k pad reg invoke max_request_size (se, t)) =
    connection_round (stream_os k) pad reg invoke max_request_size (se_buffer se) (se_conn se, t)"
proof -
  note defs = round_result_def connection_round_def session_step_def
  consider s where "conn_header (stream_os k) max_request_size (se_buffer se) (se_conn se, t) = Inl s"
    | total_size b c t1 where "conn_header (stream_os k) max_request_size (se_buffer se) (se_conn se, t) = Inr (total_size, b, c, t1)"
    by (cases "conn_header (stream_os k) max_request_size (se_buffer se) (se_conn se, t)") auto
  then show ?thesis
  proof cases
    case 1
    with assms show ?thesis by (cases s) (simp add: defs eval_nat_numeral)
  next
    case hd: 2
    consider s where "conn_body (stream_os k) total_size b (c, t1) = Inl s"
      | b2 c2 t2 where "conn_body (stream_os k) total_size b (c, t1) = Inr (b2, c2, t2)"
      by (cases "conn_body (stream_os k) total_size b (c, t1)") auto
    then show ?thesis
    proof cases
      case 1
      with assms hd show ?thesis by (cases s) (simp add: defs eval_nat_numeral)
    next
      case 2
      with assms hd show ?thesis
        by (cases "handle_message pad reg invoke b2 total_size t2")
          (auto simp: defs eval_nat_numeral split: prod.split)
    qed
  qed
qed

section \<open>The server and its clients\<close>

text \<open>
  Whole requests that the server accepts arrive at a session, or a session that can run is resumed. \<open>arr i\<close> is
  what the client of session \<open>i\<close> has sent.
\<close>

inductive sessions_reach :: "nat \<Rightarrow> bytes \<Rightarrow> 'h registry \<Rightarrow> ('h, 'v) invoker \<Rightarrow> nat \<Rightarrow> stream_world Connection list \<Rightarrow> server_stats \<times> 'v \<Rightarrow>
    session list \<Rightarrow> server_stats \<times> 'v \<Rightarrow> (nat \<Rightarrow> RpcMessage list) \<Rightarrow> bool" for k pad reg invoke max_request_size conns t0 where
  start: "sessions_reach k pad reg invoke max_request_size conns t0 (map new_session conns) t0 (\<lambda>_. [])"
| arrive: "sessions_reach k pad reg invoke max_request_size conns t0 ss t arr \<Longrightarrow> i < length ss \<Longrightarrow> is_request req \<Longrightarrow>
    length (wire_image pad req) \<le> min max_request_size (Suc k) \<Longrightarrow>
    sessions_reach k pad reg invoke max_request_size conns t0 (ss[i := arrives (wire_image pad req) (ss ! i)]) t (arr(i := arr i @ [req]))"
| resume: "sessions_reach k pad reg invoke max_request_size conns t0 ss t arr \<Longrightarrow> i < length ss \<Longrightarrow> runnable (ss ! i) \<Longrightarrow>
    session_step k pad reg invoke max_request_size (ss ! i) t = Inr (se, t') \<Longrightarrow>
    sessions_reach k pad reg invoke max_request_size conns t0 (ss[i := se]) t' arr"

text \<open>A log of handled requests, each with its client; the entries of one client; the replies to a log.\<close>

definition of_client :: "nat \<Rightarrow> (nat \<times> 'a) list \<Rightarrow> 'a list" where
  "of_client i log = map snd (filter (\<lambda>x. fst x = i) log)"

definition log_replies :: "'h registry \<Rightarrow> ('h, 'v) invoker \<Rightarrow> (nat \<times> RpcMessage) list \<Rightarrow> server_stats \<times> 'v \<Rightarrow> (nat \<times> RpcMessage) list" where
  "log_replies reg invoke log t = zip (map fst log) (fst (answers reg invoke (map snd log) t))"

text \<open>What a client has been sent or is about to be sent.\<close>

definition delivered :: "session \<Rightarrow> bytes" where
  "delivered se = sw_out (snd (se_conn se)) @ (case se_phase se of Writing response \<Rightarrow> response | _ \<Rightarrow> [])"

lemma of_client_simps [simp]:
  "of_client i [] = []" "of_client i (log @ [(j, x)]) = (if j = i then of_client i log @ [x] else of_client i log)"
  by (simp_all add: of_client_def)

lemma answers_snoc:
  "answers reg invoke (reqs @ [req]) t =
     (let (ms, s) = answers reg invoke reqs t; (m, s') = answer reg invoke req s in (ms @ [m], s'))"
  by (induction reqs arbitrary: t) (auto split: prod.splits)

lemma length_answers [simp]: "length (fst (answers reg invoke reqs t)) = length reqs"
  by (induction reqs arbitrary: t) (auto simp: split_beta)

lemma log_replies_snoc:
  assumes "answer reg invoke req (snd (answers reg invoke (map snd log) t)) = (m, s)"
  shows "log_replies reg invoke (log @ [(i, req)]) t = log_replies reg invoke log t @ [(i, m)]"
    and "snd (answers reg invoke (map snd (log @ [(i, req)])) t) = s"
  using assms by (simp_all add: log_replies_def answers_snoc split_beta)

section \<open>The invariant of a session\<close>

text \<open>
  A session whose client sent \<open>arrived\<close>, of which \<open>reqs\<close> were handled with the replies \<open>reps\<close>.
\<close>

definition session_ok :: "nat \<Rightarrow> bytes \<Rightarrow> nat \<Rightarrow> RpcMessage list \<Rightarrow> RpcMessage list \<Rightarrow> RpcMessage list \<Rightarrow> session \<Rightarrow> bool" where
  "session_ok k pad max_request_size reqs reps arrived se \<longleftrightarrow>
     Connection_connected (fst (se_conn se)) \<and>
     (\<forall>req \<in> set arrived. is_request req \<and> length (wire_image pad req) \<le> min max_request_size (Suc k)) \<and>
     delivered se = concat (map (wire_image pad) reps) \<and>
     (case se_phase se of
        Reading_header \<Rightarrow> \<exists>rest. arrived = reqs @ rest \<and> sw_in (snd (se_conn se)) = concat (map (wire_image pad) rest)
      | Reading_body total_size \<Rightarrow> \<exists>req rest. arrived = reqs @ req # rest \<and> total_size = length (wire_image pad req) \<and>
          take 16 (se_buffer se) = take 16 (wire_image pad req) \<and>
          sw_in (snd (se_conn se)) = drop 16 (wire_image pad req) @ concat (map (wire_image pad) rest)
      | Writing response \<Rightarrow> response \<noteq> [] \<and> length response \<le> Suc k \<and>
          (\<exists>rest. arrived = reqs @ rest \<and> sw_in (snd (se_conn se)) = concat (map (wire_image pad) rest))
      | Left_loop \<Rightarrow> False)"

lemma new_session_ok: "Connection_connected c \<Longrightarrow> session_ok k pad max_request_size [] [] [] (new_session c)"
  by (simp add: session_ok_def new_session_def delivered_def)

lemma arrives_ok:
  assumes "session_ok k pad max_request_size reqs reps arrived se" "is_request req" "length (wire_image pad req) \<le> min max_request_size (Suc k)"
  shows "session_ok k pad max_request_size reqs reps (arrived @ [req]) (arrives (wire_image pad req) se)"
  using assms by (auto simp: session_ok_def arrives_def delivered_def split: phase.splits)

text \<open>The bytes that are still to be read, doubled, and a write that is still to be done: every step uses some of it up.\<close>

definition session_work :: "session \<Rightarrow> nat" where
  "session_work se = 2 * length (sw_in (snd (se_conn se))) + (case se_phase se of Writing _ \<Rightarrow> 1 | _ \<Rightarrow> 0)"

text \<open>
  What a step of a session does: it handles one more request, or it leaves the shared state alone.
\<close>

definition steps_well :: "nat \<Rightarrow> bytes \<Rightarrow> 'h registry \<Rightarrow> ('h, 'v) invoker \<Rightarrow> nat \<Rightarrow> RpcMessage list \<Rightarrow> RpcMessage list \<Rightarrow> RpcMessage list \<Rightarrow>
    session \<Rightarrow> server_stats \<times> 'v \<Rightarrow> session \<Rightarrow> server_stats \<times> 'v \<Rightarrow> bool" where
  "steps_well k pad reg invoke max_request_size reqs reps arrived se t se' t' \<longleftrightarrow>
     session_step k pad reg invoke max_request_size se t = Inr (se', t') \<and> session_work se' < session_work se \<and>
     (t' = t \<and> session_ok k pad max_request_size reqs reps arrived se' \<or>
      (\<exists>req m. answer reg invoke req t = (m, t') \<and> session_ok k pad max_request_size (reqs @ [req]) (reps @ [m]) arrived se'))"

lemma header_step:
  assumes ok: "session_ok k pad max_request_size reqs reps arrived se" and ph: "se_phase se = Reading_header" and run: "runnable se"
    and p: "length pad = 4"
  shows "\<exists>se'. steps_well k pad reg invoke max_request_size reqs reps arrived se t se' t"
proof -
  obtain c w where cw: "se_conn se = (c, w)" by fastforce
  obtain rest where r: "arrived = reqs @ rest" "sw_in w = concat (map (wire_image pad) rest)" using ok ph cw by (auto simp: session_ok_def)
  from run ph cw r(2) obtain req rest' where rest: "rest = req # rest'" by (cases rest) (auto simp: runnable_def)
  have c: "Connection_connected c" and rq: "is_request req" "length (wire_image pad req) \<le> max_request_size" "length (wire_image pad req) \<le> Suc k"
    using ok cw r(1) rest by (auto simp: session_ok_def)
  have i: "sw_in w = wire_image pad req @ concat (map (wire_image pad) rest')" using r(2) rest by simp
  obtain w' b where h: "conn_header (stream_os k) max_request_size (se_buffer se) ((c, w), t) = Inr (length (wire_image pad req), b, (c, w'), t)"
      "take 16 b = take 16 (wire_image pad req)" "sw_in w' = drop 16 (wire_image pad req) @ concat (map (wire_image pad) rest')" "sw_out w' = sw_out w"
    by (rule whole.header_reads [OF c rq(1) p rq(2,3) i])
  let ?se = "se\<lparr>se_phase := Reading_body (length (wire_image pad req)), se_buffer := b, se_conn := (c, w')\<rparr>"
  have "session_ok k pad max_request_size reqs reps arrived ?se"
    using ok ph cw r(1) rest h by (auto simp: session_ok_def delivered_def)
  moreover have "session_work ?se < session_work se"
    using h(3) i ph cw request_header(3) [OF rq(1) p] by (simp add: session_work_def)
  ultimately show ?thesis using ph cw c h(1) by (auto simp: steps_well_def session_step_def)
qed

lemma body_step:
  assumes ok: "session_ok k pad max_request_size reqs reps arrived se" and ph: "se_phase se = Reading_body total_size" and p: "length pad = 4"
    and fit: "\<And>req s. is_request req \<Longrightarrow> length (wire_image pad req) \<le> min max_request_size (Suc k) \<Longrightarrow>
      length (wire_image pad (fst (answer reg invoke req s))) \<le> Suc k"
  shows "\<exists>se' t'. steps_well k pad reg invoke max_request_size reqs reps arrived se t se' t'"
proof -
  obtain c w where cw: "se_conn se = (c, w)" by fastforce
  obtain req rest where r: "arrived = reqs @ req # rest" "total_size = length (wire_image pad req)"
      "take 16 (se_buffer se) = take 16 (wire_image pad req)" "sw_in w = drop 16 (wire_image pad req) @ concat (map (wire_image pad) rest)"
    using ok ph cw by (auto simp: session_ok_def)
  have c: "Connection_connected c" and rq: "is_request req" "length (wire_image pad req) \<le> min max_request_size (Suc k)"
      "length (wire_image pad req) \<le> Suc k"
    using ok cw r(1) by (auto simp: session_ok_def)
  obtain w' junk where b: "conn_body (stream_os k) total_size (se_buffer se) ((c, w), t) = Inr (wire_image pad req @ junk, (c, w'), t)"
      "sw_in w' = concat (map (wire_image pad) rest)" "sw_out w' = sw_out w"
    by (rule whole.body_reads [OF c rq(1) p rq(3) r(4,3), folded r(2)])
  obtain m t' where a: "answer reg invoke req t = (m, t')" by (metis surj_pair)
  have hm: "handle_message pad reg invoke (wire_image pad req @ junk) total_size t = Inr (wire_image pad m, t')"
    using handle_message_answer [OF rq(1) p, of reg invoke junk t] a r(2) by simp
  have ne: "wire_image pad m \<noteq> []" by (simp add: wire_image_def header_bytes_def)
  let ?se = "se\<lparr>se_phase := Writing (wire_image pad m), se_buffer := wire_image pad req @ junk, se_conn := (c, w')\<rparr>"
  have "session_ok k pad max_request_size (reqs @ [req]) (reps @ [m]) arrived ?se"
    using ok ph cw r(1) b ne fit [OF rq(1,2), of t] a by (auto simp: session_ok_def delivered_def)
  moreover have "session_work ?se < session_work se"
    using b(2) r(4) ph cw request_header(3) [OF rq(1) p] by (simp add: session_work_def)
  moreover have "session_step k pad reg invoke max_request_size se t = Inr (?se, t')"
    using ph cw b(1) hm ne by (simp add: session_step_def)
  ultimately show ?thesis using a unfolding steps_well_def by blast
qed

lemma write_step:
  assumes ok: "session_ok k pad max_request_size reqs reps arrived se" and ph: "se_phase se = Writing response"
  shows "\<exists>se'. steps_well k pad reg invoke max_request_size reqs reps arrived se t se' t"
proof -
  obtain c w where cw: "se_conn se = (c, w)" by fastforce
  have c: "Connection_connected c" and rs: "response \<noteq> []" "length response \<le> Suc k" using ok ph cw by (auto simp: session_ok_def)
  obtain w' where w': "os_send (stream_os k) (cn_fd c) response w = (int (length response), w')" "sw_out w' = sw_out w @ response" "sw_in w' = sw_in w"
    using whole.send_whole [OF rs] by metis
  have "Connection_async_write (stream_os k) response (c, w) = (int (length response), c, w')"
    using c w'(1) rs(1) by (simp add: Connection_async_write_def)
  moreover have "session_ok k pad max_request_size reqs reps arrived (se\<lparr>se_phase := Reading_header, se_conn := (c, w')\<rparr>)"
    using ok ph cw w' by (auto simp: session_ok_def delivered_def)
  ultimately show ?thesis
    using ph cw w'(3) rs(1) by (auto simp: steps_well_def session_step_def session_work_def)
qed

lemma session_step_well:
  assumes "session_ok k pad max_request_size reqs reps arrived se" "runnable se" "length pad = 4"
    and "\<And>req s. is_request req \<Longrightarrow> length (wire_image pad req) \<le> min max_request_size (Suc k) \<Longrightarrow>
      length (wire_image pad (fst (answer reg invoke req s))) \<le> Suc k"
  obtains se' t' where "steps_well k pad reg invoke max_request_size reqs reps arrived se t se' t'"
proof (cases "se_phase se")
  case Reading_header
  then show ?thesis using header_step [OF assms(1) _ assms(2,3)] that by blast
next
  case (Reading_body total_size)
  then show ?thesis using body_step [OF assms(1) _ assms(3,4)] that by blast
next
  case (Writing response)
  then show ?thesis using write_step [OF assms(1)] that by blast
next
  case Left_loop
  then show ?thesis using assms(1) by (simp add: session_ok_def)
qed

text \<open>A session that waits has nothing left to answer.\<close>

lemma waiting_session:
  assumes "session_ok k pad max_request_size reqs reps arrived se" "\<not> runnable se" "length pad = 4"
  shows "reqs = arrived"
proof -
  have ne: "wire_image pad req \<noteq> []" for req by (simp add: wire_image_def header_bytes_def)
  have "drop 16 (wire_image pad req) \<noteq> []" if "req \<in> set arrived" for req
    using assms(1,3) that request_header(3) [of req pad] by (auto simp: session_ok_def)
  then show ?thesis using assms(1,2) ne by (auto simp: session_ok_def runnable_def split: phase.splits)
qed

section \<open>The invariant of the server\<close>

definition sessions_ok :: "nat \<Rightarrow> bytes \<Rightarrow> 'h registry \<Rightarrow> ('h, 'v) invoker \<Rightarrow> nat \<Rightarrow> server_stats \<times> 'v \<Rightarrow> (nat \<times> RpcMessage) list \<Rightarrow>
    session list \<Rightarrow> server_stats \<times> 'v \<Rightarrow> (nat \<Rightarrow> RpcMessage list) \<Rightarrow> bool" where
  "sessions_ok k pad reg invoke max_request_size t0 log ss t arr \<longleftrightarrow>
     t = snd (answers reg invoke (map snd log) t0) \<and>
     (\<forall>i < length ss. session_ok k pad max_request_size (of_client i log) (of_client i (log_replies reg invoke log t0)) (arr i) (ss ! i))"

lemma sessions_ok_resume:
  assumes ok: "sessions_ok k pad reg invoke max_request_size t0 log ss t arr" and i: "i < length ss"
    and st: "steps_well k pad reg invoke max_request_size (of_client i log) (of_client i (log_replies reg invoke log t0)) (arr i) (ss ! i) t se t'"
  shows "\<exists>log'. sessions_ok k pad reg invoke max_request_size t0 log' (ss[i := se]) t' arr"
proof -
  from st consider "t' = t" "session_ok k pad max_request_size (of_client i log) (of_client i (log_replies reg invoke log t0)) (arr i) se"
    | req m where "answer reg invoke req t = (m, t')"
        "session_ok k pad max_request_size (of_client i log @ [req]) (of_client i (log_replies reg invoke log t0) @ [m]) (arr i) se"
    by (auto simp: steps_well_def)
  then show ?thesis
  proof cases
    case 1
    with ok i show ?thesis by (intro exI [of _ log]) (auto simp: sessions_ok_def nth_list_update)
  next
    case (2 req m)
    then have a: "answer reg invoke req (snd (answers reg invoke (map snd log) t0)) = (m, t')" using ok by (simp add: sessions_ok_def)
    show ?thesis using ok i 2(2) log_replies_snoc [OF a, of i]
      by (intro exI [of _ "log @ [(i, req)]"]) (auto simp: sessions_ok_def nth_list_update simp del: map_append)
  qed
qed

lemma sessions_reach_ok:
  assumes "sessions_reach k pad reg invoke max_request_size conns t0 ss t arr" "length pad = 4" "list_all Connection_connected conns"
    and fit: "\<And>req s. is_request req \<Longrightarrow> length (wire_image pad req) \<le> min max_request_size (Suc k) \<Longrightarrow>
      length (wire_image pad (fst (answer reg invoke req s))) \<le> Suc k"
  shows "\<exists>log. sessions_ok k pad reg invoke max_request_size t0 log ss t arr"
  using assms(1)
proof induction
  case start
  show ?case
    using assms(3) by (intro exI [of _ "[]"]) (auto simp: sessions_ok_def log_replies_def list_all_length intro!: new_session_ok)
next
  case (arrive ss t arr i req)
  then obtain log where "sessions_ok k pad reg invoke max_request_size t0 log ss t arr" by blast
  with arrive.hyps show ?case
    by (intro exI [of _ log]) (auto simp: sessions_ok_def nth_list_update intro!: arrives_ok)
next
  case (resume ss t arr i se t')
  then obtain log where ok: "sessions_ok k pad reg invoke max_request_size t0 log ss t arr" by blast
  then have "session_ok k pad max_request_size (of_client i log) (of_client i (log_replies reg invoke log t0)) (arr i) (ss ! i)"
    using resume.hyps(2) by (simp add: sessions_ok_def)
  then obtain se1 t1 where "steps_well k pad reg invoke max_request_size (of_client i log) (of_client i (log_replies reg invoke log t0)) (arr i)
      (ss ! i) t se1 t1"
    using session_step_well [OF _ resume.hyps(3) assms(2) fit] by blast
  moreover from this have "se1 = se" "t1 = t'" using resume.hyps(4) by (simp_all add: steps_well_def)
  ultimately show ?case using sessions_ok_resume [OF ok resume.hyps(2)] by blast
qed

text \<open>Without further arrivals the server comes to rest.\<close>

lemma sessions_come_to_rest:
  assumes "sessions_reach k pad reg invoke max_request_size conns t0 ss t arr" "length pad = 4" "list_all Connection_connected conns"
    and fit: "\<And>req s. is_request req \<Longrightarrow> length (wire_image pad req) \<le> min max_request_size (Suc k) \<Longrightarrow>
      length (wire_image pad (fst (answer reg invoke req s))) \<le> Suc k"
  shows "\<exists>ss' t'. sessions_reach k pad reg invoke max_request_size conns t0 ss' t' arr \<and> (\<forall>i < length ss'. \<not> runnable (ss' ! i))"
  using assms(1)
proof (induction "sum_list (map session_work ss)" arbitrary: ss t rule: less_induct)
  case less
  show ?case
  proof (cases "\<exists>i < length ss. runnable (ss ! i)")
    case False
    with less.prems show ?thesis by blast
  next
    case True
    then obtain i where i: "i < length ss" "runnable (ss ! i)" by blast
    obtain log where "sessions_ok k pad reg invoke max_request_size t0 log ss t arr"
      using sessions_reach_ok [OF less.prems assms(2,3) fit] by blast
    then have "session_ok k pad max_request_size (of_client i log) (of_client i (log_replies reg invoke log t0)) (arr i) (ss ! i)"
      using i(1) by (simp add: sessions_ok_def)
    then obtain se t1 where "steps_well k pad reg invoke max_request_size (of_client i log) (of_client i (log_replies reg invoke log t0)) (arr i)
        (ss ! i) t se t1"
      using session_step_well [OF _ i(2) assms(2) fit] by blast
    then have s: "session_step k pad reg invoke max_request_size (ss ! i) t = Inr (se, t1)" "session_work se < session_work (ss ! i)"
      by (simp_all add: steps_well_def)
    have "sum_list (map session_work (ss[i := se])) < sum_list (map session_work ss)"
      using s(2) i(1) elem_le_sum_list [of i "map session_work ss"] by (simp add: map_update sum_list_update)
    from less.hyps [OF this sessions_reach.resume [OF less.prems i s(1)]] show ?thesis .
  qed
qed

section \<open>Properties\<close>


text \<open>Two clients of the echo service have sent a request each; when the server is at rest both are answered.\<close>

lemma length_sessions: "sessions_reach k pad reg invoke max_request_size conns t0 ss t arr \<Longrightarrow> length ss = length conns"
  by (induction rule: sessions_reach.induct) auto

lemma echo_fits:
  assumes "is_request req" "length (wire_image [0, 0, 0, 0] req) \<le> min 200 (Suc 255)"
  shows "length (wire_image [0, 0, 0, 0] (fst (answer echo_registry echo_invoke req s))) \<le> Suc 255"
proof -
  obtain now i sv me p tm where r: "req = create_request now i sv me p tm" using assms(1) by (auto simp: is_request_def)
  then have "length p \<le> 200" using assms(2)
    by (simp add: length_wire_image msg_meta_size_def msg_has_type_def header_init_def create_request_def)
  then show ?thesis
    using r by (auto simp: answer_def echo_invoke_def length_wire_image msg_meta_size_def msg_has_type_def header_init_def create_response_def
        create_error_def create_request_def RpcMessage_default_def str_bytes_def split: option.split)
qed


end
