(* ===== verification/Framework.thy ===== *)
theory Framework
  imports Io_EventLoop Net_ConnectionPool
begin

text \<open>
  The entry points of \<open>framework.hpp\<close> and the global ring they start from. The ring is a function-local static: it is
  made by the first call that reaches it, and a call whose construction throws leaves it unmade, so the next call tries again.
\<close>

type_synonym ('r, 'cb) global_ring = "('r, 'cb) IoUring option"

definition global_io_uring :: "'r liburing \<Rightarrow> ('r, 'cb) global_ring \<Rightarrow> IoUringError + ('r, 'cb) IoUring" where
  "global_io_uring lib g = (case g of Some u \<Rightarrow> Inr u | None \<Rightarrow> IoUring_ctor lib IoUringConfig_default)"

text \<open>\<open>ring_sz\<close> reads \<open>sq.ring_sz\<close>, a field of the library's ring.\<close>

definition IoUring_is_valid :: "('r \<Rightarrow> nat) \<Rightarrow> ('r, 'cb) IoUring \<Rightarrow> bool" where
  "IoUring_is_valid ring_sz u \<longleftrightarrow> ring_sz (iu_ring u) \<noteq> 0"

definition framework_init :: "'r liburing \<Rightarrow> ('r \<Rightarrow> nat) \<Rightarrow> ('r, 'cb) global_ring \<Rightarrow> IoUringError + (bool \<times> ('r, 'cb) global_ring)" where
  "framework_init lib ring_sz g = rbind (global_io_uring lib g) (\<lambda>ring. Inr (IoUring_is_valid ring_sz ring, Some ring))"

definition framework_shutdown :: "ConnectionPoolManager \<Rightarrow> nat list \<times> ConnectionPoolManager" where
  "framework_shutdown m = shutdown_all m"

definition framework_run :: "('r, 'cb, 'c, 'w) loop_env \<Rightarrow> ('r, 'cb, 'c EventLoop \<times> 'w) runner \<Rightarrow>
    ('r, 'cb, 'c, 'w) loop_state \<Rightarrow> (loop_error + ('r, 'cb, 'c, 'w) loop_state) option" where
  "framework_run env complete s = EventLoop_run env complete s"

text \<open>
  \<open>init\<close> never returns false: where the kernel refuses the ring the constructor throws, and where it does not the
  submission ring has a size. The programs that test the result of \<open>init\<close> for failure end with an exception instead. The
  library's part is that a successful \<open>io_uring_queue_init\<close> maps a submission ring.
\<close>

theorem init_true_or_throws:
  assumes "\<And>d p ret r. lu_init lib d p = (ret, r) \<Longrightarrow> 0 \<le> ret \<Longrightarrow> ring_sz r \<noteq> 0"
  shows "framework_init lib ring_sz None =
    (case lu_init lib (queue_depth IoUringConfig_default) (setup_params IoUringConfig_default) of (ret, r) \<Rightarrow>
       if ret < 0 then Inl SetupFailed else Inr (True, Some \<lparr>iu_config = IoUringConfig_default, iu_ring = r, iu_running = True,
         iu_callbacks = (\<lambda>_. None), iu_next_callback_id = 1\<rparr>))"
  using assms
  by (auto simp: framework_init_def global_io_uring_def IoUring_ctor_def IoUring_setup_def IoUring_is_valid_def not_less split: prod.split)

text \<open>Once it has succeeded, \<open>init\<close> changes nothing and returns the same.\<close>

lemma init_idempotent:
  "framework_init lib ring_sz g = Inr (ok, g') \<Longrightarrow> framework_init lib ring_sz g' = Inr (ok, g')"
  by (auto simp: framework_init_def global_io_uring_def rbind_Inr_iff split: option.splits)

end
