(* ===== verification/Net_OnRing.thy ===== *)
theory Net_OnRing
  imports Net_Connection Io_EventLoop
begin

text \<open>
  Coroutines on the ring: how \<open>co_await io::async_recv\<close> and \<open>co_await io::async_send\<close> (\<open>io/async_io.hpp\<close>) run on
  the ring wrapper (\<open>io/io_uring.hpp\<close>) under the event loop (\<open>io/event_loop.hpp\<close>), and that the result is the one the
  connection (\<open>net/connection.hpp\<close>) is modelled with, where \<open>os_recv\<close> and \<open>os_send\<close> answer at once.

  A coroutine is a value of type \<open>co\<close>: what it does up to its next suspension, and how it goes on with the result. On the ring an awaiter
  is built, its operation prepared and submitted, and the coroutine is resumed inside the completion callback, where it may
  submit its next operation. The kernel executes a submitted operation when it likes: \<open>sr_slow\<close> says in which turns only timeouts expire.
\<close>

section \<open>Coroutines\<close>

datatype ('a, 'w) co =
    Return 'a
  | Recv int nat "int \<times> bytes \<Rightarrow> ('a, 'w) co"
  | Send int bytes "int \<Rightarrow> ('a, 'w) co"
  | Sys "'w \<Rightarrow> 'w" "('a, 'w) co"

primrec co_bind :: "('a, 'w) co \<Rightarrow> ('a \<Rightarrow> ('b, 'w) co) \<Rightarrow> ('b, 'w) co" where
  "co_bind (Return x) f = f x"
| "co_bind (Recv fd n k) f = Recv fd n (\<lambda>r. co_bind (k r) f)"
| "co_bind (Send fd data k) f = Send fd data (\<lambda>n. co_bind (k n) f)"
| "co_bind (Sys g p) f = Sys g (co_bind p f)"

text \<open>The meaning of a coroutine when every operation answers at once, and how many operations it awaits then.\<close>

primrec run_co :: "'w net_os \<Rightarrow> ('a, 'w) co \<Rightarrow> 'w \<Rightarrow> 'a \<times> 'w" where
  "run_co os (Return x) w = (x, w)"
| "run_co os (Recv fd n k) w = (case os_recv os fd n w of (r, w') \<Rightarrow> run_co os (k r) w')"
| "run_co os (Send fd data k) w = (case os_send os fd data w of (n, w') \<Rightarrow> run_co os (k n) w')"
| "run_co os (Sys g p) w = run_co os p (g w)"

primrec co_ops :: "'w net_os \<Rightarrow> ('a, 'w) co \<Rightarrow> 'w \<Rightarrow> nat" where
  "co_ops os (Return x) w = 0"
| "co_ops os (Recv fd n k) w = (case os_recv os fd n w of (r, w') \<Rightarrow> Suc (co_ops os (k r) w'))"
| "co_ops os (Send fd data k) w = (case os_send os fd data w of (n, w') \<Rightarrow> Suc (co_ops os (k n) w'))"
| "co_ops os (Sys g p) w = co_ops os p (g w)"

lemma run_co_bind: "run_co os (co_bind p f) w = (case run_co os p w of (x, w') \<Rightarrow> run_co os (f x) w')"
  by (induction p arbitrary: w) (simp_all split: prod.split)

section \<open>The kernel side of the ring\<close>

record 'w sock_ring =
  sr_capacity :: nat
  sr_sq :: "sqe list"
  sr_inflight :: "sqe list"
  sr_cq :: "cqe list"
  sr_mem :: "nat \<Rightarrow> byte"
  sr_world :: 'w
  sr_slow :: "bool list"

definition store_bytes :: "(nat \<Rightarrow> byte) \<Rightarrow> nat \<Rightarrow> bytes \<Rightarrow> nat \<Rightarrow> byte" where
  "store_bytes mem a bs i = (if a \<le> i \<and> i < a + length bs then bs ! (i - a) else mem i)"

definition load_bytes :: "(nat \<Rightarrow> byte) \<Rightarrow> nat \<Rightarrow> nat \<Rightarrow> bytes" where
  "load_bytes mem a n = map mem [a..<a + n]"

lemma load_store [simp]: "load_bytes (store_bytes mem a bs) a (length bs) = bs"
  by (rule nth_equalityI) (simp_all add: load_bytes_def store_bytes_def)

definition kernel_op :: "'w net_os \<Rightarrow> sqe_op \<Rightarrow> (nat \<Rightarrow> byte) \<times> 'w \<Rightarrow> int \<times> (nat \<Rightarrow> byte) \<times> 'w" where
  "kernel_op os op s =
     (case op of
        Op_recv fd buf n _ \<Rightarrow> (case os_recv os fd n (snd s) of ((res, data), w) \<Rightarrow> (res, store_bytes (fst s) buf data, w))
      | Op_send fd buf n _ \<Rightarrow> (case os_send os fd (load_bytes (fst s) buf n) (snd s) of (res, w) \<Rightarrow> (res, fst s, w))
      | _ \<Rightarrow> (0, s))"

definition is_timeout :: "sqe \<Rightarrow> bool" where
  "is_timeout e \<longleftrightarrow> (case sqe_op e of Op_timeout _ _ \<Rightarrow> True | _ \<Rightarrow> False)"

definition complete :: "'w net_os \<Rightarrow> sqe \<Rightarrow> 'w sock_ring \<Rightarrow> 'w sock_ring" where
  "complete os e r =
     (case kernel_op os (sqe_op e) (sr_mem r, sr_world r) of (res, mem, w) \<Rightarrow>
        r\<lparr>sr_mem := mem, sr_world := w,
          sr_cq := sr_cq r @ [\<lparr>cqe_res = res, cqe_flags = 0, cqe_user_data = sqe_user_data e\<rparr>]\<rparr>)"

text \<open>A turn of the kernel: in a slow one only the timeouts complete, otherwise everything submitted does, in order.\<close>

definition kernel_turn :: "'w net_os \<Rightarrow> 'w sock_ring \<Rightarrow> 'w sock_ring" where
  "kernel_turn os r =
     (if sr_slow r \<noteq> [] \<and> hd (sr_slow r)
      then fold (complete os) (filter is_timeout (sr_inflight r))
        (r\<lparr>sr_slow := tl (sr_slow r), sr_inflight := filter (\<lambda>e. \<not> is_timeout e) (sr_inflight r)\<rparr>)
      else fold (complete os) (sr_inflight r) (r\<lparr>sr_slow := tl (sr_slow r), sr_inflight := []\<rparr>))"

definition sock_lib :: "'w net_os \<Rightarrow> 'w \<Rightarrow> bool list \<Rightarrow> 'w sock_ring liburing" where
  "sock_lib os w0 slow = \<lparr>
     lu_init = (\<lambda>depth _. (0, \<lparr>sr_capacity = unat depth, sr_sq = [], sr_inflight = [], sr_cq = [], sr_mem = (\<lambda>_. 0), sr_world = w0, sr_slow = slow\<rparr>)),
     lu_exit = (\<lambda>r. r\<lparr>sr_sq := [], sr_inflight := [], sr_cq := []\<rparr>),
     lu_get_sqe = (\<lambda>r. if length (sr_sq r) < sr_capacity r
       then Some (r\<lparr>sr_sq := sr_sq r @ [\<lparr>sqe_op = Op_nop, sqe_flags = 0, sqe_user_data = 0\<rparr>]\<rparr>) else None),
     lu_fill_sqe = (\<lambda>e r. r\<lparr>sr_sq := butlast (sr_sq r) @ [e]\<rparr>),
     lu_submit = (\<lambda>r. (int (length (sr_sq r)), r\<lparr>sr_sq := [], sr_inflight := sr_inflight r @ sr_sq r\<rparr>)),
     lu_submit_and_wait = (\<lambda>_ r. (int (length (sr_sq r)), kernel_turn os (r\<lparr>sr_sq := [], sr_inflight := sr_inflight r @ sr_sq r\<rparr>))),
     lu_wait = (\<lambda>r. let r' = (if sr_cq r = [] then kernel_turn os r else r)
       in (case sr_cq r' of [] \<Rightarrow> None | c # _ \<Rightarrow> Some c, r')),
     lu_peek = (\<lambda>r. case sr_cq r of [] \<Rightarrow> None | c # _ \<Rightarrow> Some c),
     lu_seen = (\<lambda>r. r\<lparr>sr_cq := tl (sr_cq r)\<rparr>)\<rparr>"

interpretation sock_cq: completion_queue "sock_lib os w0 slow" sr_cq
  by unfold_locales (simp_all add: sock_lib_def)

section \<open>A coroutine on the ring\<close>

text \<open>
  The frame of the coroutine: the awaiter it is suspended on, with how it goes on, or its end; \<open>Aborted\<close> is the end of the program by an
  exception in an \<open>await_suspend\<close>. The awaiter is at address 0, the buffer at 0 of the memory, and the handle is 0.
\<close>

datatype ('a, 'w) co_frame =
    Await_recv AsyncRecvAwaiter "int \<times> bytes \<Rightarrow> ('a, 'w) co"
  | Await_send AsyncSendAwaiter "int \<Rightarrow> ('a, 'w) co"
  | Created
  | Finished 'a
  | Aborted

type_synonym ('a, 'w, 'c) ring_state =
  "('w sock_ring, io_cb, 'c, io_world \<times> ('a, 'w) co_frame) loop_state"

definition with_ring :: "('w sock_ring \<Rightarrow> 'w sock_ring) \<Rightarrow> ('w sock_ring, io_cb) IoUring \<Rightarrow> ('w sock_ring, io_cb) IoUring" where
  "with_ring f u = u\<lparr>iu_ring := f (iu_ring u)\<rparr>"

text \<open>Running a coroutine up to its next suspension.\<close>

primrec advance_co :: "'w sock_ring liburing \<Rightarrow> ('a, 'w) co \<Rightarrow> ('a, 'w, 'c) ring_state \<Rightarrow> ('a, 'w, 'c) ring_state" where
  "advance_co lib (Return x) s = (fst s, fst (snd s), fst (snd (snd s)), Finished x)"
| "advance_co lib (Recv fd n k) s =
     (case async_recv 0 fd 0 n 0 (fst (snd (snd s))) of (aw, io) \<Rightarrow>
      case AsyncRecvAwaiter_suspend lib aw 0 (fst s) of
        Inl _ \<Rightarrow> (fst s, fst (snd s), io, Aborted)
      | Inr u \<Rightarrow> (u, fst (snd s), io, Await_recv aw k))"
| "advance_co lib (Send fd data k) s =
     (case async_send 0 fd 0 (length data) 0 (fst (snd (snd s))) of (aw, io) \<Rightarrow>
      let u0 = with_ring (\<lambda>r. r\<lparr>sr_mem := store_bytes (sr_mem r) 0 data\<rparr>) (fst s)
      in case AsyncSendAwaiter_suspend lib aw 0 u0 of
        Inl _ \<Rightarrow> (u0, fst (snd s), io, Aborted)
      | Inr u \<Rightarrow> (u, fst (snd s), io, Await_send aw k))"
| "advance_co lib (Sys g p) s = advance_co lib p (with_ring (\<lambda>r. r\<lparr>sr_world := g (sr_world r)\<rparr>) (fst s), snd s)"

text \<open>The completion callback: the result is stored in the awaiter and the coroutine resumed, which reads it with \<open>await_resume\<close>.\<close>

definition co_run :: "'w sock_ring liburing \<Rightarrow> ('w sock_ring, io_cb, 'c EventLoop \<times> (io_world \<times> ('a, 'w) co_frame)) runner" where
  "co_run lib cb res fl s =
     (let (u, l, io0, fr) = s; io = snd (resume_run cb res fl (u, io0)) in
      case fr of
        Await_recv aw k \<Rightarrow>
          let n = await_resume (rva_this aw) io
          in advance_co lib (k (n, load_bytes (sr_mem (iu_ring u)) (rva_buffer aw) (nat n))) (u, l, io, fr)
      | Await_send aw k \<Rightarrow> advance_co lib (k (await_resume (sda_this aw) io)) (u, l, io, fr)
      | _ \<Rightarrow> (u, l, io, fr))"

text \<open>Rounds of the event loop, with the time limit \<open>run_loop\<close> gives each.\<close>

fun rounds :: "('r, 'cb, 'c, 'w) loop_env \<Rightarrow> ('r, 'cb, 'c EventLoop \<times> 'w) runner \<Rightarrow> nat \<Rightarrow> ('r, 'cb, 'c, 'w) loop_state \<Rightarrow>
    (loop_error + ('r, 'cb, 'c, 'w) loop_state) option" where
  "rounds env run 0 s = Some (Inr s)"
| "rounds env run (Suc n) s = Option.bind (EventLoop_run_once env run 10 s)
     (\<lambda>res. case res of Inl e \<Rightarrow> Some (Inl e) | Inr s' \<Rightarrow> rounds env run n s')"

section \<open>Between two rounds\<close>

text \<open>
  Between two rounds a coroutine rests at an operation that is in flight, or is finished. \<open>awaits p w i\<close> says that what is left to run is \<open>p\<close>,
  that the kernel's world is \<open>w\<close> and that the operation in flight took the identifier \<open>i\<close>.
\<close>

primrec settle :: "('a, 'w) co \<Rightarrow> 'w \<Rightarrow> ('a, 'w) co \<times> 'w" where
  "settle (Return x) w = (Return x, w)"
| "settle (Recv fd n k) w = (Recv fd n k, w)"
| "settle (Send fd data k) w = (Send fd data k, w)"
| "settle (Sys g p) w = settle p (g w)"

lemma run_co_settle: "run_co os (fst (settle p w)) (snd (settle p w)) = run_co os p w"
  by (induction p arbitrary: w) simp_all

lemma co_ops_settle: "co_ops os (fst (settle p w)) (snd (settle p w)) = co_ops os p w"
  by (induction p arbitrary: w) simp_all

definition entry :: "sqe_op \<Rightarrow> u64 \<Rightarrow> sqe" where
  "entry op i = \<lparr>sqe_op = op, sqe_flags = 0, sqe_user_data = i mod of_nat kMaxCallbacks\<rparr>"

definition armed :: "sqe_op \<Rightarrow> u64 \<Rightarrow> ('w sock_ring, io_cb) IoUring \<Rightarrow> bool" where
  "armed op i u \<longleftrightarrow> sr_inflight (iu_ring u) = [entry op i] \<and>
     iu_callbacks u (unat i mod kMaxCallbacks) = Some (Resume 0 0) \<and> iu_next_callback_id u = i + 1"

primrec pending :: "('a, 'w) co \<Rightarrow> u64 \<Rightarrow> ('w sock_ring, io_cb) IoUring \<Rightarrow> ('a, 'w) co_frame \<Rightarrow> bool" where
  "pending (Return x) i u fr \<longleftrightarrow> fr = Finished x \<and> sr_inflight (iu_ring u) = [] \<and> iu_next_callback_id u = i"
| "pending (Recv fd n k) i u fr \<longleftrightarrow> (\<exists>aw. fr = Await_recv aw k \<and> rva_this aw = 0 \<and> rva_buffer aw = 0) \<and> armed (Op_recv fd 0 n 0) i u"
| "pending (Send fd data k) i u fr \<longleftrightarrow> (\<exists>aw. fr = Await_send aw k \<and> sda_this aw = 0) \<and>
     load_bytes (sr_mem (iu_ring u)) 0 (length data) = data \<and> armed (Op_send fd 0 (length data) 0) i u"
| "pending (Sys g p) i u fr \<longleftrightarrow> False"

text \<open>The ring has room and the loop nothing else to do.\<close>

definition quiet :: "('a, 'w, 'c) ring_state \<Rightarrow> bool" where
  "quiet s \<longleftrightarrow> 0 < sr_capacity (iu_ring (ls_ring s)) \<and> sr_sq (iu_ring (ls_ring s)) = [] \<and>
     el_timers (ls_loop s) = [] \<and> el_pending_tasks (ls_loop s) = []"

definition awaits :: "('a, 'w) co \<Rightarrow> 'w \<Rightarrow> u64 \<Rightarrow> bool list \<Rightarrow> ('a, 'w, 'c) ring_state \<Rightarrow> bool" where
  "awaits p w i slow s \<longleftrightarrow> quiet s \<and> sr_world (iu_ring (ls_ring s)) = w \<and> sr_slow (iu_ring (ls_ring s)) = slow \<and>
     pending p i (ls_ring s) (snd (ls_world s))"

lemma suspend_sock:
  assumes "sr_sq (iu_ring u) = []" "0 < sr_capacity (iu_ring u)"
  shows "suspend_with (sock_lib os w0 sl) (prepare (sock_lib os w0 sl) op 0 cb) u =
    Inr (u\<lparr>iu_next_callback_id := iu_next_callback_id u + 1,
      iu_callbacks := (iu_callbacks u)(unat (iu_next_callback_id u) mod kMaxCallbacks := Some cb),
      iu_ring := (iu_ring u)\<lparr>sr_sq := [], sr_inflight := sr_inflight (iu_ring u) @ [entry op (iu_next_callback_id u)]\<rparr>\<rparr>)"
  using assms by (simp add: suspend_with_def noexcept_def prepare_def submit_def sock_lib_def set_callback_eq entry_def)

lemmas suspend_ops = AsyncRecvAwaiter_suspend_def AsyncSendAwaiter_suspend_def prepare_recv_def prepare_send_def
  async_recv_def async_send_def AsyncRecvAwaiter_ctor_def AsyncSendAwaiter_ctor_def

lemma advance_awaits:
  assumes "quiet s" "sr_inflight (iu_ring (ls_ring s)) = []"
  shows "awaits (fst (settle p (sr_world (iu_ring (ls_ring s))))) (snd (settle p (sr_world (iu_ring (ls_ring s)))))
      (iu_next_callback_id (ls_ring s)) (sr_slow (iu_ring (ls_ring s))) (advance_co (sock_lib os w0 sl) p s) \<and>
    sr_cq (iu_ring (ls_ring (advance_co (sock_lib os w0 sl) p s))) = sr_cq (iu_ring (ls_ring s))"
  using assms
proof (induction p arbitrary: s)
  case (Sys g p)
  let ?s = "(with_ring (\<lambda>r. r\<lparr>sr_world := g (sr_world r)\<rparr>) (fst s), snd s)"
  have "quiet ?s" "sr_inflight (iu_ring (ls_ring ?s)) = []" using Sys.prems by (simp_all add: quiet_def with_ring_def)
  from Sys.IH [OF this] show ?case by (simp add: with_ring_def)
qed (auto simp: awaits_def quiet_def suspend_ops suspend_sock armed_def with_ring_def)

section \<open>A round\<close>

lemma run_once_quiet:
  assumes "quiet s"
  shows "EventLoop_run_once env run t s =
    Option.bind (run_once (le_lib env) run t s) (\<lambda>res. Some (case res of Inl e \<Rightarrow> Inl (RingFault e) | Inr (_, s') \<Rightarrow> Inr s'))"
proof -
  have "(ls_ring s, ls_loop s\<lparr>el_pending_tasks := []\<rparr>, ls_world s) = s" using assms by (simp add: quiet_def prod_eq_iff)
  with assms show ?thesis
    by (simp add: EventLoop_run_once_def process_timers_def process_timers_loop.simps process_tasks_def with_loop_def quiet_def Let_def)
qed

definition tick_entry :: sqe where
  "tick_entry = \<lparr>sqe_op = Op_timeout (0, 10000000) 1, sqe_flags = 0, sqe_user_data = 0\<rparr>"

definition tick_cqe :: cqe where
  "tick_cqe = \<lparr>cqe_res = 0, cqe_flags = 0, cqe_user_data = 0\<rparr>"

lemma arm_sock:
  assumes "quiet s"
  shows "run_once_arm (sock_lib os w0 sl) 10 (ls_ring s) =
    Inr (with_ring (\<lambda>r. r\<lparr>sr_inflight := sr_inflight r @ [tick_entry]\<rparr>) (ls_ring s))"
  using assms by (simp add: run_once_arm_def quiet_def sock_lib_def submit_def tick_entry_def with_ring_def)

lemma complete_tick: "complete os tick_entry r = r\<lparr>sr_cq := sr_cq r @ [tick_cqe]\<rparr>"
  by (simp add: complete_def tick_entry_def kernel_op_def tick_cqe_def)

lemma ring_seen_sock: "ring_seen (sock_lib os w0 sl) s = (with_ring (\<lambda>r. r\<lparr>sr_cq := tl (sr_cq r)\<rparr>) (fst s), snd s)"
  by (simp add: ring_seen_def sock_lib_def with_ring_def)

lemma process_all_ticks:
  assumes "sr_cq (iu_ring (fst s)) \<in> {[], [tick_cqe]}"
  shows "\<exists>n. process_all_cqe (sock_lib os w0 sl) run s = Some (Inr (n, (with_ring (\<lambda>r. r\<lparr>sr_cq := []\<rparr>) (fst s), snd s)))"
proof -
  have e: "process_all_cqe (sock_lib os w0 sl) run t = Some (Inr (0, t))" if "sr_cq (iu_ring (fst t)) = []" for t
    using that by (subst process_all_cqe.simps) (simp add: peek_cqe_def sock_lib_def)
  show ?thesis
  proof (cases "sr_cq (iu_ring (fst s)) = []")
    case True
    then have "with_ring (\<lambda>r. r\<lparr>sr_cq := []\<rparr>) (fst s) = fst s" by (simp add: with_ring_def)
    with e [OF True] show ?thesis by (simp add: prod_eq_iff)
  next
    case False
    with assms have c: "sr_cq (iu_ring (fst s)) = [tick_cqe]" by simp
    then have "process_cqe (sock_lib os w0 sl) run tick_cqe s = Inr (with_ring (\<lambda>r. r\<lparr>sr_cq := []\<rparr>) (fst s), snd s)"
      by (simp add: process_cqe_def get_callback_def tick_cqe_def ring_seen_sock with_ring_def)
    with c show ?thesis
      by (subst process_all_cqe.simps) (simp add: peek_cqe_def sock_cq.peek_head e with_ring_def)
  qed
qed

text \<open>Whatever the first completion does, a round ends with an empty queue if only the tick is left behind it.\<close>

lemma round_by_wait:
  assumes "quiet s" "le_lib env = sock_lib os w0 sl"
    and "run_once_wait (sock_lib os w0 sl) run (with_ring (\<lambda>r. r\<lparr>sr_inflight := sr_inflight r @ [tick_entry]\<rparr>) (fst s), snd s) = Inr s1"
    and "sr_cq (iu_ring (fst s1)) \<in> {[], [tick_cqe]}"
  shows "EventLoop_run_once env run 10 s = Some (Inr (with_ring (\<lambda>r. r\<lparr>sr_cq := []\<rparr>) (fst s1), snd s1))"
  using process_all_ticks [OF assms(4), of os w0 sl run] assms(3)
  by (auto simp: run_once_quiet [OF assms(1)] assms(2) run_once_def arm_sock [OF assms(1)])

text \<open>Turns of the kernel with the tick of the round and at most one other entry in flight.\<close>

lemma is_timeout_simps [simp]:
  "is_timeout tick_entry" "\<not> is_timeout (entry (Op_recv fd b n f) i)" "\<not> is_timeout (entry (Op_send fd b n f) i)"
  by (simp_all add: is_timeout_def tick_entry_def entry_def)

lemma turn_slow:
  assumes "sr_slow r = True # bs" "sr_cq r = []" "filter is_timeout (sr_inflight r) = []"
  shows "kernel_turn os (r\<lparr>sr_inflight := sr_inflight r @ [tick_entry]\<rparr>) = r\<lparr>sr_slow := bs, sr_cq := [tick_cqe]\<rparr>"
proof -
  have "filter (\<lambda>e. \<not> is_timeout e) (sr_inflight r) = sr_inflight r" using assms(3) by (simp add: filter_id_conv filter_empty_conv)
  with assms show ?thesis by (simp add: kernel_turn_def complete_tick)
qed

lemma turn_idle:
  assumes "sr_cq r = []" "sr_inflight r = []"
  shows "kernel_turn os (r\<lparr>sr_inflight := [tick_entry]\<rparr>) = r\<lparr>sr_slow := tl (sr_slow r), sr_cq := [tick_cqe]\<rparr>"
  using assms by (simp add: kernel_turn_def complete_tick)

definition on_time :: "bool list \<Rightarrow> bool" where
  "on_time slow \<longleftrightarrow> \<not> (slow \<noteq> [] \<and> hd slow)"

lemma turn_fast:
  assumes "on_time (sr_slow r)" "sr_cq r = []" "sr_inflight r = [e]"
    and "kernel_op os (sqe_op e) (sr_mem r, sr_world r) = (res, mem, w)"
  shows "kernel_turn os (r\<lparr>sr_inflight := [e, tick_entry]\<rparr>) = r\<lparr>sr_slow := tl (sr_slow r), sr_inflight := [], sr_mem := mem,
    sr_world := w, sr_cq := [\<lparr>cqe_res = res, cqe_flags = 0, cqe_user_data = sqe_user_data e\<rparr>, tick_cqe]\<rparr>"
  using assms by (auto simp: kernel_turn_def on_time_def complete_tick) (simp_all add: complete_def)

lemma wait_sock:
  assumes "sr_cq (iu_ring u) = []" "sr_cq (kernel_turn os (iu_ring u)) = c # cs"
  shows "wait_cqe (sock_lib os w0 sl) u = (Some c, with_ring (kernel_turn os) u)"
  using assms by (simp add: wait_cqe_def sock_lib_def with_ring_def)

text \<open>A round in which the kernel completes the tick alone.\<close>

lemma round_tick_only:
  assumes "quiet s" "le_lib env = sock_lib os w0 sl" "sr_cq (iu_ring (ls_ring s)) = []"
    and "kernel_turn os ((iu_ring (ls_ring s))\<lparr>sr_inflight := sr_inflight (iu_ring (ls_ring s)) @ [tick_entry]\<rparr>) =
      (iu_ring (ls_ring s))\<lparr>sr_slow := bs, sr_cq := [tick_cqe]\<rparr>"
  shows "EventLoop_run_once env run 10 s = Some (Inr (with_ring (\<lambda>r. r\<lparr>sr_slow := bs\<rparr>) (ls_ring s), snd s))"
proof -
  let ?u = "with_ring (\<lambda>r. r\<lparr>sr_inflight := sr_inflight r @ [tick_entry]\<rparr>) (fst s)"
  have "wait_cqe (sock_lib os w0 sl) ?u = (Some tick_cqe, with_ring (kernel_turn os) ?u)"
    by (rule wait_sock) (use assms(3,4) in \<open>simp_all add: with_ring_def\<close>)
  moreover have "with_ring (kernel_turn os) ?u = with_ring (\<lambda>r. r\<lparr>sr_slow := bs, sr_cq := [tick_cqe]\<rparr>) (fst s)"
    using assms(4) by (simp add: with_ring_def)
  ultimately have "run_once_wait (sock_lib os w0 sl) run (?u, snd s) = Inr (with_ring (\<lambda>r. r\<lparr>sr_slow := bs, sr_cq := []\<rparr>) (fst s), snd s)"
    by (simp add: run_once_wait_def ring_seen_sock with_ring_def tick_cqe_def)
  from round_by_wait [OF assms(1,2) this] assms(3) show ?thesis by (simp add: with_ring_def)
qed

lemma pending_in_flight: "pending p i u fr \<Longrightarrow> filter is_timeout (sr_inflight (iu_ring u)) = []"
  by (cases p) (auto simp: armed_def)

lemma pending_slow: "pending p i (with_ring (\<lambda>r. r\<lparr>sr_slow := bs\<rparr>) u) fr = pending p i u fr"
  by (cases p) (auto simp: armed_def with_ring_def)

lemma round_slow:
  assumes "awaits p w i (True # bs) s" "sr_cq (iu_ring (ls_ring s)) = []" "le_lib env = sock_lib os w0 sl"
  shows "\<exists>s'. EventLoop_run_once env run 10 s = Some (Inr s') \<and> awaits p w i bs s' \<and> sr_cq (iu_ring (ls_ring s')) = []"
proof -
  have q: "quiet s" and sl: "sr_slow (iu_ring (ls_ring s)) = True # bs" and pend: "pending p i (ls_ring s) (snd (ls_world s))"
    using assms(1) by (simp_all add: awaits_def)
  note turn = turn_slow [OF sl assms(2) pending_in_flight [OF pend], of os]
  from round_tick_only [OF q assms(3,2) turn] assms(1,2) show ?thesis
    by (auto simp: awaits_def quiet_def pending_slow) (auto simp: with_ring_def)
qed

text \<open>What is left to run after the operation a coroutine rests at has answered.\<close>

primrec co_next :: "'w net_os \<Rightarrow> ('a, 'w) co \<Rightarrow> 'w \<Rightarrow> ('a, 'w) co \<times> 'w" where
  "co_next os (Return x) w = (Return x, w)"
| "co_next os (Recv fd n k) w = (case os_recv os fd n w of (r, w') \<Rightarrow> settle (k r) w')"
| "co_next os (Send fd data k) w = (case os_send os fd data w of (n, w') \<Rightarrow> settle (k n) w')"
| "co_next os (Sys g p) w = settle p (g w)"

lemma run_co_next: "run_co os (fst (co_next os p w)) (snd (co_next os p w)) = run_co os p w"
  by (cases p) (simp_all add: run_co_settle split: prod.split)

lemma co_ops_next:
  assumes "pending p i u fr"
  shows "co_ops os p w = (if fr = Finished (fst (run_co os p w)) then 0 else Suc (co_ops os (fst (co_next os p w)) (snd (co_next os p w))))"
  using assms by (cases p) (auto simp: co_ops_settle split: prod.split)

text \<open>What the code relies on from a receive: the count is the number of bytes it put into the buffer, none on an error.\<close>

definition recv_counts :: "'w net_os \<Rightarrow> bool" where
  "recv_counts os \<longleftrightarrow> (\<forall>fd n w. length (snd (fst (os_recv os fd n w))) = nat (fst (fst (os_recv os fd n w))))"

text \<open>A round in which the operation completes: its callback runs first.\<close>

lemma wait_completes:
  assumes "quiet s" "sr_cq (iu_ring (ls_ring s)) = []" "on_time (sr_slow (iu_ring (ls_ring s)))"
    and "armed op i (ls_ring s)" "kernel_op os op (sr_mem (iu_ring (ls_ring s)), sr_world (iu_ring (ls_ring s))) = (res, mem, w)"
  defines "u2 \<equiv> with_ring (\<lambda>r. r\<lparr>sr_slow := tl (sr_slow r), sr_inflight := [], sr_mem := mem, sr_world := w,
      sr_cq := [\<lparr>cqe_res = res, cqe_flags = 0, cqe_user_data = i mod of_nat kMaxCallbacks\<rparr>, tick_cqe]\<rparr>) (ls_ring s)"
  shows "run_once_wait (sock_lib os w0 sl) run (with_ring (\<lambda>r. r\<lparr>sr_inflight := sr_inflight r @ [tick_entry]\<rparr>) (fst s), snd s) =
    (if unat i mod kMaxCallbacks = 0 then Inr (ring_seen (sock_lib os w0 sl) (u2, snd s))
     else Inr (ring_seen (sock_lib os w0 sl) (run (Resume 0 0) res 0 (u2, snd s))))"
proof -
  let ?u = "with_ring (\<lambda>r. r\<lparr>sr_inflight := sr_inflight r @ [tick_entry]\<rparr>) (fst s)"
  let ?c = "\<lparr>cqe_res = res, cqe_flags = 0, cqe_user_data = i mod of_nat kMaxCallbacks\<rparr>"
  have fl: "sr_inflight (iu_ring (ls_ring s)) = [entry op i]" and cb: "iu_callbacks (ls_ring s) (unat i mod kMaxCallbacks) = Some (Resume 0 0)"
    using assms(4) by (simp_all add: armed_def)
  have t: "with_ring (kernel_turn os) ?u = u2"
    using turn_fast [OF assms(3,2) fl, of os res mem w] assms(5) fl by (simp add: with_ring_def u2_def entry_def)
  moreover have "wait_cqe (sock_lib os w0 sl) ?u = (Some ?c, with_ring (kernel_turn os) ?u)"
  proof (rule wait_sock)
    show "sr_cq (iu_ring ?u) = []" using assms(2) by (simp add: with_ring_def)
    show "sr_cq (kernel_turn os (iu_ring ?u)) = [?c, tick_cqe]" using arg_cong [OF t, of "\<lambda>u. sr_cq (iu_ring u)"]
      by (simp add: with_ring_def u2_def)
  qed
  moreover have "unat (cqe_user_data ?c) = unat i mod kMaxCallbacks" by (simp add: kMax_mod)
  note get_callback_slot [OF this, of u2]
  moreover have "cqe_user_data ?c = 0 \<longleftrightarrow> unat i mod kMaxCallbacks = 0" using kMax_mod [of i] by (metis cqe.select_convs(3) unat_eq_zero)
  ultimately show ?thesis using cb
    by (auto simp: run_once_wait_def process_cqe_def u2_def with_ring_def)
qed

lemma awaits_seen: "awaits p w i slow (with_ring (\<lambda>r. r\<lparr>sr_cq := cs\<rparr>) u, x) = awaits p w i slow (u, x)"
  by (cases p) (auto simp: awaits_def quiet_def with_ring_def armed_def)

lemma round_resumes:
  assumes "quiet s" "sr_cq (iu_ring (ls_ring s)) = []" "on_time (sr_slow (iu_ring (ls_ring s)))" "le_lib env = sock_lib os w0 sl"
    and "armed op i (ls_ring s)" "kernel_op os op (sr_mem (iu_ring (ls_ring s)), sr_world (iu_ring (ls_ring s))) = (res, mem, w)"
    and "unat i mod kMaxCallbacks \<noteq> 0"
    and "\<And>u. sr_mem (iu_ring u) = mem \<Longrightarrow> \<exists>io fr. co_run (sock_lib os w0 sl) (Resume 0 0) res 0 (u, snd s) = advance_co (sock_lib os w0 sl) q (u, ls_loop s, io, fr)"
  shows "\<exists>s'. EventLoop_run_once env (co_run (sock_lib os w0 sl)) 10 s = Some (Inr s') \<and>
    awaits (fst (settle q w)) (snd (settle q w)) (i + 1) (tl (sr_slow (iu_ring (ls_ring s)))) s' \<and> sr_cq (iu_ring (ls_ring s')) = []"
proof -
  let ?lib = "sock_lib os w0 sl"
  define u2 where "u2 = with_ring (\<lambda>r. r\<lparr>sr_slow := tl (sr_slow r), sr_inflight := [], sr_mem := mem, sr_world := w,
      sr_cq := [\<lparr>cqe_res = res, cqe_flags = 0, cqe_user_data = i mod of_nat kMaxCallbacks\<rparr>, tick_cqe]\<rparr>) (ls_ring s)"
  have "sr_mem (iu_ring u2) = mem" by (simp add: u2_def with_ring_def)
  from assms(8) [OF this] obtain io fr where run: "co_run ?lib (Resume 0 0) res 0 (u2, snd s) = advance_co ?lib q (u2, ls_loop s, io, fr)"
    by blast
  let ?s2 = "(u2, ls_loop s, io, fr)"
  have "quiet ?s2" "sr_inflight (iu_ring (ls_ring ?s2)) = []" using assms(1) by (simp_all add: quiet_def u2_def with_ring_def)
  from advance_awaits [OF this, of q os w0 sl] have adv: "awaits (fst (settle q w)) (snd (settle q w)) (i + 1) (tl (sr_slow (iu_ring (ls_ring s)))) (advance_co ?lib q ?s2)"
      "sr_cq (iu_ring (ls_ring (advance_co ?lib q ?s2))) = [\<lparr>cqe_res = res, cqe_flags = 0, cqe_user_data = i mod of_nat kMaxCallbacks\<rparr>, tick_cqe]"
    using assms(5) by (simp_all add: u2_def with_ring_def armed_def)
  let ?s3 = "ring_seen ?lib (advance_co ?lib q ?s2)"
  have w: "run_once_wait ?lib (co_run ?lib) (with_ring (\<lambda>r. r\<lparr>sr_inflight := sr_inflight r @ [tick_entry]\<rparr>) (fst s), snd s) = Inr ?s3"
    using wait_completes [OF assms(1-3,5,6), of w0 sl "co_run ?lib"] assms(7) run by (simp add: u2_def)
  have cq: "sr_cq (iu_ring (fst ?s3)) = [tick_cqe]" using adv(2) by (simp add: ring_seen_sock with_ring_def)
  have "awaits (fst (settle q w)) (snd (settle q w)) (i + 1) (tl (sr_slow (iu_ring (ls_ring s)))) (with_ring (\<lambda>r. r\<lparr>sr_cq := []\<rparr>) (fst ?s3), snd ?s3)"
    using adv by (cases "advance_co ?lib q ?s2") (simp add: ring_seen_sock awaits_seen with_ring_def [of _ "with_ring _ _"], simp add: with_ring_def awaits_seen [unfolded with_ring_def])
  with round_by_wait [OF assms(1,4) w] cq show ?thesis by (simp add: with_ring_def)
qed

lemma co_run_recv:
  assumes "rva_this aw = 0" "rva_buffer aw = 0"
  shows "co_run lib (Resume 0 0) res fl (u, l, io, Await_recv aw k) =
    advance_co lib (k (res, load_bytes (sr_mem (iu_ring u)) 0 (nat res))) (u, l, snd (resume_run (Resume 0 0) res fl (u, io)), Await_recv aw k)"
  using assms by (simp add: co_run_def resume_run_def await_resume_def)

lemma co_run_send:
  assumes "sda_this aw = 0"
  shows "co_run lib (Resume 0 0) res fl (u, l, io, Await_send aw k) =
    advance_co lib (k res) (u, l, snd (resume_run (Resume 0 0) res fl (u, io)), Await_send aw k)"
  using assms by (simp add: co_run_def resume_run_def await_resume_def)

lemma round_fast:
  assumes "awaits p w i slow s" "sr_cq (iu_ring (ls_ring s)) = []" "on_time slow" "le_lib env = sock_lib os w0 sl"
    and "recv_counts os" "unat i mod kMaxCallbacks \<noteq> 0" "co_ops os p w \<noteq> 0"
  shows "\<exists>s'. EventLoop_run_once env (co_run (sock_lib os w0 sl)) 10 s = Some (Inr s') \<and>
    awaits (fst (co_next os p w)) (snd (co_next os p w)) (i + 1) (tl slow) s' \<and> sr_cq (iu_ring (ls_ring s')) = []"
proof -
  let ?r = "iu_ring (ls_ring s)"
  have q: "quiet s" and w: "sr_world ?r = w" and sl: "sr_slow ?r = slow" and pend: "pending p i (ls_ring s) (snd (ls_world s))"
    using assms(1) by (simp_all add: awaits_def)
  obtain l io fr where run_s: "snd s = (l, io, fr)" by (metis surj_pair)
  note resumes = round_resumes [OF q assms(2) _ assms(4) _ _ assms(6), unfolded sl, OF assms(3)]
  show ?thesis
  proof (cases p)
    case (Recv fd n k)
    obtain res data w' where r: "os_recv os fd n w = ((res, data), w')" by (metis surj_pair)
    with assms(5) have len: "length data = nat res" by (metis recv_counts_def fst_conv snd_conv)
    from pend Recv obtain aw where aw: "snd (ls_world s) = Await_recv aw k" "rva_this aw = 0" "rva_buffer aw = 0"
      and ar: "armed (Op_recv fd 0 n 0) i (ls_ring s)" by auto
    have "kernel_op os (Op_recv fd 0 n 0) (sr_mem ?r, sr_world ?r) = (res, store_bytes (sr_mem ?r) 0 data, w')"
      by (simp add: kernel_op_def w r)
    moreover have "\<exists>io fr. co_run (sock_lib os w0 sl) (Resume 0 0) res 0 (u, snd s) = advance_co (sock_lib os w0 sl) (k (res, data)) (u, ls_loop s, io, fr)"
      if "sr_mem (iu_ring u) = store_bytes (sr_mem ?r) 0 data" for u
      using aw that len load_store [of "sr_mem ?r" 0 data] by (auto simp: run_s co_run_recv)
    ultimately show ?thesis using resumes [OF ar] Recv r by simp
  next
    case (Send fd data k)
    obtain res w' where r: "os_send os fd data w = (res, w')" by fastforce
    from pend Send obtain aw where aw: "snd (ls_world s) = Await_send aw k" "sda_this aw = 0"
      and ar: "armed (Op_send fd 0 (length data) 0) i (ls_ring s)" and ld: "load_bytes (sr_mem ?r) 0 (length data) = data" by auto
    have "kernel_op os (Op_send fd 0 (length data) 0) (sr_mem ?r, sr_world ?r) = (res, sr_mem ?r, w')"
      by (simp add: kernel_op_def w r ld)
    moreover have "\<exists>io fr. co_run (sock_lib os w0 sl) (Resume 0 0) res 0 (u, snd s) = advance_co (sock_lib os w0 sl) (k res) (u, ls_loop s, io, fr)"
      for u
      using aw by (auto simp: run_s co_run_send)
    ultimately show ?thesis using resumes [OF ar] Send r by simp
  qed (use pend assms(7) in auto)
qed

section \<open>Whole runs\<close>

lemma rounds_add:
  "rounds env run m s = Some (Inr s') \<Longrightarrow> rounds env run (m + n) s = rounds env run n s'"
proof (induction m arbitrary: s)
  case (Suc m)
  then obtain s1 where "EventLoop_run_once env run 10 s = Some (Inr s1)" "rounds env run m s1 = Some (Inr s')"
    by (cases "EventLoop_run_once env run 10 s"; cases "the (EventLoop_run_once env run 10 s)") auto
  with Suc.IH show ?case by simp
qed simp

lemma run_next:
  assumes "awaits p w (of_nat j) slow s" "sr_cq (iu_ring (ls_ring s)) = []" "le_lib env = sock_lib os w0 sl" "recv_counts os"
    and "0 < j" "j < kMaxCallbacks" "co_ops os p w \<noteq> 0"
  shows "\<exists>n s' slow'. rounds env (co_run (sock_lib os w0 sl)) n s = Some (Inr s') \<and>
    awaits (fst (co_next os p w)) (snd (co_next os p w)) (of_nat (Suc j)) slow' s' \<and> sr_cq (iu_ring (ls_ring s')) = []"
  using assms(1,2)
proof (induction slow arbitrary: s)
  case Nil
  have j: "unat (of_nat j :: u64) mod kMaxCallbacks \<noteq> 0"
    using assms(5,6) by (simp add: unat_of_nat kMaxCallbacks_def take_bit_nat_eq_self)
  from round_fast [OF Nil.prems _ assms(3,4) j assms(7)] obtain s' where
      "EventLoop_run_once env (co_run (sock_lib os w0 sl)) 10 s = Some (Inr s')"
      "awaits (fst (co_next os p w)) (snd (co_next os p w)) (of_nat j + 1) [] s'" "sr_cq (iu_ring (ls_ring s')) = []"
    by (auto simp: on_time_def)
  then show ?case by (intro exI [of _ 1]) (auto simp: add.commute)
next
  case (Cons b bs)
  show ?case
  proof (cases b)
    case True
    with round_slow [OF _ Cons.prems(2) assms(3), of p w "of_nat j" bs "co_run (sock_lib os w0 sl)"] Cons.prems(1) obtain s1 where
        "EventLoop_run_once env (co_run (sock_lib os w0 sl)) 10 s = Some (Inr s1)" "awaits p w (of_nat j) bs s1"
        "sr_cq (iu_ring (ls_ring s1)) = []" by auto
    moreover from Cons.IH [OF this(2,3)] obtain n s' slow' where "rounds env (co_run (sock_lib os w0 sl)) n s1 = Some (Inr s')"
        "awaits (fst (co_next os p w)) (snd (co_next os p w)) (of_nat (Suc j)) slow' s'" "sr_cq (iu_ring (ls_ring s')) = []" by blast
    ultimately show ?thesis by (intro exI [of _ "Suc n"]) auto
  next
    case False
    have j: "unat (of_nat j :: u64) mod kMaxCallbacks \<noteq> 0"
      using assms(5,6) by (simp add: unat_of_nat kMaxCallbacks_def take_bit_nat_eq_self)
    from round_fast [OF Cons.prems _ assms(3,4) j assms(7)] False obtain s' where
        "EventLoop_run_once env (co_run (sock_lib os w0 sl)) 10 s = Some (Inr s')"
        "awaits (fst (co_next os p w)) (snd (co_next os p w)) (of_nat j + 1) bs s'" "sr_cq (iu_ring (ls_ring s')) = []"
      by (auto simp: on_time_def)
    then show ?thesis by (intro exI [of _ 1]) (auto simp: add.commute)
  qed
qed

lemma run_to_end:
  assumes "awaits p w (of_nat j) slow s" "sr_cq (iu_ring (ls_ring s)) = []" "le_lib env = sock_lib os w0 sl" "recv_counts os"
    and "0 < j" "j + co_ops os p w \<le> kMaxCallbacks"
  shows "\<exists>n s'. rounds env (co_run (sock_lib os w0 sl)) n s = Some (Inr s') \<and>
    snd (ls_world s') = Finished (fst (run_co os p w)) \<and> sr_world (iu_ring (ls_ring s')) = snd (run_co os p w) \<and>
    sr_inflight (iu_ring (ls_ring s')) = []"
  using assms(1,2,5,6)
proof (induction "co_ops os p w" arbitrary: p w j slow s rule: less_induct)
  case less
  have pend: "pending p (of_nat j) (ls_ring s) (snd (ls_world s))" and w: "sr_world (iu_ring (ls_ring s)) = w"
    using less.prems(1) by (simp_all add: awaits_def)
  show ?case
  proof (cases "co_ops os p w = 0")
    case True
    with pend w show ?thesis by (intro exI [of _ 0] exI [of _ s]) (cases p; auto split: prod.splits)
  next
    case False
    with co_ops_next [OF pend, of os w] have ops: "co_ops os p w = Suc (co_ops os (fst (co_next os p w)) (snd (co_next os p w)))"
      by (simp split: if_splits)
    with less.prems(4) have "j < kMaxCallbacks" by simp
    from run_next [OF less.prems(1,2) assms(3,4) less.prems(3) this False] obtain n s1 slow1 where
        s1: "rounds env (co_run (sock_lib os w0 sl)) n s = Some (Inr s1)"
        "awaits (fst (co_next os p w)) (snd (co_next os p w)) (of_nat (Suc j)) slow1 s1" "sr_cq (iu_ring (ls_ring s1)) = []" by blast
    have "co_ops os (fst (co_next os p w)) (snd (co_next os p w)) < co_ops os p w" using ops by simp
    from less.hyps [OF this s1(2,3)] ops less.prems(4) obtain m s' where
        "rounds env (co_run (sock_lib os w0 sl)) m s1 = Some (Inr s')" "snd (ls_world s') = Finished (fst (run_co os p w))"
        "sr_world (iu_ring (ls_ring s')) = snd (run_co os p w)" "sr_inflight (iu_ring (ls_ring s')) = []"
      by (auto simp: run_co_next)
    with rounds_add [OF s1(1), of m] show ?thesis by (intro exI [of _ "n + m"]) auto
  qed
qed

text \<open>The operation with identifier 65536: its completion has user data 0 and wakes nobody.\<close>

definition stuck :: "('a, 'w, 'c) ring_state \<Rightarrow> bool" where
  "stuck s \<longleftrightarrow> quiet s \<and> sr_inflight (iu_ring (ls_ring s)) = [] \<and> sr_cq (iu_ring (ls_ring s)) = [] \<and>
     (\<forall>x. snd (ls_world s) \<noteq> Finished x)"

lemma stuck_round:
  assumes "stuck s" "le_lib env = sock_lib os w0 sl"
  shows "\<exists>s'. EventLoop_run_once env run 10 s = Some (Inr s') \<and> stuck s'"
proof -
  have q: "quiet s" "sr_inflight (iu_ring (ls_ring s)) = []" "sr_cq (iu_ring (ls_ring s)) = []" using assms(1) by (simp_all add: stuck_def)
  from round_tick_only [OF q(1) assms(2) q(3), of "tl (sr_slow (iu_ring (ls_ring s)))" run] turn_idle [OF q(3,2), of os] q(2) assms(1)
  show ?thesis by (auto simp: stuck_def quiet_def with_ring_def)
qed

lemma lost_round:
  assumes "quiet s" "sr_cq (iu_ring (ls_ring s)) = []" "on_time (sr_slow (iu_ring (ls_ring s)))" "le_lib env = sock_lib os w0 sl"
    and "armed op i (ls_ring s)" "unat i mod kMaxCallbacks = 0" "\<forall>x. snd (ls_world s) \<noteq> Finished x"
  shows "\<exists>s'. EventLoop_run_once env run 10 s = Some (Inr s') \<and> stuck s'"
proof -
  let ?r = "iu_ring (ls_ring s)"
  obtain res mem w where k: "kernel_op os op (sr_mem ?r, sr_world ?r) = (res, mem, w)" by (metis surj_pair)
  let ?u = "with_ring (\<lambda>r. r\<lparr>sr_slow := tl (sr_slow r), sr_inflight := [], sr_mem := mem, sr_world := w,
      sr_cq := [\<lparr>cqe_res = res, cqe_flags = 0, cqe_user_data = i mod of_nat kMaxCallbacks\<rparr>, tick_cqe]\<rparr>) (ls_ring s)"
  have "run_once_wait (sock_lib os w0 sl) run (with_ring (\<lambda>r. r\<lparr>sr_inflight := sr_inflight r @ [tick_entry]\<rparr>) (fst s), snd s) =
      Inr (ring_seen (sock_lib os w0 sl) (?u, snd s))"
    using wait_completes [OF assms(1-3,5) k, of w0 sl run] assms(6) by simp
  from round_by_wait [OF assms(1,4) this] show ?thesis
    using assms(1,7) by (simp add: ring_seen_sock with_ring_def stuck_def quiet_def)
qed

definition doomed :: "'w net_os \<Rightarrow> ('a, 'w, 'c) ring_state \<Rightarrow> bool" where
  "doomed os s \<longleftrightarrow> stuck s \<or> sr_cq (iu_ring (ls_ring s)) = [] \<and>
     (\<exists>p w j slow. awaits p w (of_nat j) slow s \<and> 0 < j \<and> j \<le> kMaxCallbacks \<and> kMaxCallbacks < j + co_ops os p w)"

lemma doomed_unfinished: "doomed os s \<Longrightarrow> snd (ls_world s) \<noteq> Finished x"
proof -
  have "snd (ls_world s) \<noteq> Finished x" if "awaits p w i slow s" "co_ops os p w \<noteq> 0" for p w i slow
    using that by (cases p) (auto simp: awaits_def)
  then show "doomed os s \<Longrightarrow> snd (ls_world s) \<noteq> Finished x" by (fastforce simp: doomed_def stuck_def)
qed

lemma doomed_round:
  assumes "doomed os s" "le_lib env = sock_lib os w0 sl" "recv_counts os"
  shows "\<exists>s'. EventLoop_run_once env (co_run (sock_lib os w0 sl)) 10 s = Some (Inr s') \<and> doomed os s'"
proof (cases "stuck s")
  case True
  from stuck_round [OF this assms(2), of "co_run (sock_lib os w0 sl)"] show ?thesis by (auto simp: doomed_def)
next
  case False
  with assms(1) obtain p w j slow where cq: "sr_cq (iu_ring (ls_ring s)) = []" and aw: "awaits p w (of_nat j) slow s"
    and j: "0 < j" "j \<le> kMaxCallbacks" "kMaxCallbacks < j + co_ops os p w" by (auto simp: doomed_def)
  have q: "quiet s" "sr_slow (iu_ring (ls_ring s)) = slow" and pend: "pending p (of_nat j) (ls_ring s) (snd (ls_world s))"
    using aw by (simp_all add: awaits_def)
  have unfin: "snd (ls_world s) \<noteq> Finished x" for x using doomed_unfinished [OF assms(1)] .
  have uj: "unat (of_nat j :: u64) = j" using j(2) by (simp add: unat_of_nat kMaxCallbacks_def take_bit_nat_eq_self)
  consider (late) bs where "slow = True # bs" | (on) "on_time slow" "j < kMaxCallbacks" | (lost) "on_time slow" "j = kMaxCallbacks"
    using j(2) by (cases slow) (auto simp: on_time_def le_less)
  then show ?thesis
  proof cases
    case late
    with round_slow [OF _ cq assms(2), of p w "of_nat j" bs "co_run (sock_lib os w0 sl)"] aw j show ?thesis by (fastforce simp: doomed_def)
  next
    case on
    have "unat (of_nat j :: u64) mod kMaxCallbacks \<noteq> 0" using on(2) j(1) uj by simp
    from round_fast [OF aw cq on(1) assms(2,3) this] j obtain s' where
        s': "EventLoop_run_once env (co_run (sock_lib os w0 sl)) 10 s = Some (Inr s')"
        "awaits (fst (co_next os p w)) (snd (co_next os p w)) (of_nat (Suc j)) (tl slow) s'" "sr_cq (iu_ring (ls_ring s')) = []"
      by (auto simp: add.commute)
    have "co_ops os p w = Suc (co_ops os (fst (co_next os p w)) (snd (co_next os p w)))" using co_ops_next [OF pend, of os w] unfin by simp
    then have "doomed os s'" unfolding doomed_def using s'(2,3) j on(2)
      by (intro disjI2 conjI exI [of _ "fst (co_next os p w)"] exI [of _ "snd (co_next os p w)"] exI [of _ "Suc j"] exI [of _ "tl slow"]) auto
    with s'(1) show ?thesis by blast
  next
    case lost
    obtain op where "armed op (of_nat j) (ls_ring s)" using pend unfin by (cases p) auto
    from lost_round [OF q(1) cq _ assms(2) this, of "co_run (sock_lib os w0 sl)"] lost uj q(2) unfin show ?thesis by (fastforce simp: doomed_def)
  qed
qed

lemma doomed_rounds:
  assumes "doomed os s" "le_lib env = sock_lib os w0 sl" "recv_counts os"
  shows "\<exists>s'. rounds env (co_run (sock_lib os w0 sl)) n s = Some (Inr s') \<and> doomed os s'"
  using assms(1)
proof (induction n arbitrary: s)
  case (Suc n)
  from doomed_round [OF Suc.prems assms(2,3)] obtain s1 where
    "EventLoop_run_once env (co_run (sock_lib os w0 sl)) 10 s = Some (Inr s1)" "doomed os s1" by blast
  with Suc.IH [of s1] show ?case by simp
qed auto

section \<open>Starting a coroutine on a new ring\<close>

definition start_on_ring :: "'w net_os \<Rightarrow> bool list \<Rightarrow> IoUringConfig \<Rightarrow> ('a, 'w) co \<Rightarrow> 'w \<Rightarrow> IoUringError + ('a, 'w, 'c) ring_state" where
  "start_on_ring os slow config p w =
     rbind (IoUring_ctor (sock_lib os w slow) config) (\<lambda>u.
       Inr (advance_co (sock_lib os w slow) p (u, EventLoop_ctor, \<lparr>iw_result = (\<lambda>_. 0), iw_resumed = []\<rparr>, Created)))"

lemma start_awaits:
  assumes "0 < queue_depth config"
  obtains s :: "('a, 'w, 'c) ring_state" where "start_on_ring os slow config p w = Inr s" "awaits (fst (settle p w)) (snd (settle p w)) (of_nat 1) slow s"
    "sr_cq (iu_ring (ls_ring s)) = []"
proof -
  let ?u = "\<lparr>iu_config = config, iu_ring = \<lparr>sr_capacity = unat (queue_depth config), sr_sq = [], sr_inflight = [], sr_cq = [],
      sr_mem = (\<lambda>_. 0), sr_world = w, sr_slow = slow\<rparr>, iu_running = True, iu_callbacks = (\<lambda>_. None), iu_next_callback_id = 1\<rparr>"
  let ?s = "(?u, EventLoop_ctor, \<lparr>iw_result = (\<lambda>_. 0), iw_resumed = []\<rparr>, Created) :: ('a, 'w, 'c) ring_state"
  have ctor: "IoUring_ctor (sock_lib os w slow) config = Inr ?u" by (simp add: IoUring_ctor_def IoUring_setup_def sock_lib_def)
  have "quiet ?s" "sr_inflight (iu_ring (ls_ring ?s)) = []"
    using assms by (simp_all add: quiet_def EventLoop_ctor_def unat_gt_0 word_gt_0)
  note adv = advance_awaits [OF this, of p os w slow]
  show ?thesis
  proof (rule that)
    show "start_on_ring os slow config p w = Inr (advance_co (sock_lib os w slow) p ?s)" by (simp add: start_on_ring_def ctor)
    show "awaits (fst (settle p w)) (snd (settle p w)) (of_nat 1) slow (advance_co (sock_lib os w slow) p ?s)" using adv by simp
    show "sr_cq (iu_ring (ls_ring (advance_co (sock_lib os w slow) p ?s))) = []" using adv by simp
  qed
qed

section \<open>The operations of a connection as coroutines\<close>

definition closed :: "'w Connection \<Rightarrow> 'w Connection" where
  "closed c = (if cn_state c = Connected then c\<lparr>cn_fd := -1, cn_state := Closed\<rparr> else c)"

lemma handle_error_closed: "handle_error os (c, w) = (closed c, snd (handle_error os (c, w)))"
  by (simp add: handle_error_def Connection_close_def closed_def Let_def)

definition read_co :: "'w net_os \<Rightarrow> nat \<Rightarrow> 'w Connection \<Rightarrow> ((int \<times> bytes) \<times> 'w Connection, 'w) co" where
  "read_co os sz c =
     (if \<not> Connection_connected c then Return ((-1, []), c)
      else Recv (cn_fd c) sz (\<lambda>(n, data).
        if n \<le> 0 then Sys (\<lambda>w. snd (handle_error os (c, w))) (Return ((n, []), closed c)) else Return ((n, data), c)))"

definition write_co :: "'w net_os \<Rightarrow> bytes \<Rightarrow> 'w Connection \<Rightarrow> (int \<times> 'w Connection, 'w) co" where
  "write_co os data c =
     (if \<not> Connection_connected c then Return (-1, c)
      else Send (cn_fd c) data (\<lambda>n.
        if n \<le> 0 then Sys (\<lambda>w. snd (handle_error os (c, w))) (Return (n, closed c)) else Return (n, c)))"

function write_all_co :: "'w net_os \<Rightarrow> bytes \<Rightarrow> nat \<Rightarrow> 'w Connection \<Rightarrow> (nat \<times> 'w Connection, 'w) co" where
  "write_all_co os data written c =
     (if written < length data \<and> Connection_connected c then
        Send (cn_fd c) (drop written data) (\<lambda>n.
          if n \<le> 0 then Sys (\<lambda>w. snd (handle_error os (c, w))) (Return (written, closed c))
          else write_all_co os data (written + nat n) c)
      else Return (written, c))"
  by pat_completeness auto
termination
  by (relation "measure (\<lambda>(_, data, written, _). length data - written)") (auto intro!: diff_less_mono2)

declare write_all_co.simps [simp del]

lemma run_read_co: "run_co os (read_co os sz c) w = (case Connection_async_read os sz (c, w) of (r, c', w') \<Rightarrow> ((r, c'), w'))"
  using handle_error_closed [of os c] by (simp add: read_co_def Connection_async_read_def Let_def split: prod.split) (metis prod.inject)

lemma run_write_co: "run_co os (write_co os data c) w = (case Connection_async_write os data (c, w) of (n, c', w') \<Rightarrow> ((n, c'), w'))"
  using handle_error_closed [of os c] by (simp add: write_co_def Connection_async_write_def Let_def split: prod.split) (metis prod.inject)

lemma run_write_all_co:
  "run_co os (write_all_co os data written c) w = (case Connection_async_write_all os data written (c, w) of (n, c', w') \<Rightarrow> ((n, c'), w'))"
proof (induction os data written c arbitrary: w rule: write_all_co.induct)
  case (1 os data written c)
  show ?case
  proof (cases "written < length data \<and> Connection_connected c")
    case True
    obtain n w1 where n: "os_send os (cn_fd c) (drop written data) w = (n, w1)" by fastforce
    show ?thesis
    proof (cases "n \<le> 0")
      case err: True
      with True n show ?thesis using handle_error_closed [of os c w1]
        by (subst write_all_co.simps, subst Connection_async_write_all.simps)
          (auto simp: Connection_async_write_def split: prod.split)
    next
      case False
      with 1 [OF True False, of w1] True n show ?thesis
        by (subst write_all_co.simps, subst Connection_async_write_all.simps) (simp add: Connection_async_write_def)
    qed
  qed (subst write_all_co.simps, subst Connection_async_write_all.simps, auto)
qed

lemma write_all_co_ops: "co_ops os (write_all_co os data written c) w \<le> length data - written"
proof (induction os data written c arbitrary: w rule: write_all_co.induct)
  case (1 os data written c)
  show ?case
  proof (cases "written < length data \<and> Connection_connected c")
    case True
    obtain n w1 where n: "os_send os (cn_fd c) (drop written data) w = (n, w1)" by fastforce
    show ?thesis
    proof (cases "n \<le> 0")
      case False
      with 1 [OF True False, of w1] have "Suc (co_ops os (write_all_co os data (written + nat n) c) w1) \<le> length data - written"
        using True by linarith
      with True n False show ?thesis by (subst write_all_co.simps) simp
    qed (use True n in \<open>subst write_all_co.simps, simp add: Suc_le_eq\<close>)
  qed (subst write_all_co.simps, auto)
qed

lemma on_ring:
  fixes env :: "('w sock_ring, io_cb, 'c, io_world \<times> ('a, 'w) co_frame) loop_env"
  assumes "recv_counts os" "0 < queue_depth config" "le_lib env = sock_lib os w slow"
  shows "\<exists>s. start_on_ring os slow config p w = Inr s \<and>
    (co_ops os p w < kMaxCallbacks \<longrightarrow>
      (\<exists>n s'. rounds env (co_run (sock_lib os w slow)) n s = Some (Inr s') \<and>
        snd (ls_world s') = Finished (fst (run_co os p w)) \<and> sr_world (iu_ring (ls_ring s')) = snd (run_co os p w))) \<and>
    (kMaxCallbacks \<le> co_ops os p w \<longrightarrow>
      (\<forall>n. \<exists>s'. rounds env (co_run (sock_lib os w slow)) n s = Some (Inr s') \<and> (\<forall>x. snd (ls_world s') \<noteq> Finished x)))"
proof -
  obtain s :: "('a, 'w, 'c) ring_state" where s: "start_on_ring os slow config p w = Inr s"
      "awaits (fst (settle p w)) (snd (settle p w)) (of_nat 1) slow s" "sr_cq (iu_ring (ls_ring s)) = []"
    using assms(2) by (rule start_awaits)
  have fin: "\<exists>n s'. rounds env (co_run (sock_lib os w slow)) n s = Some (Inr s') \<and>
      snd (ls_world s') = Finished (fst (run_co os p w)) \<and> sr_world (iu_ring (ls_ring s')) = snd (run_co os p w)"
    if "co_ops os p w < kMaxCallbacks"
    using run_to_end [OF s(2,3) assms(3,1)] that by (auto simp: co_ops_settle run_co_settle)
  have doom: "doomed os s" if "kMaxCallbacks \<le> co_ops os p w"
    unfolding doomed_def using s(2,3) that
    by (intro disjI2 conjI exI [of _ "fst (settle p w)"] exI [of _ "snd (settle p w)"] exI [of _ 1] exI [of _ slow])
      (auto simp: co_ops_settle kMaxCallbacks_def)
  have "\<exists>s'. rounds env (co_run (sock_lib os w slow)) n s = Some (Inr s') \<and> (\<forall>x. snd (ls_world s') \<noteq> Finished x)"
    if "kMaxCallbacks \<le> co_ops os p w" for n
    using doomed_rounds [OF doom [OF that] assms(3,1), of n] doomed_unfinished by metis
  with s(1) fin show ?thesis by (intro exI [of _ s]) simp
qed

section \<open>Properties\<close>

text \<open>
  C6. Awaiting on the ring is calling the kernel: a coroutine started on a new ring and driven by the event loop ends, whatever the delays of
  the kernel, with the result and the effect it has when every receive and send is answered at once, as long as it
  awaits at most 65535 operations. A coroutine that awaits more is never finished, for any number of rounds: the 65536th operation has
  user data 0, and its completion resumes nobody.
\<close>

theorem ring_refines_kernel:
  fixes env :: "('w sock_ring, io_cb, 'c, io_world \<times> ('a, 'w) co_frame) loop_env"
  assumes "recv_counts os" "0 < queue_depth config" "le_lib env = sock_lib os w slow"
  shows "\<exists>s. start_on_ring os slow config p w = Inr s \<and>
    (co_ops os p w < kMaxCallbacks \<longrightarrow>
      (\<exists>n s'. rounds env (co_run (sock_lib os w slow)) n s = Some (Inr s') \<and>
        snd (ls_world s') = Finished (fst (run_co os p w)) \<and> sr_world (iu_ring (ls_ring s')) = snd (run_co os p w))) \<and>
    (kMaxCallbacks \<le> co_ops os p w \<longrightarrow>
      (\<forall>n. \<exists>s'. rounds env (co_run (sock_lib os w slow)) n s = Some (Inr s') \<and> (\<forall>x. snd (ls_world s') \<noteq> Finished x)))"
  using assms by (rule on_ring)

definition ring_env :: "'w net_os \<Rightarrow> 'w \<Rightarrow> bool list \<Rightarrow> ('w sock_ring, io_cb, nat, io_world \<times> ('a, 'w) co_frame) loop_env" where
  "ring_env os w slow = \<lparr>le_call = (\<lambda>_ x. ([], x)), le_clock = (\<lambda>_. 0), le_lib = sock_lib os w slow, le_noop = Resume 0 0, le_pick = (\<lambda>_. 0)\<rparr>"

lemma recv_counts_stream: "recv_counts (stream_os k)"
  by (simp add: recv_counts_def stream_os_def Let_def)

lemma ring_env_lib [simp]: "le_lib (ring_env os w slow) = sock_lib os w slow"
  by (simp add: ring_env_def)

definition sw_ex :: stream_world where
  "sw_ex = \<lparr>sw_in = [7, 8], sw_out = [], sw_closed = []\<rparr>"

theorem ring_refines_kernel_witness:
  "\<exists>s n s'. start_on_ring (stream_os 0) [True, False] IoUringConfig_default (Recv 3 4 Return) sw_ex = Inr s \<and>
    rounds (ring_env (stream_os 0) sw_ex [True, False]) (co_run (sock_lib (stream_os 0) sw_ex [True, False])) n s = Some (Inr s') \<and>
    snd (ls_world s') = Finished (1, [7]) \<and> sr_world (iu_ring (ls_ring s')) = sw_ex\<lparr>sw_in := [8]\<rparr>"
proof -
  have "0 < queue_depth IoUringConfig_default" by (simp add: IoUringConfig_default_def)
  moreover have "run_co (stream_os 0) (Recv 3 4 Return) sw_ex = ((1, [7]), sw_ex\<lparr>sw_in := [8]\<rparr>)"
      "co_ops (stream_os 0) (Recv 3 4 Return) sw_ex < kMaxCallbacks"
    by (simp_all add: stream_os_def sw_ex_def kMaxCallbacks_def)
  ultimately show ?thesis
    using ring_refines_kernel [OF recv_counts_stream [of 0] _ ring_env_lib [of "stream_os 0" sw_ex "[True, False]"], of IoUringConfig_default "Recv 3 4 Return"]
    by fastforce
qed

text \<open>
  \<open>Connection::async_write_all\<close> over the ring: on a kernel that takes the data in pieces of any size, a buffer of at most 65535 bytes is
  sent completely and in order, and the coroutine ends with its length.
\<close>

theorem write_all_on_ring:
  fixes env :: "(stream_world sock_ring, io_cb, 'c, io_world \<times> (nat \<times> stream_world Connection, stream_world) co_frame) loop_env"
  assumes "Connection_connected c" "length data < kMaxCallbacks" "0 < queue_depth config" "le_lib env = sock_lib (stream_os k) w slow"
  shows "\<exists>s n s'. start_on_ring (stream_os k) slow config (write_all_co (stream_os k) data 0 c) w = Inr s \<and>
    rounds env (co_run (sock_lib (stream_os k) w slow)) n s = Some (Inr s') \<and> snd (ls_world s') = Finished (length data, c) \<and>
    sw_out (sr_world (iu_ring (ls_ring s'))) = sw_out w @ data"
proof -
  let ?p = "write_all_co (stream_os k) data 0 c"
  from stream.write_all_sends [OF assms(1), of 0 data k w] obtain w' where
      "Connection_async_write_all (stream_os k) data 0 (c, w) = (length data, c, w')" "sw_out w' = sw_out w @ data" by auto
  then have r: "run_co (stream_os k) ?p w = ((length data, c), w')" "sw_out w' = sw_out w @ data" by (simp_all add: run_write_all_co)
  obtain s :: "(nat \<times> stream_world Connection, stream_world, 'c) ring_state" where s: "start_on_ring (stream_os k) slow config ?p w = Inr s"
      "awaits (fst (settle ?p w)) (snd (settle ?p w)) (of_nat 1) slow s" "sr_cq (iu_ring (ls_ring s)) = []"
    using assms(3) by (rule start_awaits)
  have "1 + co_ops (stream_os k) ?p w \<le> kMaxCallbacks" using write_all_co_ops [of "stream_os k" data 0 c w] assms(2) by simp
  with run_to_end [OF s(2,3) assms(4) recv_counts_stream] s(1) r show ?thesis by (auto simp: co_ops_settle run_co_settle)
qed

theorem write_all_on_ring_witness:
  "\<exists>s n s'. start_on_ring (stream_os 1) [True] IoUringConfig_default (write_all_co (stream_os 1) [1, 2, 3] 0 conn_ex) sw_ex = Inr s \<and>
    rounds (ring_env (stream_os 1) sw_ex [True]) (co_run (sock_lib (stream_os 1) sw_ex [True])) n s = Some (Inr s') \<and>
    snd (ls_world s') = Finished (length [1, 2, 3 :: byte], conn_ex) \<and> sw_out (sr_world (iu_ring (ls_ring s'))) = sw_out sw_ex @ [1, 2, 3]"
  by (rule write_all_on_ring) (simp_all add: conn_ex_def Connection_connected_def kMaxCallbacks_def IoUringConfig_default_def)

end
