(* ===== verification/Rpc_OnRing.thy ===== *)
theory Rpc_OnRing
  imports Rpc_Server Net_OnRing
begin

text \<open>
  The server's connection loop (\<open>rpc/rpc_server.hpp\<close>, \<open>handle_connection\<close>) as a coroutine on the ring: what it does
  between two suspensions is the code of \<open>Rpc_Server\<close>, and its three operations per request are receives and sends of \<open>Net_OnRing\<close>. The frame of the
  coroutine lives until it ends; what happens to one that is started with \<open>spawn\<close>, whose frame does not, is in \<open>Io_Spawn\<close>.
\<close>

section \<open>The loop as a coroutine\<close>

text \<open>What \<open>handle_connection\<close> does with the results of its two reads.\<close>

definition header_result :: "nat \<Rightarrow> bytes \<Rightarrow> int \<times> bytes \<Rightarrow> server_stats \<times> 'v \<Rightarrow> (server_stats \<times> 'v) + (nat \<times> bytes)" where
  "header_result max_request_size buffer r t =
     (case r of (n, data) \<Rightarrow>
        if n \<le> 0 then Inl t
        else
          let buffer1 = overlay 0 data buffer;
              header = header_of_bytes (take 16 buffer1);
              total_size = 16 + unat (hdr_meta_len header) + unat (hdr_payload_len header)
          in if \<not> header_valid header \<or> max_request_size < total_size then Inl (count_error (fst t), snd t)
             else Inr (total_size, if length buffer1 < total_size then buffer1 @ replicate (total_size - length buffer1) 0 else buffer1))"

lemma conn_header_result:
  "conn_header os max_request_size buffer ((c, w), t) =
     (case Connection_async_read os 16 (c, w) of (r, c') \<Rightarrow>
        case header_result max_request_size buffer r t of
          Inl t' \<Rightarrow> Inl (c', t')
        | Inr (total_size, buffer') \<Rightarrow> Inr (total_size, buffer', c', t))"
  by (cases t) (simp add: conn_header_def header_result_def Let_def split: prod.split)

definition body_co :: "'w net_os \<Rightarrow> nat \<Rightarrow> bytes \<Rightarrow> 'w Connection \<Rightarrow> (bytes option \<times> 'w Connection, 'w) co" where
  "body_co os total_size buffer c =
     (if 0 < total_size - 16 then
        co_bind (read_co os (total_size - 16) c) (\<lambda>((n, data), c').
          Return (if n \<le> 0 then None else Some (overlay 16 data buffer), c'))
      else Return (Some buffer, c))"

lemma run_body_co:
  "conn_body os total_size buffer ((c, w), t) =
     (case run_co os (body_co os total_size buffer c) w of
        ((None, c'), w') \<Rightarrow> Inl ((c', w'), t)
      | ((Some buffer', c'), w') \<Rightarrow> Inr (buffer', (c', w'), t))"
  by (simp add: conn_body_def body_co_def run_co_bind run_read_co split: prod.split)

text \<open>The outcome of a round, without the world.\<close>

type_synonym ('w, 'v) round_result =
  "server_fault + (('w Connection \<times> (server_stats \<times> 'v)) + (bytes \<times> 'w Connection \<times> (server_stats \<times> 'v)))"

definition reply_co :: "'w net_os \<Rightarrow> bytes \<Rightarrow> bytes \<Rightarrow> 'w Connection \<Rightarrow> server_stats \<times> 'v \<Rightarrow> (('w, 'v) round_result, 'w) co" where
  "reply_co os response buffer c t =
     (if response = [] then Return (Inr (Inr (buffer, c, t)))
      else co_bind (write_co os response c) (\<lambda>(n, c').
        Return (if n \<le> 0 then Inr (Inl (c', t)) else Inr (Inr (buffer, c', t)))))"

definition round_co :: "'w net_os \<Rightarrow> bytes \<Rightarrow> 'h registry \<Rightarrow> ('h, 'v) invoker \<Rightarrow> nat \<Rightarrow> bytes \<Rightarrow> 'w Connection \<Rightarrow> server_stats \<times> 'v \<Rightarrow>
    (('w, 'v) round_result, 'w) co" where
  "round_co os pad reg invoke max_request_size buffer c t =
     co_bind (read_co os 16 c) (\<lambda>(r, c1).
       case header_result max_request_size buffer r t of
         Inl t' \<Rightarrow> Return (Inr (Inl (c1, t')))
       | Inr (total_size, buffer2) \<Rightarrow>
           co_bind (body_co os total_size buffer2 c1) (\<lambda>(b, c2).
             case b of
               None \<Rightarrow> Return (Inr (Inl (c2, t)))
             | Some buffer3 \<Rightarrow>
                 (case handle_message pad reg invoke buffer3 total_size t of
                    Inl f \<Rightarrow> Return (Inl f)
                  | Inr (response, t') \<Rightarrow> reply_co os response buffer3 c2 t')))"

text \<open>The loop, for at most \<open>n\<close> rounds: \<open>None\<close> when it has not ended by then.\<close>

primrec session_co :: "'w net_os \<Rightarrow> bytes \<Rightarrow> 'h registry \<Rightarrow> ('h, 'v) invoker \<Rightarrow> nat \<Rightarrow> nat \<Rightarrow> bytes \<Rightarrow> 'w Connection \<Rightarrow> server_stats \<times> 'v \<Rightarrow>
    ((server_fault + ('w Connection \<times> (server_stats \<times> 'v))) option, 'w) co" where
  "session_co os pad reg invoke max_request_size 0 buffer c t = Return None"
| "session_co os pad reg invoke max_request_size (Suc n) buffer c t =
     (if Connection_connected c then
        co_bind (round_co os pad reg invoke max_request_size buffer c t) (\<lambda>x.
          case x of
            Inl f \<Rightarrow> Return (Some (Inl f))
          | Inr (Inl (c', t')) \<Rightarrow> Return (Some (Inr (c', t')))
          | Inr (Inr (buffer', c', t')) \<Rightarrow> session_co os pad reg invoke max_request_size n buffer' c' t')
      else Return (Some (Inr (c, t))))"

section \<open>The coroutine and the loop\<close>

text \<open>Forgetting the world in the outcome of a round and of the loop.\<close>

fun round_view :: "server_fault + (('w, 'v) server_state + (bytes \<times> ('w, 'v) server_state)) \<Rightarrow> ('w, 'v) round_result \<times> 'w option" where
  "round_view (Inl f) = (Inl f, None)"
| "round_view (Inr (Inl ((c, w), t))) = (Inr (Inl (c, t)), Some w)"
| "round_view (Inr (Inr (buffer, (c, w), t))) = (Inr (Inr (buffer, c, t)), Some w)"

definition agrees :: "'a \<times> 'w option \<Rightarrow> 'a \<times> 'w \<Rightarrow> bool" where
  "agrees v r \<longleftrightarrow> fst v = fst r \<and> (case snd v of None \<Rightarrow> True | Some w \<Rightarrow> w = snd r)"

lemma run_reply_co:
  "run_co os (reply_co os response buffer c t) w =
     (if response = [] then (Inr (Inr (buffer, c, t)), w)
      else case Connection_async_write os response (c, w) of (n, c', w') \<Rightarrow>
        (if n \<le> 0 then Inr (Inl (c', t)) else Inr (Inr (buffer, c', t)), w'))"
  by (simp add: reply_co_def run_co_bind run_write_co split: prod.split)

lemma run_round_co:
  "agrees (round_view (connection_round os pad reg invoke max_request_size buffer ((c, w), t)))
     (run_co os (round_co os pad reg invoke max_request_size buffer c t) w)"
proof -
  obtain r c1 w1 where rd: "Connection_async_read os 16 (c, w) = (r, c1, w1)" by (metis surj_pair)
  show ?thesis
  proof (cases "header_result max_request_size buffer r t")
    case (Inl t')
    with rd show ?thesis by (simp add: connection_round_def conn_header_result round_co_def run_co_bind run_read_co agrees_def)
  next
    case (Inr x)
    obtain total_size buffer2 where x: "x = (total_size, buffer2)" by fastforce
    obtain b c2 w2 where bd: "run_co os (body_co os total_size buffer2 c1) w1 = ((b, c2), w2)" by (metis surj_pair)
    show ?thesis using rd Inr x bd
      by (auto simp: connection_round_def conn_header_result round_co_def run_co_bind run_read_co run_body_co run_reply_co agrees_def
          split: option.split sum.split prod.split)
  qed
qed

lemma round_viewE:
  assumes "agrees (round_view y) r" "y = Inr z"
  shows "case z of Inl ((c, w), t) \<Rightarrow> r = (Inr (Inl (c, t)), w) | Inr (buffer, (c, w), t) \<Rightarrow> r = (Inr (Inr (buffer, c, t)), w)"
  using assms by (cases z) (auto simp: agrees_def prod_eq_iff)

lemma co_ops_bind: "co_ops os (co_bind p f) w = co_ops os p w + (case run_co os p w of (x, w') \<Rightarrow> co_ops os (f x) w')"
  by (induction p arbitrary: w) (simp_all split: prod.split)

lemma read_co_ops: "co_ops os (read_co os sz c) w = (if Connection_connected c then 1 else 0)"
  by (simp add: read_co_def split: prod.split)

lemma write_co_ops: "co_ops os (write_co os data c) w = (if Connection_connected c then 1 else 0)"
  by (simp add: write_co_def split: prod.split)

text \<open>If the loop ends, so does the coroutine, for every large enough bound on its rounds, with the same connection, statistics and world.\<close>

definition session_ends :: "'w net_os \<Rightarrow> bytes \<Rightarrow> 'h registry \<Rightarrow> ('h, 'v) invoker \<Rightarrow> nat \<Rightarrow> bytes \<Rightarrow> ('w, 'v) server_state \<Rightarrow>
    server_fault + ('w, 'v) server_state \<Rightarrow> bool" where
  "session_ends os pad reg invoke max_request_size buffer s r \<longleftrightarrow>
     (\<forall>c' w' t'. r = Inr ((c', w'), t') \<longrightarrow>
       (\<exists>N. \<forall>n. N \<le> n \<longrightarrow> run_co os (session_co os pad reg invoke max_request_size n buffer (fst (fst s)) (snd s)) (snd (fst s)) =
         (Some (Inr (c', t')), w')))"

lemma session_endsI:
  assumes "\<And>c' w' t' n. r = Inr ((c', w'), t') \<Longrightarrow> N \<le> n \<Longrightarrow>
    run_co os (session_co os pad reg invoke max_request_size n buffer c t) w = (Some (Inr (c', t')), w')"
  shows "session_ends os pad reg invoke max_request_size buffer ((c, w), t) r"
  unfolding session_ends_def by (intro allI impI exI [of _ N]) (simp add: assms)

lemma session_refines:
  assumes "handle_connection os pad reg invoke max_request_size buffer s = Some r"
  shows "session_ends os pad reg invoke max_request_size buffer s r"
proof (rule handle_connection.raw_induct [of session_ends, OF _ assms])
  fix hc and os :: "'w net_os" and pad and reg :: "'h registry" and invoke :: "('h, 'v) invoker" and max_request_size buffer
    and s :: "('w, 'v) server_state" and r
  assume IH: "\<And>os pad reg invoke max_request_size buffer s r. hc os pad reg invoke max_request_size buffer s = Some r \<Longrightarrow>
      session_ends os pad reg invoke max_request_size buffer s r"
    and e: "(if Connection_connected (fst (fst s))
        then case connection_round os pad reg invoke max_request_size buffer s of Inl f \<Rightarrow> Some (Inl f)
          | Inr (Inl s') \<Rightarrow> Some (Inr s')
          | Inr (Inr (buffer3, s')) \<Rightarrow> hc os pad reg invoke max_request_size buffer3 s'
        else Some (Inr s)) = Some r"
  obtain c w t where s: "s = ((c, w), t)" by (metis surj_pair)
  note rc = round_viewE [OF run_round_co [of os pad reg invoke max_request_size buffer c w t]]
  consider (stop) "\<not> Connection_connected c" | (fault) f where "r = Inl f"
    | (last) s' where "Connection_connected c" "connection_round os pad reg invoke max_request_size buffer s = Inr (Inl s')" "r = Inr s'"
    | (more) b c1 w1 t1 where "Connection_connected c" "connection_round os pad reg invoke max_request_size buffer s = Inr (Inr (b, (c1, w1), t1))"
        "hc os pad reg invoke max_request_size b ((c1, w1), t1) = Some r"
    using e s by (auto split: if_splits sum.splits prod.splits)
  then have "session_ends os pad reg invoke max_request_size buffer ((c, w), t) r"
  proof cases
    case stop
    with e s show ?thesis
      by (intro session_endsI [of _ 1]) (case_tac n; auto)
  next
    case fault
    then show ?thesis by (simp add: session_ends_def)
  next
    case last
    with rc [of "Inl s'"] s show ?thesis
      by (intro session_endsI [of _ 1]) (case_tac n; auto simp: run_co_bind)
  next
    case more
    show ?thesis
    proof (cases r)
      case (Inr y)
      obtain c' w' t' where y: "y = ((c', w'), t')" by (metis surj_pair)
      with IH [OF more(3)] Inr obtain N where
        "\<And>n. N \<le> n \<Longrightarrow> run_co os (session_co os pad reg invoke max_request_size n b c1 t1) w1 = (Some (Inr (c', t')), w')"
        by (cases t') (auto simp: session_ends_def)
      with rc [of "Inr (b, (c1, w1), t1)"] s more(1,2) Inr y show ?thesis
        by (intro session_endsI [of _ "Suc N"]) (case_tac n; auto simp: run_co_bind)
    qed (simp add: session_ends_def)
  qed
  then show "session_ends os pad reg invoke max_request_size buffer s r" by (simp add: s)
qed

context whole_stream
begin

lemma round_co_answers:
  assumes c: "Connection_connected c" and r: "is_request req" and p: "length pad = 4"
    and max: "length (wire_image pad req) \<le> max_request_size" and lim: "length (wire_image pad req) \<le> limit"
    and str: "strm w = wire_image pad req @ rest"
    and a: "answer reg invoke req t = (m, t1)" and lm: "length (wire_image pad m) \<le> limit"
  obtains w' buffer' where "run_co os (round_co os pad reg invoke max_request_size buffer c t) w = (Inr (Inr (buffer', c, t1)), w')"
    and "co_ops os (round_co os pad reg invoke max_request_size buffer c t) w = 3"
    and "strm w' = rest" "sent w' = sent w @ wire_image pad m" "frame w' = frame w"
proof -
  obtain w2 b2 where rd: "connection_round os pad reg invoke max_request_size buffer ((c, w), t) = Inr (Inr (b2, (c, w2), t1))"
      "strm w2 = rest" "sent w2 = sent w @ wire_image pad m" "frame w2 = frame w"
    by (rule round_answers [OF assms])
  have run: "run_co os (round_co os pad reg invoke max_request_size buffer c t) w = (Inr (Inr (b2, c, t1)), w2)"
    using round_viewE [OF run_round_co rd(1)] by simp
  obtain w0 b where hd: "conn_header os max_request_size buffer ((c, w), t) = Inr (length (wire_image pad req), b, (c, w0), t)"
      "take 16 b = take 16 (wire_image pad req)" "strm w0 = drop 16 (wire_image pad req) @ rest"
    by (rule header_reads [OF c r p max lim str])
  obtain w1 junk where bd: "conn_body os (length (wire_image pad req)) b ((c, w0), t) = Inr (wire_image pad req @ junk, (c, w1), t)"
    by (rule body_reads [OF c r p lim hd(3,2)])
  have hm: "handle_message pad reg invoke (wire_image pad req @ junk) (length (wire_image pad req)) t = Inr (wire_image pad m, t1)"
    using handle_message_answer [OF r p, of reg invoke junk t] a by simp
  have ne: "wire_image pad m \<noteq> []" by (simp add: wire_image_def header_bytes_def)
  obtain rr where "Connection_async_read os 16 (c, w) = (rr, c, w0)"
      "header_result max_request_size buffer rr t = Inr (length (wire_image pad req), b)"
    using hd(1) by (auto simp: conn_header_result split: prod.splits sum.splits)
  moreover have "run_co os (body_co os (length (wire_image pad req)) b c) w0 = ((Some (wire_image pad req @ junk), c), w1)"
    using bd by (auto simp: run_body_co split: prod.splits option.splits)
  moreover have "co_ops os (body_co os (length (wire_image pad req)) b c) w0 = 1"
    using request_header(3) [OF r p] c by (simp add: body_co_def co_ops_bind read_co_ops split: prod.split)
  ultimately have "co_ops os (round_co os pad reg invoke max_request_size buffer c t) w = 3"
    using hm ne c by (simp add: round_co_def co_ops_bind read_co_ops run_read_co reply_co_def write_co_ops split: prod.split)
  with run show ?thesis using rd(2-4) by (rule that)
qed

lemma session_co_answers:
  assumes "Connection_connected c" "length pad = 4"
    and "\<And>req. req \<in> set reqs \<Longrightarrow> is_request req \<and> length (wire_image pad req) \<le> max_request_size \<and> length (wire_image pad req) \<le> limit"
    and "\<And>m. m \<in> set (fst (answers reg invoke reqs t)) \<Longrightarrow> length (wire_image pad m) \<le> limit"
    and "strm w = concat (map (wire_image pad) reqs)"
  shows "\<exists>w'. run_co os (session_co os pad reg invoke max_request_size (Suc (length reqs)) buffer c t) w =
      (Some (Inr (closed c, snd (answers reg invoke reqs t))), snd (Connection_close os (c, w'))) \<and>
    co_ops os (session_co os pad reg invoke max_request_size (Suc (length reqs)) buffer c t) w = 3 * length reqs + 1 \<and>
    sent w' = sent w @ concat (map (wire_image pad) (fst (answers reg invoke reqs t))) \<and> frame w' = frame w"
  using assms(3-5)
proof (induction reqs arbitrary: w t buffer)
  case Nil
  from recv_end [of w "cn_fd c" 16] Nil.prems(3) obtain n w1 where w1: "n \<le> 0" "os_recv os (cn_fd c) 16 w = ((n, []), w1)" "sent w1 = sent w" "frame w1 = frame w" by auto
  then have "Connection_async_read os 16 (c, w) = ((n, []), closed c, snd (Connection_close os (c, w1)))"
    using assms(1) handle_error_closed [of os c w1] by (simp add: Connection_async_read_def handle_error_def)
  with w1 assms(1) show ?case
    by (intro exI [of _ w1]) (simp add: round_co_def run_co_bind run_read_co header_result_def co_ops_bind read_co_ops)
next
  case (Cons req reqs)
  obtain m t1 where a: "answer reg invoke req t = (m, t1)" by (cases "answer reg invoke req t")
  let ?ms = "fst (answers reg invoke reqs t1)" and ?t = "snd (answers reg invoke reqs t1)"
  have as: "answers reg invoke (req # reqs) t = (m # ?ms, ?t)" using a by (simp add: split_beta)
  note req = Cons.prems(1) [of req, simplified]
  obtain w2 buffer' where rd: "run_co os (round_co os pad reg invoke max_request_size buffer c t) w = (Inr (Inr (buffer', c, t1)), w2)"
      "co_ops os (round_co os pad reg invoke max_request_size buffer c t) w = 3"
      "strm w2 = concat (map (wire_image pad) reqs)" "sent w2 = sent w @ wire_image pad m" "frame w2 = frame w"
    by (rule round_co_answers [OF assms(1) _ assms(2), of req max_request_size w "concat (map (wire_image pad) reqs)" reg invoke t m t1])
      (use req Cons.prems(2,3) a as in simp_all)
  have "\<exists>w'. run_co os (session_co os pad reg invoke max_request_size (Suc (length reqs)) buffer' c t1) w2 =
      (Some (Inr (closed c, ?t)), snd (Connection_close os (c, w'))) \<and>
    co_ops os (session_co os pad reg invoke max_request_size (Suc (length reqs)) buffer' c t1) w2 = 3 * length reqs + 1 \<and>
    sent w' = sent w2 @ concat (map (wire_image pad) ?ms) \<and> frame w' = frame w2"
    by (rule Cons.IH) (use Cons.prems(1,2) as rd in auto)
  then show ?case using rd as assms(1) by (auto simp: run_co_bind co_ops_bind simp del: session_co.simps(2)
      simp: session_co.simps(2) [of _ _ _ _ _ "Suc (length reqs)"])
qed

end

section \<open>Properties\<close>

text \<open>
  C5. The server on the ring. A connection over which requests arrive, each read whole, is served by the coroutine of the loop, its frame alive, on a new ring
  under the event loop, whatever the delays of the kernel: three operations per request and one that finds the end of the stream. If they are
  fewer than 65536 in all, the coroutine ends, every request has been answered in order and the connection is closed. From 21845 requests
  on it never ends: the operation that gets user data 0 is never resumed.
\<close>

theorem server_on_ring:
  fixes env :: "(stream_world tcp_world sock_ring, io_cb, 'c,
      io_world \<times> ((server_fault + (stream_world tcp_world Connection \<times> (server_stats \<times> 'v))) option, stream_world tcp_world) co_frame) loop_env"
  assumes "Connection_connected c" "cn_close_callback c = Some count_closed" "length pad = 4"
    and "\<forall>req \<in> set reqs. is_request req \<and> length (wire_image pad req) \<le> min max_request_size (Suc k)"
    and "\<forall>m \<in> set (fst (answers reg invoke reqs t)). length (wire_image pad m) \<le> Suc k"
    and "sw_in v = concat (map (wire_image pad) reqs)" "0 < queue_depth config" "le_lib env = sock_lib (lift_os (stream_os k)) (ts, v) slow"
  shows "\<exists>s. start_on_ring (lift_os (stream_os k)) slow config
        (session_co (lift_os (stream_os k)) pad reg invoke max_request_size (Suc (length reqs)) (replicate 4096 0) c t) (ts, v) = Inr s \<and>
    (3 * length reqs + 1 < kMaxCallbacks \<longrightarrow>
      (\<exists>n s'. rounds env (co_run (sock_lib (lift_os (stream_os k)) (ts, v) slow)) n s = Some (Inr s') \<and>
        snd (ls_world s') = Finished (Some (Inr (closed c, snd (answers reg invoke reqs t)))) \<and>
        fst (sr_world (iu_ring (ls_ring s'))) = ts\<lparr>ts_connections := ts_connections ts - 1\<rparr> \<and>
        sw_out (snd (sr_world (iu_ring (ls_ring s')))) = sw_out v @ concat (map (wire_image pad) (fst (answers reg invoke reqs t))))) \<and>
    (kMaxCallbacks \<le> 3 * length reqs + 1 \<longrightarrow>
      (\<forall>n. \<exists>s'. rounds env (co_run (sock_lib (lift_os (stream_os k)) (ts, v) slow)) n s = Some (Inr s') \<and>
        (\<forall>x. snd (ls_world s') \<noteq> Finished x)))"
proof -
  let ?os = "lift_os (stream_os k)"
  let ?p = "session_co ?os pad reg invoke max_request_size (Suc (length reqs)) (replicate 4096 0) c t"
  have "sw_in (snd (ts, v)) = concat (map (wire_image pad) reqs)" using assms(6) by simp
  from lifted.session_co_answers [OF assms(1,3) _ _ this, of max_request_size k reg invoke t "replicate 4096 0"] assms(4,5)
  obtain w' where r: "run_co ?os ?p (ts, v) = (Some (Inr (closed c, snd (answers reg invoke reqs t))), snd (Connection_close ?os (c, w')))"
      "co_ops ?os ?p (ts, v) = 3 * length reqs + 1" "fst w' = ts"
      "sw_out (snd w') = sw_out v @ concat (map (wire_image pad) (fst (answers reg invoke reqs t)))"
    by (auto simp del: session_co.simps)
  have "snd (Connection_close ?os (c, w')) = (ts\<lparr>ts_connections := ts_connections ts - 1\<rparr>, os_close (stream_os k) (cn_fd c) (snd w'))"
    using assms(1,2) r(3) by (simp add: Connection_close_def Connection_connected_def count_closed_def lift_os_def split_beta)
  then have close: "fst (snd (Connection_close ?os (c, w'))) = ts\<lparr>ts_connections := ts_connections ts - 1\<rparr>"
      "sw_out (snd (snd (Connection_close ?os (c, w')))) = sw_out v @ concat (map (wire_image pad) (fst (answers reg invoke reqs t)))"
    using r(4) by (simp_all add: stream_os_def)
  have "recv_counts ?os" using recv_counts_stream [of k] by (simp add: recv_counts_def lift_os_def split_beta)
  from on_ring [OF this assms(7,8), of ?p, unfolded r(1,2) fst_conv snd_conv] show ?thesis
    using close by (elim ex_forward conj_forward imp_forward) (assumption | metis)+
qed

definition served_conn_ex :: "stream_world tcp_world Connection" where
  "served_conn_ex = \<lparr>cn_fd = 7, cn_config = default_connection_config, cn_state = Connected, cn_close_callback = Some count_closed,
     cn_bytes_read = 0, cn_bytes_written = 0\<rparr>"

definition served_world_ex :: "stream_world tcp_world" where
  "served_world_ex = ((TcpServer_ctor TcpServerConfig_default)\<lparr>ts_connections := 1\<rparr>,
     \<lparr>sw_in = wire_image [0, 0, 0, 0] echo_request, sw_out = [], sw_closed = []\<rparr>)"

theorem server_on_ring_witness:
  "\<exists>s n s'. start_on_ring (lift_os (stream_os 99)) [True, False, True] IoUringConfig_default
      (session_co (lift_os (stream_os 99)) [0, 0, 0, 0] echo_registry echo_invoke 1000 (Suc (length [echo_request])) (replicate 4096 0) served_conn_ex
        (\<lparr>sv_total_requests = 0, sv_total_errors = 0\<rparr>, 0)) served_world_ex = Inr s \<and>
    rounds (ring_env (lift_os (stream_os 99)) served_world_ex [True, False, True])
      (co_run (sock_lib (lift_os (stream_os 99)) served_world_ex [True, False, True])) n s = Some (Inr s') \<and>
    snd (ls_world s') = Finished (Some (Inr (closed served_conn_ex, \<lparr>sv_total_requests = 1, sv_total_errors = 0\<rparr>, 1))) \<and>
    ts_connections (fst (sr_world (iu_ring (ls_ring s')))) = 0 \<and>
    sw_out (snd (sr_world (iu_ring (ls_ring s')))) = wire_image [0, 0, 0, 0] (create_response 1 [42] EC_OK)"
proof -
  let ?t = "(\<lparr>sv_total_requests = 0, sv_total_errors = 0\<rparr>, 0 :: nat)"
  have c: "Connection_connected served_conn_ex" "cn_close_callback served_conn_ex = Some count_closed" "length [0, 0, 0, 0 :: byte] = 4"
    by (simp_all add: served_conn_ex_def Connection_connected_def)
  have "length (wire_image [0, 0, 0, 0] (create_response 1 [42] EC_OK)) = 33"
    by (simp add: length_wire_image msg_meta_size_def msg_has_type_def header_init_def create_response_def RpcMessage_default_def)
  then have m: "\<forall>m \<in> set (fst (answers echo_registry echo_invoke [echo_request] ?t)). length (wire_image [0, 0, 0, 0] m) \<le> Suc 99"
    unfolding echo_answers by simp
  have w: "served_world_ex = (fst served_world_ex, snd served_world_ex)" "ts_connections (fst served_world_ex) = 1"
      "sw_in (snd served_world_ex) = concat (map (wire_image [0, 0, 0, 0]) [echo_request])" "sw_out (snd served_world_ex) = []"
    by (simp_all add: served_world_ex_def)
  have q: "0 < queue_depth IoUringConfig_default" "3 * length [echo_request] + 1 < kMaxCallbacks"
    by (simp_all add: IoUringConfig_default_def kMaxCallbacks_def)
  have r: "\<forall>req \<in> set [echo_request]. is_request req \<and> length (wire_image [0, 0, 0, 0] req) \<le> min 1000 (Suc 99)"
    using echo_request_ok by simp
  note main = server_on_ring [OF c r m w(3) q(1) ring_env_lib [of "lift_os (stream_os 99)" "(fst served_world_ex, snd served_world_ex)" "[True, False, True]"],
      unfolded echo_answers prod.collapse fst_conv snd_conv]
  then show ?thesis
    apply (elim exE conjE)
    apply (drule mp [OF _ q(2)])
    by (elim exE conjE, intro exI conjI) (assumption | simp add: w(2,4))+
qed

end
