(* ===== verification/Net_Multiplex.thy ===== *)
theory Net_Multiplex
  imports Net_OnRing "HOL-Library.Multiset"
begin

text \<open>
  Many coroutines on one ring under one event loop (\<open>io/event_loop.hpp\<close>, \<open>io/io_uring.hpp\<close>, \<open>io/async_io.hpp\<close>): operations of all of them are in
  flight at the same time, the kernel completes them in any order, and the table of callbacks leads each completion back to the coroutine that
  waits for it. The runs of this system are compared with an interleaving of the coroutines in which every
  receive, send and system call is one step.
\<close>

section \<open>Interleaving\<close>

inductive co_step :: "'w net_os \<Rightarrow> (nat \<Rightarrow> ('a, 'w) co) \<times> 'w \<Rightarrow> (nat \<Rightarrow> ('a, 'w) co) \<times> 'w \<Rightarrow> bool" for os where
  recv: "P h = Recv fd n k \<Longrightarrow> os_recv os fd n w = (r, w') \<Longrightarrow> co_step os (P, w) (P(h := k r), w')"
| send: "P h = Send fd data k \<Longrightarrow> os_send os fd data w = (n, w') \<Longrightarrow> co_step os (P, w) (P(h := k n), w')"
| sys: "P h = Sys g p \<Longrightarrow> co_step os (P, w) (P(h := p), g w)"

abbreviation co_steps :: "'w net_os \<Rightarrow> (nat \<Rightarrow> ('a, 'w) co) \<times> 'w \<Rightarrow> (nat \<Rightarrow> ('a, 'w) co) \<times> 'w \<Rightarrow> bool" where
  "co_steps os \<equiv> (co_step os)\<^sup>*\<^sup>*"

text \<open>A coroutine that awaits at most \<open>m\<close> operations, whatever they answer.\<close>

primrec at_most :: "('a, 'w) co \<Rightarrow> nat \<Rightarrow> bool" where
  "at_most (Return x) m \<longleftrightarrow> True"
| "at_most (Recv fd n k) m \<longleftrightarrow> 0 < m \<and> (\<forall>r. at_most (k r) (m - 1))"
| "at_most (Send fd data k) m \<longleftrightarrow> 0 < m \<and> (\<forall>r. at_most (k r) (m - 1))"
| "at_most (Sys g p) m \<longleftrightarrow> at_most p m"

lemma settle_at_most: "at_most p m \<Longrightarrow> at_most (fst (settle p w)) m"
  by (induction p arbitrary: w) simp_all

lemma settle_steps: "co_steps os (P(h := p), w) (P(h := fst (settle p w)), snd (settle p w))"
proof (induction p arbitrary: w)
  case (Sys g p)
  have "co_step os (P(h := Sys g p), w) ((P(h := Sys g p))(h := p), g w)" by (rule co_step.sys) simp
  then have "co_step os (P(h := Sys g p), w) (P(h := p), g w)" by simp
  from converse_rtranclp_into_rtranclp [OF this Sys.IH [of "g w"]] show ?case unfolding settle.simps .
qed simp_all

section \<open>The kernel side\<close>

text \<open>
  A buffer of a coroutine is an object of its own, named by a number. In each turn the kernel picks entries in flight and completes
  them in the order of its choice.
\<close>

type_synonym picker = "nat \<Rightarrow> sqe list \<Rightarrow> sqe list \<times> sqe list"

record 'w mux_ring =
  mr_capacity :: nat
  mr_sq :: "sqe list"
  mr_inflight :: "sqe list"
  mr_cq :: "cqe list"
  mr_mem :: "nat \<Rightarrow> bytes"
  mr_world :: 'w
  mr_turn :: nat

definition mux_op :: "'w net_os \<Rightarrow> sqe_op \<Rightarrow> (nat \<Rightarrow> bytes) \<times> 'w \<Rightarrow> int \<times> (nat \<Rightarrow> bytes) \<times> 'w" where
  "mux_op os op s =
     (case op of
        Op_recv fd buf n _ \<Rightarrow> (case os_recv os fd n (snd s) of ((res, data), w) \<Rightarrow> (res, (fst s)(buf := data), w))
      | Op_send fd buf n _ \<Rightarrow> (case os_send os fd (take n (fst s buf)) (snd s) of (res, w) \<Rightarrow> (res, fst s, w))
      | _ \<Rightarrow> (0, s))"

definition mux_complete :: "'w net_os \<Rightarrow> sqe \<Rightarrow> 'w mux_ring \<Rightarrow> 'w mux_ring" where
  "mux_complete os e r =
     (case mux_op os (sqe_op e) (mr_mem r, mr_world r) of (res, mem, w) \<Rightarrow>
        r\<lparr>mr_mem := mem, mr_world := w,
          mr_cq := mr_cq r @ [\<lparr>cqe_res = res, cqe_flags = 0, cqe_user_data = sqe_user_data e\<rparr>]\<rparr>)"

definition mux_turn :: "'w net_os \<Rightarrow> picker \<Rightarrow> 'w mux_ring \<Rightarrow> 'w mux_ring" where
  "mux_turn os pick r =
     (case pick (mr_turn r) (mr_inflight r) of (now, later) \<Rightarrow>
        fold (mux_complete os) now (r\<lparr>mr_inflight := later, mr_turn := Suc (mr_turn r)\<rparr>))"

definition mux_lib :: "'w net_os \<Rightarrow> picker \<Rightarrow> 'w \<Rightarrow> 'w mux_ring liburing" where
  "mux_lib os pick w0 = \<lparr>
     lu_init = (\<lambda>depth _. (0, \<lparr>mr_capacity = unat depth, mr_sq = [], mr_inflight = [], mr_cq = [], mr_mem = (\<lambda>_. []), mr_world = w0, mr_turn = 0\<rparr>)),
     lu_exit = (\<lambda>r. r\<lparr>mr_sq := [], mr_inflight := [], mr_cq := []\<rparr>),
     lu_get_sqe = (\<lambda>r. if length (mr_sq r) < mr_capacity r
       then Some (r\<lparr>mr_sq := mr_sq r @ [\<lparr>sqe_op = Op_nop, sqe_flags = 0, sqe_user_data = 0\<rparr>]\<rparr>) else None),
     lu_fill_sqe = (\<lambda>e r. r\<lparr>mr_sq := butlast (mr_sq r) @ [e]\<rparr>),
     lu_submit = (\<lambda>r. (int (length (mr_sq r)), r\<lparr>mr_sq := [], mr_inflight := mr_inflight r @ mr_sq r\<rparr>)),
     lu_submit_and_wait = (\<lambda>_ r. (int (length (mr_sq r)), mux_turn os pick (r\<lparr>mr_sq := [], mr_inflight := mr_inflight r @ mr_sq r\<rparr>))),
     lu_wait = (\<lambda>r. let r' = (if mr_cq r = [] then mux_turn os pick r else r)
       in (case mr_cq r' of [] \<Rightarrow> None | c # _ \<Rightarrow> Some c, r')),
     lu_peek = (\<lambda>r. case mr_cq r of [] \<Rightarrow> None | c # _ \<Rightarrow> Some c),
     lu_seen = (\<lambda>r. r\<lparr>mr_cq := tl (mr_cq r)\<rparr>)\<rparr>"

interpretation mux_cq: completion_queue "mux_lib os pick w0" mr_cq
  by unfold_locales (simp_all add: mux_lib_def)

text \<open>
  What is relied on: the kernel neither loses nor invents entries, and again and again there is a turn in which it completes
  one of the operations in flight, if there is any; in the turns between it may complete nothing, or timeouts only.
\<close>

definition picks_all :: "picker \<Rightarrow> bool" where
  "picks_all pick \<longleftrightarrow> (\<forall>t es. mset (fst (pick t es)) + mset (snd (pick t es)) = mset es)"

definition good_turn :: "picker \<Rightarrow> nat \<Rightarrow> bool" where
  "good_turn pick t \<longleftrightarrow> (\<forall>es. (\<exists>e \<in> set es. \<not> is_timeout e) \<longrightarrow> (\<exists>e \<in> set (fst (pick t es)). \<not> is_timeout e))"

definition picks_fair :: "picker \<Rightarrow> bool" where
  "picks_fair pick \<longleftrightarrow> (\<forall>t. \<exists>t' \<ge> t. good_turn pick t')"

section \<open>Coroutines on the ring\<close>

text \<open>Coroutine \<open>h\<close> has the handle \<open>h\<close>, its awaiter is at address \<open>h\<close> and its buffer is \<open>h\<close>.\<close>

type_synonym ('a, 'w, 'c) mux_state =
  "('w mux_ring, io_cb, 'c, io_world \<times> (nat \<Rightarrow> ('a, 'w) co_frame)) loop_state"

definition on_mux :: "('w mux_ring \<Rightarrow> 'w mux_ring) \<Rightarrow> ('w mux_ring, io_cb) IoUring \<Rightarrow> ('w mux_ring, io_cb) IoUring" where
  "on_mux f u = u\<lparr>iu_ring := f (iu_ring u)\<rparr>"

primrec advance_mux :: "'w mux_ring liburing \<Rightarrow> nat \<Rightarrow> ('a, 'w) co \<Rightarrow> ('a, 'w, 'c) mux_state \<Rightarrow> ('a, 'w, 'c) mux_state" where
  "advance_mux lib h (Return x) s = (fst s, fst (snd s), fst (snd (snd s)), (snd (snd (snd s)))(h := Finished x))"
| "advance_mux lib h (Recv fd n k) s =
     (case async_recv h fd h n 0 (fst (snd (snd s))) of (aw, io) \<Rightarrow>
      case AsyncRecvAwaiter_suspend lib aw h (fst s) of
        Inl _ \<Rightarrow> (fst s, fst (snd s), io, (snd (snd (snd s)))(h := Aborted))
      | Inr u \<Rightarrow> (u, fst (snd s), io, (snd (snd (snd s)))(h := Await_recv aw k)))"
| "advance_mux lib h (Send fd data k) s =
     (case async_send h fd h (length data) 0 (fst (snd (snd s))) of (aw, io) \<Rightarrow>
      let u0 = on_mux (\<lambda>r. r\<lparr>mr_mem := (mr_mem r)(h := data)\<rparr>) (fst s)
      in case AsyncSendAwaiter_suspend lib aw h u0 of
        Inl _ \<Rightarrow> (u0, fst (snd s), io, (snd (snd (snd s)))(h := Aborted))
      | Inr u \<Rightarrow> (u, fst (snd s), io, (snd (snd (snd s)))(h := Await_send aw k)))"
| "advance_mux lib h (Sys g p) s = advance_mux lib h p (on_mux (\<lambda>r. r\<lparr>mr_world := g (mr_world r)\<rparr>) (fst s), snd s)"

definition mux_run :: "'w mux_ring liburing \<Rightarrow> ('w mux_ring, io_cb, 'c EventLoop \<times> (io_world \<times> (nat \<Rightarrow> ('a, 'w) co_frame))) runner" where
  "mux_run lib cb res fl s =
     (let (u, l, io0, fr) = s; io = snd (resume_run cb res fl (u, io0)) in
      case cb of Resume a h \<Rightarrow>
        (case fr h of
           Await_recv aw k \<Rightarrow>
             let n = await_resume (rva_this aw) io
             in advance_mux lib h (k (n, take (nat n) (mr_mem (iu_ring u) (rva_buffer aw)))) (u, l, io, fr)
         | Await_send aw k \<Rightarrow> advance_mux lib h (k (await_resume (sda_this aw) io)) (u, l, io, fr)
         | _ \<Rightarrow> (u, l, io, fr)))"

text \<open>All coroutines are started one after the other on a new ring.\<close>

definition start_all :: "'w net_os \<Rightarrow> picker \<Rightarrow> IoUringConfig \<Rightarrow> nat \<Rightarrow> (nat \<Rightarrow> ('a, 'w) co) \<Rightarrow> 'w \<Rightarrow> IoUringError + ('a, 'w, 'c) mux_state" where
  "start_all os pick config N P w =
     rbind (IoUring_ctor (mux_lib os pick w) config) (\<lambda>u.
       Inr (fold (\<lambda>h. advance_mux (mux_lib os pick w) h (P h)) [0..<N]
         (u, EventLoop_ctor, \<lparr>iw_result = (\<lambda>_. 0), iw_resumed = []\<rparr>, (\<lambda>_. Created))))"

section \<open>The correspondence\<close>

text \<open>
  \<open>es\<close> are the entries the kernel still has, \<open>cs\<close> the completions still to be dispatched. The operation of every entry and of every
  completion belongs to one coroutine, the one the table of callbacks names: one whose operation is in flight rests at that operation, one whose operation is
  completed goes on from its result. The coroutines in \<open>D\<close> are being resumed; all others are finished. A budget \<open>b h\<close> bounds what is still to be submitted.
\<close>

definition own :: "('r, io_cb) IoUring \<Rightarrow> u64 \<Rightarrow> nat" where
  "own u i = (case iu_callbacks u (unat i) of Some (Resume a h) \<Rightarrow> h | None \<Rightarrow> 0)"

definition owners :: "('r, io_cb) IoUring \<Rightarrow> sqe list \<Rightarrow> cqe list \<Rightarrow> nat list" where
  "owners u es cs = map (\<lambda>e. own u (sqe_user_data e)) (filter (\<lambda>e. sqe_user_data e \<noteq> 0) es) @
     map (\<lambda>c. own u (cqe_user_data c)) (filter (\<lambda>c. cqe_user_data c \<noteq> 0) cs)"

definition slot :: "('r, io_cb) IoUring \<Rightarrow> nat \<Rightarrow> nat \<Rightarrow> u64 \<Rightarrow> bool" where
  "slot u N j i \<longleftrightarrow> unat i < j \<and> (\<exists>h < N. iu_callbacks u (unat i) = Some (Resume h h))"

definition waits :: "(nat \<Rightarrow> bytes) \<Rightarrow> ('a, 'w) co \<Rightarrow> nat \<Rightarrow> nat \<Rightarrow> ('a, 'w) co_frame \<Rightarrow> sqe_op \<Rightarrow> bool" where
  "waits mem p m h f op \<longleftrightarrow> at_most p (Suc m) \<and>
     (case p of
        Recv fd n k \<Rightarrow> op = Op_recv fd h n 0 \<and> (\<exists>aw. f = Await_recv aw k \<and> rva_this aw = h \<and> rva_buffer aw = h)
      | Send fd data k \<Rightarrow> op = Op_send fd h (length data) 0 \<and> mem h = data \<and> (\<exists>aw. f = Await_send aw k \<and> sda_this aw = h)
      | _ \<Rightarrow> False)"

definition answered :: "(nat \<Rightarrow> bytes) \<Rightarrow> ('a, 'w) co \<Rightarrow> nat \<Rightarrow> nat \<Rightarrow> ('a, 'w) co_frame \<Rightarrow> int \<Rightarrow> bool" where
  "answered mem p m h f res \<longleftrightarrow> at_most p m \<and>
     ((\<exists>aw k. f = Await_recv aw k \<and> rva_this aw = h \<and> rva_buffer aw = h \<and> p = k (res, take (nat res) (mem h))) \<or>
      (\<exists>aw k. f = Await_send aw k \<and> sda_this aw = h \<and> p = k res))"

definition mux_sim :: "nat \<Rightarrow> nat set \<Rightarrow> sqe list \<Rightarrow> cqe list \<Rightarrow> (nat \<Rightarrow> ('a, 'w) co) \<Rightarrow> 'w \<Rightarrow> (nat \<Rightarrow> nat) \<Rightarrow> nat \<Rightarrow> ('a, 'w, 'c) mux_state \<Rightarrow> bool" where
  "mux_sim N D es cs P w b j s \<longleftrightarrow>
     (let u = ls_ring s; r = iu_ring u; fr = snd (ls_world s) in
      mr_world r = w \<and> iu_next_callback_id u = of_nat j \<and> 0 < j \<and> j + (\<Sum>h<N. b h) \<le> kMaxCallbacks \<and>
      distinct (owners u es cs) \<and>
      (\<forall>e \<in> set es. (sqe_user_data e = 0 \<longleftrightarrow> is_timeout e) \<and>
        (sqe_user_data e \<noteq> 0 \<longrightarrow> slot u N j (sqe_user_data e) \<and>
          (let h = own u (sqe_user_data e) in waits (mr_mem r) (P h) (b h) h (fr h) (sqe_op e)))) \<and>
      (\<forall>c \<in> set cs. cqe_user_data c \<noteq> 0 \<longrightarrow> slot u N j (cqe_user_data c) \<and>
        (let h = own u (cqe_user_data c) in answered (mr_mem r) (P h) (b h) h (fr h) (cqe_res c))) \<and>
      D \<subseteq> {..<N} \<and> D \<inter> set (owners u es cs) = {} \<and> (\<forall>h \<in> D. at_most (P h) (b h)) \<and>
      (\<forall>h < N. h \<notin> D \<longrightarrow> h \<notin> set (owners u es cs) \<longrightarrow> (\<exists>x. fr h = Finished x \<and> P h = Return x)))"

text \<open>The ring has room and the loop nothing else to do.\<close>

definition mux_quiet :: "('a, 'w, 'c) mux_state \<Rightarrow> bool" where
  "mux_quiet s \<longleftrightarrow> 0 < mr_capacity (iu_ring (ls_ring s)) \<and> mr_sq (iu_ring (ls_ring s)) = [] \<and>
     el_timers (ls_loop s) = [] \<and> el_pending_tasks (ls_loop s) = []"

lemma owners_Cons_e: "owners u (e # es) cs = (if sqe_user_data e = 0 then owners u es cs else own u (sqe_user_data e) # owners u es cs)"
  by (simp add: owners_def)

lemma set_owners: "set (owners u es cs) = {own u (sqe_user_data e) | e. e \<in> set es \<and> sqe_user_data e \<noteq> 0} \<union>
    {own u (cqe_user_data c) | c. c \<in> set cs \<and> cqe_user_data c \<noteq> 0}"
  by (auto simp: owners_def)

lemma owners_perm:
  assumes "mset (owners u es cs) = mset (owners v es' cs')"
  shows "distinct (owners u es cs) = distinct (owners v es' cs')" "set (owners u es cs) = set (owners v es' cs')"
  using assms by (metis mset_eq_imp_distinct_iff, metis mset_eq_setD)

lemma owners_swap: "mset es = mset es' \<Longrightarrow> mset (owners u es cs) = mset (owners u es' cs)"
  by (simp add: owners_def)

lemma owners_snoc_e:
  "set (owners u (es @ [e]) cs) = (if sqe_user_data e = 0 then set (owners u es cs) else insert (own u (sqe_user_data e)) (set (owners u es cs)))"
  "distinct (owners u (es @ [e]) cs) \<longleftrightarrow> distinct (owners u es cs) \<and> (sqe_user_data e \<noteq> 0 \<longrightarrow> own u (sqe_user_data e) \<notin> set (owners u es cs))"
  by (auto simp: owners_def)

lemma owners_snoc_c:
  "set (owners u es (cs @ [c])) = (if cqe_user_data c = 0 then set (owners u es cs) else insert (own u (cqe_user_data c)) (set (owners u es cs)))"
  "distinct (owners u es (cs @ [c])) \<longleftrightarrow> distinct (owners u es cs) \<and> (cqe_user_data c \<noteq> 0 \<longrightarrow> own u (cqe_user_data c) \<notin> set (owners u es cs))"
  by (auto simp: owners_def)

lemma owners_Cons_c:
  "set (owners u es (c # cs)) = (if cqe_user_data c = 0 then set (owners u es cs) else insert (own u (cqe_user_data c)) (set (owners u es cs)))"
  "distinct (owners u es (c # cs)) \<longleftrightarrow> distinct (owners u es cs) \<and> (cqe_user_data c \<noteq> 0 \<longrightarrow> own u (cqe_user_data c) \<notin> set (owners u es cs))"
  by (auto simp: owners_def)

lemma mux_sim_perm:
  assumes "mset es = mset es'"
  shows "mux_sim N D es cs P w b j s = mux_sim N D es' cs P w b j s"
proof -
  note o = owners_perm [OF owners_swap [OF assms]]
  have "set es = set es'" using assms by (rule mset_eq_setD)
  then show ?thesis by (simp add: mux_sim_def o)
qed

lemma mux_simI:
  assumes "mr_world (iu_ring u) = w" "iu_next_callback_id u = of_nat j" "0 < j" "j + (\<Sum>h<N. b h) \<le> kMaxCallbacks" "distinct (owners u es cs)"
    and "\<And>e. e \<in> set es \<Longrightarrow> sqe_user_data e = 0 \<longleftrightarrow> is_timeout e"
    and "\<And>e. e \<in> set es \<Longrightarrow> sqe_user_data e \<noteq> 0 \<Longrightarrow> slot u N j (sqe_user_data e)"
    and "\<And>e h. e \<in> set es \<Longrightarrow> sqe_user_data e \<noteq> 0 \<Longrightarrow> h = own u (sqe_user_data e) \<Longrightarrow> waits (mr_mem (iu_ring u)) (P h) (b h) h (fr h) (sqe_op e)"
    and "\<And>c. c \<in> set cs \<Longrightarrow> cqe_user_data c \<noteq> 0 \<Longrightarrow> slot u N j (cqe_user_data c)"
    and "\<And>c h. c \<in> set cs \<Longrightarrow> cqe_user_data c \<noteq> 0 \<Longrightarrow> h = own u (cqe_user_data c) \<Longrightarrow> answered (mr_mem (iu_ring u)) (P h) (b h) h (fr h) (cqe_res c)"
    and "D \<subseteq> {..<N}" "D \<inter> set (owners u es cs) = {}" "\<And>h. h \<in> D \<Longrightarrow> at_most (P h) (b h)"
    and "\<And>h. h < N \<Longrightarrow> h \<notin> D \<Longrightarrow> h \<notin> set (owners u es cs) \<Longrightarrow> \<exists>x. fr h = Finished x \<and> P h = Return x"
  shows "mux_sim N D es cs P w b j (u, l, io, fr)"
  using assms by (simp add: mux_sim_def Let_def)

lemma mux_simD:
  assumes "mux_sim N D es cs P w b j (u, l, io, fr)"
  shows "mr_world (iu_ring u) = w" "iu_next_callback_id u = of_nat j" "0 < j" "j + (\<Sum>h<N. b h) \<le> kMaxCallbacks" "distinct (owners u es cs)"
    and "\<And>e. e \<in> set es \<Longrightarrow> sqe_user_data e = 0 \<longleftrightarrow> is_timeout e"
    and "\<And>e. e \<in> set es \<Longrightarrow> sqe_user_data e \<noteq> 0 \<Longrightarrow> slot u N j (sqe_user_data e)"
    and "\<And>e h. e \<in> set es \<Longrightarrow> sqe_user_data e \<noteq> 0 \<Longrightarrow> h = own u (sqe_user_data e) \<Longrightarrow> waits (mr_mem (iu_ring u)) (P h) (b h) h (fr h) (sqe_op e)"
    and "\<And>c. c \<in> set cs \<Longrightarrow> cqe_user_data c \<noteq> 0 \<Longrightarrow> slot u N j (cqe_user_data c)"
    and "\<And>c h. c \<in> set cs \<Longrightarrow> cqe_user_data c \<noteq> 0 \<Longrightarrow> h = own u (cqe_user_data c) \<Longrightarrow> answered (mr_mem (iu_ring u)) (P h) (b h) h (fr h) (cqe_res c)"
    and "D \<subseteq> {..<N}" "D \<inter> set (owners u es cs) = {}" "\<And>h. h \<in> D \<Longrightarrow> at_most (P h) (b h)"
    and "\<And>h. h < N \<Longrightarrow> h \<notin> D \<Longrightarrow> h \<notin> set (owners u es cs) \<Longrightarrow> \<exists>x. fr h = Finished x \<and> P h = Return x"
  using assms by (simp_all add: mux_sim_def Let_def)

lemma on_mux_simps [simp]:
  "own (on_mux f u) i = own u i" "slot (on_mux f u) N j i = slot u N j i" "owners (on_mux f u) es cs = owners u es cs"
  "iu_next_callback_id (on_mux f u) = iu_next_callback_id u" "iu_ring (on_mux f u) = f (iu_ring u)"
  by (simp_all add: own_def slot_def on_mux_def owners_def)

lemma other_owner:
  "h \<notin> set (owners u es cs) \<Longrightarrow> e \<in> set es \<Longrightarrow> sqe_user_data e \<noteq> 0 \<Longrightarrow> own u (sqe_user_data e) \<noteq> h"
  "h \<notin> set (owners u es cs) \<Longrightarrow> c \<in> set cs \<Longrightarrow> cqe_user_data c \<noteq> 0 \<Longrightarrow> own u (cqe_user_data c) \<noteq> h"
  by (auto simp: set_owners)

lemma same_buffer:
  assumes "mem h = mem' h"
  shows "waits mem p m h f op = waits mem' p m h f op" "answered mem p m h f x = answered mem' p m h f x"
  using assms by (simp_all add: waits_def answered_def cong: co.case_cong)

text \<open>The answer of the kernel to an operation is a step of the coroutine that awaits it, and touches no other buffer.\<close>

lemma answer_step:
  assumes wt: "waits mem (P h) m h f op" and k: "mux_op os op (mem, w) = (res, mem', w')" and rc: "recv_counts os"
  shows "\<exists>q. co_step os (P, w) (P(h := q), w') \<and> answered mem' q m h f res \<and> (\<forall>h'. h' \<noteq> h \<longrightarrow> mem' h' = mem h')"
proof (cases "P h")
  case (Recv fd n kk)
  obtain data where r: "os_recv os fd n w = ((res, data), w')" "mem' = mem(h := data)"
    using wt Recv k by (auto simp: waits_def mux_op_def split: prod.splits)
  have "length data = nat res" using rc r(1) by (metis recv_counts_def fst_conv snd_conv)
  with wt Recv r have "answered mem' (kk (res, data)) m h f res" by (auto simp: waits_def answered_def)
  with co_step.recv [of P h, OF Recv r(1)] r(2) show ?thesis by auto
next
  case (Send fd data kk)
  have r: "os_send os fd data w = (res, w')" "mem' = mem"
    using wt Send k by (auto simp: waits_def mux_op_def split: prod.splits)
  with wt Send have "answered mem' (kk res) m h f res" by (auto simp: waits_def answered_def)
  with co_step.send [of P h, OF Send r(1)] r(2) show ?thesis by auto
qed (use wt in \<open>simp_all add: waits_def\<close>)

text \<open>A step of the kernel: the oldest entry of its list is completed.\<close>

lemma complete_sim:
  assumes sim: "mux_sim N D (e # es) cs P w b j (u, x)" and rc: "recv_counts os"
  shows "\<exists>P' w' c. co_steps os (P, w) (P', w') \<and> cqe_user_data c = sqe_user_data e \<and>
      mr_cq (mux_complete os e (iu_ring u)) = mr_cq (iu_ring u) @ [c] \<and>
      mux_sim N D es (cs @ [c]) P' w' b j (on_mux (mux_complete os e) u, x)"
proof -
  obtain l io fr where x: "x = (l, io, fr)" by (metis surj_pair)
  note S = mux_simD [OF sim [unfolded x]]
  let ?r = "iu_ring u"
  obtain res mem w' where k: "mux_op os (sqe_op e) (mr_mem ?r, w) = (res, mem, w')" by (metis surj_pair)
  let ?c = "\<lparr>cqe_res = res, cqe_flags = 0, cqe_user_data = sqe_user_data e\<rparr>"
  have r': "mux_complete os e ?r = ?r\<lparr>mr_mem := mem, mr_world := w', mr_cq := mr_cq ?r @ [?c]\<rparr>"
    using k S(1) by (simp add: mux_complete_def)
  show ?thesis
  proof (cases "sqe_user_data e = 0")
    case True
    with S(6) have "is_timeout e" by simp
    then have same: "mem = mr_mem ?r" "w' = w" using k by (auto simp: is_timeout_def mux_op_def split: sqe_op.splits)
    have "mux_sim N D es (cs @ [?c]) P w b j (on_mux (mux_complete os e) u, l, io, fr)"
    proof (rule mux_simI)
      show "distinct (owners (on_mux (mux_complete os e) u) es (cs @ [?c]))" "D \<inter> set (owners (on_mux (mux_complete os e) u) es (cs @ [?c])) = {}"
        using S(5,12) True by (simp_all add: owners_snoc_c owners_Cons_e)
    qed (use S True in \<open>auto simp: r' same owners_snoc_c owners_Cons_e\<close>)
    then show ?thesis using x r' by (intro exI [of _ P] exI [of _ w] exI [of _ ?c]) simp
  next
    case False
    define h where "h = own u (sqe_user_data e)"
    have dist: "h \<notin> set (owners u es cs)" "h \<notin> D" "distinct (owners u es cs)" "D \<inter> set (owners u es cs) = {}"
      using S(5,12) False by (auto simp: owners_Cons_e h_def)
    have wt: "waits (mr_mem ?r) (P h) (b h) h (fr h) (sqe_op e)" using S(8) [of e] False h_def by simp
    from answer_step [where P = P, OF wt k rc]
    obtain q where q: "co_step os (P, w) (P(h := q), w')" "answered mem q (b h) h (fr h) res"
      "\<And>h'. h' \<noteq> h \<Longrightarrow> mem h' = mr_mem ?r h'" by blast
    note oth = other_owner [OF dist(1)]
    have "mux_sim N D es (cs @ [?c]) (P(h := q)) w' b j (on_mux (mux_complete os e) u, l, io, fr)"
    proof (rule mux_simI)
      fix e' h' assume e': "e' \<in> set es" "sqe_user_data e' \<noteq> 0" "h' = own (on_mux (mux_complete os e) u) (sqe_user_data e')"
      with oth(1) have ne: "h' \<noteq> h" by simp
      have "waits (mr_mem ?r) (P h') (b h') h' (fr h') (sqe_op e')" using S(8) [of e' h'] e' by simp
      then have "waits mem (P h') (b h') h' (fr h') (sqe_op e')" by (simp only: same_buffer [of mem h' "mr_mem ?r", OF q(3) [OF ne]])
      with ne show "waits (mr_mem (iu_ring (on_mux (mux_complete os e) u))) ((P(h := q)) h') (b h') h' (fr h') (sqe_op e')" by (simp add: r')
    next
      fix c' h' assume c': "c' \<in> set (cs @ [?c])" "cqe_user_data c' \<noteq> 0" "h' = own (on_mux (mux_complete os e) u) (cqe_user_data c')"
      show "answered (mr_mem (iu_ring (on_mux (mux_complete os e) u))) ((P(h := q)) h') (b h') h' (fr h') (cqe_res c')"
      proof (cases "c' \<in> set cs")
        case True
        with oth(2) c' have ne: "h' \<noteq> h" by simp
        have "answered (mr_mem ?r) (P h') (b h') h' (fr h') (cqe_res c')" using S(10) [of c' h'] c' True by simp
        then have "answered mem (P h') (b h') h' (fr h') (cqe_res c')" by (simp only: same_buffer [of mem h' "mr_mem ?r", OF q(3) [OF ne]])
        with ne show ?thesis by (simp add: r')
      next
        case False
        with c' q(2) show ?thesis by (simp add: r' h_def)
      qed
    next
      show "distinct (owners (on_mux (mux_complete os e) u) es (cs @ [?c]))" "D \<inter> set (owners (on_mux (mux_complete os e) u) es (cs @ [?c])) = {}"
        using dist False by (auto simp: owners_snoc_c h_def)
      show "\<exists>x. fr h' = Finished x \<and> (P(h := q)) h' = Return x"
        if "h' < N" "h' \<notin> D" "h' \<notin> set (owners (on_mux (mux_complete os e) u) es (cs @ [?c]))" for h'
        using S(14) [of h'] that False by (auto simp: owners_snoc_c owners_Cons_e h_def)
      show "at_most ((P(h := q)) h') (b h')" if "h' \<in> D" for h' using S(13) [OF that] dist(2) that by auto
    qed (use S False in \<open>auto simp: r'\<close>)
    then show ?thesis using x r' q(1) by (intro exI [of _ "P(h := q)"] exI [of _ w'] exI [of _ ?c]) auto
  qed
qed

text \<open>Resuming a coroutine: it runs to its next operation, which takes a new identifier and slot, or ends.\<close>

definition mux_load :: "nat \<Rightarrow> (nat \<Rightarrow> nat) \<Rightarrow> sqe list \<Rightarrow> nat" where
  "mux_load N b es = (\<Sum>h<N. b h) + length (filter (\<lambda>e. sqe_user_data e \<noteq> 0) es)"

lemma suspend_mux:
  assumes "mr_sq (iu_ring u) = []" "0 < mr_capacity (iu_ring u)"
  shows "suspend_with (mux_lib os pick w0) (prepare (mux_lib os pick w0) op 0 cb) u =
    Inr (on_mux (\<lambda>r. r\<lparr>mr_inflight := mr_inflight r @ [entry op (iu_next_callback_id u)]\<rparr>)
      (u\<lparr>iu_next_callback_id := iu_next_callback_id u + 1,
         iu_callbacks := (iu_callbacks u)(unat (iu_next_callback_id u) mod kMaxCallbacks := Some cb)\<rparr>))"
  using assms by (simp add: suspend_with_def noexcept_def prepare_def submit_def mux_lib_def set_callback_eq entry_def on_mux_def)

lemma next_identifier:
  assumes "0 < j" "j < kMaxCallbacks"
  shows "unat (of_nat j :: u64) = j" "of_nat j \<noteq> (0 :: u64)" "sqe_user_data (entry op (of_nat j)) = of_nat j"
proof -
  show uj: "unat (of_nat j :: u64) = j" using assms(2) by (simp add: unat_of_nat kMaxCallbacks_def take_bit_nat_eq_self)
  have "unat (of_nat j mod of_nat kMaxCallbacks :: u64) = j" unfolding kMax_mod uj using assms(2) by simp
  then show "sqe_user_data (entry op (of_nat j)) = of_nat j" using uj by (simp add: entry_def word_unat_eq_iff)
  show "of_nat j \<noteq> (0 :: u64)" using uj assms(1) by (metis unat_0 less_irrefl)
qed

lemma submit_sim:
  assumes sim: "mux_sim N (insert h D) es cs P w b j (u, l, io, fr)" and h: "h \<notin> D" "0 < b h"
    and p: "at_most p (b h)" "is_timeout (entry op (of_nat j)) = False"
    and mem: "\<And>h'. h' \<noteq> h \<Longrightarrow> mem h' = mr_mem (iu_ring u) h'"
    and wt: "waits mem p (b h - 1) h f op"
    and u': "u' = on_mux (\<lambda>r. r\<lparr>mr_mem := mem, mr_inflight := mr_inflight r @ [entry op (of_nat j)]\<rparr>)
      (u\<lparr>iu_next_callback_id := of_nat j + 1, iu_callbacks := (iu_callbacks u)(unat (of_nat j :: u64) mod kMaxCallbacks := Some (Resume h h))\<rparr>)"
  shows "mux_sim N D (es @ [entry op (of_nat j)]) cs (P(h := p)) w (b(h := b h - 1)) (Suc j) (u', l, io', fr(h := f)) \<and>
    mux_load N (b(h := b h - 1)) (es @ [entry op (of_nat j)]) = mux_load N b es"
proof -
  note S = mux_simD [OF sim]
  let ?e = "entry op (of_nat j)"
  have hN: "h < N" and own_h: "h \<notin> set (owners u es cs)" using S(11,12) by auto
  have sum: "(\<Sum>x<N. b x) = Suc (\<Sum>x<N. (b(h := b h - 1)) x)"
    using hN h(2) by (subst (1 2) sum.remove [of _ h]) auto
  have jK: "j < kMaxCallbacks" using S(4) sum by simp
  note uj = next_identifier(1) [OF S(3) jK] and ud = next_identifier(3) [OF S(3) jK, of op] next_identifier(2) [OF S(3) jK]
  have cb: "iu_callbacks u' = (iu_callbacks u)(j := Some (Resume h h))" using uj jK by (simp add: u' on_mux_def)
  have old: "own u' i = own u i" "slot u' N (Suc j) i" if "slot u N j i" for i
    using that by (auto simp: own_def slot_def cb)
  have new: "own u' (of_nat j) = h" "slot u' N (Suc j) (of_nat j)" using uj hN by (auto simp: own_def slot_def cb)
  have ow: "owners u' es cs = owners u es cs" using S(7,9) old(1) by (auto simp: owners_def)
  note oth = other_owner [OF own_h]
  have r': "iu_ring u' = (iu_ring u)\<lparr>mr_mem := mem, mr_inflight := mr_inflight (iu_ring u) @ [?e]\<rparr>" "iu_next_callback_id u' = of_nat (Suc j)"
    unfolding u' by (simp_all add: on_mux_def)
  have "mux_sim N D (es @ [?e]) cs (P(h := p)) w (b(h := b h - 1)) (Suc j) (u', l, io', fr(h := f))"
  proof (rule mux_simI)
    show "Suc j + (\<Sum>x<N. (b(h := b h - 1)) x) \<le> kMaxCallbacks" using S(4) sum by simp
    show "distinct (owners u' (es @ [?e]) cs)" "D \<inter> set (owners u' (es @ [?e]) cs) = {}"
      using S(5,12) own_h h(1) by (auto simp: owners_snoc_e ow ud new)
    show "sqe_user_data e = 0 \<longleftrightarrow> is_timeout e" if "e \<in> set (es @ [?e])" for e using S(6) [of e] that ud p(2) by auto
    show "slot u' N (Suc j) (sqe_user_data e)" if "e \<in> set (es @ [?e])" "sqe_user_data e \<noteq> 0" for e
      using that S(7) [of e] old(2) new(2) ud by auto
    show "slot u' N (Suc j) (cqe_user_data c)" if "c \<in> set cs" "cqe_user_data c \<noteq> 0" for c using that S(9) [of c] old(2) by auto
    show "at_most ((P(h := p)) h') ((b(h := b h - 1)) h')" if "h' \<in> D" for h' using that S(13) [of h'] h(1) by auto
    show "\<exists>x. (fr(h := f)) h' = Finished x \<and> (P(h := p)) h' = Return x" if "h' < N" "h' \<notin> D" "h' \<notin> set (owners u' (es @ [?e]) cs)" for h'
      using that S(14) [of h'] by (auto simp: owners_snoc_e ow ud new)
  next
    fix e h' assume e: "e \<in> set (es @ [?e])" "sqe_user_data e \<noteq> 0" "h' = own u' (sqe_user_data e)"
    show "waits (mr_mem (iu_ring u')) ((P(h := p)) h') ((b(h := b h - 1)) h') h' ((fr(h := f)) h') (sqe_op e)"
    proof (cases "e \<in> set es")
      case True
      then have h': "h' = own u (sqe_user_data e)" "h' \<noteq> h" using e old(1) [OF S(7)] oth(1) by auto
      have "waits (mr_mem (iu_ring u)) (P h') (b h') h' (fr h') (sqe_op e)" using S(8) [of e h'] e True h'(1) by simp
      then have "waits mem (P h') (b h') h' (fr h') (sqe_op e)" by (simp only: same_buffer [of mem h' "mr_mem (iu_ring u)", OF mem [OF h'(2)]])
      with h'(2) show ?thesis by (simp add: r')
    next
      case False
      with e have "e = ?e" by simp
      with e ud new wt show ?thesis by (simp add: r') (simp add: entry_def)
    qed
  next
    fix c h' assume c: "c \<in> set cs" "cqe_user_data c \<noteq> 0" "h' = own u' (cqe_user_data c)"
    then have h': "h' = own u (cqe_user_data c)" "h' \<noteq> h" using old(1) [OF S(9)] oth(2) by auto
    have "answered (mr_mem (iu_ring u)) (P h') (b h') h' (fr h') (cqe_res c)" using S(10) [of c h'] c h'(1) by simp
    then have "answered mem (P h') (b h') h' (fr h') (cqe_res c)" by (simp only: same_buffer [of mem h' "mr_mem (iu_ring u)", OF mem [OF h'(2)]])
    with h'(2) show "answered (mr_mem (iu_ring u')) ((P(h := p)) h') ((b(h := b h - 1)) h') h' ((fr(h := f)) h') (cqe_res c)" by (simp add: r')
  qed (use S r' in auto)
  moreover have "mux_load N (b(h := b h - 1)) (es @ [?e]) = mux_load N b es"
    using sum ud by (simp add: mux_load_def)
  ultimately show ?thesis by blast
qed

lemma sys_sim:
  assumes sim: "mux_sim N (insert h D) es cs P w b j (u, l, io, fr)" and p: "P h = Sys g p"
  shows "mux_sim N (insert h D) es cs (P(h := p)) (g w) b j (on_mux (\<lambda>r. r\<lparr>mr_world := g (mr_world r)\<rparr>) u, l, io, fr)"
proof -
  note S = mux_simD [OF sim]
  have own_h: "h \<notin> set (owners u es cs)" using S(12) by auto
  show ?thesis
  proof (rule mux_simI)
    show "at_most ((P(h := p)) h') (b h')" if "h' \<in> insert h D" for h' using S(13) [OF that] p by auto
    show "\<exists>x. fr h' = Finished x \<and> (P(h := p)) h' = Return x"
      if "h' < N" "h' \<notin> insert h D" "h' \<notin> set (owners (on_mux (\<lambda>r. r\<lparr>mr_world := g (mr_world r)\<rparr>) u) es cs)" for h'
      using S(14) [of h'] that by auto
  qed (use S other_owner [OF own_h] in auto)
qed

lemma finish_sim:
  assumes sim: "mux_sim N (insert h D) es cs P w b j (u, l, io, fr)" and p: "P h = Return x"
  shows "mux_sim N D es cs P w b j (u, l, io', fr(h := Finished x))"
proof -
  note S = mux_simD [OF sim]
  have own_h: "h \<notin> set (owners u es cs)" using S(12) by auto
  show ?thesis
  proof (rule mux_simI)
    show "\<exists>y. (fr(h := Finished x)) h' = Finished y \<and> P h' = Return y" if "h' < N" "h' \<notin> D" "h' \<notin> set (owners u es cs)" for h'
      using S(14) [of h'] that p by auto
  qed (use S other_owner [OF own_h] in auto)
qed

lemma mux_quiet_simps [simp]:
  "mux_quiet (on_mux (\<lambda>r. r\<lparr>mr_world := W r\<rparr>) u, x) = mux_quiet (u, x)"
  "mux_quiet (u, l, io, fr) \<longleftrightarrow> 0 < mr_capacity (iu_ring u) \<and> mr_sq (iu_ring u) = [] \<and> el_timers l = [] \<and> el_pending_tasks l = []"
  by (simp_all add: mux_quiet_def on_mux_def)

definition mux_moves :: "'w net_os \<Rightarrow> nat \<Rightarrow> nat set \<Rightarrow> sqe list \<Rightarrow> cqe list \<Rightarrow> (nat \<Rightarrow> ('a, 'w) co) \<times> 'w \<Rightarrow> nat \<Rightarrow>
    ('a, 'w, 'c) mux_state \<Rightarrow> ('a, 'w, 'c) mux_state \<Rightarrow> bool" where
  "mux_moves os N D es cs cfg load s s' \<longleftrightarrow>
     (\<exists>P' w' b' j' es'. co_steps os cfg (P', w') \<and> mux_sim N D (es @ es') cs P' w' b' j' s' \<and> mux_load N b' (es @ es') = load \<and>
       mux_quiet s' \<and> mr_cq (iu_ring (ls_ring s')) = mr_cq (iu_ring (ls_ring s)) \<and>
       mr_inflight (iu_ring (ls_ring s')) = mr_inflight (iu_ring (ls_ring s)) @ es' \<and>
       mr_turn (iu_ring (ls_ring s')) = mr_turn (iu_ring (ls_ring s)) \<and> (\<forall>h \<in> D. P' h = fst cfg h))"

lemma mux_moves_before:
  assumes "co_steps os cfg cfg'" "mux_moves os N D es cs cfg' load s1 s'"
    and "mr_cq (iu_ring (ls_ring s1)) = mr_cq (iu_ring (ls_ring s))" "mr_inflight (iu_ring (ls_ring s1)) = mr_inflight (iu_ring (ls_ring s))"
      "mr_turn (iu_ring (ls_ring s1)) = mr_turn (iu_ring (ls_ring s))" "\<And>h. h \<in> D \<Longrightarrow> fst cfg' h = fst cfg h"
  shows "mux_moves os N D es cs cfg load s s'"
proof -
  from assms(2) obtain P' w' b' j' es' where m: "co_steps os cfg' (P', w')" "mux_sim N D (es @ es') cs P' w' b' j' s'" "mux_load N b' (es @ es') = load"
      "mux_quiet s'" "mr_cq (iu_ring (ls_ring s')) = mr_cq (iu_ring (ls_ring s1))"
      "mr_inflight (iu_ring (ls_ring s')) = mr_inflight (iu_ring (ls_ring s1)) @ es'"
      "mr_turn (iu_ring (ls_ring s')) = mr_turn (iu_ring (ls_ring s1))" "\<forall>h \<in> D. P' h = fst cfg' h"
    unfolding mux_moves_def by blast
  from rtranclp_trans [OF assms(1) m(1)] m(2-8) assms(3-6) show ?thesis unfolding mux_moves_def
    by (intro exI [of _ P'] exI [of _ w'] exI [of _ b'] exI [of _ j'] exI [of _ es']) simp
qed

lemma advance_sim:
  assumes "mux_sim N (insert h D) es cs P w b j s" "h \<notin> D" "mux_quiet s" "P h = p"
  shows "mux_moves os N D es cs (P, w) (mux_load N b es) s (advance_mux (mux_lib os pick w0) h p s)"
  using assms
proof (induction p arbitrary: P w s)
  case (Return x)
  obtain u l io fr where s: "s = (u, l, io, fr)" by (metis surj_pair)
  from finish_sim [OF Return.prems(1) [unfolded s] Return.prems(4)] Return.prems(3) show ?case unfolding mux_moves_def s
    by (intro exI [of _ P] exI [of _ w] exI [of _ b] exI [of _ j] exI [of _ "[]"]) auto
next
  case (Sys g p)
  obtain u l io fr where s: "s = (u, l, io, fr)" by (metis surj_pair)
  let ?s = "(on_mux (\<lambda>r. r\<lparr>mr_world := g (mr_world r)\<rparr>) u, l, io, fr)"
  have sim: "mux_sim N (insert h D) es cs (P(h := p)) (g w) b j ?s" by (rule sys_sim [OF Sys.prems(1) [unfolded s] Sys.prems(4)])
  have m: "mux_moves os N D es cs (P(h := p), g w) (mux_load N b es) ?s (advance_mux (mux_lib os pick w0) h p ?s)"
    by (rule Sys.IH [OF sim Sys.prems(2)]) (use Sys.prems(3) s in simp_all)
  have "co_step os (P, w) (P(h := p), g w)" using Sys.prems(4) by (rule co_step.sys)
  then have st: "co_steps os (P, w) (P(h := p), g w)" by (rule r_into_rtranclp)
  have "mux_moves os N D es cs (P, w) (mux_load N b es) s (advance_mux (mux_lib os pick w0) h p ?s)"
    by (rule mux_moves_before [OF st m]) (use Sys.prems(2) in \<open>auto simp: s\<close>)
  then show ?case by (simp add: s)
next
  case (Recv fd n k)
  obtain u l io fr where s: "s = (u, l, io, fr)" by (metis surj_pair)
  note S = mux_simD [OF Recv.prems(1) [unfolded s]]
  have am: "at_most (Recv fd n k) (b h)" using S(13) [of h] Recv.prems(4) by simp
  let ?aw = "\<lparr>rva_this = h, rva_fd = fd, rva_buffer = h, rva_size = n, rva_flags = 0\<rparr>"
  let ?e = "entry (Op_recv fd h n 0) (of_nat j)"
  define u' where "u' = on_mux (\<lambda>r. r\<lparr>mr_mem := mr_mem (iu_ring u), mr_inflight := mr_inflight r @ [?e]\<rparr>)
      (u\<lparr>iu_next_callback_id := of_nat j + 1, iu_callbacks := (iu_callbacks u)(unat (of_nat j :: u64) mod kMaxCallbacks := Some (Resume h h))\<rparr>)"
  have adv: "advance_mux (mux_lib os pick w0) h (Recv fd n k) s = (u', l, init_result h 0 io, fr(h := Await_recv ?aw k))"
    using Recv.prems(3) S(2) by (simp add: s suspend_ops suspend_mux u'_def on_mux_def)
  have "mux_sim N D (es @ [?e]) cs (P(h := Recv fd n k)) w (b(h := b h - 1)) (Suc j) (u', l, init_result h 0 io, fr(h := Await_recv ?aw k)) \<and>
      mux_load N (b(h := b h - 1)) (es @ [?e]) = mux_load N b es"
    by (rule submit_sim [OF Recv.prems(1) [unfolded s] Recv.prems(2) _ am _ _ _ u'_def]) (use am in \<open>auto simp: waits_def\<close>)
  moreover have "P(h := Recv fd n k) = P" using Recv.prems(4) by auto
  ultimately show ?case using Recv.prems(3) unfolding mux_moves_def adv
    by (intro exI [of _ P] exI [of _ w] exI [of _ "b(h := b h - 1)"] exI [of _ "Suc j"] exI [of _ "[?e]"]) (simp add: s u'_def on_mux_def)
next
  case (Send fd data k)
  obtain u l io fr where s: "s = (u, l, io, fr)" by (metis surj_pair)
  note S = mux_simD [OF Send.prems(1) [unfolded s]]
  have am: "at_most (Send fd data k) (b h)" using S(13) [of h] Send.prems(4) by simp
  let ?aw = "\<lparr>sda_this = h, sda_fd = fd, sda_buffer = h, sda_size = length data, sda_flags = 0\<rparr>"
  let ?e = "entry (Op_send fd h (length data) 0) (of_nat j)"
  define u' where "u' = on_mux (\<lambda>r. r\<lparr>mr_mem := (mr_mem (iu_ring u))(h := data), mr_inflight := mr_inflight r @ [?e]\<rparr>)
      (u\<lparr>iu_next_callback_id := of_nat j + 1, iu_callbacks := (iu_callbacks u)(unat (of_nat j :: u64) mod kMaxCallbacks := Some (Resume h h))\<rparr>)"
  have adv: "advance_mux (mux_lib os pick w0) h (Send fd data k) s = (u', l, init_result h 0 io, fr(h := Await_send ?aw k))"
    using Send.prems(3) S(2) by (simp add: s suspend_ops suspend_mux u'_def on_mux_def)
  have "mux_sim N D (es @ [?e]) cs (P(h := Send fd data k)) w (b(h := b h - 1)) (Suc j) (u', l, init_result h 0 io, fr(h := Await_send ?aw k)) \<and>
      mux_load N (b(h := b h - 1)) (es @ [?e]) = mux_load N b es"
    by (rule submit_sim [OF Send.prems(1) [unfolded s] Send.prems(2) _ am _ _ _ u'_def]) (use am in \<open>auto simp: waits_def\<close>)
  moreover have "P(h := Send fd data k) = P" using Send.prems(4) by auto
  ultimately show ?case using Send.prems(3) unfolding mux_moves_def adv
    by (intro exI [of _ P] exI [of _ w] exI [of _ "b(h := b h - 1)"] exI [of _ "Suc j"] exI [of _ "[?e]"]) (simp add: s u'_def on_mux_def)
qed

text \<open>Dispatching a completion resumes the coroutine that waits for it, and no other.\<close>

lemma detach_sim:
  assumes sim: "mux_sim N {} es (c # cs) P w b j (u, l, io, fr)" and c: "cqe_user_data c \<noteq> 0"
  shows "mux_sim N {own u (cqe_user_data c)} es cs P w b j (u, l, io', fr)"
proof -
  note S = mux_simD [OF sim]
  let ?h = "own u (cqe_user_data c)"
  have hN: "?h < N" using S(9) [of c] c by (auto simp: slot_def own_def)
  show ?thesis
  proof (rule mux_simI)
    show "at_most (P h) (b h)" if "h \<in> {?h}" for h using S(10) [of c] c that by (simp add: answered_def)
    show "distinct (owners u es cs)" "{?h} \<inter> set (owners u es cs) = {}" using S(5) c by (auto simp: owners_Cons_c)
    show "\<exists>x. fr h = Finished x \<and> P h = Return x" if "h < N" "h \<notin> {?h}" "h \<notin> set (owners u es cs)" for h
      using S(14) [of h] that by (auto simp: owners_Cons_c)
  qed (use S hN in auto)
qed

lemma tick_sim:
  assumes sim: "mux_sim N {} es (c # cs) P w b j (u, l, io, fr)" and c: "cqe_user_data c = 0"
  shows "mux_sim N {} es cs P w b j (u, l, io, fr)"
proof -
  note S = mux_simD [OF sim]
  show ?thesis
  proof (rule mux_simI)
    show "distinct (owners u es cs)" "{} \<inter> set (owners u es cs) = {}" using S(5) c by (auto simp: owners_Cons_c)
    show "\<exists>x. fr h = Finished x \<and> P h = Return x" if "h < N" "h \<notin> {}" "h \<notin> set (owners u es cs)" for h
      using S(14) [of h] that c by (auto simp: owners_Cons_c)
  qed (use S in auto)
qed

lemma dispatch_sim:
  assumes "mux_sim N {} es (c # cs) P w b j s" "mux_quiet s"
  shows "\<exists>s1. process_cqe (mux_lib os pick w0) (mux_run (mux_lib os pick w0)) c s = Inr (ring_seen (mux_lib os pick w0) s1) \<and>
    mux_moves os N {} es cs (P, w) (mux_load N b es) s s1"
proof -
  obtain u l io fr where s: "s = (u, l, io, fr)" by (metis surj_pair)
  note S = mux_simD [OF assms(1) [unfolded s]]
  show ?thesis
  proof (cases "cqe_user_data c = 0")
    case True
    from tick_sim [OF assms(1) [unfolded s] True] have "mux_moves os N {} es cs (P, w) (mux_load N b es) s s"
      using assms(2) unfolding mux_moves_def s
      by (intro exI [of _ P] exI [of _ w] exI [of _ b] exI [of _ j] exI [of _ "[]"]) simp
    moreover have "process_cqe (mux_lib os pick w0) (mux_run (mux_lib os pick w0)) c s = Inr (ring_seen (mux_lib os pick w0) s)"
      using True by (simp add: process_cqe_def get_callback_def)
    ultimately show ?thesis by blast
  next
    case False
    let ?h = "own u (cqe_user_data c)" and ?lib = "mux_lib os pick w0"
    have sl: "unat (cqe_user_data c) < j" "iu_callbacks u (unat (cqe_user_data c)) = Some (Resume ?h ?h)"
      using S(9) [of c] False by (auto simp: slot_def own_def)
    have "unat (cqe_user_data c) < kMaxCallbacks" using sl(1) S(4) by simp
    then have "get_callback u c = Some (Some (Resume ?h ?h))"
      using get_callback_slot [of c "unat (cqe_user_data c)" u] sl(2) False by (simp add: unat_eq_zero)
    moreover obtain io' where "mux_run ?lib (Resume ?h ?h) (cqe_res c) (cqe_flags c) s = advance_mux ?lib ?h (P ?h) (u, l, io', fr)"
      using S(10) [of c ?h] False by (auto simp: mux_run_def s answered_def resume_run_def await_resume_def Let_def)
    moreover from advance_sim [OF detach_sim [OF assms(1) [unfolded s] False, of io'] _ _ refl, of os pick w0] assms(2)
    have "mux_moves os N {} es cs (P, w) (mux_load N b es) (u, l, io', fr) (advance_mux ?lib ?h (P ?h) (u, l, io', fr))" by (simp add: s)
    then have "mux_moves os N {} es cs (P, w) (mux_load N b es) s (advance_mux ?lib ?h (P ?h) (u, l, io', fr))"
      by (rule mux_moves_before [OF rtranclp.rtrancl_refl]) (simp_all add: s)
    ultimately show ?thesis by (intro exI [of _ "advance_mux ?lib ?h (P ?h) (u, l, io', fr)"]) (simp add: process_cqe_def s)
  qed
qed

section \<open>A round of the loop\<close>

definition mux_ok :: "'w net_os \<Rightarrow> nat \<Rightarrow> (nat \<Rightarrow> ('a, 'w) co) \<times> 'w \<Rightarrow> nat \<Rightarrow> ('a, 'w, 'c) mux_state \<Rightarrow> bool" where
  "mux_ok os N cfg load s \<longleftrightarrow> mux_quiet s \<and>
     (\<exists>P w b j. co_steps os cfg (P, w) \<and> mux_sim N {} (mr_inflight (iu_ring (ls_ring s))) (mr_cq (iu_ring (ls_ring s))) P w b j s \<and>
       mux_load N b (mr_inflight (iu_ring (ls_ring s))) = load)"

lemma mux_sim_frame:
  assumes "mr_world (f (iu_ring u)) = mr_world (iu_ring u)" "mr_mem (f (iu_ring u)) = mr_mem (iu_ring u)"
  shows "mux_sim N D es cs P w b j (on_mux f u, x) = mux_sim N D es cs P w b j (u, x)"
  using assms by (simp add: mux_sim_def Let_def)

lemma mux_quiet_frame:
  assumes "mr_capacity (f (iu_ring u)) = mr_capacity (iu_ring u)" "mr_sq (f (iu_ring u)) = mr_sq (iu_ring u)"
  shows "mux_quiet (on_mux f u, x) = mux_quiet (u, x)"
  using assms by (simp add: mux_quiet_def)

lemma ring_seen_mux: "ring_seen (mux_lib os pick w0) s = (on_mux (\<lambda>r. r\<lparr>mr_cq := tl (mr_cq r)\<rparr>) (fst s), snd s)"
  by (simp add: ring_seen_def mux_lib_def on_mux_def)

lemma dispatch_ok:
  assumes "mux_ok os N cfg load s" "mr_cq (iu_ring (ls_ring s)) = c # cs"
  shows "\<exists>s'. process_cqe (mux_lib os pick w0) (mux_run (mux_lib os pick w0)) c s = Inr s' \<and> mux_ok os N cfg load s' \<and>
    mr_cq (iu_ring (ls_ring s')) = cs \<and> mr_turn (iu_ring (ls_ring s')) = mr_turn (iu_ring (ls_ring s))"
proof -
  from assms obtain P w b j where 1: "co_steps os cfg (P, w)" "mux_sim N {} (mr_inflight (iu_ring (ls_ring s))) (c # cs) P w b j s"
      "mux_load N b (mr_inflight (iu_ring (ls_ring s))) = load" "mux_quiet s" by (auto simp: mux_ok_def)
  from dispatch_sim [OF 1(2,4), of os pick w0] obtain s1 where
      p: "process_cqe (mux_lib os pick w0) (mux_run (mux_lib os pick w0)) c s = Inr (ring_seen (mux_lib os pick w0) s1)"
      and m: "mux_moves os N {} (mr_inflight (iu_ring (ls_ring s))) cs (P, w) load s s1" using 1(3) by auto
  from m obtain P' w' b' j' where 2: "co_steps os (P, w) (P', w')" "mux_sim N {} (mr_inflight (iu_ring (ls_ring s1))) cs P' w' b' j' s1"
      "mux_load N b' (mr_inflight (iu_ring (ls_ring s1))) = load" "mux_quiet s1" "mr_cq (iu_ring (ls_ring s1)) = c # cs"
      "mr_turn (iu_ring (ls_ring s1)) = mr_turn (iu_ring (ls_ring s))"
    unfolding mux_moves_def using assms(2) by (metis (no_types, lifting))
  obtain u x where s1: "s1 = (u, x)" by (rule prod.exhaust)
  let ?u = "on_mux (\<lambda>r. r\<lparr>mr_cq := tl (mr_cq r)\<rparr>) u"
  have "mux_sim N {} (mr_inflight (iu_ring ?u)) cs P' w' b' j' (?u, x)" "mux_quiet (?u, x)" "mr_cq (iu_ring ?u) = cs"
    using 2(2,4,5) by (simp_all add: s1 mux_sim_frame mux_quiet_frame)
  then have "mux_ok os N cfg load (?u, x)" unfolding mux_ok_def
    using rtranclp_trans [OF 1(1) 2(1)] 2(3) by (auto simp: s1)
  then show ?thesis using p 2(6) \<open>mr_cq (iu_ring ?u) = cs\<close> by (simp add: ring_seen_mux s1)
qed

lemma drain_ok:
  assumes "mux_ok os N cfg load s"
  shows "\<exists>n s'. process_all_cqe (mux_lib os pick w0) (mux_run (mux_lib os pick w0)) s = Some (Inr (n, s')) \<and> mux_ok os N cfg load s' \<and>
    mr_cq (iu_ring (ls_ring s')) = [] \<and> mr_turn (iu_ring (ls_ring s')) = mr_turn (iu_ring (ls_ring s))"
  using assms
proof (induction "mr_cq (iu_ring (ls_ring s))" arbitrary: s)
  case Nil
  then have "peek_cqe (mux_lib os pick w0) (fst s) = None" by (simp add: peek_cqe_def mux_lib_def)
  with Nil show ?case by (subst process_all_cqe.simps) auto
next
  case (Cons c cs)
  then have "peek_cqe (mux_lib os pick w0) (fst s) = Some c" by (simp add: peek_cqe_def mux_cq.peek_head flip: Cons.hyps(2))
  moreover obtain s1 where "process_cqe (mux_lib os pick w0) (mux_run (mux_lib os pick w0)) c s = Inr s1" "mux_ok os N cfg load s1"
      "mr_cq (iu_ring (ls_ring s1)) = cs" "mr_turn (iu_ring (ls_ring s1)) = mr_turn (iu_ring (ls_ring s))" using dispatch_ok [OF Cons.prems Cons.hyps(2) [symmetric]] by blast
  moreover from Cons.hyps(1) [of s1] this obtain n s' where
      "process_all_cqe (mux_lib os pick w0) (mux_run (mux_lib os pick w0)) s1 = Some (Inr (n, s'))" "mux_ok os N cfg load s'"
      "mr_cq (iu_ring (ls_ring s')) = []" "mr_turn (iu_ring (ls_ring s')) = mr_turn (iu_ring (ls_ring s1))" by auto
  ultimately show ?case by (subst process_all_cqe.simps) auto
qed

text \<open>A turn of the kernel.\<close>

definition operations :: "sqe list \<Rightarrow> nat" where
  "operations es = length (filter (\<lambda>e. sqe_user_data e \<noteq> 0) es)"

lemma completes_sim:
  assumes "mux_sim N D (now @ later) cs P w b j (u, x)" "recv_counts os"
  shows "\<exists>P' w' cs'. co_steps os (P, w) (P', w') \<and> mr_cq (fold (mux_complete os) now (iu_ring u)) = mr_cq (iu_ring u) @ cs' \<and>
    mux_sim N D later (cs @ cs') P' w' b j (on_mux (fold (mux_complete os) now) u, x)"
  using assms(1)
proof (induction now arbitrary: u cs P w)
  case Nil
  have "on_mux (\<lambda>r. r) u = u" by (simp add: on_mux_def)
  with Nil show ?case by (intro exI [of _ P] exI [of _ w] exI [of _ "[]"]) (simp add: id_def)
next
  case (Cons e now)
  from complete_sim [OF Cons.prems [simplified] assms(2)] obtain P1 w1 c where
      1: "co_steps os (P, w) (P1, w1)" "mr_cq (mux_complete os e (iu_ring u)) = mr_cq (iu_ring u) @ [c]"
      "mux_sim N D (now @ later) (cs @ [c]) P1 w1 b j (on_mux (mux_complete os e) u, x)" by blast
  from Cons.IH [OF 1(3)] obtain P' w' cs' where
      2: "co_steps os (P1, w1) (P', w')" "mr_cq (fold (mux_complete os) now (mux_complete os e (iu_ring u))) = mr_cq (iu_ring u) @ [c] @ cs'"
      "mux_sim N D later (cs @ [c] @ cs') P' w' b j (on_mux (fold (mux_complete os) now) (on_mux (mux_complete os e) u), x)"
    using 1(2) by auto
  moreover have "on_mux (fold (mux_complete os) now) (on_mux (mux_complete os e) u) = on_mux (fold (mux_complete os) (e # now)) u"
    by (simp add: on_mux_def)
  ultimately show ?case using rtranclp_trans [OF 1(1) 2(1)]
    by (intro exI [of _ P'] exI [of _ w'] exI [of _ "[c] @ cs'"]) (simp add: comp_def)
qed

lemma completes_keep:
  "mr_inflight (fold (mux_complete os) now r) = mr_inflight r" "mr_capacity (fold (mux_complete os) now r) = mr_capacity r"
  "mr_sq (fold (mux_complete os) now r) = mr_sq r"
  by (induction now arbitrary: r) (simp_all add: mux_complete_def split: prod.split)

lemma turn_ok:
  assumes "mux_ok os N cfg load (u, x)" "mr_cq (iu_ring u) = []" "picks_all pick" "recv_counts os"
  shows "\<exists>load'. mux_ok os N cfg load' (on_mux (mux_turn os pick) u, x) \<and>
    load' + operations (fst (pick (mr_turn (iu_ring u)) (mr_inflight (iu_ring u)))) = load"
proof -
  let ?r = "iu_ring u"
  obtain now later where pk: "pick (mr_turn ?r) (mr_inflight ?r) = (now, later)" by fastforce
  have ms: "mset (now @ later) = mset (mr_inflight ?r)"
    using assms(3) pk unfolding picks_all_def by (metis fst_conv snd_conv mset_append)
  from assms(1,2) obtain P w b j where 1: "co_steps os cfg (P, w)" "mux_sim N {} (mr_inflight ?r) [] P w b j (u, x)"
      "mux_load N b (mr_inflight ?r) = load" "mux_quiet (u, x)" by (auto simp: mux_ok_def)
  let ?f = "\<lambda>r. r\<lparr>mr_inflight := later, mr_turn := Suc (mr_turn r)\<rparr>"
  have "mux_sim N {} (now @ later) [] P w b j (u, x)" by (rule iffD2 [OF mux_sim_perm [OF ms] 1(2)])
  then have "mux_sim N {} (now @ later) [] P w b j (on_mux ?f u, x)" by (simp add: mux_sim_frame)
  from completes_sim [OF this assms(4)] obtain P' w' cs' where 2: "co_steps os (P, w) (P', w')"
      "mr_cq (fold (mux_complete os) now (?f ?r)) = cs'" "mux_sim N {} later cs' P' w' b j (on_mux (fold (mux_complete os) now) (on_mux ?f u), x)"
    using assms(2) by auto
  have u': "on_mux (mux_turn os pick) u = on_mux (fold (mux_complete os) now) (on_mux ?f u)"
    using pk by (simp add: on_mux_def mux_turn_def)
  have q: "mux_quiet (on_mux (mux_turn os pick) u, x)" using 1(4) by (simp add: u' mux_quiet_def completes_keep)
  have "mux_ok os N cfg (mux_load N b later) (on_mux (mux_turn os pick) u, x)"
    unfolding mux_ok_def using q rtranclp_trans [OF 1(1) 2(1)] 2(2,3) by (auto simp: u' completes_keep)
  moreover have "length (filter (\<lambda>e. sqe_user_data e \<noteq> 0) (now @ later)) = length (filter (\<lambda>e. sqe_user_data e \<noteq> 0) (mr_inflight ?r))"
    using arg_cong [OF ms, of "\<lambda>m. size (filter_mset (\<lambda>e. sqe_user_data e \<noteq> 0) m)"] by (simp flip: mset_filter)
  then have "mux_load N b later + operations now = load" using 1(3) by (simp add: mux_load_def operations_def)
  ultimately show ?thesis using pk by auto
qed

lemma tick_added:
  assumes "mux_ok os N cfg load (u, x)"
  shows "mux_ok os N cfg load (on_mux (\<lambda>r. r\<lparr>mr_inflight := mr_inflight r @ [tick_entry]\<rparr>) u, x)"
proof -
  let ?f = "\<lambda>r. r\<lparr>mr_inflight := mr_inflight r @ [tick_entry]\<rparr>"
  from assms obtain P w b j where 1: "co_steps os cfg (P, w)" "mux_sim N {} (mr_inflight (iu_ring u)) (mr_cq (iu_ring u)) P w b j (u, x)"
      "mux_load N b (mr_inflight (iu_ring u)) = load" "mux_quiet (u, x)" by (auto simp: mux_ok_def)
  have ud: "sqe_user_data tick_entry = 0" by (simp add: tick_entry_def)
  have "mux_sim N {} (mr_inflight (iu_ring u) @ [tick_entry]) (mr_cq (iu_ring u)) P w b j (u, x)"
    using 1(2) ud by (simp add: mux_sim_def Let_def owners_snoc_e)
  then show ?thesis using 1 ud unfolding mux_ok_def
    by (auto simp: mux_sim_frame mux_quiet_frame mux_load_def)
qed

lemma completes_turn: "mr_turn (fold (mux_complete os) now r) = mr_turn r"
  by (induction now arbitrary: r) (simp_all add: mux_complete_def split: prod.split)

lemma operations_tick: "operations (es @ [tick_entry]) = operations es"
  by (simp add: operations_def tick_entry_def)

text \<open>What a round does before the queue is drained: the tick is submitted, the kernel takes a turn, the first completion is dispatched.\<close>

lemma mux_once_quiet:
  assumes "mux_quiet s"
  shows "EventLoop_run_once env run t s =
    Option.bind (run_once (le_lib env) run t s) (\<lambda>res. Some (case res of Inl e \<Rightarrow> Inl (RingFault e) | Inr (_, s') \<Rightarrow> Inr s'))"
proof -
  have "(ls_ring s, ls_loop s\<lparr>el_pending_tasks := []\<rparr>, ls_world s) = s" using assms by (simp add: mux_quiet_def prod_eq_iff)
  with assms show ?thesis
    by (simp add: EventLoop_run_once_def process_timers_def process_timers_loop.simps process_tasks_def with_loop_def mux_quiet_def Let_def)
qed

lemma arm_mux:
  assumes "mux_quiet s"
  shows "run_once_arm (mux_lib os pick w0) 10 (ls_ring s) = Inr (on_mux (\<lambda>r. r\<lparr>mr_inflight := mr_inflight r @ [tick_entry]\<rparr>) (ls_ring s))"
  using assms by (simp add: run_once_arm_def mux_quiet_def mux_lib_def submit_def tick_entry_def on_mux_def)

lemma wait_ok:
  assumes ok: "mux_ok os N cfg load (on_mux (mux_turn os pick) u, x)" and cq: "mr_cq (iu_ring u) = []"
  shows "\<exists>s'. run_once_wait (mux_lib os pick w0) (mux_run (mux_lib os pick w0)) (u, x) = Inr s' \<and> mux_ok os N cfg load s' \<and>
    mr_turn (iu_ring (ls_ring s')) = mr_turn (mux_turn os pick (iu_ring u))"
proof (cases "mr_cq (mux_turn os pick (iu_ring u))")
  case Nil
  then have "wait_cqe (mux_lib os pick w0) u = (None, on_mux (mux_turn os pick) u)" using cq by (simp add: wait_cqe_def mux_lib_def on_mux_def)
  with ok show ?thesis by (simp add: run_once_wait_def)
next
  case (Cons c cs)
  then have w: "wait_cqe (mux_lib os pick w0) u = (Some c, on_mux (mux_turn os pick) u)" using cq by (simp add: wait_cqe_def mux_lib_def on_mux_def)
  have "run_once_wait (mux_lib os pick w0) (mux_run (mux_lib os pick w0)) (u, x) =
      process_cqe (mux_lib os pick w0) (mux_run (mux_lib os pick w0)) c (on_mux (mux_turn os pick) u, x)"
    using w by (simp add: run_once_wait_def process_cqe_def get_callback_def)
  with dispatch_ok [OF ok, of c cs pick w0] Cons show ?thesis by auto
qed

lemma round_ok:
  assumes ok: "mux_ok os N cfg load s" and cq: "mr_cq (iu_ring (ls_ring s)) = []" and env: "le_lib env = mux_lib os pick w0"
    and pick: "picks_all pick" "recv_counts os"
  shows "\<exists>s' load'. EventLoop_run_once env (mux_run (mux_lib os pick w0)) 10 s = Some (Inr s') \<and> mux_ok os N cfg load' s' \<and>
    mr_cq (iu_ring (ls_ring s')) = [] \<and> mr_turn (iu_ring (ls_ring s')) = Suc (mr_turn (iu_ring (ls_ring s))) \<and> load' \<le> load \<and>
    (good_turn pick (mr_turn (iu_ring (ls_ring s))) \<longrightarrow> 0 < operations (mr_inflight (iu_ring (ls_ring s))) \<longrightarrow> load' < load)"
proof -
  obtain u x where s: "s = (u, x)" by (rule prod.exhaust)
  let ?u = "on_mux (\<lambda>r. r\<lparr>mr_inflight := mr_inflight r @ [tick_entry]\<rparr>) u" and ?lib = "mux_lib os pick w0"
  have tick: "mux_ok os N cfg load (?u, x)" using ok unfolding s by (rule tick_added)
  from turn_ok [OF tick _ pick] cq obtain load' where
      t: "mux_ok os N cfg load' (on_mux (mux_turn os pick) ?u, x)"
      "load' + operations (fst (pick (mr_turn (iu_ring u)) (mr_inflight (iu_ring u) @ [tick_entry]))) = load" by (auto simp: s)
  from wait_ok [OF t(1), of w0] cq obtain s1 where
      1: "run_once_wait ?lib (mux_run ?lib) (?u, x) = Inr s1" "mux_ok os N cfg load' s1"
      "mr_turn (iu_ring (ls_ring s1)) = mr_turn (mux_turn os pick (iu_ring ?u))" by (auto simp: s)
  from drain_ok [OF 1(2), of pick w0] obtain n s' where
      2: "process_all_cqe ?lib (mux_run ?lib) s1 = Some (Inr (n, s'))" "mux_ok os N cfg load' s'" "mr_cq (iu_ring (ls_ring s')) = []"
      "mr_turn (iu_ring (ls_ring s')) = mr_turn (iu_ring (ls_ring s1))" by blast
  have q: "mux_quiet (u, x)" using ok by (simp add: mux_ok_def s)
  have "EventLoop_run_once env (mux_run ?lib) 10 s = Some (Inr s')"
    using 1(1) 2(1) arm_mux [OF q, of os pick w0] by (simp add: s mux_once_quiet [OF q] env run_once_def)
  moreover have "mr_turn (iu_ring (ls_ring s')) = Suc (mr_turn (iu_ring u))"
    using 1(3) 2(4) by (simp add: mux_turn_def completes_turn split: prod.split)
  moreover have "load' < load" if good: "good_turn pick (mr_turn (iu_ring u))" and some: "0 < operations (mr_inflight (iu_ring u))"
  proof -
    let ?now = "fst (pick (mr_turn (iu_ring u)) (mr_inflight (iu_ring u) @ [tick_entry]))"
    have ud: "sqe_user_data e = 0 \<longleftrightarrow> is_timeout e" if "e \<in> set (mr_inflight (iu_ring u) @ [tick_entry])" for e
      using tick that by (auto simp: mux_ok_def mux_sim_def Let_def)
    have sub: "set ?now \<subseteq> set (mr_inflight (iu_ring u) @ [tick_entry])"
      using pick(1) unfolding picks_all_def by (metis set_mset_mset set_mset_union Un_upper1)
    from some obtain e where "e \<in> set (mr_inflight (iu_ring u) @ [tick_entry])" "\<not> is_timeout e"
      using ud by (auto simp: operations_def filter_empty_conv)
    then obtain e where e: "e \<in> set ?now" "\<not> is_timeout e" using good unfolding good_turn_def by blast
    with ud [of e] sub have "sqe_user_data e \<noteq> 0" by blast
    with e(1) have "0 < operations ?now" by (auto simp: operations_def filter_empty_conv)
    then show ?thesis using t(2) by simp
  qed
  ultimately show ?thesis using 2 t(2) by (intro exI [of _ s'] exI [of _ load']) (simp add: s)
qed

section \<open>From the start to the end\<close>

lemma starts_ok:
  assumes "distinct hs" "mux_sim N (set hs) (mr_inflight (iu_ring (ls_ring s))) [] P w b j s" "mux_quiet s" "mr_cq (iu_ring (ls_ring s)) = []"
    and "co_steps os cfg (P, w)" "\<And>h. h \<in> set hs \<Longrightarrow> Q h = P h" "mux_load N b (mr_inflight (iu_ring (ls_ring s))) = load"
  shows "mux_ok os N cfg load (fold (\<lambda>h. advance_mux (mux_lib os pick w0) h (Q h)) hs s) \<and>
    mr_cq (iu_ring (ls_ring (fold (\<lambda>h. advance_mux (mux_lib os pick w0) h (Q h)) hs s))) = []"
  using assms
proof (induction hs arbitrary: s P w b j)
  case Nil
  then show ?case by (auto simp: mux_ok_def)
next
  case (Cons h hs)
  let ?s = "advance_mux (mux_lib os pick w0) h (Q h) s"
  have "mux_moves os N (set hs) (mr_inflight (iu_ring (ls_ring s))) [] (P, w) (mux_load N b (mr_inflight (iu_ring (ls_ring s)))) s ?s"
    by (rule advance_sim) (use Cons.prems in auto)
  then obtain P' w' b' j' where 1: "co_steps os (P, w) (P', w')" "mux_sim N (set hs) (mr_inflight (iu_ring (ls_ring ?s))) [] P' w' b' j' ?s"
      "mux_load N b' (mr_inflight (iu_ring (ls_ring ?s))) = load" "mux_quiet ?s" "mr_cq (iu_ring (ls_ring ?s)) = []" "\<forall>h \<in> set hs. P' h = P h"
    unfolding mux_moves_def using Cons.prems(4,7) by (metis (no_types, lifting) fst_conv)
  have "mux_ok os N cfg load (fold (\<lambda>h. advance_mux (mux_lib os pick w0) h (Q h)) hs ?s) \<and>
      mr_cq (iu_ring (ls_ring (fold (\<lambda>h. advance_mux (mux_lib os pick w0) h (Q h)) hs ?s))) = []"
    by (rule Cons.IH [OF _ 1(2,4,5) rtranclp_trans [OF Cons.prems(5) 1(1)]]) (use Cons.prems 1 in auto)
  then show ?case by simp
qed

lemma start_all_ok:
  assumes "0 < queue_depth config" "\<And>h. h < N \<Longrightarrow> at_most (P h) (m h)" "(\<Sum>h<N. m h) < kMaxCallbacks"
  obtains s :: "('a, 'w, 'c) mux_state" where "start_all os pick config N P w = Inr s" "mux_ok os N (P, w) (\<Sum>h<N. m h) s"
    "mr_cq (iu_ring (ls_ring s)) = []"
proof -
  let ?u = "\<lparr>iu_config = config, iu_ring = \<lparr>mr_capacity = unat (queue_depth config), mr_sq = [], mr_inflight = [], mr_cq = [],
      mr_mem = (\<lambda>_. []), mr_world = w, mr_turn = 0\<rparr>, iu_running = True, iu_callbacks = (\<lambda>_. None), iu_next_callback_id = 1\<rparr>"
  let ?s = "(?u, EventLoop_ctor, \<lparr>iw_result = (\<lambda>_. 0), iw_resumed = []\<rparr>, (\<lambda>_. Created)) :: ('a, 'w, 'c) mux_state"
  have ctor: "IoUring_ctor (mux_lib os pick w) config = Inr ?u" by (simp add: IoUring_ctor_def IoUring_setup_def mux_lib_def)
  have "mux_sim N (set [0..<N]) [] [] P w m 1 ?s"
    by (rule mux_simI) (use assms in \<open>auto simp: owners_def atLeast0LessThan\<close>)
  moreover have "mux_quiet ?s" using assms(1) by (simp add: EventLoop_ctor_def unat_gt_0 word_gt_0)
  ultimately have ok: "mux_ok os N (P, w) (\<Sum>h<N. m h) (fold (\<lambda>h. advance_mux (mux_lib os pick w) h (P h)) [0..<N] ?s) \<and>
      mr_cq (iu_ring (ls_ring (fold (\<lambda>h. advance_mux (mux_lib os pick w) h (P h)) [0..<N] ?s))) = []"
    by (intro starts_ok [where P = P and w = w and b = m and j = 1]) (simp_all add: mux_load_def)
  show ?thesis
  proof (rule that)
    show "start_all os pick config N P w = Inr (fold (\<lambda>h. advance_mux (mux_lib os pick w) h (P h)) [0..<N] ?s)" by (simp add: start_all_def ctor)
  qed (rule ok [THEN conjunct1], rule ok [THEN conjunct2])
qed

lemma mux_ok_view:
  assumes "mux_ok os N cfg load s" "mr_cq (iu_ring (ls_ring s)) = []"
  shows "\<exists>P' w'. co_steps os cfg (P', w') \<and> mr_world (iu_ring (ls_ring s)) = w' \<and>
      (\<forall>h < N. \<forall>x. snd (ls_world s) h = Finished x \<longleftrightarrow> P' h = Return x)"
    and "operations (mr_inflight (iu_ring (ls_ring s))) = 0 \<Longrightarrow> \<forall>h < N. \<exists>x. snd (ls_world s) h = Finished x"
proof -
  obtain u l io fr where s: "s = (u, l, io, fr)" by (metis surj_pair)
  from assms obtain P w b j where 1: "co_steps os cfg (P, w)" "mux_sim N {} (mr_inflight (iu_ring u)) [] P w b j (u, l, io, fr)"
    by (auto simp: mux_ok_def s)
  note S = mux_simD [OF 1(2)]
  have "fr h = Finished x \<longleftrightarrow> P h = Return x" if h: "h < N" for h x
  proof (cases "h \<in> set (owners u (mr_inflight (iu_ring u)) [])")
    case True
    then obtain e where "e \<in> set (mr_inflight (iu_ring u))" "sqe_user_data e \<noteq> 0" "h = own u (sqe_user_data e)" by (auto simp: set_owners)
    from S(8) [OF this] show ?thesis by (auto simp: waits_def split: co.splits)
  qed (use S(14) [OF h] in auto)
  with 1(1) S(1) show "\<exists>P' w'. co_steps os cfg (P', w') \<and> mr_world (iu_ring (ls_ring s)) = w' \<and>
      (\<forall>h < N. \<forall>x. snd (ls_world s) h = Finished x \<longleftrightarrow> P' h = Return x)" by (auto simp: s)
  show "\<forall>h < N. \<exists>x. snd (ls_world s) h = Finished x" if "operations (mr_inflight (iu_ring (ls_ring s))) = 0"
    using S(14) that by (auto simp: s operations_def set_owners filter_empty_conv)
qed

lemma rounds_ok:
  assumes "mux_ok os N cfg load s" "mr_cq (iu_ring (ls_ring s)) = []" "le_lib env = mux_lib os pick w0" "picks_all pick" "recv_counts os"
  shows "\<exists>s' load'. rounds env (mux_run (mux_lib os pick w0)) n s = Some (Inr s') \<and> mux_ok os N cfg load' s' \<and> mr_cq (iu_ring (ls_ring s')) = []"
  using assms(1,2)
proof (induction n arbitrary: s load)
  case (Suc n)
  from round_ok [OF Suc.prems assms(3-5)] obtain s1 load1 where
      "EventLoop_run_once env (mux_run (mux_lib os pick w0)) 10 s = Some (Inr s1)" "mux_ok os N cfg load1 s1" "mr_cq (iu_ring (ls_ring s1)) = []" by blast
  with Suc.IH [of load1 s1] show ?case by simp
qed auto

lemma rounds_finish:
  assumes "mux_ok os N cfg load s" "mr_cq (iu_ring (ls_ring s)) = []" "mr_turn (iu_ring (ls_ring s)) \<le> t" "good_turn pick t"
    and env: "le_lib env = mux_lib os pick w0" "picks_all pick" "recv_counts os" "picks_fair pick"
  shows "\<exists>n s' load'. rounds env (mux_run (mux_lib os pick w0)) n s = Some (Inr s') \<and> mux_ok os N cfg load' s' \<and>
    mr_cq (iu_ring (ls_ring s')) = [] \<and> operations (mr_inflight (iu_ring (ls_ring s'))) = 0"
  using assms(1-4)
proof (induction "(load, t - mr_turn (iu_ring (ls_ring s)))" arbitrary: load t s rule: wf_induct_rule [OF wf_lex_prod [OF wf_less wf_less]])
  case (1 load t s)
  show ?case
  proof (cases "operations (mr_inflight (iu_ring (ls_ring s))) = 0")
    case True
    with 1 show ?thesis by (intro exI [of _ 0] exI [of _ s] exI [of _ load]) simp
  next
    case False
    from round_ok [OF "1.prems"(1,2) env(1-3)] obtain s1 load1 where
        s1: "EventLoop_run_once env (mux_run (mux_lib os pick w0)) 10 s = Some (Inr s1)" "mux_ok os N cfg load1 s1" "mr_cq (iu_ring (ls_ring s1)) = []"
        "mr_turn (iu_ring (ls_ring s1)) = Suc (mr_turn (iu_ring (ls_ring s)))" "load1 \<le> load"
        "good_turn pick (mr_turn (iu_ring (ls_ring s))) \<Longrightarrow> load1 < load" using False by blast
    obtain t1 where t1: "mr_turn (iu_ring (ls_ring s1)) \<le> t1" "good_turn pick t1" "load1 < load \<or> t1 = t \<and> mr_turn (iu_ring (ls_ring s)) < t"
    proof (cases "mr_turn (iu_ring (ls_ring s)) = t")
      case True
      with s1(6) "1.prems"(4) env(4) that show ?thesis unfolding picks_fair_def by metis
    next
      case ne: False
      with "1.prems"(3,4) s1(4) show ?thesis by (intro that [of t]) auto
    qed
    have "((load1, t1 - mr_turn (iu_ring (ls_ring s1))), (load, t - mr_turn (iu_ring (ls_ring s)))) \<in> {(x, y). x < y} <*lex*> {(x, y). x < y}"
      using t1(3) s1(4,5) by auto
    from "1.hyps" [OF this s1(2,3) t1(1,2)] obtain n s' load' where
        "rounds env (mux_run (mux_lib os pick w0)) n s1 = Some (Inr s')" "mux_ok os N cfg load' s'" "mr_cq (iu_ring (ls_ring s')) = []"
        "operations (mr_inflight (iu_ring (ls_ring s'))) = 0" by blast
    with s1(1) show ?thesis by (intro exI [of _ "Suc n"] exI [of _ s'] exI [of _ load']) simp
  qed
qed

lemma write_all_at_most: "length data - written \<le> m \<Longrightarrow> at_most (write_all_co os data written c) m"
proof (induction os data written c arbitrary: m rule: write_all_co.induct)
  case (1 os data written c)
  have "at_most (write_all_co os data (written + nat n) c) (m - 1)" if "written < length data \<and> Connection_connected c" "\<not> n \<le> 0" for n
    by (rule "1.IH" [OF that]) (use that "1.prems" in linarith)
  with "1.prems" show ?case by (subst write_all_co.simps) auto
qed

section \<open>Properties\<close>

text \<open>
  C7. Many coroutines on one ring: whatever number of coroutines are started on a new ring, and in whatever order the kernel completes what is in
  flight, after any number of rounds of the event loop no exception has ended it, and the kernel's world and the results of the finished coroutines are those of an
  interleaving in which every receive and send is one atomic step of the coroutine that awaits it: no completion is
  lost, doubled or given to another coroutine. If the kernel keeps completing operations, all coroutines are finished after some round. Together the
  coroutines await at most 65535 operations.
\<close>

theorem ring_multiplexes:
  fixes env :: "('w mux_ring, io_cb, 'c, io_world \<times> (nat \<Rightarrow> ('a, 'w) co_frame)) loop_env"
  assumes "recv_counts os" "picks_all pick" "0 < queue_depth config" "le_lib env = mux_lib os pick w"
    and "\<And>h. h < N \<Longrightarrow> at_most (P h) (m h)" "(\<Sum>h<N. m h) < kMaxCallbacks"
  shows "\<exists>s. start_all os pick config N P w = Inr s \<and>
    (\<forall>n. \<exists>s' P' w'. rounds env (mux_run (mux_lib os pick w)) n s = Some (Inr s') \<and> co_steps os (P, w) (P', w') \<and>
       mr_world (iu_ring (ls_ring s')) = w' \<and> (\<forall>h < N. \<forall>x. snd (ls_world s') h = Finished x \<longleftrightarrow> P' h = Return x)) \<and>
    (picks_fair pick \<longrightarrow>
       (\<exists>n s'. rounds env (mux_run (mux_lib os pick w)) n s = Some (Inr s') \<and> (\<forall>h < N. \<exists>x. snd (ls_world s') h = Finished x)))"
proof -
  obtain s :: "('a, 'w, 'c) mux_state" where s: "start_all os pick config N P w = Inr s" "mux_ok os N (P, w) (\<Sum>h<N. m h) s"
      "mr_cq (iu_ring (ls_ring s)) = []"
    using start_all_ok [OF assms(3,5,6)] by blast
  have "\<exists>s' P' w'. rounds env (mux_run (mux_lib os pick w)) n s = Some (Inr s') \<and> co_steps os (P, w) (P', w') \<and>
       mr_world (iu_ring (ls_ring s')) = w' \<and> (\<forall>h < N. \<forall>x. snd (ls_world s') h = Finished x \<longleftrightarrow> P' h = Return x)" for n
  proof -
    from rounds_ok [OF s(2,3) assms(4,2,1), of n] obtain s' load' where
        s': "rounds env (mux_run (mux_lib os pick w)) n s = Some (Inr s')" "mux_ok os N (P, w) load' s'" "mr_cq (iu_ring (ls_ring s')) = []" by blast
    from mux_ok_view(1) [OF s'(2,3)] s'(1) show ?thesis by blast
  qed
  moreover have "\<exists>n s'. rounds env (mux_run (mux_lib os pick w)) n s = Some (Inr s') \<and> (\<forall>h < N. \<exists>x. snd (ls_world s') h = Finished x)" if "picks_fair pick"
  proof -
    from that obtain t where "mr_turn (iu_ring (ls_ring s)) \<le> t" "good_turn pick t" unfolding picks_fair_def by blast
    from rounds_finish [OF s(2,3) this assms(4,2,1) that] mux_ok_view(2) show ?thesis by metis
  qed
  ultimately show ?thesis using s(1) by blast
qed

text \<open>A kernel that completes everything in flight, the newest entry first, in every second turn.\<close>

definition pick_ex :: picker where
  "pick_ex t es = (if even t then (rev es, []) else ([], es))"

definition mux_env :: "'w net_os \<Rightarrow> picker \<Rightarrow> 'w \<Rightarrow> ('w mux_ring, io_cb, nat, io_world \<times> (nat \<Rightarrow> ('a, 'w) co_frame)) loop_env" where
  "mux_env os pick w = \<lparr>le_call = (\<lambda>_ x. ([], x)), le_clock = (\<lambda>_. 0), le_lib = mux_lib os pick w, le_noop = Resume 0 0, le_pick = (\<lambda>_. 0)\<rparr>"

lemma mux_env_lib [simp]: "le_lib (mux_env os pick w) = mux_lib os pick w"
  by (simp add: mux_env_def)

lemma pick_ex_ok: "picks_all pick_ex" "picks_fair pick_ex"
proof -
  show "picks_all pick_ex" by (simp add: picks_all_def pick_ex_def)
  have "good_turn pick_ex (2 * t)" "t \<le> 2 * t" for t by (auto simp: good_turn_def pick_ex_def)
  then show "picks_fair pick_ex" unfolding picks_fair_def by blast
qed

theorem ring_multiplexes_witness:
  "\<exists>s. start_all (stream_os 1) pick_ex IoUringConfig_default 2 (\<lambda>_. write_all_co (stream_os 1) [1, 2, 3] 0 conn_ex) sw_ex = Inr s \<and>
    (\<exists>n s'. rounds (mux_env (stream_os 1) pick_ex sw_ex) (mux_run (mux_lib (stream_os 1) pick_ex sw_ex)) n s = Some (Inr s') \<and>
      (\<forall>h < 2. \<exists>x. snd (ls_world s') h = Finished x))"
proof -
  have "at_most (write_all_co (stream_os 1) [1, 2, 3] 0 conn_ex) 3" by (rule write_all_at_most) simp
  moreover have "0 < queue_depth IoUringConfig_default" "(\<Sum>h<2 :: nat. 3 :: nat) < kMaxCallbacks"
    by (simp_all add: IoUringConfig_default_def kMaxCallbacks_def)
  ultimately show ?thesis
    using ring_multiplexes [OF recv_counts_stream [of 1] pick_ex_ok(1) _ mux_env_lib [of "stream_os 1" pick_ex sw_ex],
        of IoUringConfig_default 2 "\<lambda>_. write_all_co (stream_os 1) [1, 2, 3] 0 conn_ex" "\<lambda>_. 3"] pick_ex_ok(2)
    by blast
qed

end
