(* ===== verification/Spec2Isabelle.thy ===== *)
theory Spec2Isabelle
  imports Net_Buffer Rpc_Serializer Rpc_Protocol Rpc_Registry Rpc_LoadBalance Io_TimingWheel Io_Uring Io_Async
    Co_Sync Co_Scheduler Co_Task Co_Generator Co_Awaitable Co_Runtime
    Net_Connection Net_ConnectionPool Rpc_Server Rpc_Client Rpc_ClientNet
    Io_EventLoop Io_EventLoopPool Net_TcpClient Net_TcpServer Idl_Parser Idl_Codegen
    Co_TaskVoid Io_Spawn Io_Timed Rpc_FullStack Rpc_Concurrent Framework
    Net_OnRing Rpc_OnRing Net_Multiplex
begin

text \<open>
  A verification development of the C++20 coroutine and io_uring RPC framework.

  \<^bold>\<open>The program.\<close> The framework has five layers, each a directory under \<open>src/\<close>. \<open>coroutine/\<close> has tasks, generators, awaitables,
  synchronisation primitives and a work stealing scheduler. \<open>io/\<close> wraps an io_uring in completion callbacks and puts awaiters,
  timers, an event loop and a pool of event loop threads on top of it. \<open>net/\<close> has byte buffers, connections, connection pools, a
  TCP client and a TCP server. \<open>rpc/\<close> has the serializer, the message format, the service registry, service discovery with
  load balancing, and the RPC client and server. \<open>idl/\<close> parses an interface description and generates C++ from it. A call goes
  from \<open>RpcClient::call\<close> through the serializer and \<open>RpcMessage::serialize\<close> to \<open>TcpClient::send\<close>, a pooled or direct
  \<open>Connection\<close> and the awaiters; the server reads a header and a body from a connection, looks the method up in the registry, and
  sends a response message back.

  \<^bold>\<open>How it is modelled.\<close> Integers are words of the width of the source, byte strings are lists of 8-bit words, text of the IDL tools is a
  list of characters. Objects are records; what is shared through pointers is a store (buffer blocks, connection pools, coroutine
  frames, file contents). An operation returns the new state, and an error of the source or undefined behaviour is a
  value of a sum or option type, so that every early return, exception and null dereference is a branch. Locks make a critical section one
  step; where threads interleave, the operations are steps of an inductive relation and invariants are proved by rule
  induction. System calls and liburing are records of functions that the operations take as an argument; what is assumed of them stands in
  the hypotheses of the theorems or in a locale, and each has a concrete instance. Loops are recursive functions with termination proofs;
  loops that may run for ever (resuming coroutines, waiting for a predicate) are partial functions into option types, and that they return is
  part of the theorems. Time is an argument.

  \<^bold>\<open>The theories.\<close>
  \<^item> \<open>Rpc_Prelude\<close>: little-endian bytes, decimal digits, unordered maps as association lists, error results, the collections of simplification rules.
  \<^item> \<open>Net_Buffer\<close> (\<open>net/buffer.hpp\<close>): blocks with reference counts, \<open>Buffer\<close> and \<open>BufferChain\<close> over a store of blocks. A buffer is a FIFO of bytes (locale
    \<open>byte_fifo\<close>, refined by the copying, compacting and growing code); writes disturb no other block, but compaction changes copies.
  \<^item> \<open>Rpc_Serializer\<close> (\<open>rpc/serializer.hpp\<close>): all overloads. The locale \<open>codec\<close> is the contract of a serializable type: appending, exact reading back,
    refusing truncated input, bounds; every type interprets it, vectors lift it.
  \<^item> \<open>Rpc_Protocol\<close> (\<open>rpc/protocol.hpp\<close>): messages, their bytes, \<open>deserialize\<close> over a bounded region of memory. Requests and responses round-trip; framed
    input is read within bounds; the inputs that make it read beyond are characterised.
  \<^item> \<open>Rpc_Registry\<close> (\<open>rpc/service_registry.hpp\<close>) with the locale \<open>method_table\<close>; \<open>Rpc_LoadBalance\<close> (\<open>rpc/loadbalance/\<close>, \<open>rpc/registry/\<close>) with the locale \<open>load_balancer\<close> for
    the three strategies, cyclic selection by weights, and discovery.
  \<^item> \<open>Rpc_Server\<close> (\<open>rpc/rpc_server.hpp\<close>): dispatch of a message, the connection loop round by round on a byte stream (locale \<open>whole_stream\<close>), start and stop. A
    connection that the TCP server accepts is served to its end, every request answered in order, and counted down when it closes.
  \<^item> \<open>Rpc_Client\<close> and \<open>Rpc_ClientNet\<close> (\<open>rpc/rpc_client.hpp\<close>): calls over an abstract transport, with the contract \<open>answering_transport\<close> of one that ends at a
    server; and the client on the TCP client it creates, whose calls cannot succeed.
  \<^item> \<open>Rpc_FullStack\<close>: the RPC client on a TCP client without a pool, its connection, a socket pair and the server's connection loop at the other end. Series of calls
    refine \<open>remote_call\<close>, which applies the registered handlers directly.
  \<^item> \<open>Rpc_Concurrent\<close>: many connection loops of one server, interleaved where they await. The server behaves as if it handled the requests one after
    the other, in an order that keeps the order of every client; all requests that have arrived get answered.
  \<^item> \<open>Co_Task\<close> (\<open>coroutine/task.hpp\<close>): frames, promises, symmetric transfer. A task that awaits others evaluates to what its body denotes; each frame has one owner; a
    completed promise has an outcome. \<open>Co_TaskVoid\<close>: the second class \<open>Task<void>\<close> of the same file, which agrees with the template.
  \<^item> \<open>Co_Generator\<close> (\<open>coroutine/generator.hpp\<close>): bodies are a codatatype; a loop sees exactly the yielded values, lazily. \<open>Co_Awaitable\<close>
    (\<open>coroutine/awaitable.hpp\<close>): interleavings of an awaiting and a completing thread, polling.
  \<^item> \<open>Co_Sync\<close> (\<open>coroutine/sync.hpp\<close>): mutex, semaphore, condition variable, with the lock under which they resume their waiters (locale \<open>waiters_lock\<close>).
    \<open>Co_Scheduler\<close> (\<open>coroutine/scheduler.hpp\<close>): queues and workers; no task is lost or
    duplicated. \<open>Co_Runtime\<close>: tasks on the scheduler through the locale \<open>ready_queue\<close>; every scheduled coroutine is run to its end.
  \<^item> \<open>Io_Uring\<close> (\<open>io/io_uring.hpp\<close>): submission, completion and the table of callbacks (locale \<open>completion_queue\<close>). \<open>Io_Async\<close> (\<open>io/async_io.hpp\<close>):
    awaiters, complete reads and writes. \<open>Io_Timed\<close> (the awaiters of \<open>io/timer.hpp\<close>): operations with a time limit, as completions of the ring in either
    order. \<open>Io_TimingWheel\<close> (\<open>io/timer.hpp\<close>): the wheel refines a set of
    deadlines, also with callbacks that change it (locale \<open>wheel_callbacks\<close>).
  \<^item> \<open>Io_EventLoop\<close> (\<open>io/event_loop.hpp\<close>, locale \<open>wake_ring\<close>) and \<open>Io_EventLoopPool\<close> (\<open>io/event_loop_pool.hpp\<close>): timers and tasks of a round, threads and the messages
    between them, their starting and stopping, dispatching to workers. \<open>Io_Spawn\<close>: coroutines of \<open>Co_Task\<close> spawned on a loop. \<open>Framework\<close>
    (\<open>framework.hpp\<close>): \<open>init\<close>, \<open>shutdown\<close> and \<open>run\<close>.
  \<^item> \<open>Net_Connection\<close> (\<open>net/connection.hpp\<close>, locale \<open>byte_stream\<close> for the kernel's streams), \<open>Net_ConnectionPool\<close> (\<open>net/connection_pool.hpp\<close>),
    \<open>Net_TcpClient\<close> (\<open>net/tcp_client.hpp\<close>), \<open>Net_TcpServer\<close> (\<open>net/tcp_server.hpp\<close>): states and operations of connections, the counting of
    pooled and accepted connections.
  \<^item> \<open>Net_OnRing\<close> and \<open>Rpc_OnRing\<close>: coroutines that receive and send, on the awaiters, the ring and the event loop, with a kernel that completes operations
    when it likes. The operations of a connection and the server's connection loop, run so, do what they do when the kernel answers at once, for 65535 operations; the
    next one is never resumed.
  \<^item> \<open>Net_Multiplex\<close>: many such coroutines on one ring, with operations of all of them in flight, completed in any order the kernel likes. The event loop runs them as an
    interleaving with one atomic step for each operation, and runs them all to their end when the kernel keeps completing operations; together they await at most 65535.
  \<^item> \<open>Idl_Parser\<close> (\<open>idl/idl_parser.hpp\<close>) and \<open>Idl_Codegen\<close> (\<open>idl/code_generator.hpp\<close>): the parser inverts a printer; the generated serialization functions, run
    from their text on the serializer, round-trip objects. Below, in this theory, an object of a described struct travels through the generated code,
    client, protocol and server and back.

  \<^bold>\<open>What the theorems show.\<close> Each property has a number C\<open>n\<close> in the text before it. The first ones compose components: a series of calls through RPC client, TCP client,
  connection, connection loop, protocol and registry returns what the handlers return or their errors; an accepted connection is served to its end; concurrent clients see a sequential server; the server's loop runs on the ring as on the kernel itself, and any number of coroutines share a ring without mixing up their completions; messages, buffers, timers, streams, tasks, scheduled coroutines, interface
  descriptions and generated code do what they are for. Then come invariants of the shared state under every interleaving, and the laws of single operations.
  The last group are theorems of what the code does wrong where it differs from what it means to do, stated for all inputs of the
  kind they describe.

  \<^bold>\<open>Bounds.\<close> The coroutine of the connection loop in \<open>Rpc_OnRing\<close> has a number of rounds, one more than there are requests, with which it is shown to
  end; there is no other fuel. The number of worker rounds in \<open>Co_Runtime\<close> is the number of resumptions that are left, which is shown to be enough; \<open>range_for\<close> in
  \<open>Co_Generator\<close> takes the number of values after which the loop is left, for every number. Lengths that the code stores in 32 bits are bounded by
  hypotheses (\<open>wire_fits\<close>, \<open>fits\<close> of a codec), lengths of lines of an interface description by the 64-bit position type.

  \<^bold>\<open>Not modelled.\<close> The processors that threads are pinned to (creation and joining of a thread is its joinable flag); memory orders (atomics are sequentially
  consistent); the umbrella headers of the directories, which only include others; the singleton accessors other than that of the ring, which return one object;
  settings that the code stores and never reads; the test, example and benchmark
  programs. The bodies of handlers and coroutines are parameters.
\<close>


section \<open>From an interface description to a call\<close>

text \<open>
  The functions that were generated for a struct as the codec of a call, and a handler over objects on the server: it reads its
  request with the generated function, throws when that fails, and writes its response with the generated function.
\<close>

definition generated_enc :: "string \<Rightarrow> string \<Rightarrow> bytes \<Rightarrow> cpp_object \<Rightarrow> bytes" where
  "generated_enc code name buffer obj = buffer @ (case run_serialize code name obj of None \<Rightarrow> [] | Some bs \<Rightarrow> bs)"

definition generated_dec :: "string \<Rightarrow> string \<Rightarrow> cpp_object decoder" where
  "generated_dec code name data =
     (case run_deserialize code name data Map.empty of
        None \<Rightarrow> (decode_fail, None)
      | Some (ok, obj) \<Rightarrow> (if ok then decode_ok (length data) else decode_fail, Some obj))"

definition object_invoke :: "string \<Rightarrow> string \<Rightarrow> string \<Rightarrow> (cpp_object \<Rightarrow> 'v \<Rightarrow> cpp_object \<times> 'v) \<Rightarrow> (unit, 'v) invoker" where
  "object_invoke code request_name response_name f h data v =
     (case run_deserialize code request_name data Map.empty of
        Some (True, q) \<Rightarrow> (case f q v of (r, v') \<Rightarrow> (run_serialize code response_name r, v'))
      | _ \<Rightarrow> (None, v))"

text \<open>An object of a struct: every field has a value of its declared type, and there is nothing else.\<close>

definition object_of :: "StructDef \<Rightarrow> cpp_object \<Rightarrow> bool" where
  "object_of s obj \<longleftrightarrow> list_all (field_value_ok obj) (sd_fields s) \<and> dom obj \<subseteq> fd_name ` set (sd_fields s)"

lemma generated_object:
  assumes "doc_ok doc" "distinct (map sd_name (idl_structs doc))" "s \<in> set (idl_structs doc)" "CHR 0x0A \<notin> set filename"
    and "generate_serialization config" "distinct (map fd_name (sd_fields s))" "object_of s obj"
  defines "code \<equiv> generate_header config doc filename"
  shows "run_serialize code (sd_name s) obj = Some (object_bytes (sd_fields s) obj)"
    and "run_deserialize code (sd_name s) (object_bytes (sd_fields s) obj) Map.empty = Some (True, obj)"
proof -
  have ok: "list_all (field_value_ok obj) (sd_fields s)" using assms(7) by (simp add: object_of_def)
  note runs = generated_code_runs [OF assms(1-6) ok, folded code_def, of "[]" Map.empty 0]
  have "override_on Map.empty obj (fd_name ` set (sd_fields s)) = obj"
  proof
    fix x
    have "obj x = None" if "x \<notin> fd_name ` set (sd_fields s)"
      using assms(7) that unfolding object_of_def by (meson domIff subsetD)
    then show "override_on Map.empty obj (fd_name ` set (sd_fields s)) x = obj x" by (simp add: override_on_def)
  qed
  with runs show "run_serialize code (sd_name s) obj = Some (object_bytes (sd_fields s) obj)"
    "run_deserialize code (sd_name s) (object_bytes (sd_fields s) obj) Map.empty = Some (True, obj)" by simp_all
qed


text \<open>A client that is connected to the waiting server of \<open>echo_pair\<close>.\<close>

definition connected_ex :: "nat pair_world rpc_state" where
  "connected_ex = ((RpcClient_ctor RpcClientConfig_default)\<lparr>ro_tcp_client := Some ((TcpClient_ctor default_client_config)
     \<lparr>tc_connected := True, tc_connection := Some \<lparr>cn_fd = 3, cn_config = default_connection_config, cn_state = Connected,
        cn_close_callback = None, cn_bytes_read = 0, cn_bytes_written = 0\<rparr>\<rparr>)\<rparr>,
     \<lparr>ns_world = echo_pair, ns_conns = [], ns_manager = \<lparr>pm_store = [], pm_pools = []\<rparr>\<rparr>)"


end
